(* ===== verification/Prelude.thy ===== *)
theory Prelude
  imports Main "HOL-Library.Word" "HOL-Library.AList" "HOL-Library.Multiset"
    "HOL-Library.Sublist" "HOL-Library.Code_Target_Nat"
begin

text \<open>
  The shared base of the development: the machine types the Rust sources use, the parts of Rust's
  standard library they rely on (integer formatting and parsing, UTF-8 validation, line and field
  splitting, little-endian encoding, a directory of files), and the generic lemmas about them.

  Unsigned 64-bit integers and \<open>usize\<close> are \<open>nat\<close>, signed ones \<open>int\<close>;
  where a value can leave its width the wrap-around, the saturation or the failed parse is written
  out. A byte is an \<open>8 word\<close>, a string is its UTF-8 bytes as a \<open>char list\<close>.
\<close>

named_theorems codec \<open>round-trip equations of encoders and decoders\<close>
named_theorems fs_simps \<open>lookups in an updated directory\<close>

type_synonym byte = "8 word"
type_synonym bytes = "byte list"
type_synonym u64 = nat
type_synonym usize = nat
type_synonym i64 = int

definition u64_max :: nat where "u64_max = 2 ^ 64 - 1"
definition u32_max :: nat where "u32_max = 2 ^ 32 - 1"
definition i64_min :: int where "i64_min = - (2 ^ 63)"
definition i64_max :: int where "i64_max = 2 ^ 63 - 1"

definition i64_ok :: "int \<Rightarrow> bool" where
  "i64_ok x \<longleftrightarrow> i64_min \<le> x \<and> x \<le> i64_max"

text \<open>\<open>saturating_add\<close> and \<open>saturating_sub\<close> of the two widths, and the wrapping
  increment of a \<open>u64\<close> counter.\<close>

definition sat_i64 :: "int \<Rightarrow> int" where
  "sat_i64 x = max i64_min (min i64_max x)"

definition sat_add_u64 :: "nat \<Rightarrow> nat \<Rightarrow> nat" where
  "sat_add_u64 a b = min u64_max (a + b)"

definition wadd_u64 :: "nat \<Rightarrow> nat \<Rightarrow> nat" where
  "wadd_u64 a b = (a + b) mod 2 ^ 64"

definition checked_add_usize :: "nat \<Rightarrow> nat \<Rightarrow> nat option" where
  "checked_add_usize a b = (if a + b \<le> u64_max then Some (a + b) else None)"

definition checked_mul_u64 :: "nat \<Rightarrow> nat \<Rightarrow> nat option" where
  "checked_mul_u64 a b = (if a * b \<le> u64_max then Some (a * b) else None)"

lemma i64_ok_sat [simp]: "i64_ok (sat_i64 x)"
  by (auto simp: i64_ok_def sat_i64_def i64_min_def i64_max_def)

lemma sat_i64_id [simp]: "i64_ok x \<Longrightarrow> sat_i64 x = x"
  by (auto simp: i64_ok_def sat_i64_def)

lemma sat_i64_mono: "x \<le> y \<Longrightarrow> sat_i64 x \<le> sat_i64 y"
  by (auto simp: sat_i64_def)

lemma wadd_u64_id [simp]: "a + b \<le> u64_max \<Longrightarrow> wadd_u64 a b = a + b"
  by (simp add: wadd_u64_def u64_max_def)

subsection \<open>Results\<close>

text \<open>Rust's \<open>Result\<close>: \<open>Inl\<close> is the error.\<close>

definition ok_or :: "'e \<Rightarrow> 'a option \<Rightarrow> 'e + 'a" where
  "ok_or e x = (case x of None \<Rightarrow> Inl e | Some a \<Rightarrow> Inr a)"

lemma ok_or_simps [simp]:
  "ok_or e None = Inl e" "ok_or e (Some a) = Inr a"
  by (simp_all add: ok_or_def)

lemma ok_or_Inr [simp]: "ok_or e x = Inr a \<longleftrightarrow> x = Some a"
  by (cases x) auto

subsection \<open>Subsequences\<close>

lemma subseq_set: "subseq xs ys \<Longrightarrow> set xs \<subseteq> set ys"
  by (auto dest: list_emb_set)

lemma sorted_wrt_subseq: "subseq xs ys \<Longrightarrow> sorted_wrt P ys \<Longrightarrow> sorted_wrt P xs"
  by (induction rule: list_emb.induct) (auto dest: subseq_set)

subsection \<open>Little-endian integers\<close>

fun le_bytes :: "nat \<Rightarrow> nat \<Rightarrow> bytes" where
  "le_bytes 0 x = []"
| "le_bytes (Suc n) x = word_of_nat (x mod 256) # le_bytes n (x div 256)"

fun le_val :: "bytes \<Rightarrow> nat" where
  "le_val [] = 0"
| "le_val (b # bs) = unat b + 256 * le_val bs"

definition u32_le :: "nat \<Rightarrow> bytes" where "u32_le x = le_bytes 4 x"
definition u64_le :: "nat \<Rightarrow> bytes" where "u64_le x = le_bytes 8 x"

lemma length_le_bytes [simp]: "length (le_bytes n x) = n"
  by (induction n arbitrary: x) auto

lemma length_u32_le [simp]: "length (u32_le x) = 4"
  by (simp add: u32_le_def)

lemma length_u64_le [simp]: "length (u64_le x) = 8"
  by (simp add: u64_le_def)

lemma unat_byte_of_nat: "unat (word_of_nat x :: byte) = x mod 256"
  by (simp add: unat_of_nat)

lemma le_val_le_bytes: "le_val (le_bytes n x) = x mod 256 ^ n"
proof (induction n arbitrary: x)
  case (Suc n)
  have "x mod (256 * 256 ^ n) = 256 * (x div 256 mod 256 ^ n) + x mod 256"
    by (rule mod_mult2_eq)
  then show ?case by (simp add: Suc.IH unat_byte_of_nat)
qed simp

lemma le_val_u32 [codec]: "x \<le> u32_max \<Longrightarrow> le_val (u32_le x) = x"
  by (simp add: u32_le_def le_val_le_bytes u32_max_def)

lemma le_val_u64 [codec]: "x \<le> u64_max \<Longrightarrow> le_val (u64_le x) = x"
  by (simp add: u64_le_def le_val_le_bytes u64_max_def)

lemma le_val_bound: "le_val bs < 256 ^ length bs"
proof (induction bs)
  case (Cons b bs)
  have b: "unat b < 256" using unsigned_less [of b] by simp
  have "le_val bs + 1 \<le> 256 ^ length bs" using Cons.IH by simp
  then have "256 * (le_val bs + 1) \<le> 256 * 256 ^ length bs" by (rule mult_le_mono2)
  with b show ?case by simp
qed simp

subsection \<open>Strings as bytes\<close>

definition bytes_of_string :: "string \<Rightarrow> bytes" where
  "bytes_of_string s = map of_char s"

definition string_of_bytes :: "bytes \<Rightarrow> string" where
  "string_of_bytes bs = map (\<lambda>b. char_of (unat b)) bs"

lemma unat_of_char: "unat (of_char c :: byte) = of_char c"
proof -
  have "unat (of_char c :: byte) = unat (word_of_nat (of_char c) :: byte)"
    by (simp only: of_nat_of_char)
  also have "\<dots> = of_char c"
    using nat_of_char_less_256 [of c] by (simp only: unat_byte_of_nat) simp
  finally show ?thesis .
qed

lemma string_of_bytes_of_string [codec, simp]:
  "string_of_bytes (bytes_of_string s) = s"
  by (simp add: string_of_bytes_def bytes_of_string_def unat_of_char comp_def)

lemma bytes_of_string_append [simp]:
  "bytes_of_string (s @ t) = bytes_of_string s @ bytes_of_string t"
  by (simp add: bytes_of_string_def)

lemma bytes_of_string_simps [simp]:
  "bytes_of_string [] = []"
  "bytes_of_string (c # s) = of_char c # bytes_of_string s"
  "length (bytes_of_string s) = length s"
  by (simp_all add: bytes_of_string_def)

lemma bytes_of_string_inject [simp]: "bytes_of_string s = bytes_of_string t \<longleftrightarrow> s = t"
  by (metis string_of_bytes_of_string)

text \<open>\<open>std::str::from_utf8\<close>: the well-formed byte sequences of the Unicode standard
  (no overlong forms, no surrogates, nothing above U+10FFFF).\<close>

definition cont_byte :: "byte \<Rightarrow> bool" where
  "cont_byte b \<longleftrightarrow> 128 \<le> b \<and> b \<le> 191"

definition utf8_lead2 :: "byte \<Rightarrow> byte \<Rightarrow> bool" where
  "utf8_lead2 a b \<longleftrightarrow> 194 \<le> a \<and> a \<le> 223 \<and> cont_byte b"

definition utf8_lead3 :: "byte \<Rightarrow> byte \<Rightarrow> bool" where
  "utf8_lead3 a b \<longleftrightarrow>
     a = 224 \<and> 160 \<le> b \<and> b \<le> 191 \<or> 225 \<le> a \<and> a \<le> 236 \<and> cont_byte b \<or>
     a = 237 \<and> 128 \<le> b \<and> b \<le> 159 \<or> 238 \<le> a \<and> a \<le> 239 \<and> cont_byte b"

definition utf8_lead4 :: "byte \<Rightarrow> byte \<Rightarrow> bool" where
  "utf8_lead4 a b \<longleftrightarrow>
     a = 240 \<and> 144 \<le> b \<and> b \<le> 191 \<or> 241 \<le> a \<and> a \<le> 243 \<and> cont_byte b \<or>
     a = 244 \<and> 128 \<le> b \<and> b \<le> 143"

fun utf8_step :: "bytes \<Rightarrow> bytes option" where
  "utf8_step (a # r) =
    (if a \<le> 127 then Some r else case r of
       b # r2 \<Rightarrow> (if utf8_lead2 a b then Some r2 else case r2 of
         c # r3 \<Rightarrow> (if utf8_lead3 a b \<and> cont_byte c then Some r3 else case r3 of
           d # r4 \<Rightarrow> (if utf8_lead4 a b \<and> cont_byte c \<and> cont_byte d then Some r4 else None)
         | [] \<Rightarrow> None)
       | [] \<Rightarrow> None)
     | [] \<Rightarrow> None)"
| "utf8_step [] = None"

lemma utf8_step_shorter: "utf8_step bs = Some r \<Longrightarrow> length r < length bs"
  by (cases bs) (auto split: if_splits list.splits)

lemma utf8_step_append: "utf8_step bs = Some r \<Longrightarrow> utf8_step (bs @ ys) = Some (r @ ys)"
  by (cases bs) (auto split: if_splits list.splits)

function utf8_valid :: "bytes \<Rightarrow> bool" where
  "utf8_valid bs =
     (if bs = [] then True
      else case utf8_step bs of None \<Rightarrow> False | Some r \<Rightarrow> utf8_valid r)"
  by pat_completeness auto
termination
  by (relation "measure length") (auto dest: utf8_step_shorter)

declare utf8_valid.simps [simp del]

lemma utf8_valid_Nil [simp]: "utf8_valid []"
  by (simp add: utf8_valid.simps)

definition utf8_string :: "string \<Rightarrow> bool" where
  "utf8_string s \<longleftrightarrow> utf8_valid (bytes_of_string s)"

text \<open>\<open>from_utf8\<close> on a byte buffer.\<close>

definition str_from_utf8 :: "bytes \<Rightarrow> string option" where
  "str_from_utf8 bs = (if utf8_valid bs then Some (string_of_bytes bs) else None)"

lemma utf8_valid_append: "utf8_valid xs \<Longrightarrow> utf8_valid (xs @ ys) = utf8_valid ys"
proof (induction xs rule: utf8_valid.induct)
  case (1 bs)
  show ?case
  proof (cases "bs = []")
    case False
    with "1.prems" obtain r where r: "utf8_step bs = Some r" "utf8_valid r"
      by (auto simp: utf8_valid.simps [of bs] split: option.splits)
    then have "utf8_valid (bs @ ys) = utf8_valid (r @ ys)"
      using False by (simp add: utf8_valid.simps [of "bs @ ys"] utf8_step_append)
    with "1.IH" False r show ?thesis by simp
  qed simp
qed

lemma utf8_string_append [simp]: "utf8_string s \<Longrightarrow> utf8_string (s @ t) = utf8_string t"
  by (simp add: utf8_string_def utf8_valid_append)

lemma utf8_string_Nil [simp]: "utf8_string []"
  by (simp add: utf8_string_def)

lemma of_char_le_127: "(of_char c :: byte) \<le> 127 \<longleftrightarrow> (of_char c :: nat) \<le> 127"
  by (simp add: word_le_nat_alt unat_of_char)

lemma utf8_string_Cons [simp]:
  "(of_char c :: nat) \<le> 127 \<Longrightarrow> utf8_string (c # s) = utf8_string s"
  by (simp add: utf8_string_def utf8_valid.simps [of "of_char c # _"] of_char_le_127)

lemma utf8_string_ascii: "list_all (\<lambda>c. (of_char c :: nat) \<le> 127) s \<Longrightarrow> utf8_string s"
  by (induction s) auto

lemma str_from_utf8_string [codec]:
  "utf8_string s \<Longrightarrow> str_from_utf8 (bytes_of_string s) = Some s"
  by (simp add: str_from_utf8_def utf8_string_def)

end
