(* ===== verification/Rust_Text.thy ===== *)
theory Rust_Text
  imports Prelude
begin

text \<open>
  The text routines of Rust's standard library that the sources call: integer formatting and
  parsing in a radix, zero padding, \<open>str::lines\<close>, \<open>str::split\<close>, \<open>str::trim\<close>,
  prefix and suffix stripping and ASCII case folding, each with the round-trip laws the codecs of
  the storage engine rest on.
\<close>

subsection \<open>Integers\<close>

definition digit_chars :: string where
  "digit_chars = ''0123456789abcdef''"

definition digit_char :: "nat \<Rightarrow> char" where
  "digit_char d = digit_chars ! (d mod 16)"

text \<open>\<open>char::to_digit\<close>.\<close>

definition to_digit :: "nat \<Rightarrow> char \<Rightarrow> nat option" where
  "to_digit b c =
    (let n = of_char c :: nat;
         d = (if 48 \<le> n \<and> n \<le> 57 then n - 48
              else if 97 \<le> n \<and> n \<le> 122 then n - 87
              else if 65 \<le> n \<and> n \<le> 90 then n - 55 else 255)
     in if d < b then Some d else None)"

function show_radix :: "nat \<Rightarrow> nat \<Rightarrow> string" where
  "show_radix b n =
     (if n < b \<or> b \<le> 1 then [digit_char n] else show_radix b (n div b) @ [digit_char (n mod b)])"
  by pat_completeness auto
termination
  by (relation "measure snd") (auto simp: div_less_dividend)

declare show_radix.simps [simp del]

fun radix_parse :: "nat \<Rightarrow> nat \<Rightarrow> string \<Rightarrow> nat option" where
  "radix_parse b acc [] = Some acc"
| "radix_parse b acc (c # s) =
     (case to_digit b c of None \<Rightarrow> None | Some d \<Rightarrow> radix_parse b (acc * b + d) s)"

text \<open>\<open>Display\<close> of an unsigned integer, of a signed one, and with zero padding
  (\<open>{:08}\<close>, \<open>{:016x}\<close>).\<close>

definition show_nat :: "nat \<Rightarrow> string" where
  "show_nat n = show_radix 10 n"

definition show_int :: "int \<Rightarrow> string" where
  "show_int i = (if i < 0 then CHR ''-'' # show_nat (nat (- i)) else show_nat (nat i))"

definition show_pad :: "nat \<Rightarrow> nat \<Rightarrow> nat \<Rightarrow> string" where
  "show_pad b w n = (let s = show_radix b n in replicate (w - length s) CHR ''0'' @ s)"

text \<open>\<open>u64::from_str_radix\<close> and \<open>str::parse\<close>: one optional sign, at least one
  digit, and an error where the value leaves the width.\<close>

definition strip_plus :: "string \<Rightarrow> string" where
  "strip_plus s = (case s of [] \<Rightarrow> [] | c # r \<Rightarrow> if c = CHR ''+'' then r else s)"

definition parse_uint :: "nat \<Rightarrow> nat \<Rightarrow> string \<Rightarrow> nat option" where
  "parse_uint b mx s =
     (let r = strip_plus s in
      if r = [] then None
      else case radix_parse b 0 r of None \<Rightarrow> None | Some n \<Rightarrow> if n \<le> mx then Some n else None)"

definition parse_u64 :: "string \<Rightarrow> nat option" where
  "parse_u64 = parse_uint 10 u64_max"

definition parse_u32 :: "string \<Rightarrow> nat option" where
  "parse_u32 = parse_uint 10 u32_max"

definition parse_i64 :: "string \<Rightarrow> int option" where
  "parse_i64 s =
     (case s of
        [] \<Rightarrow> None
      | c # r \<Rightarrow>
          if c = CHR ''-'' then
            (if r = [] then None else
             case radix_parse 10 0 r of
               None \<Rightarrow> None
             | Some n \<Rightarrow> if i64_min \<le> - int n then Some (- int n) else None)
          else map_option int (parse_uint 10 (nat i64_max) s))"

lemma digit_char_in: "digit_char d \<in> set digit_chars"
  unfolding digit_char_def by (rule nth_mem) (simp add: digit_chars_def)

lemma to_digit_digit_char: "d < b \<Longrightarrow> b \<le> 16 \<Longrightarrow> to_digit b (digit_char d) = Some d"
proof -
  assume b: "d < b" "b \<le> 16"
  then have "d < 16" by simp
  then have "d \<in> set [0..<16]" by simp
  moreover have "\<forall>d \<in> set [0..<16]. to_digit 16 (digit_char d) = Some d"
    by code_simp
  ultimately have "to_digit 16 (digit_char d) = Some d" by blast
  with b show ?thesis by (auto simp: to_digit_def Let_def split: if_splits)
qed

lemma radix_parse_append:
  "radix_parse b acc (s @ t) = Option.bind (radix_parse b acc s) (\<lambda>a. radix_parse b a t)"
  by (induction s arbitrary: acc) (auto split: option.splits)

lemma radix_parse_show:
  "2 \<le> b \<Longrightarrow> b \<le> 16 \<Longrightarrow> radix_parse b 0 (show_radix b n) = Some n"
proof (induction b n rule: show_radix.induct)
  case (1 b n)
  show ?case
  proof (cases "n < b")
    case True
    with 1 show ?thesis by (simp add: show_radix.simps [of b n] to_digit_digit_char)
  next
    case False
    with 1 have "radix_parse b 0 (show_radix b (n div b)) = Some (n div b)" by simp
    with False 1 show ?thesis
      by (simp add: show_radix.simps [of b n] radix_parse_append to_digit_digit_char)
  qed
qed

lemma show_radix_nonempty [simp]: "show_radix b n \<noteq> []"
  by (simp add: show_radix.simps [of b n])

lemma show_radix_chars: "c \<in> set (show_radix b n) \<Longrightarrow> c \<in> set digit_chars"
proof (induction b n rule: show_radix.induct)
  case (1 b n)
  then show ?case
    by (auto simp: show_radix.simps [of b n] digit_char_in split: if_splits)
qed

lemma show_pad_chars: "c \<in> set (show_pad b w n) \<Longrightarrow> c \<in> set digit_chars"
  by (auto simp: show_pad_def Let_def digit_chars_def dest!: show_radix_chars split: if_splits)

lemma radix_parse_zeros:
  "2 \<le> b \<Longrightarrow> radix_parse b 0 (replicate k CHR ''0'' @ s) = radix_parse b 0 s"
  by (induction k) (auto simp: to_digit_def)

lemma radix_parse_pad [codec]:
  "2 \<le> b \<Longrightarrow> b \<le> 16 \<Longrightarrow> radix_parse b 0 (show_pad b w n) = Some n"
  by (simp add: show_pad_def Let_def radix_parse_zeros radix_parse_show)

lemma show_pad_nonempty [simp]: "show_pad b w n \<noteq> []"
  by (simp add: show_pad_def Let_def)

lemma digit_chars_props:
  "c \<in> set digit_chars \<Longrightarrow>
     c \<noteq> CHR ''+'' \<and> c \<noteq> CHR ''-'' \<and> c \<noteq> CHR 0x09 \<and> c \<noteq> CHR 0x0A \<and> c \<noteq> CHR 0x0D \<and>
     c \<noteq> CHR ''.'' \<and> c \<noteq> CHR '','' \<and> c \<noteq> CHR ''='' \<and> c \<noteq> CHR ''/'' \<and> (of_char c :: nat) \<le> 127"
  by (auto simp: digit_chars_def)

lemma strip_plus_digits: "set s \<subseteq> set digit_chars \<Longrightarrow> strip_plus s = s"
  by (cases s) (auto simp: strip_plus_def dest: digit_chars_props)

lemma parse_uint_pad [codec]:
  "2 \<le> b \<Longrightarrow> b \<le> 16 \<Longrightarrow> n \<le> mx \<Longrightarrow> parse_uint b mx (show_pad b w n) = Some n"
proof -
  assume b: "2 \<le> b" "b \<le> 16" "n \<le> mx"
  have "strip_plus (show_pad b w n) = show_pad b w n"
    by (rule strip_plus_digits) (auto dest: show_pad_chars)
  with b show ?thesis by (simp add: parse_uint_def radix_parse_pad)
qed

lemma show_radix_pad: "show_radix b n = show_pad b 0 n"
  by (simp add: show_pad_def Let_def)

lemma parse_u64_show [codec]: "n \<le> u64_max \<Longrightarrow> parse_u64 (show_nat n) = Some n"
  by (simp add: parse_u64_def show_nat_def show_radix_pad parse_uint_pad)

lemma parse_u32_show [codec]: "n \<le> u32_max \<Longrightarrow> parse_u32 (show_nat n) = Some n"
  by (simp add: parse_u32_def show_nat_def show_radix_pad parse_uint_pad)

lemma show_nat_nonempty [simp]: "show_nat n \<noteq> []"
  by (simp add: show_nat_def)

lemma show_nat_chars: "c \<in> set (show_nat n) \<Longrightarrow> c \<in> set digit_chars"
  by (simp add: show_nat_def show_radix_chars)

lemma show_int_chars: "c \<in> set (show_int i) \<Longrightarrow> c = CHR ''-'' \<or> c \<in> set digit_chars"
  by (auto simp: show_int_def dest: show_nat_chars split: if_splits)

lemma parse_i64_show [codec]: "i64_ok i \<Longrightarrow> parse_i64 (show_int i) = Some i"
proof (cases "i < 0")
  case True
  assume "i64_ok i"
  then have "i64_min \<le> i" by (simp add: i64_ok_def)
  with True show ?thesis
    by (simp add: parse_i64_def show_int_def show_nat_def radix_parse_show)
next
  case False
  assume "i64_ok i"
  then have le: "nat i \<le> nat i64_max" by (simp add: i64_ok_def nat_mono)
  obtain c r where s: "show_nat (nat i) = c # r" by (cases "show_nat (nat i)") auto
  then have c: "c \<noteq> CHR ''-''"
    using show_nat_chars [of c "nat i"] digit_chars_props [of c] by auto
  have "parse_uint 10 (nat i64_max) (show_nat (nat i)) = Some (nat i)"
    using le by (simp add: show_nat_def show_radix_pad parse_uint_pad)
  with False s c show ?thesis by (simp add: parse_i64_def show_int_def)
qed

subsection \<open>Splitting\<close>

abbreviation tab :: char where "tab \<equiv> CHR 0x09"
abbreviation nl :: char where "nl \<equiv> CHR 0x0A"
abbreviation cr :: char where "cr \<equiv> CHR 0x0D"
abbreviation backslash :: char where "backslash \<equiv> CHR 0x5C"

text \<open>\<open>str::split\<close> on a character: the empty string has one empty piece.\<close>

fun split_on :: "char \<Rightarrow> string \<Rightarrow> string list" where
  "split_on c [] = [[]]"
| "split_on c (x # xs) =
     (if x = c then [] # split_on c xs
      else case split_on c xs of [] \<Rightarrow> [[x]] | h # t \<Rightarrow> (x # h) # t)"

text \<open>\<open>str::splitn(2, c)\<close> and \<open>str::split_once\<close>: the text before the first separator
  and, if there is one, the text after it.\<close>

fun split_once :: "char \<Rightarrow> string \<Rightarrow> string \<times> string option" where
  "split_once c [] = ([], None)"
| "split_once c (x # xs) =
     (if x = c then ([], Some xs)
      else case split_once c xs of (h, t) \<Rightarrow> (x # h, t))"

text \<open>\<open>str::lines\<close>: pieces ended by a line feed, a carriage return before it belonging to the
  ending; a final piece without one is kept as it is, an empty one is not a line.\<close>

definition strip_cr :: "string \<Rightarrow> string" where
  "strip_cr s = (if s \<noteq> [] \<and> last s = cr then butlast s else s)"

definition str_lines :: "string \<Rightarrow> string list" where
  "str_lines s =
     (let ps = split_on nl s
      in map strip_cr (butlast ps) @ (if last ps = [] then [] else [last ps]))"

lemma split_on_nonempty [simp]: "split_on c s \<noteq> []"
  by (cases s) (auto split: list.splits)

lemma split_on_no_sep [simp]: "c \<notin> set s \<Longrightarrow> split_on c s = [s]"
  by (induction s) auto

lemma split_on_append [simp]:
  "c \<notin> set h \<Longrightarrow> split_on c (h @ c # t) = h # split_on c t"
  by (induction h) auto

lemma split_once_append [simp]:
  "c \<notin> set h \<Longrightarrow> split_once c (h @ c # t) = (h, Some t)"
  by (induction h) auto

lemma split_once_no_sep [simp]: "c \<notin> set s \<Longrightarrow> split_once c s = (s, None)"
  by (induction s) auto

lemma str_lines_Nil [simp]: "str_lines [] = []"
  by (simp add: str_lines_def)

lemma str_lines_Cons [simp]:
  "nl \<notin> set h \<Longrightarrow> str_lines (h @ nl # t) = strip_cr h # str_lines t"
  by (simp add: str_lines_def Let_def)

lemma strip_cr_id [simp]: "cr \<notin> set s \<Longrightarrow> strip_cr s = s"
  unfolding strip_cr_def using last_in_set by fastforce

lemma strip_cr_last: "s \<noteq> [] \<Longrightarrow> last s \<noteq> cr \<Longrightarrow> strip_cr s = s"
  by (simp add: strip_cr_def)

lemma str_lines_concat:
  "\<forall>l \<in> set ls. nl \<notin> set l \<Longrightarrow> str_lines (concat (map (\<lambda>l. l @ [nl]) ls)) = map strip_cr ls"
  by (induction ls) auto

subsection \<open>Prefixes, suffixes, case, white space\<close>

definition strip_prefix :: "string \<Rightarrow> string \<Rightarrow> string option" where
  "strip_prefix p s = (if prefix p s then Some (drop (length p) s) else None)"

definition strip_suffix :: "string \<Rightarrow> string \<Rightarrow> string option" where
  "strip_suffix q s = (if suffix q s then Some (take (length s - length q) s) else None)"

lemma strip_prefix_append [simp]: "strip_prefix p (p @ s) = Some s"
  by (simp add: strip_prefix_def)

lemma strip_suffix_append [simp]: "strip_suffix q (s @ q) = Some s"
  by (simp add: strip_suffix_def suffix_def)

definition is_ascii_digit :: "char \<Rightarrow> bool" where
  "is_ascii_digit c \<longleftrightarrow> (48::nat) \<le> of_char c \<and> of_char c \<le> (57::nat)"

lemma digit_char_ascii: "d < 10 \<Longrightarrow> is_ascii_digit (digit_char d)"
proof -
  assume "d < 10"
  moreover have "\<forall>d \<in> set [0..<10]. is_ascii_digit (digit_char d)" by code_simp
  ultimately show ?thesis by simp
qed

lemma show_radix_ascii: "2 \<le> b \<Longrightarrow> b \<le> 10 \<Longrightarrow> list_all is_ascii_digit (show_radix b n)"
proof (induction b n rule: show_radix.induct)
  case (1 b n)
  then have "n mod b < 10" by (metis gr0I leD less_le_trans mod_less_divisor not_numeral_le_zero)
  with 1 show ?case
    by (cases "n < b") (simp_all add: show_radix.simps [of b n] digit_char_ascii)
qed

lemma show_pad_ascii: "2 \<le> b \<Longrightarrow> b \<le> 10 \<Longrightarrow> list_all is_ascii_digit (show_pad b w n)"
proof -
  assume "2 \<le> b" "b \<le> 10"
  moreover have "is_ascii_digit CHR ''0''" by code_simp
  ultimately show ?thesis
    by (auto simp: show_pad_def Let_def list_all_iff dest: show_radix_ascii [of b n, unfolded list_all_iff])
qed

definition ascii_lower :: "char \<Rightarrow> char" where
  "ascii_lower c = (let n = of_char c :: nat in if 65 \<le> n \<and> n \<le> 90 then char_of (n + 32) else c)"

definition to_ascii_lowercase :: "string \<Rightarrow> string" where
  "to_ascii_lowercase s = map ascii_lower s"

text \<open>The UTF-8 encodings of the characters \<open>char::is_whitespace\<close> accepts.\<close>

definition ws_seqs :: "string list" where
  "ws_seqs =
    [[CHR 0x09], [CHR 0x0A], [CHR 0x0B], [CHR 0x0C], [CHR 0x0D], [CHR 0x20],
     [CHR 0xC2, CHR 0x85], [CHR 0xC2, CHR 0xA0], [CHR 0xE1, CHR 0x9A, CHR 0x80],
     [CHR 0xE2, CHR 0x80, CHR 0x80], [CHR 0xE2, CHR 0x80, CHR 0x81], [CHR 0xE2, CHR 0x80, CHR 0x82],
     [CHR 0xE2, CHR 0x80, CHR 0x83], [CHR 0xE2, CHR 0x80, CHR 0x84], [CHR 0xE2, CHR 0x80, CHR 0x85],
     [CHR 0xE2, CHR 0x80, CHR 0x86], [CHR 0xE2, CHR 0x80, CHR 0x87], [CHR 0xE2, CHR 0x80, CHR 0x88],
     [CHR 0xE2, CHR 0x80, CHR 0x89], [CHR 0xE2, CHR 0x80, CHR 0x8A], [CHR 0xE2, CHR 0x80, CHR 0xA8],
     [CHR 0xE2, CHR 0x80, CHR 0xA9], [CHR 0xE2, CHR 0x80, CHR 0xAF], [CHR 0xE2, CHR 0x81, CHR 0x9F],
     [CHR 0xE3, CHR 0x80, CHR 0x80]]"

text \<open>The length of the white-space character a string starts with, 0 if it starts with none.\<close>

definition ws_len :: "string list \<Rightarrow> string \<Rightarrow> nat" where
  "ws_len ws s = (case find (\<lambda>w. prefix w s) ws of None \<Rightarrow> 0 | Some w \<Rightarrow> length w)"

function strip_ws :: "string list \<Rightarrow> string \<Rightarrow> string" where
  "strip_ws ws s = (if ws_len ws s = 0 \<or> s = [] then s else strip_ws ws (drop (ws_len ws s) s))"
  by pat_completeness auto
termination
  by (relation "measure (\<lambda>(ws, s). length s)") auto

declare strip_ws.simps [simp del]

definition trim_start :: "string \<Rightarrow> string" where
  "trim_start s = strip_ws ws_seqs s"

definition trim_end :: "string \<Rightarrow> string" where
  "trim_end s = rev (strip_ws (map rev ws_seqs) (rev s))"

definition trim :: "string \<Rightarrow> string" where
  "trim s = trim_end (trim_start s)"

text \<open>A text that starts and ends with a graphic ASCII character is its own trimming.\<close>

definition graphic :: "char \<Rightarrow> bool" where
  "graphic c \<longleftrightarrow> 0x21 \<le> (of_char c :: nat) \<and> (of_char c :: nat) \<le> 0x7E"

lemma ws_len_zero:
  assumes "list_all (\<lambda>w. w \<noteq> [] \<and> \<not> graphic (hd w)) ws" and "graphic c"
  shows "ws_len ws (c # s) = 0"
proof -
  have "\<not> prefix w (c # s)" if "w \<in> set ws" for w
  proof -
    from that assms(1) have "w \<noteq> []" "\<not> graphic (hd w)"
      by (simp_all add: list_all_iff)
    with assms(2) show ?thesis by (metis prefix_Cons list.sel(1))
  qed
  then have "find (\<lambda>w. prefix w (c # s)) ws = None"
    by (simp add: find_None_iff)
  then show ?thesis by (simp add: ws_len_def)
qed

lemma ws_len_graphic: "graphic c \<Longrightarrow> ws_len ws_seqs (c # s) = 0"
  by (rule ws_len_zero) code_simp

lemma ws_len_rev_graphic: "graphic c \<Longrightarrow> ws_len (map rev ws_seqs) (c # s) = 0"
  by (rule ws_len_zero) code_simp

lemma trim_start_graphic [simp]: "graphic c \<Longrightarrow> trim_start (c # s) = c # s"
  by (simp add: trim_start_def strip_ws.simps ws_len_graphic)

lemma trim_end_graphic: "graphic c \<Longrightarrow> trim_end (s @ [c]) = s @ [c]"
  by (simp add: trim_end_def strip_ws.simps ws_len_rev_graphic)

lemma trim_graphic:
  "s \<noteq> [] \<Longrightarrow> graphic (hd s) \<Longrightarrow> graphic (last s) \<Longrightarrow> trim s = s"
  by (metis append_butlast_last_id list.collapse trim_def trim_end_graphic trim_start_graphic)

lemma trim_end_nl: "s \<noteq> [] \<Longrightarrow> graphic (last s) \<Longrightarrow> trim_end (s @ [nl]) = s"
proof -
  assume s: "s \<noteq> []" "graphic (last s)"
  then have h: "ws_len (map rev ws_seqs) (rev s) = 0"
    by (metis ws_len_rev_graphic append_butlast_last_id rev_eq_Cons_iff rev_rev_ident)
  have "find (\<lambda>w. prefix w (nl # rev s)) (map rev ws_seqs) = Some [nl]"
    by (simp add: ws_seqs_def)
  then have "ws_len (map rev ws_seqs) (nl # rev s) = 1" by (simp add: ws_len_def)
  then have "strip_ws (map rev ws_seqs) (nl # rev s) = rev s"
    by (subst strip_ws.simps) (simp add: strip_ws.simps [of _ "rev s"] h)
  then show ?thesis by (simp add: trim_end_def)
qed

lemma trim_nl:
  "s \<noteq> [] \<Longrightarrow> graphic (hd s) \<Longrightarrow> graphic (last s) \<Longrightarrow> trim (s @ [nl]) = s"
proof -
  assume s: "s \<noteq> []" "graphic (hd s)" "graphic (last s)"
  then have "trim_start (s @ [nl]) = s @ [nl]"
    by (cases s) (simp_all add: trim_start_graphic)
  with s show ?thesis by (simp add: trim_def trim_end_nl)
qed

lemma digit_chars_graphic: "c \<in> set digit_chars \<Longrightarrow> graphic c"
  by (auto simp: digit_chars_def graphic_def)

end
