(* ===== verification/Core_Types.thy ===== *)
theory Core_Types
  imports Rust_Text
begin

text \<open>
  The shared vocabulary of \<open>crates/imbh-core/src\<close>: signals and tables (\<open>enums.rs\<close>),
  half-open time ranges (\<open>time.rs\<close>), trace and span identifiers with their hexadecimal form
  (\<open>ids.rs\<close>), the manifest's segment reference (\<open>manifest.rs\<close>) and the full-text
  tokenizer with its \<open>matches\<close> semantics (\<open>text.rs\<close>).
\<close>

subsection \<open>Signals and tables\<close>

datatype signal = Logs | Traces | Metrics

datatype table =
    TLogs | TSpans | TMetricsGauge | TMetricsSum | TMetricsHistogram | TMetricsExpHistogram
  | TMetricsSummary

definition table_ALL :: "table list" where
  "table_ALL =
    [TLogs, TSpans, TMetricsGauge, TMetricsSum, TMetricsHistogram, TMetricsExpHistogram,
     TMetricsSummary]"

fun table_as_str :: "table \<Rightarrow> string" where
  "table_as_str TLogs = ''logs''"
| "table_as_str TSpans = ''spans''"
| "table_as_str TMetricsGauge = ''metrics_gauge''"
| "table_as_str TMetricsSum = ''metrics_sum''"
| "table_as_str TMetricsHistogram = ''metrics_histogram''"
| "table_as_str TMetricsExpHistogram = ''metrics_exp_histogram''"
| "table_as_str TMetricsSummary = ''metrics_summary''"

text \<open>The derived \<open>Ord\<close>: declaration order, the iteration order of a
  \<open>BTreeMap<Table, _>\<close>.\<close>

fun table_index :: "table \<Rightarrow> nat" where
  "table_index TLogs = 0"
| "table_index TSpans = 1"
| "table_index TMetricsGauge = 2"
| "table_index TMetricsSum = 3"
| "table_index TMetricsHistogram = 4"
| "table_index TMetricsExpHistogram = 5"
| "table_index TMetricsSummary = 6"

instantiation table :: linorder
begin

definition less_eq_table :: "table \<Rightarrow> table \<Rightarrow> bool" where
  "less_eq_table a b \<longleftrightarrow> table_index a \<le> table_index b"

definition less_table :: "table \<Rightarrow> table \<Rightarrow> bool" where
  "less_table a b \<longleftrightarrow> table_index a < table_index b"

instance
proof
  show "x \<le> y \<Longrightarrow> y \<le> x \<Longrightarrow> x = y" for x y :: table
    by (cases x; cases y) (simp_all add: less_eq_table_def)
qed (auto simp: less_eq_table_def less_table_def)

end

lemma table_ALL_all [simp]: "t \<in> set table_ALL"
  by (cases t) (simp_all add: table_ALL_def)

lemma distinct_table_ALL [simp]: "distinct table_ALL"
  by (simp add: table_ALL_def)

lemma sorted_table_ALL: "sorted table_ALL"
  by (simp add: table_ALL_def less_eq_table_def)

lemma table_as_str_inject [simp]: "table_as_str a = table_as_str b \<longleftrightarrow> a = b"
  by (cases a; cases b) simp_all

subsection \<open>Time ranges\<close>

text \<open>\<open>TimeRange\<close>: nanoseconds since the epoch, the end excluded.\<close>

record time_range =
  tr_start :: int
  tr_end :: int

definition time_range_between :: "int \<Rightarrow> int \<Rightarrow> time_range" where
  "time_range_between s e = \<lparr>tr_start = s, tr_end = e\<rparr>"

text \<open>\<open>TimeRange::since\<close> at the clock reading \<open>now\<close>; the duration's nanoseconds are
  cut to 64 bits by \<open>as i64\<close>.\<close>

definition as_i64 :: "int \<Rightarrow> int" where
  "as_i64 x = sint (word_of_int x :: 64 word)"

definition time_range_since :: "int \<Rightarrow> nat \<Rightarrow> time_range" where
  "time_range_since now d_nanos =
     \<lparr>tr_start = sat_i64 (now - as_i64 (int d_nanos)), tr_end = sat_i64 (now + 1)\<rparr>"

definition time_range_all :: time_range where
  "time_range_all = \<lparr>tr_start = i64_min, tr_end = i64_max\<rparr>"

subsection \<open>Segment references\<close>

text \<open>\<open>SegmentRef\<close>: one sealed segment as the manifest lists it.\<close>

record segment_ref =
  relative_path :: string
  min_time_unix_nano :: int
  max_time_unix_nano :: int
  seg_rows :: nat

subsection \<open>Identifiers\<close>

definition hex_val :: "char \<Rightarrow> byte option" where
  "hex_val c =
    (let n = of_char c :: nat in
     if 48 \<le> n \<and> n \<le> 57 then Some (word_of_nat (n - 48))
     else if 97 \<le> n \<and> n \<le> 102 then Some (word_of_nat (n - 97 + 10))
     else if 65 \<le> n \<and> n \<le> 70 then Some (word_of_nat (n - 65 + 10))
     else None)"

fun hex_pairs :: "string \<Rightarrow> bytes option" where
  "hex_pairs [] = Some []"
| "hex_pairs [c] = None"
| "hex_pairs (a # b # s) =
     (case hex_val a of None \<Rightarrow> None | Some hi \<Rightarrow>
      case hex_val b of None \<Rightarrow> None | Some lo \<Rightarrow>
      map_option (\<lambda>r. or (push_bit 4 hi) lo # r) (hex_pairs s))"

definition hex_decode :: "nat \<Rightarrow> string \<Rightarrow> bytes option" where
  "hex_decode n s = (if length s \<noteq> n * 2 then None else hex_pairs s)"

fun hex_lower :: "bytes \<Rightarrow> string" where
  "hex_lower [] = []"
| "hex_lower (b # bs) =
     digit_chars ! unat (drop_bit 4 b) # digit_chars ! unat (and b 15) # hex_lower bs"

definition trace_id_from_hex :: "string \<Rightarrow> bytes option" where
  "trace_id_from_hex s = hex_decode 16 s"

definition span_id_from_hex :: "string \<Rightarrow> bytes option" where
  "span_id_from_hex s = hex_decode 8 s"

definition id_from_bytes :: "nat \<Rightarrow> bytes \<Rightarrow> bytes option" where
  "id_from_bytes n b = (if length b = n then Some b else None)"

lemma hex_val_to_digit: "hex_val c = map_option word_of_nat (to_digit 16 c)"
  by (auto simp: hex_val_def to_digit_def Let_def)

lemma hex_val_digit: "d < 16 \<Longrightarrow> hex_val (digit_chars ! d) = Some (word_of_nat d)"
  using to_digit_digit_char [of d 16] by (simp add: hex_val_to_digit digit_char_def)

lemma high_nibble: "unat (drop_bit 4 b :: byte) < 16"
proof -
  have "unat b < 256" using unsigned_less [of b, where ?'a = nat] by simp
  then have "unat b div 16 < 16" by simp
  then show ?thesis by (simp add: drop_bit_eq_div unat_div_distrib)
qed

lemma byte_and_15: "and b (15::byte) = take_bit 4 b"
  by (simp add: take_bit_eq_mask mask_numeral)

lemma low_nibble: "unat (and b 15 :: byte) < 16"
proof -
  have "unat (take_bit 4 b) = take_bit 4 (unat b)" by (simp add: unsigned_take_bit_eq)
  also have "\<dots> < 16" using take_bit_nat_less_exp [of 4 "unat b"] by simp
  finally show ?thesis by (simp only: byte_and_15)
qed

lemma nibbles: "or (push_bit 4 (drop_bit 4 b)) (and b 15) = (b :: byte)"
  unfolding byte_and_15
  by (rule bit_eqI) (auto simp: bit_simps)

lemma hex_byte: "hex_pairs (hex_lower [b]) = Some [b]"
  by (simp add: hex_val_digit high_nibble low_nibble nibbles)

lemma hex_pairs_lower: "hex_pairs (hex_lower bs) = Some bs"
proof (induction bs)
  case (Cons b bs)
  with hex_byte [of b] show ?case by (auto split: option.splits)
qed simp

lemma length_hex_lower [simp]: "length (hex_lower bs) = 2 * length bs"
  by (induction bs) auto

lemma hex_decode_lower [codec]: "length bs = n \<Longrightarrow> hex_decode n (hex_lower bs) = Some bs"
  by (simp add: hex_decode_def hex_pairs_lower)

lemma hex_pairs_length: "hex_pairs s = Some bs \<Longrightarrow> length s = 2 * length bs"
  by (induction s arbitrary: bs rule: hex_pairs.induct) (auto split: option.splits)

lemma hex_pairs_inverse_bytes: "hex_pairs s = Some bs \<Longrightarrow> hex_pairs (hex_lower bs) = hex_pairs s"
  by (simp add: hex_pairs_lower)

subsection \<open>Tokens\<close>

text \<open>
  A text is the list of its characters; \<open>alnum\<close> and \<open>lower\<close> stand for the Unicode tables
  behind \<open>char::is_alphanumeric\<close> and \<open>char::to_lowercase\<close>.
\<close>

fun tokenize_loop :: "('c \<Rightarrow> bool) \<Rightarrow> ('c \<Rightarrow> 'c list) \<Rightarrow> 'c list \<Rightarrow> 'c list list \<Rightarrow> 'c list \<Rightarrow> 'c list list"
  where
  "tokenize_loop alnum lower cur out [] = (if cur \<noteq> [] then out @ [cur] else out)"
| "tokenize_loop alnum lower cur out (c # cs) =
     (if alnum c then tokenize_loop alnum lower (cur @ lower c) out cs
      else if cur \<noteq> [] then tokenize_loop alnum lower [] (out @ [cur]) cs
      else tokenize_loop alnum lower cur out cs)"

definition tokenize :: "('c \<Rightarrow> bool) \<Rightarrow> ('c \<Rightarrow> 'c list) \<Rightarrow> 'c list \<Rightarrow> 'c list list" where
  "tokenize alnum lower txt = tokenize_loop alnum lower [] [] txt"

definition matches_terms :: "('c \<Rightarrow> bool) \<Rightarrow> ('c \<Rightarrow> 'c list) \<Rightarrow> 'c list \<Rightarrow> 'c list \<Rightarrow> bool" where
  "matches_terms alnum lower haystack query =
     (let terms = tokenize alnum lower query in
      if terms = [] then True
      else list_all (\<lambda>t. t \<in> set (tokenize alnum lower haystack)) terms)"

lemma tokenize_loop_out:
  "tokenize_loop alnum lower cur out cs = out @ tokenize_loop alnum lower cur [] cs"
proof (induction cs arbitrary: cur out)
  case (Cons c cs)
  show ?case
    using Cons.IH [of "[]" "out @ [cur]"] Cons.IH [of "[]" "[cur]"] Cons.IH [of "cur @ lower c" out]
      Cons.IH [of cur out] by (cases "cur = []") simp_all
qed simp

lemma tokenize_loop_sep:
  "\<not> alnum s \<Longrightarrow> tokenize_loop alnum lower cur [] (xs @ s # ys) =
     tokenize_loop alnum lower cur [] xs @ tokenize_loop alnum lower [] [] ys"
proof (induction xs arbitrary: cur)
  case Nil
  then show ?case using tokenize_loop_out [of alnum lower "[]" "[cur]" ys] by simp
next
  case (Cons c cs)
  show ?case
    using Cons.IH [OF Cons.prems] tokenize_loop_out [of alnum lower "[]" "[cur]"]
    by simp
qed

end
