(* ===== verification/Core_Error.thy ===== *)
theory Core_Error
  imports Core_Types
begin

text \<open>
  The error model of \<open>crates/imbh-core/src/error.rs\<close>: five categories, each a typed leaf and
  the text of the backing error if there is one, the \<open>Display\<close> texts, the three classifiers a
  server maps to HTTP status codes, and the constructor helpers every other component raises its
  errors through.
\<close>

subsection \<open>Leaves and categories\<close>

datatype open_kind =
    CorruptManifest "nat option" string
  | UnsupportedWalSignal nat byte
  | LockHeld string
  | OpenMessage string

datatype ingest_kind =
    IngestDecode signal
  | QueueFull nat nat
  | IngestMessage string

datatype query_kind =
    UnknownTable string
  | UnknownColumn string
  | ColumnType string string "string option"
  | Coerce "string option"
  | QueryPlan
  | QueryExecute
  | QuerySearch "nat option"
  | QueryMessage string

datatype wal_phase = WalAppend | WalFsync | WalRotate | WalRemove | WalDirFsync

datatype parquet_phase = ParquetWriter | ParquetWrite | ParquetClose | ParquetFsync

datatype storage_kind =
    StorageIo "string option"
  | StorageWal wal_phase
  | StorageParquet parquet_phase
  | PayloadTooLarge nat nat
  | InvalidZstdLevel int
  | BuildBatch string
  | MissingColumn string
  | StorageMessage string

datatype config_kind = MissingDatabasePath | ReadOnly | ReaderWalDisabled | ConfigMessage string

text \<open>The backing error is carried as the text it prints.\<close>

type_synonym src = "string option"

datatype error =
    Open open_kind src
  | Ingest ingest_kind src
  | Query query_kind src
  | Storage storage_kind src
  | Config config_kind src
  | Closed

text \<open>The result of an operation on a state: the error or the answer, and the state it leaves
  behind. \<open>and_then\<close> is the \<open>?\<close> operator; its first argument puts the state of the inner
  operation back into the state of the caller when the error is passed on.\<close>

type_synonym ('s, 'a) outcome = "(error + 'a) \<times> 's"

definition and_then ::
  "('s \<Rightarrow> 't) \<Rightarrow> ('s, 'a) outcome \<Rightarrow> ('a \<Rightarrow> 's \<Rightarrow> ('t, 'b) outcome) \<Rightarrow> ('t, 'b) outcome"
  where
  "and_then up r f = (case r of (Inl e, s) \<Rightarrow> (Inl e, up s) | (Inr a, s) \<Rightarrow> f a s)"

lemma and_then_simps [simp]:
  "and_then up (Inl e, s) f = (Inl e, up s)"
  "and_then up (Inr a, s) f = f a s"
  by (simp_all add: and_then_def)

lemma and_then_Inr:
  "and_then up r f = (Inr b, t) \<longleftrightarrow> (\<exists>a s. r = (Inr a, s) \<and> f a s = (Inr b, t))"
  by (auto simp: and_then_def split: prod.splits sum.splits)

lemma and_then_split:
  "P (and_then up r f) \<longleftrightarrow>
     (\<forall>e s. r = (Inl e, s) \<longrightarrow> P (Inl e, up s)) \<and> (\<forall>a s. r = (Inr a, s) \<longrightarrow> P (f a s))"
  by (auto simp: and_then_def split: prod.splits sum.splits)

text \<open>The same for a computation that changes no state.\<close>

definition bind_err :: "error + 'a \<Rightarrow> ('a \<Rightarrow> error + 'b) \<Rightarrow> error + 'b" where
  "bind_err r f = (case r of Inl e \<Rightarrow> Inl e | Inr a \<Rightarrow> f a)"

lemma bind_err_simps [simp]:
  "bind_err (Inl e) f = Inl e"
  "bind_err (Inr a) f = f a"
  by (simp_all add: bind_err_def)

lemma bind_err_Inr: "bind_err r f = Inr b \<longleftrightarrow> (\<exists>a. r = Inr a \<and> f a = Inr b)"
  by (auto simp: bind_err_def split: sum.splits)

subsection \<open>Display\<close>

fun wal_phase_str :: "wal_phase \<Rightarrow> string" where
  "wal_phase_str WalAppend = ''append''"
| "wal_phase_str WalFsync = ''fsync''"
| "wal_phase_str WalRotate = ''rotate''"
| "wal_phase_str WalRemove = ''remove''"
| "wal_phase_str WalDirFsync = ''dir fsync''"

fun parquet_phase_str :: "parquet_phase \<Rightarrow> string" where
  "parquet_phase_str ParquetWriter = ''writer''"
| "parquet_phase_str ParquetWrite = ''write''"
| "parquet_phase_str ParquetClose = ''close''"
| "parquet_phase_str ParquetFsync = ''fsync''"

fun open_kind_str :: "open_kind \<Rightarrow> string" where
  "open_kind_str (CorruptManifest (Some l) d) =
     ''corrupt manifest at line '' @ show_nat l @ '': '' @ d"
| "open_kind_str (CorruptManifest None d) = ''corrupt manifest: '' @ d"
| "open_kind_str (UnsupportedWalSignal l s) =
     ''WAL record '' @ show_nat l @ '' has unsupported signal tag '' @ show_nat (unat s)"
| "open_kind_str (LockHeld p) = ''database lock held: '' @ p"
| "open_kind_str (OpenMessage m) = m"

fun signal_str :: "signal \<Rightarrow> string" where
  "signal_str Logs = ''logs''"
| "signal_str Traces = ''traces''"
| "signal_str Metrics = ''metrics''"

fun ingest_kind_str :: "ingest_kind \<Rightarrow> string" where
  "ingest_kind_str (IngestDecode s) = ''OTLP/'' @ signal_str s @ '' protobuf decode failed''"
| "ingest_kind_str (QueueFull q c) =
     ''ingest queue full: '' @ show_nat q @ '' of '' @ show_nat c @ '' bytes buffered''"
| "ingest_kind_str (IngestMessage m) = m"

fun query_kind_str :: "query_kind \<Rightarrow> string" where
  "query_kind_str (UnknownTable t) = ''unknown table `'' @ t @ ''`''"
| "query_kind_str (UnknownColumn c) = ''unknown column `'' @ c @ ''`''"
| "query_kind_str (ColumnType c e (Some a)) =
     ''column `'' @ c @ ''` has type '' @ a @ '', expected '' @ e"
| "query_kind_str (ColumnType c e None) = ''column `'' @ c @ ''` is not '' @ e"
| "query_kind_str (Coerce (Some c)) = ''coerce column `'' @ c @ ''`''"
| "query_kind_str (Coerce None) = ''coerce batch''"
| "query_kind_str QueryPlan = ''plan''"
| "query_kind_str QueryExecute = ''execute''"
| "query_kind_str (QuerySearch (Some d)) =
     ''full-text search: hit missing row ordinal (doc '' @ show_nat d @ '')''"
| "query_kind_str (QuerySearch None) = ''full-text search''"
| "query_kind_str (QueryMessage m) = m"

fun storage_kind_str :: "storage_kind \<Rightarrow> string" where
  "storage_kind_str (StorageIo (Some p)) = ''I/O error at '' @ p"
| "storage_kind_str (StorageIo None) = ''I/O error''"
| "storage_kind_str (StorageWal p) = ''WAL '' @ wal_phase_str p"
| "storage_kind_str (StorageParquet p) = ''Parquet '' @ parquet_phase_str p"
| "storage_kind_str (PayloadTooLarge n l) =
     ''WAL payload too large: '' @ show_nat n @ '' bytes exceeds the '' @ show_nat l
     @ ''-byte frame limit''"
| "storage_kind_str (InvalidZstdLevel l) = ''invalid zstd level '' @ show_int l"
| "storage_kind_str (BuildBatch t) = ''build '' @ t @ '' batch''"
| "storage_kind_str (MissingColumn c) = ''missing `'' @ c @ ''` column''"
| "storage_kind_str (StorageMessage m) = m"

fun config_kind_str :: "config_kind \<Rightarrow> string" where
  "config_kind_str MissingDatabasePath = ''no database path provided''"
| "config_kind_str ReadOnly = ''database opened read-only: writes are not allowed''"
| "config_kind_str ReaderWalDisabled =
     ''read-only open rejected: the writer's WAL is disabled, so a reader gets only '' @
     ''seal-interval freshness, not near-real-time; call allow_stale_reads() to accept it''"
| "config_kind_str (ConfigMessage m) = m"

definition write_category :: "string \<Rightarrow> string \<Rightarrow> src \<Rightarrow> string" where
  "write_category label kind source =
     label @ '' error: '' @ kind @ (case source of None \<Rightarrow> [] | Some s \<Rightarrow> '': '' @ s)"

fun error_str :: "error \<Rightarrow> string" where
  "error_str (Open k s) = write_category ''open'' (open_kind_str k) s"
| "error_str (Ingest k s) = write_category ''ingest'' (ingest_kind_str k) s"
| "error_str (Query k s) = write_category ''query'' (query_kind_str k) s"
| "error_str (Storage k s) = write_category ''storage'' (storage_kind_str k) s"
| "error_str (Config k s) = write_category ''config'' (config_kind_str k) s"
| "error_str Closed = ''database is closed''"

fun error_source :: "error \<Rightarrow> src" where
  "error_source (Open k s) = s"
| "error_source (Ingest k s) = s"
| "error_source (Query k s) = s"
| "error_source (Storage k s) = s"
| "error_source (Config k s) = s"
| "error_source Closed = None"

subsection \<open>Classifiers\<close>

fun is_backpressure :: "error \<Rightarrow> bool" where
  "is_backpressure (Ingest (QueueFull q c) s) = True"
| "is_backpressure e = False"

fun is_not_found :: "error \<Rightarrow> bool" where
  "is_not_found (Query (UnknownTable t) s) = True"
| "is_not_found (Query (UnknownColumn c) s) = True"
| "is_not_found e = False"

fun is_user_error :: "error \<Rightarrow> bool" where
  "is_user_error (Ingest k s) = True"
| "is_user_error (Query k s) = True"
| "is_user_error (Config k s) = True"
| "is_user_error e = False"

subsection \<open>Constructors\<close>

definition open_msg :: "string \<Rightarrow> error" where
  "open_msg m = Open (OpenMessage m) None"
definition open_ctx :: "string \<Rightarrow> string \<Rightarrow> error" where
  "open_ctx m s = Open (OpenMessage m) (Some s)"
definition corrupt_manifest :: "nat option \<Rightarrow> string \<Rightarrow> error" where
  "corrupt_manifest l d = Open (CorruptManifest l d) None"
definition unsupported_wal_signal :: "nat \<Rightarrow> byte \<Rightarrow> error" where
  "unsupported_wal_signal l s = Open (UnsupportedWalSignal l s) None"
definition lock_held :: "string \<Rightarrow> error" where
  "lock_held p = Open (LockHeld p) None"
definition ingest_decode :: "signal \<Rightarrow> string \<Rightarrow> error" where
  "ingest_decode g s = Ingest (IngestDecode g) (Some s)"
definition queue_full :: "nat \<Rightarrow> nat \<Rightarrow> error" where
  "queue_full q c = Ingest (QueueFull q c) None"
definition ingest_msg :: "string \<Rightarrow> error" where
  "ingest_msg m = Ingest (IngestMessage m) None"
definition unknown_table :: "string \<Rightarrow> error" where
  "unknown_table t = Query (UnknownTable t) None"
definition unknown_column :: "string \<Rightarrow> error" where
  "unknown_column c = Query (UnknownColumn c) None"
definition column_type :: "string \<Rightarrow> string \<Rightarrow> string option \<Rightarrow> error" where
  "column_type c e a = Query (ColumnType c e a) None"
definition coerce_err :: "string option \<Rightarrow> string \<Rightarrow> error" where
  "coerce_err c s = Query (Coerce c) (Some s)"
definition coerce_missing :: "string \<Rightarrow> error" where
  "coerce_missing c = Query (Coerce (Some c)) None"
definition query_plan :: "string \<Rightarrow> error" where
  "query_plan s = Query QueryPlan (Some s)"
definition query_execute :: "string \<Rightarrow> error" where
  "query_execute s = Query QueryExecute (Some s)"
definition query_search :: "string \<Rightarrow> error" where
  "query_search s = Query (QuerySearch None) (Some s)"
definition search_missing_row :: "nat \<Rightarrow> error" where
  "search_missing_row d = Query (QuerySearch (Some d)) None"
definition query_msg :: "string \<Rightarrow> error" where
  "query_msg m = Query (QueryMessage m) None"
definition query_ctx :: "string \<Rightarrow> string \<Rightarrow> error" where
  "query_ctx m s = Query (QueryMessage m) (Some s)"
definition storage_io :: "string option \<Rightarrow> string \<Rightarrow> error" where
  "storage_io p s = Storage (StorageIo p) (Some s)"
definition wal_err :: "wal_phase \<Rightarrow> string \<Rightarrow> error" where
  "wal_err p s = Storage (StorageWal p) (Some s)"
definition parquet_err :: "parquet_phase \<Rightarrow> string \<Rightarrow> error" where
  "parquet_err p s = Storage (StorageParquet p) (Some s)"
definition payload_too_large :: "nat \<Rightarrow> nat \<Rightarrow> error" where
  "payload_too_large n l = Storage (PayloadTooLarge n l) None"
definition invalid_zstd_level :: "int \<Rightarrow> string \<Rightarrow> error" where
  "invalid_zstd_level l s = Storage (InvalidZstdLevel l) (Some s)"
definition build_batch_err :: "string \<Rightarrow> string \<Rightarrow> error" where
  "build_batch_err t s = Storage (BuildBatch t) (Some s)"
definition missing_column :: "string \<Rightarrow> string \<Rightarrow> error" where
  "missing_column c s = Storage (MissingColumn c) (Some s)"
definition storage_msg :: "string \<Rightarrow> error" where
  "storage_msg m = Storage (StorageMessage m) None"
definition storage_ctx :: "string \<Rightarrow> string \<Rightarrow> error" where
  "storage_ctx m s = Storage (StorageMessage m) (Some s)"
definition missing_database_path :: error where
  "missing_database_path = Config MissingDatabasePath None"
definition read_only_err :: error where
  "read_only_err = Config ReadOnly None"
definition reader_wal_disabled :: error where
  "reader_wal_disabled = Config ReaderWalDisabled None"
definition config_msg :: "string \<Rightarrow> error" where
  "config_msg m = Config (ConfigMessage m) None"

end
