(* ===== verification/Rust_Fs.thy ===== *)
theory Rust_Fs
  imports Core_Error
begin

text \<open>
  The part of \<open>std::fs\<close> the storage engine uses, on one database directory. A file has its
  bytes, how many of them have been flushed to stable storage, whether its directory entry has, and
  whether it can be read. Every operation that changes the disk takes the next entry of a fault
  schedule: \<open>None\<close> lets it succeed, \<open>Some k\<close> makes it fail, for a write after
  \<open>k\<close> bytes have reached the file. The schedule is arbitrary, so a statement for every
  schedule covers every I/O error, and a process killed between two operations too, because it
  leaves the disk that an error of the next operation and of every later one leaves.
\<close>

datatype io_error = NotFound | OtherIo

definition io_str :: string where
  "io_str = ''I/O failure''"

record fnode =
  content :: bytes
  flushed :: nat
  linked :: bool
  readable :: bool

record world =
  dir_ok :: bool
  files :: "(string \<times> fnode) list"
  faults :: "nat option list"

definition new_file :: fnode where
  "new_file = \<lparr>content = [], flushed = 0, linked = False, readable = True\<rparr>"

text \<open>The fault of the next operation, and the schedule after it.\<close>

definition next_fault :: "world \<Rightarrow> nat option" where
  "next_fault w = (case faults w of [] \<Rightarrow> None | f # fs \<Rightarrow> f)"

definition tick :: "world \<Rightarrow> world" where
  "tick w = w\<lparr>faults := tl (faults w)\<rparr>"

abbreviation file_at :: "world \<Rightarrow> string \<Rightarrow> fnode option" where
  "file_at w p \<equiv> map_of (files w) p"

definition put_file :: "string \<Rightarrow> fnode \<Rightarrow> world \<Rightarrow> world" where
  "put_file p f w = w\<lparr>files := AList.update p f (files w)\<rparr>"

definition del_file :: "string \<Rightarrow> world \<Rightarrow> world" where
  "del_file p w = w\<lparr>files := AList.delete p (files w)\<rparr>"

text \<open>\<open>fs::read\<close>, \<open>fs::metadata().len()\<close> and \<open>read_dir\<close>.\<close>

definition fs_read :: "world \<Rightarrow> string \<Rightarrow> io_error + bytes" where
  "fs_read w p =
     (case file_at w p of
        None \<Rightarrow> Inl NotFound
      | Some f \<Rightarrow> if readable f then Inr (content f) else Inl OtherIo)"

definition fs_len :: "world \<Rightarrow> string \<Rightarrow> nat option" where
  "fs_len w p = map_option (\<lambda>f. length (content f)) (file_at w p)"

definition fs_exists :: "world \<Rightarrow> string \<Rightarrow> bool" where
  "fs_exists w p \<longleftrightarrow> file_at w p \<noteq> None"

definition fs_names :: "world \<Rightarrow> string list" where
  "fs_names w = map fst (files w)"

text \<open>\<open>OpenOptions::create(true).append(true)\<close>.\<close>

definition fs_open_append :: "string \<Rightarrow> world \<Rightarrow> bool \<times> world" where
  "fs_open_append p w =
     (case next_fault w of
        Some k \<Rightarrow> (False, tick w)
      | None \<Rightarrow> (True, if fs_exists w p then tick w else put_file p new_file (tick w)))"

text \<open>\<open>Write::write_all\<close> on a file opened for appending. Writing to a file whose name has
  been unlinked changes nothing in the directory.\<close>

definition append_bytes :: "string \<Rightarrow> bytes \<Rightarrow> world \<Rightarrow> world" where
  "append_bytes p bs w =
     (case file_at w p of
        None \<Rightarrow> w
      | Some f \<Rightarrow> put_file p (f\<lparr>content := content f @ bs\<rparr>) w)"

definition fs_write_all :: "string \<Rightarrow> bytes \<Rightarrow> world \<Rightarrow> bool \<times> world" where
  "fs_write_all p bs w =
     (case next_fault w of
        Some k \<Rightarrow> (False, append_bytes p (take k bs) (tick w))
      | None \<Rightarrow> (True, append_bytes p bs (tick w)))"

text \<open>\<open>File::sync_data\<close> and \<open>sync_all\<close>.\<close>

definition fs_sync :: "string \<Rightarrow> world \<Rightarrow> bool \<times> world" where
  "fs_sync p w =
     (case next_fault w of
        Some k \<Rightarrow> (False, tick w)
      | None \<Rightarrow>
          (True, case file_at w p of
                   None \<Rightarrow> tick w
                 | Some f \<Rightarrow> put_file p (f\<lparr>flushed := length (content f)\<rparr>) (tick w)))"

text \<open>\<open>sync_all\<close> on the directory: every entry is durable.\<close>

definition fs_sync_dir :: "world \<Rightarrow> bool \<times> world" where
  "fs_sync_dir w =
     (case next_fault w of
        Some k \<Rightarrow> (False, tick w)
      | None \<Rightarrow>
          (True, (tick w)\<lparr>files := map (\<lambda>(p, f). (p, f\<lparr>linked := True\<rparr>)) (files w)\<rparr>))"

text \<open>\<open>fs::remove_file\<close>.\<close>

definition fs_remove :: "string \<Rightarrow> world \<Rightarrow> (io_error + unit) \<times> world" where
  "fs_remove p w =
     (case next_fault w of
        Some k \<Rightarrow> (Inl OtherIo, tick w)
      | None \<Rightarrow> if fs_exists w p then (Inr (), del_file p (tick w)) else (Inl NotFound, tick w))"

text \<open>\<open>File::create\<close> followed by \<open>write_all\<close>, and \<open>fs::rename\<close>, which replaces the
  target in one step.\<close>

definition fs_create :: "string \<Rightarrow> world \<Rightarrow> bool \<times> world" where
  "fs_create p w =
     (case next_fault w of
        Some k \<Rightarrow> (False, tick w)
      | None \<Rightarrow>
          (True, put_file p (case file_at w p of
                               None \<Rightarrow> new_file
                             | Some f \<Rightarrow> f\<lparr>content := [], flushed := 0, readable := True\<rparr>) (tick w)))"

definition fs_rename :: "string \<Rightarrow> string \<Rightarrow> world \<Rightarrow> bool \<times> world" where
  "fs_rename p q w =
     (case next_fault w of
        Some k \<Rightarrow> (False, tick w)
      | None \<Rightarrow>
          (case file_at w p of
             None \<Rightarrow> (False, tick w)
           | Some f \<Rightarrow> (True, put_file q (f\<lparr>linked := False\<rparr>) (del_file p (tick w)))))"

text \<open>Opening for appending without creating, \<open>fs::write\<close> and \<open>fs::read_to_string\<close>.\<close>

definition fs_open_existing :: "string \<Rightarrow> world \<Rightarrow> bool \<times> world" where
  "fs_open_existing p w = (next_fault w = None \<and> fs_exists w p, tick w)"

definition fs_write :: "string \<Rightarrow> bytes \<Rightarrow> world \<Rightarrow> bool \<times> world" where
  "fs_write p bs w =
     (case fs_create p w of (ok, w1) \<Rightarrow> if ok then fs_write_all p bs w1 else (False, w1))"

definition fs_read_to_string :: "world \<Rightarrow> string \<Rightarrow> io_error + string" where
  "fs_read_to_string w p =
     (case fs_read w p of
        Inl e \<Rightarrow> Inl e
      | Inr bs \<Rightarrow> (case str_from_utf8 bs of None \<Rightarrow> Inl OtherIo | Some s \<Rightarrow> Inr s))"

text \<open>\<open>fs::create_dir_all\<close>: the directories above a file are not entries of the model, so
  only its failure shows.\<close>

definition fs_create_dir_all :: "world \<Rightarrow> bool \<times> world" where
  "fs_create_dir_all w = (next_fault w = None, tick w)"

text \<open>Attaching an error: \<open>map_err\<close> and \<open>?\<close> on an operation above.\<close>

definition io_try :: "error \<Rightarrow> bool \<times> world \<Rightarrow> (world, unit) outcome" where
  "io_try e r = (if fst r then Inr () else Inl e, snd r)"

subsection \<open>Power loss\<close>

text \<open>What may be left of a file whose power fails: any prefix that keeps the flushed bytes, and
  nothing at all only if its directory entry was not durable.\<close>

definition survives :: "fnode option \<Rightarrow> fnode option \<Rightarrow> bool" where
  "survives old new \<longleftrightarrow>
     (case (old, new) of
        (None, None) \<Rightarrow> True
      | (None, Some g) \<Rightarrow> False
      | (Some f, None) \<Rightarrow> \<not> linked f
      | (Some f, Some g) \<Rightarrow>
          readable g = readable f \<and> prefix (content g) (content f) \<and>
          min (flushed f) (length (content f)) \<le> length (content g))"

definition power_loss :: "world \<Rightarrow> world \<Rightarrow> bool" where
  "power_loss w w' \<longleftrightarrow> dir_ok w' = dir_ok w \<and> distinct (fs_names w') \<and>
     (\<forall>p. survives (file_at w p) (file_at w' p))"

subsection \<open>Lookups after an operation\<close>

lemma tick_simps [simp]:
  "dir_ok (tick w) = dir_ok w" "files (tick w) = files w" "faults (tick w) = tl (faults w)"
  by (simp_all add: tick_def)

lemma put_file_simps [simp]:
  "dir_ok (put_file p f w) = dir_ok w" "faults (put_file p f w) = faults w"
  "files (put_file p f w) = AList.update p f (files w)"
  by (simp_all add: put_file_def)

lemma del_file_simps [simp]:
  "dir_ok (del_file p w) = dir_ok w" "faults (del_file p w) = faults w"
  "files (del_file p w) = AList.delete p (files w)"
  by (simp_all add: del_file_def)

declare update_conv' [simp] delete_conv' [simp]

lemma io_try_Inr: "io_try e r = (Inr u, w) \<longleftrightarrow> fst r \<and> snd r = w"
  by (cases r) (auto simp: io_try_def)

lemma fs_read_tick [simp]: "fs_read (tick w) p = fs_read w p"
  by (simp add: fs_read_def)

lemma fs_names_tick [simp]: "fs_names (tick w) = fs_names w"
  by (simp add: fs_names_def)

lemma fs_len_tick [simp]: "fs_len (tick w) p = fs_len w p"
  by (simp add: fs_len_def)

lemma fs_exists_tick [simp]: "fs_exists (tick w) p = fs_exists w p"
  by (simp add: fs_exists_def)

lemma fs_exists_names: "fs_exists w p \<longleftrightarrow> p \<in> set (fs_names w)"
  by (simp add: fs_exists_def fs_names_def map_of_eq_None_iff)

lemma fs_read_put [simp]:
  "fs_read (put_file p f w) q =
     (if q = p then if readable f then Inr (content f) else Inl OtherIo else fs_read w q)"
  by (simp add: fs_read_def)

lemma fs_names_put [simp]:
  "fs_names (put_file p f w) =
     (if p \<in> set (fs_names w) then fs_names w else fs_names w @ [p])"
  by (simp add: fs_names_def update_keys)

lemma fs_read_del [simp]:
  "fs_read (del_file p w) q = (if q = p then Inl NotFound else fs_read w q)"
  by (simp add: fs_read_def)

lemma fs_names_del [simp]: "fs_names (del_file p w) = removeAll p (fs_names w)"
  by (simp add: fs_names_def delete_keys)

lemma fs_read_names: "fs_read w p = Inr bs \<Longrightarrow> p \<in> set (fs_names w)"
  by (auto simp: fs_read_def fs_exists_names [symmetric] fs_exists_def split: option.splits)

lemma fs_read_Some:
  "fs_read w p = Inr bs \<longleftrightarrow> (\<exists>f. file_at w p = Some f \<and> readable f \<and> content f = bs)"
  by (auto simp: fs_read_def split: option.splits)

subsection \<open>What an operation leaves of the files\<close>

text \<open>\<open>same_bytes\<close>: the same names with the same readable contents, whatever has been flushed.\<close>

definition same_bytes :: "world \<Rightarrow> world \<Rightarrow> bool" where
  "same_bytes w w' \<longleftrightarrow> dir_ok w' = dir_ok w \<and> fs_names w' = fs_names w \<and> fs_read w' = fs_read w"

lemma same_bytes_refl [simp]: "same_bytes w w"
  by (simp add: same_bytes_def)

lemma same_bytes_tick [simp]: "same_bytes w (tick w)"
  by (auto simp: same_bytes_def)

lemma fs_sync_bytes: "same_bytes w (snd (fs_sync p w))"
proof (cases "file_at w p")
  case None
  then show ?thesis by (simp add: fs_sync_def split: option.splits)
next
  case (Some f)
  then have "p \<in> set (fs_names w)" by (simp add: fs_exists_names [symmetric] fs_exists_def)
  with Some show ?thesis
    by (auto simp: fs_sync_def same_bytes_def fs_read_def split: option.splits)
qed

lemma map_of_map_snd: "map_of (map (\<lambda>(p, f). (p, g f)) xs) q = map_option g (map_of xs q)"
  by (induction xs) auto

lemma fs_sync_dir_bytes: "same_bytes w (snd (fs_sync_dir w))"
proof -
  have "fs_read (w'\<lparr>files := map (\<lambda>(p, f). (p, f\<lparr>linked := True\<rparr>)) (files w)\<rparr>) q = fs_read w q" for q w'
    by (simp add: fs_read_def map_of_map_snd split: option.splits)
  then show ?thesis
    by (auto simp: fs_sync_dir_def same_bytes_def fs_names_def comp_def split_def split: option.splits)
qed

lemma fs_read_append [simp]:
  "fs_read (append_bytes p bs w) q =
     (if q = p then map_sum id (\<lambda>c. c @ bs) (fs_read w q) else fs_read w q)"
  by (auto simp: append_bytes_def fs_read_def split: option.splits)

lemma fs_names_append [simp]: "fs_names (append_bytes p bs w) = fs_names w"
proof (cases "file_at w p")
  case (Some f)
  then have "p \<in> set (fs_names w)" by (simp add: fs_exists_names [symmetric] fs_exists_def)
  with Some show ?thesis by (simp add: append_bytes_def)
qed (simp add: append_bytes_def)

lemma dir_ok_append [simp]: "dir_ok (append_bytes p bs w) = dir_ok w"
  by (simp add: append_bytes_def split: option.splits)

text \<open>A schedule with no fault left.\<close>

definition healthy :: "world \<Rightarrow> bool" where
  "healthy w \<longleftrightarrow> list_all (\<lambda>f. f = None) (faults w)"

lemma healthy_next [simp]: "healthy w \<Longrightarrow> next_fault w = None"
  by (auto simp: healthy_def next_fault_def split: list.splits)

lemma healthy_tick [simp]: "healthy w \<Longrightarrow> healthy (tick w)"
  by (cases "faults w") (auto simp: healthy_def)

lemma faults_append [simp]: "faults (append_bytes p bs w) = faults w"
  by (simp add: append_bytes_def split: option.splits)

lemma healthy_simps [simp]:
  "healthy (put_file p f w) = healthy w" "healthy (del_file p w) = healthy w"
  "healthy (append_bytes p bs w) = healthy w" "healthy (w\<lparr>files := fs\<rparr>) = healthy w"
  by (simp_all add: healthy_def)

subsection \<open>Files an operation leaves alone\<close>

definition unchanged :: "string set \<Rightarrow> world \<Rightarrow> world \<Rightarrow> bool" where
  "unchanged S w w' \<longleftrightarrow> (\<forall>p. p \<notin> S \<longrightarrow> fs_read w' p = fs_read w p)"

lemma unchanged_refl [simp]: "unchanged S w w"
  by (simp add: unchanged_def)

lemma unchanged_trans: "unchanged S w1 w2 \<Longrightarrow> unchanged T w2 w3 \<Longrightarrow> unchanged (S \<union> T) w1 w3"
  by (simp add: unchanged_def)

lemma unchanged_mono: "unchanged S w w' \<Longrightarrow> S \<subseteq> T \<Longrightarrow> unchanged T w w'"
  by (auto simp: unchanged_def)

lemma unchanged_read: "unchanged S w w' \<Longrightarrow> p \<notin> S \<Longrightarrow> fs_read w' p = fs_read w p"
  by (simp add: unchanged_def)

lemma fs_exists_read: "fs_exists w p \<longleftrightarrow> fs_read w p \<noteq> Inl NotFound"
  by (auto simp: fs_exists_def fs_read_def split: option.splits)

lemma same_bytes_unchanged: "same_bytes w w' \<Longrightarrow> unchanged S w w'"
  by (simp add: same_bytes_def unchanged_def)

lemma unchanged_tick [simp]: "unchanged S w (tick w)"
  by (simp add: unchanged_def)

lemma fs_create_read:
  "unchanged {p} w (snd (fs_create p w))"
  "fst (fs_create p w) \<Longrightarrow> fs_read (snd (fs_create p w)) p = Inr []"
  by (auto simp: fs_create_def unchanged_def new_file_def split: option.splits)

lemma fs_write_all_read:
  "unchanged {p} w (snd (fs_write_all p bs w))"
  "fst (fs_write_all p bs w) \<Longrightarrow> fs_read (snd (fs_write_all p bs w)) p = map_sum id (\<lambda>c. c @ bs) (fs_read w p)"
  "\<exists>k. fs_read (snd (fs_write_all p bs w)) p = map_sum id (\<lambda>c. c @ take k bs) (fs_read w p)"
proof -
  show "unchanged {p} w (snd (fs_write_all p bs w))"
    by (auto simp: fs_write_all_def unchanged_def split: option.splits)
  show "fst (fs_write_all p bs w) \<Longrightarrow> fs_read (snd (fs_write_all p bs w)) p = map_sum id (\<lambda>c. c @ bs) (fs_read w p)"
    by (auto simp: fs_write_all_def split: option.splits)
  show "\<exists>k. fs_read (snd (fs_write_all p bs w)) p = map_sum id (\<lambda>c. c @ take k bs) (fs_read w p)"
  proof (cases "next_fault w")
    case None
    then show ?thesis by (intro exI [of _ "length bs"]) (simp add: fs_write_all_def)
  qed (auto simp: fs_write_all_def)
qed

lemma fs_sync_read: "fs_read (snd (fs_sync p w)) q = fs_read w q"
  using fs_sync_bytes [of w p] by (simp add: same_bytes_def)

lemma fs_sync_dir_read: "fs_read (snd (fs_sync_dir w)) q = fs_read w q"
  using fs_sync_dir_bytes [of w] by (simp add: same_bytes_def)

lemma fs_rename_read:
  "unchanged {p, q} w (snd (fs_rename p q w))"
  "fst (fs_rename p q w) \<Longrightarrow> p \<noteq> q \<Longrightarrow> fs_read (snd (fs_rename p q w)) q = fs_read w p"
  "\<not> fst (fs_rename p q w) \<Longrightarrow> unchanged {} w (snd (fs_rename p q w))"
proof -
  show "unchanged {p, q} w (snd (fs_rename p q w))"
    by (auto simp: fs_rename_def unchanged_def split: option.splits)
  show "fst (fs_rename p q w) \<Longrightarrow> p \<noteq> q \<Longrightarrow> fs_read (snd (fs_rename p q w)) q = fs_read w p"
    by (auto simp: fs_rename_def fs_read_def split: option.splits)
  show "\<not> fst (fs_rename p q w) \<Longrightarrow> unchanged {} w (snd (fs_rename p q w))"
    by (auto simp: fs_rename_def split: option.splits)
qed

lemma fs_remove_read: "unchanged {p} w (snd (fs_remove p w))"
  by (auto simp: fs_remove_def unchanged_def split: option.splits)

end
