(* ===== verification/Wal.thy ===== *)
theory Wal
  imports Rust_Fs
begin

text \<open>
  The write-ahead log, \<open>crates/imbh-storage/src/wal.rs\<close>: frames of length, checksum, sequence
  number, signal tag and payload in numbered segment files, scanned up to the first torn frame;
  appending with rotation, reclaiming of superseded segments, opening, and the incremental cursor of
  a read-only handle. The XXH3-64 checksum is the parameter \<open>h\<close>.
\<close>

subsection \<open>Frames\<close>

type_synonym hash = "bytes \<Rightarrow> 64 word"

record wal_record =
  lsn :: nat
  sig_tag :: byte
  payload :: bytes

definition SIGNAL_LOGS :: byte where "SIGNAL_LOGS = 0"
definition SIGNAL_TRACES :: byte where "SIGNAL_TRACES = 1"
definition SIGNAL_METRICS :: byte where "SIGNAL_METRICS = 2"

definition ROTATE_BYTES :: nat where "ROTATE_BYTES = 64 * 2 ^ 20"

definition HEADER :: nat where "HEADER = 4 + 8 + 8 + 1"

definition segment_name :: "nat \<Rightarrow> string" where
  "segment_name sq = ''wal.'' @ show_pad 10 8 sq @ ''.log''"

definition parse_segment_seq :: "string \<Rightarrow> nat option" where
  "parse_segment_seq name =
     (case strip_prefix ''wal.'' name of None \<Rightarrow> None | Some r \<Rightarrow>
      case strip_suffix ''.log'' r of None \<Rightarrow> None | Some mid \<Rightarrow>
      if mid = [] \<or> \<not> list_all is_ascii_digit mid then None else parse_u64 mid)"

definition list_segments :: "world \<Rightarrow> error + (nat \<times> string) list" where
  "list_segments w =
     (if \<not> dir_ok w then Inl (open_ctx ''read WAL dir'' io_str)
      else Inr (sort_key fst
        (List.map_filter (\<lambda>p. map_option (\<lambda>sq. (sq, p)) (parse_segment_seq p)) (fs_names w))))"

definition total_bytes :: "world \<Rightarrow> nat" where
  "total_bytes w =
     (case list_segments w of
        Inl e \<Rightarrow> 0
      | Inr segs \<Rightarrow> sum_list (map (\<lambda>(sq, p). case fs_len w p of None \<Rightarrow> 0 | Some n \<Rightarrow> n) segs))"

definition checksum :: "hash \<Rightarrow> nat \<Rightarrow> nat \<Rightarrow> byte \<Rightarrow> bytes \<Rightarrow> nat" where
  "checksum h len l s p = unat (h (u32_le len @ u64_le l @ [s] @ p))"

text \<open>\<open>payload.len() as u32\<close> keeps the low 32 bits.\<close>

definition encode_frame :: "hash \<Rightarrow> nat \<Rightarrow> byte \<Rightarrow> bytes \<Rightarrow> bytes" where
  "encode_frame h l s p =
     (let len = length p mod 2 ^ 32;
          ck = checksum h len l s p
      in u32_le len @ u64_le ck @ u64_le l @ [s] @ p)"

text \<open>The scan loop, on the bytes from the current position on: the frames, the bytes consumed and
  whether the end was reached at a frame boundary.\<close>

function scan_frames :: "hash \<Rightarrow> bytes \<Rightarrow> nat option \<Rightarrow> wal_record list \<times> nat \<times> bool" where
  "scan_frames h bs last_lsn =
     (if length bs < HEADER then ([], 0, bs = [])
      else
        let len = le_val (take 4 bs);
            ck = le_val (take 8 (drop 4 bs));
            l = le_val (take 8 (drop 12 bs));
            s = bs ! 20;
            stop = HEADER + len
        in if length bs < stop then ([], 0, False)
           else
             let p = take len (drop HEADER bs)
             in if checksum h len l s p \<noteq> ck then ([], 0, False)
                else if (case last_lsn of None \<Rightarrow> False | Some prev \<Rightarrow> l \<le> prev) then ([], 0, False)
                else
                  case scan_frames h (drop stop bs) (Some l) of
                    (rs, n, complete) \<Rightarrow>
                      (\<lparr>lsn = l, sig_tag = s, payload = p\<rparr> # rs, stop + n, complete))"
  by pat_completeness auto
termination
  by (relation "measure (\<lambda>(h, bs, l). length bs)") (auto simp: HEADER_def)

declare scan_frames.simps [simp del]

definition read_frames :: "hash \<Rightarrow> world \<Rightarrow> string \<Rightarrow> error + wal_record list" where
  "read_frames h w p =
     (case fs_read w p of
        Inr bs \<Rightarrow> Inr (fst (scan_frames h bs None))
      | Inl NotFound \<Rightarrow> Inr []
      | Inl OtherIo \<Rightarrow> Inl (open_ctx ''read WAL'' io_str))"

definition read_segment_from :: "world \<Rightarrow> string \<Rightarrow> nat \<Rightarrow> error + bytes" where
  "read_segment_from w p start =
     (case fs_read w p of
        Inr bs \<Rightarrow> Inr (drop start bs)
      | Inl NotFound \<Rightarrow> Inr []
      | Inl OtherIo \<Rightarrow> Inl (open_ctx ''open WAL segment'' io_str))"

definition max_lsn :: "wal_record list \<Rightarrow> nat" where
  "max_lsn rs = foldr (\<lambda>r m. max (lsn r) m) rs 0"

definition segment_max_lsn :: "hash \<Rightarrow> world \<Rightarrow> string \<Rightarrow> error + nat" where
  "segment_max_lsn h w p = bind_err (read_frames h w p) (\<lambda>rs. Inr (max_lsn rs))"

text \<open>The last sequence number after a batch of frames: \<open>frames.last()\<close> or what it was.\<close>

definition upd_last :: "wal_record list \<Rightarrow> nat option \<Rightarrow> nat option" where
  "upd_last rs l = (if rs = [] then l else Some (lsn (last rs)))"

fun read_segments :: "hash \<Rightarrow> world \<Rightarrow> (nat \<times> string) list \<Rightarrow> nat option \<Rightarrow> error + wal_record list"
  where
  "read_segments h w [] last_lsn = Inr []"
| "read_segments h w ((sq, p) # segs) last_lsn =
     (case fs_read w p of
        Inl NotFound \<Rightarrow> read_segments h w segs last_lsn
      | Inl OtherIo \<Rightarrow> Inl (open_ctx ''read WAL segment'' io_str)
      | Inr bs \<Rightarrow>
          (case scan_frames h bs last_lsn of
             (rs, n, complete) \<Rightarrow>
               if complete then
                 bind_err (read_segments h w segs (upd_last rs last_lsn)) (\<lambda>out. Inr (rs @ out))
               else Inr rs))"

definition read_all_frames :: "hash \<Rightarrow> world \<Rightarrow> error + wal_record list" where
  "read_all_frames h w = bind_err (list_segments w) (\<lambda>segs. read_segments h w segs None)"

subsection \<open>The incremental cursor\<close>

text \<open>\<open>WalTailCursor\<close>; the offsets are a \<open>BTreeMap\<close> keyed by segment number.\<close>

record wal_tail_cursor =
  offsets :: "(nat \<times> nat) list"
  cur_last_lsn :: "nat option"
  cur_frames :: "wal_record list"

definition fresh_cursor :: wal_tail_cursor where
  "fresh_cursor = \<lparr>offsets = [], cur_last_lsn = None, cur_frames = []\<rparr>"

fun cursor_loop :: "hash \<Rightarrow> world \<Rightarrow> (nat \<times> string) list \<Rightarrow> wal_tail_cursor \<Rightarrow>
    (wal_tail_cursor, unit) outcome" where
  "cursor_loop h w [] c = (Inr (), c)"
| "cursor_loop h w ((sq, p) # segs) c =
     (let start = (case map_of (offsets c) sq of None \<Rightarrow> 0 | Some o1 \<Rightarrow> o1) in
      case read_segment_from w p start of
        Inl e \<Rightarrow> (Inl e, c)
      | Inr bs \<Rightarrow>
          if bs = [] then cursor_loop h w segs c
          else case scan_frames h bs (cur_last_lsn c) of
            (rs, consumed, complete) \<Rightarrow>
              let c' = c\<lparr>cur_last_lsn := upd_last rs (cur_last_lsn c),
                         offsets := AList.update sq (start + consumed) (offsets c),
                         cur_frames := cur_frames c @ rs\<rparr>
              in if complete then cursor_loop h w segs c' else (Inr (), c'))"

definition cursor_advance :: "hash \<Rightarrow> world \<Rightarrow> wal_tail_cursor \<Rightarrow> (wal_tail_cursor, unit) outcome"
  where
  "cursor_advance h w c =
     (case list_segments w of
        Inl e \<Rightarrow> (Inl e, c)
      | Inr segs \<Rightarrow>
          cursor_loop h w segs
            (c\<lparr>offsets := filter (\<lambda>(sq, o1). sq \<in> set (map fst segs)) (offsets c)\<rparr>))"

definition prune_sealed :: "nat \<Rightarrow> wal_tail_cursor \<Rightarrow> wal_tail_cursor" where
  "prune_sealed watermark c = c\<lparr>cur_frames := filter (\<lambda>r. lsn r > watermark) (cur_frames c)\<rparr>"

subsection \<open>The writer\<close>

record wal =
  seq :: nat
  wfile :: string
  current_bytes :: nat
  current_max_lsn :: nat
  rotate_bytes :: nat
  closed :: "(nat \<times> nat) list"

type_synonym wal_state = "wal \<times> world"

definition open_append_file :: "string \<Rightarrow> world \<Rightarrow> (world, unit) outcome" where
  "open_append_file p w = io_try (open_ctx ''open WAL segment'' io_str) (fs_open_append p w)"

definition remove_if_exists :: "string \<Rightarrow> world \<Rightarrow> (world, unit) outcome" where
  "remove_if_exists p w =
     (case fs_remove p w of
        (Inr u, w') \<Rightarrow> (Inr (), w')
      | (Inl NotFound, w') \<Rightarrow> (Inr (), w')
      | (Inl OtherIo, w') \<Rightarrow> (Inl (wal_err WalRemove io_str), w'))"

definition fsync_dir :: "world \<Rightarrow> (world, unit) outcome" where
  "fsync_dir w = io_try (wal_err WalDirFsync io_str) (fs_sync_dir w)"

fun load_closed :: "hash \<Rightarrow> world \<Rightarrow> (nat \<times> string) list \<Rightarrow> error + (nat \<times> nat) list" where
  "load_closed h w [] = Inr []"
| "load_closed h w ((sq, p) # segs) =
     bind_err (segment_max_lsn h w p) (\<lambda>m.
     bind_err (load_closed h w segs) (\<lambda>rest. Inr ((sq, m) # rest)))"

definition open_with_rotate :: "hash \<Rightarrow> nat \<Rightarrow> world \<Rightarrow> (world, wal) outcome" where
  "open_with_rotate h rb w =
     and_then id (io_try (open_ctx ''create WAL dir'' io_str) (fs_create_dir_all w)) (\<lambda>_ w.
     case list_segments w of
       Inl e \<Rightarrow> (Inl e, w)
     | Inr segs \<Rightarrow>
         if segs = [] then
           and_then id (open_append_file (segment_name 1) w) (\<lambda>_ w.
           and_then id (fsync_dir w) (\<lambda>_ w.
             (Inr \<lparr>seq = 1, wfile = segment_name 1, current_bytes = 0, current_max_lsn = 0,
                   rotate_bytes = rb, closed = []\<rparr>, w)))
         else
           (case (last segs, load_closed h w (butlast segs)) of
              (_, Inl e) \<Rightarrow> (Inl e, w)
            | ((cur_seq, cur_path), Inr cl) \<Rightarrow>
                let cb = (case fs_len w cur_path of None \<Rightarrow> 0 | Some n \<Rightarrow> n) in
                case segment_max_lsn h w cur_path of
                  Inl e \<Rightarrow> (Inl e, w)
                | Inr m \<Rightarrow>
                    and_then id (open_append_file cur_path w) (\<lambda>_ w.
                      (Inr \<lparr>seq = cur_seq, wfile = cur_path, current_bytes = cb,
                            current_max_lsn = m, rotate_bytes = rb, closed = cl\<rparr>, w))))"

definition wal_open :: "hash \<Rightarrow> world \<Rightarrow> (world, wal) outcome" where
  "wal_open h w = open_with_rotate h ROTATE_BYTES w"

text \<open>\<open>rotate\<close> records the segment as closed before the next one is open.\<close>

definition wal_rotate :: "wal_state \<Rightarrow> (wal_state, unit) outcome" where
  "wal_rotate st =
     (case st of (self, w) \<Rightarrow>
      and_then (Pair self) (io_try (wal_err WalRotate io_str) (fs_sync (wfile self) w)) (\<lambda>_ w.
      let self1 = self\<lparr>closed := closed self @ [(seq self, current_max_lsn self)]\<rparr>;
          next_seq = wadd_u64 (seq self) 1;
          path = segment_name next_seq
      in and_then (Pair self1) (open_append_file path w) (\<lambda>_ w.
         and_then (Pair self1) (fsync_dir w) (\<lambda>_ w.
           (Inr (), (self1\<lparr>seq := next_seq, wfile := path, current_bytes := 0,
                           current_max_lsn := 0\<rparr>, w))))))"

definition wal_append :: "hash \<Rightarrow> nat \<Rightarrow> byte \<Rightarrow> bytes \<Rightarrow> wal_state \<Rightarrow> (wal_state, unit) outcome" where
  "wal_append h l s p st =
     (case st of (self, w) \<Rightarrow>
      if length p > u32_max then (Inl (payload_too_large (length p) u32_max), st)
      else
        let frame = encode_frame h l s p in
        and_then (Pair self) (io_try (wal_err WalAppend io_str) (fs_write_all (wfile self) frame w))
          (\<lambda>_ w.
           let self' = self\<lparr>current_bytes := current_bytes self + length frame,
                            current_max_lsn := max (current_max_lsn self) l\<rparr>
           in if current_bytes self' \<ge> rotate_bytes self' then wal_rotate (self', w)
              else (Inr (), (self', w))))"

definition wal_sync :: "wal_state \<Rightarrow> (wal_state, unit) outcome" where
  "wal_sync st =
     (case st of (self, w) \<Rightarrow>
      and_then (Pair self) (io_try (wal_err WalFsync io_str) (fs_sync (wfile self) w))
        (\<lambda>_ w. (Inr (), (self, w))))"

text \<open>The deletion loop of \<open>reclaim\<close>: the segments it retains, or an error, after which the
  list taken out of the writer is gone.\<close>

fun reclaim_loop :: "nat \<Rightarrow> (nat \<times> nat) list \<Rightarrow> world \<Rightarrow> (world, (nat \<times> nat) list) outcome" where
  "reclaim_loop wm [] w = (Inr [], w)"
| "reclaim_loop wm ((sq, m) # cl) w =
     (if m \<le> wm then
        and_then id (remove_if_exists (segment_name sq) w) (\<lambda>_ w. reclaim_loop wm cl w)
      else and_then id (reclaim_loop wm cl w) (\<lambda>kept w. (Inr ((sq, m) # kept), w)))"

definition wal_reclaim :: "nat \<Rightarrow> wal_state \<Rightarrow> (wal_state, unit) outcome" where
  "wal_reclaim wm st =
     and_then id (wal_rotate st) (\<lambda>_ (self, w).
     and_then (Pair (self\<lparr>closed := []\<rparr>)) (reclaim_loop wm (closed self) w) (\<lambda>kept w.
       (Inr (), (self\<lparr>closed := kept\<rparr>, w))))"

subsection \<open>Scanning what was written\<close>

text \<open>The frames a writer can append: a payload that fits the length field and a sequence number
  that fits its own.\<close>

definition rec_ok :: "wal_record \<Rightarrow> bool" where
  "rec_ok r \<longleftrightarrow> lsn r \<le> u64_max \<and> length (payload r) \<le> u32_max"

definition frame :: "hash \<Rightarrow> wal_record \<Rightarrow> bytes" where
  "frame h r = encode_frame h (lsn r) (sig_tag r) (payload r)"

definition frames :: "hash \<Rightarrow> wal_record list \<Rightarrow> bytes" where
  "frames h rs = concat (map (frame h) rs)"

text \<open>Strictly increasing sequence numbers, above the one seen before.\<close>

fun increasing :: "nat option \<Rightarrow> wal_record list \<Rightarrow> bool" where
  "increasing l [] = True"
| "increasing l (r # rs) =
     ((case l of None \<Rightarrow> True | Some p \<Rightarrow> p < lsn r) \<and> increasing (Some (lsn r)) rs)"

text \<open>A torn frame: a proper prefix of some frame.\<close>

definition torn :: "hash \<Rightarrow> bytes \<Rightarrow> bool" where
  "torn h t \<longleftrightarrow> (\<exists>r. rec_ok r \<and> strict_prefix t (frame h r))"

lemma frames_simps [simp]:
  "frames h [] = []" "frames h (r # rs) = frame h r @ frames h rs"
  "frames h (rs @ qs) = frames h rs @ frames h qs"
  by (simp_all add: frames_def)

lemma length_frame: "length (frame h r) = HEADER + length (payload r)"
  by (simp add: frame_def encode_frame_def Let_def HEADER_def)

lemma frame_nonempty [simp]: "frame h r \<noteq> []"
  using length_frame [of h r] by (auto simp: HEADER_def)

lemma checksum_le: "checksum h n l s p \<le> u64_max"
proof -
  have "checksum h n l s p < 2 ^ 64"
    unfolding checksum_def by (rule order_less_le_trans [OF unsigned_less]) simp
  then show ?thesis by (simp add: u64_max_def)
qed

lemma frame_parts:
  assumes "rec_ok r"
  shows "le_val (take 4 (frame h r @ t)) = length (payload r)"
    and "le_val (take 8 (drop 4 (frame h r @ t))) =
           checksum h (length (payload r)) (lsn r) (sig_tag r) (payload r)"
    and "le_val (take 8 (drop 12 (frame h r @ t))) = lsn r"
    and "(frame h r @ t) ! 20 = sig_tag r"
    and "take (length (payload r)) (drop HEADER (frame h r @ t)) = payload r"
    and "drop (HEADER + length (payload r)) (frame h r @ t) = t"
proof -
  let ?n = "length (payload r)"
  let ?c = "checksum h ?n (lsn r) (sig_tag r) (payload r)"
  from assms have n: "?n \<le> u32_max" and l: "lsn r \<le> u64_max" by (auto simp: rec_ok_def)
  then have nm: "?n mod 4294967296 = ?n" by (simp add: u32_max_def)
  have c: "?c \<le> u64_max"
    by (rule checksum_le)
  have f: "frame h r = u32_le ?n @ u64_le ?c @ u64_le (lsn r) @ [sig_tag r] @ payload r"
    by (simp add: frame_def encode_frame_def Let_def nm)
  show "le_val (take 4 (frame h r @ t)) = ?n" using n by (simp add: f le_val_u32)
  show "le_val (take 8 (drop 4 (frame h r @ t))) = ?c" using c by (simp add: f le_val_u64)
  show "le_val (take 8 (drop 12 (frame h r @ t))) = lsn r" using l by (simp add: f le_val_u64)
  show "(frame h r @ t) ! 20 = sig_tag r" by (simp add: f nth_append)
  show "take ?n (drop HEADER (frame h r @ t)) = payload r" by (simp add: f HEADER_def)
  show "drop (HEADER + ?n) (frame h r @ t) = t" by (simp add: length_frame)
qed

lemma scan_frame:
  assumes "rec_ok r" and "case l of None \<Rightarrow> True | Some p \<Rightarrow> p < lsn r"
  shows "scan_frames h (frame h r @ t) l =
    (case scan_frames h t (Some (lsn r)) of
       (rs, n, c) \<Rightarrow> (r # rs, length (frame h r) + n, c))"
proof -
  have "\<not> length (frame h r @ t) < HEADER" by (simp add: length_frame)
  moreover have "\<not> length (frame h r @ t) < HEADER + length (payload r)" by (simp add: length_frame)
  moreover have "\<not> (case l of None \<Rightarrow> False | Some p \<Rightarrow> lsn r \<le> p)"
    using assms(2) by (auto split: option.splits)
  ultimately show ?thesis
    by (subst scan_frames.simps)
       (simp add: frame_parts [OF assms(1)] Let_def length_frame
          del: length_append take_append drop_append split: prod.split)
qed

lemma scan_Nil [simp]: "scan_frames h [] l = ([], 0, True)"
  by (simp add: scan_frames.simps HEADER_def)

lemma scan_torn: "torn h t \<Longrightarrow> scan_frames h t l = ([], 0, t = [])"
proof -
  assume "torn h t"
  then obtain r u where r: "rec_ok r" and u: "frame h r = t @ u" "u \<noteq> []"
    by (auto simp: torn_def strict_prefix_def prefix_def)
  show ?thesis
  proof (cases "length t < HEADER")
    case True
    then show ?thesis by (simp add: scan_frames.simps)
  next
    case False
    then have "take 4 (frame h r) = take 4 t" by (simp add: u HEADER_def)
    then have len: "le_val (take 4 t) = length (payload r)"
      using frame_parts(1) [OF r, of h "[]"] by simp
    have "length t < length (frame h r)" using u by simp
    then have short: "length t < HEADER + length (payload r)" by (simp add: length_frame)
    from False have "t \<noteq> []" by (auto simp: HEADER_def)
    with False short show ?thesis
      by (subst scan_frames.simps) (simp add: len Let_def)
  qed
qed

lemma scan_frames_encoded:
  "list_all rec_ok rs \<Longrightarrow> increasing l rs \<Longrightarrow>
     scan_frames h (frames h rs @ t) l =
       (case scan_frames h t (upd_last rs l) of
          (qs, n, c) \<Rightarrow> (rs @ qs, length (frames h rs) + n, c))"
proof (induction rs arbitrary: l)
  case Nil
  then show ?case by (simp add: upd_last_def)
next
  case (Cons r rs)
  have u: "upd_last (r # rs) l = upd_last rs (Some (lsn r))" by (simp add: upd_last_def)
  have "increasing (Some (lsn r)) rs" "list_all rec_ok rs" using Cons.prems by auto
  from Cons.IH [OF this(2,1)] have ih: "scan_frames h (frames h rs @ t) (Some (lsn r)) =
       (case scan_frames h t (upd_last rs (Some (lsn r))) of
          (qs, n, c) \<Rightarrow> (rs @ qs, length (frames h rs) + n, c))" .
  show ?case
    using Cons.prems by (simp add: scan_frame ih u split: prod.split)
qed

lemma scan_frames_torn:
  "list_all rec_ok rs \<Longrightarrow> increasing l rs \<Longrightarrow> torn h t \<Longrightarrow>
     scan_frames h (frames h rs @ t) l = (rs, length (frames h rs), t = [])"
  by (simp add: scan_frames_encoded scan_torn)

lemma torn_Nil [simp]: "torn h []"
proof -
  have "rec_ok \<lparr>lsn = 0, sig_tag = 0, payload = []\<rparr>" by (simp add: rec_ok_def)
  then show ?thesis unfolding torn_def by (metis frame_nonempty strict_prefix_simps(2) neq_Nil_conv)
qed

subsection \<open>Segment files\<close>

lemma parse_segment_name [codec]: "sq \<le> u64_max \<Longrightarrow> parse_segment_seq (segment_name sq) = Some sq"
  unfolding parse_segment_seq_def segment_name_def parse_u64_def
  by (simp only: strip_prefix_append option.case strip_suffix_append)
     (simp add: show_pad_ascii parse_uint_pad)

lemma segment_name_inject [simp]:
  "a \<le> u64_max \<Longrightarrow> b \<le> u64_max \<Longrightarrow> segment_name a = segment_name b \<longleftrightarrow> a = b"
  by (metis option.inject parse_segment_name)

lemma upd_last_append [simp]: "upd_last (xs @ ys) l = upd_last ys (upd_last xs l)"
  by (auto simp: upd_last_def)

lemma upd_last_Nil [simp]: "upd_last [] l = l"
  by (simp add: upd_last_def)

lemma upd_last_Cons [simp]: "upd_last (r # rs) l = upd_last rs (Some (lsn r))"
  by (simp add: upd_last_def)

lemma increasing_append [simp]:
  "increasing l (xs @ ys) \<longleftrightarrow> increasing l xs \<and> increasing (upd_last xs l) ys"
  by (induction xs arbitrary: l) auto

lemma increasing_weaken: "increasing l rs \<Longrightarrow> increasing None rs"
  by (cases rs) auto

text \<open>
  A directory that holds a log: closed segments \<open>cl\<close> (number and frames, in order), the
  current segment \<open>sq\<close> with frames \<open>rs\<close> and a torn tail \<open>t\<close>, and no other file
  with a segment's name.
\<close>

definition log_recs :: "(nat \<times> wal_record list) list \<Rightarrow> wal_record list" where
  "log_recs cl = concat (map snd cl)"

definition segs_at :: "hash \<Rightarrow> world \<Rightarrow> (nat \<times> wal_record list) list \<Rightarrow> bool" where
  "segs_at h w cl \<longleftrightarrow> (\<forall>(q, rs) \<in> set cl. fs_read w (segment_name q) = Inr (frames h rs))"

definition only_segments :: "world \<Rightarrow> nat set \<Rightarrow> bool" where
  "only_segments w S \<longleftrightarrow> dir_ok w \<and> distinct (fs_names w) \<and>
     (\<forall>p \<in> set (fs_names w). parse_segment_seq p \<noteq> None \<longrightarrow> p \<in> segment_name ` S)"

definition wal_log ::
  "hash \<Rightarrow> world \<Rightarrow> (nat \<times> wal_record list) list \<Rightarrow> nat \<Rightarrow> wal_record list \<Rightarrow> bytes \<Rightarrow> bool" where
  "wal_log h w cl sq rs t \<longleftrightarrow>
     only_segments w (set (map fst cl @ [sq])) \<and>
     sorted_wrt (<) (map fst cl @ [sq]) \<and> sq \<le> u64_max \<and>
     segs_at h w cl \<and> fs_read w (segment_name sq) = Inr (frames h rs @ t) \<and> torn h t \<and>
     list_all rec_ok (log_recs cl @ rs) \<and> increasing None (log_recs cl @ rs)"

lemma log_recs_simps [simp]:
  "log_recs [] = []" "log_recs ((q, rs) # cl) = rs @ log_recs cl"
  "log_recs (cl @ cl') = log_recs cl @ log_recs cl'"
  by (simp_all add: log_recs_def)

lemma segs_at_simps [simp]:
  "segs_at h w []"
  "segs_at h w ((q, rs) # cl) \<longleftrightarrow> fs_read w (segment_name q) = Inr (frames h rs) \<and> segs_at h w cl"
  "segs_at h w (cl @ cl') \<longleftrightarrow> segs_at h w cl \<and> segs_at h w cl'"
  by (auto simp: segs_at_def)

lemma list_segments_sorted:
  assumes only: "only_segments w (set qs)" and s: "sorted_wrt (<) qs" and m: "\<forall>q \<in> set qs. q \<le> u64_max"
    and ex: "\<forall>q \<in> set qs. segment_name q \<in> set (fs_names w)"
  shows "list_segments w = Inr (map (\<lambda>q. (q, segment_name q)) qs)"
proof -
  let ?g = "\<lambda>p. map_option (\<lambda>sq. (sq, p)) (parse_segment_seq p)"
  let ?xs = "List.map_filter ?g (fs_names w)"
  let ?ys = "map (\<lambda>q. (q, segment_name q)) qs"
  have dy: "distinct ?ys" using s by (auto simp: distinct_map inj_on_def strict_sorted_iff)
  have dx: "distinct ?xs"
    using only by (auto simp: only_segments_def map_filter_def distinct_map inj_on_def)
  have set_eq: "set ?xs = set ?ys"
  proof
    show "set ?xs \<subseteq> set ?ys"
    proof
      fix x assume "x \<in> set ?xs"
      then obtain p q where x: "x = (q, p)" "p \<in> set (fs_names w)" "parse_segment_seq p = Some q"
        by (auto simp: map_filter_def)
      with only obtain q' where q': "q' \<in> set qs" "p = segment_name q'"
        by (auto simp: only_segments_def)
      with m x have "q' = q" by (auto simp: parse_segment_name)
      with q' x show "x \<in> set ?ys" by auto
    qed
    show "set ?ys \<subseteq> set ?xs"
      using ex m by (force simp: map_filter_def parse_segment_name)
  qed
  have "sort_key fst ?xs = ?ys"
  proof (rule sort_key_inj_key_eq)
    show "mset ?xs = mset ?ys"
      using dx dy set_eq set_eq_iff_mset_eq_distinct by blast
    show "inj_on fst (set ?xs)" unfolding set_eq by (auto simp: inj_on_def)
    show "sorted (map fst ?ys)" using s by (simp add: comp_def strict_sorted_iff)
  qed
  with only show ?thesis by (simp add: list_segments_def only_segments_def)
qed

lemma wal_log_seqs:
  "wal_log h w cl sq rs t \<Longrightarrow> q \<in> set (map fst cl) \<Longrightarrow> q < sq \<and> q \<le> u64_max"
  by (fastforce simp: wal_log_def sorted_wrt_append)

lemma wal_log_list_segments:
  assumes "wal_log h w cl sq rs t"
  shows "list_segments w = Inr (map (\<lambda>q. (q, segment_name q)) (map fst cl @ [sq]))"
proof (rule list_segments_sorted)
  show "\<forall>q \<in> set (map fst cl @ [sq]). q \<le> u64_max"
    using assms wal_log_seqs [OF assms] by (auto simp: wal_log_def)
  show "\<forall>q \<in> set (map fst cl @ [sq]). segment_name q \<in> set (fs_names w)"
    using assms by (fastforce simp: wal_log_def segs_at_def dest: fs_read_names)
qed (use assms in \<open>auto simp: wal_log_def\<close>)

lemma read_segments_log:
  assumes "fs_read w (segment_name sq) = Inr (frames h rs @ t)" "torn h t"
  shows "segs_at h w cl \<Longrightarrow> list_all rec_ok (log_recs cl @ rs) \<Longrightarrow> increasing l (log_recs cl @ rs) \<Longrightarrow>
    read_segments h w (map (\<lambda>q. (q, segment_name q)) (map fst cl @ [sq])) l = Inr (log_recs cl @ rs)"
proof (induction cl arbitrary: l)
  case Nil
  with assms show ?case by (simp add: scan_frames_torn)
next
  case (Cons c cl)
  obtain q qs where c: "c = (q, qs)" by (cases c)
  from Cons.prems c have "scan_frames h (frames h qs @ []) l = (qs, length (frames h qs), True)"
    by (subst scan_frames_torn) auto
  with Cons c show ?case by simp
qed

lemma read_all_log:
  assumes "wal_log h w cl sq rs t"
  shows "read_all_frames h w = Inr (log_recs cl @ rs)"
  using assms
  by (simp add: read_all_frames_def wal_log_list_segments del: map_append)
     (rule read_segments_log, auto simp: wal_log_def)

end
