(* ===== verification/Wal_Writer.thy ===== *)
theory Wal_Writer
  imports Wal
begin

text \<open>
  What the writer of the write-ahead log guarantees: the invariant between the \<open>Wal\<close> value and
  the directory, its preservation by \<open>open\<close>, \<open>append\<close>, \<open>rotate\<close>, \<open>sync\<close> and
  \<open>reclaim\<close>, what every I/O fault leaves readable, what survives a power loss, and the log
  interface the storage engine builds on.
\<close>

subsection \<open>Steps on the directory\<close>

lemma increasing_iff:
  "increasing l rs \<longleftrightarrow>
     sorted_wrt (<) (map lsn rs) \<and> (case l of None \<Rightarrow> True | Some p \<Rightarrow> \<forall>r \<in> set rs. p < lsn r)"
  by (induction rs arbitrary: l) (auto split: option.splits)

lemma increasing_subseq: "subseq qs rs \<Longrightarrow> increasing None rs \<Longrightarrow> increasing None qs"
  by (simp add: increasing_iff)
     (rule sorted_wrt_subseq [OF subseq_map])

lemma wal_log_same: "same_bytes w w' \<Longrightarrow> wal_log h w' cl sq rs t = wal_log h w cl sq rs t"
  by (auto simp: same_bytes_def wal_log_def only_segments_def segs_at_def)

lemma segs_at_cong:
  "(\<And>q. q \<in> fst ` set cl \<Longrightarrow> fs_read w' (segment_name q) = fs_read w (segment_name q)) \<Longrightarrow>
     segs_at h w' cl = segs_at h w cl"
  by (force simp: segs_at_def)

lemma wal_log_append:
  assumes "wal_log h w cl sq rs t" and "frames h rs @ t @ bs = frames h rs' @ t'" and "torn h t'"
    and "list_all rec_ok rs'" and "increasing None (log_recs cl @ rs')"
  shows "wal_log h (append_bytes (segment_name sq) bs w) cl sq rs' t'"
proof -
  have "segment_name q \<noteq> segment_name sq" if "(q, qs) \<in> set cl" for q qs
    using that assms(1) wal_log_seqs [OF assms(1), of q] by (force simp: wal_log_def)
  then have "segs_at h (append_bytes (segment_name sq) bs w) cl"
    using assms(1) by (auto simp: wal_log_def segs_at_def)
  with assms show ?thesis by (auto simp: wal_log_def only_segments_def)
qed

lemma wal_log_next:
  assumes log: "wal_log h w cl sq rs []" and lt: "sq < u64_max"
  shows "wal_log h (put_file (segment_name (Suc sq)) new_file w) (cl @ [(sq, rs)]) (Suc sq) [] []"
    and "\<not> fs_exists w (segment_name (Suc sq))"
proof -
  have ne: "segment_name q \<noteq> segment_name (Suc sq)" if "q \<in> set (map fst cl @ [sq])" for q
  proof -
    have "q \<le> sq" using that wal_log_seqs [OF log, of q] by force
    with lt show ?thesis by simp
  qed
  have notin: "segment_name (Suc sq) \<notin> set (fs_names w)"
  proof
    assume "segment_name (Suc sq) \<in> set (fs_names w)"
    with log lt have "segment_name (Suc sq) \<in> segment_name ` set (map fst cl @ [sq])"
      by (auto simp: wal_log_def only_segments_def parse_segment_name)
    then obtain q where "q \<in> set (map fst cl @ [sq])" "segment_name (Suc sq) = segment_name q"
      by blast
    with ne [of q] show False by simp
  qed
  then show "\<not> fs_exists w (segment_name (Suc sq))" by (simp add: fs_exists_names)
  have "segs_at h (put_file (segment_name (Suc sq)) new_file w) cl = segs_at h w cl"
    by (rule segs_at_cong) (simp add: ne)
  moreover have "sorted_wrt (<) (map fst cl @ [sq] @ [Suc sq])"
    using log by (auto simp: wal_log_def sorted_wrt_append intro: less_SucI)
  ultimately show "wal_log h (put_file (segment_name (Suc sq)) new_file w) (cl @ [(sq, rs)]) (Suc sq) [] []"
    using log notin ne lt
    by (auto simp: wal_log_def only_segments_def new_file_def)
qed

lemma wal_log_remove:
  assumes log: "wal_log h w (cl1 @ (q, qs) # cl2) sq rs t"
  shows "wal_log h (del_file (segment_name q) w) (cl1 @ cl2) sq rs t"
proof -
  let ?cl = "cl1 @ (q, qs) # cl2"
  have q: "q < sq" "q \<le> u64_max" using wal_log_seqs [OF log, of q] by auto
  have sq: "sq \<le> u64_max" using log by (simp add: wal_log_def)
  have d: "distinct (map fst ?cl)"
    using log by (simp add: wal_log_def strict_sorted_iff)
  have ne: "segment_name p \<noteq> segment_name q" if "p \<in> set (map fst (cl1 @ cl2) @ [sq])" for p
  proof -
    have "p \<le> u64_max" using that sq wal_log_seqs [OF log, of p] by force
    moreover have "p \<noteq> q" using that d q by force
    ultimately show ?thesis using q by simp
  qed
  have "segs_at h (del_file (segment_name q) w) (cl1 @ cl2) = segs_at h w (cl1 @ cl2)"
  proof (rule segs_at_cong)
    fix p assume "p \<in> fst ` set (cl1 @ cl2)"
    then have "segment_name p \<noteq> segment_name q" by (intro ne) (auto simp: image_Un)
    then show "fs_read (del_file (segment_name q) w) (segment_name p) = fs_read w (segment_name p)"
      by simp
  qed
  moreover have "increasing None (log_recs (cl1 @ cl2) @ rs)"
  proof (rule increasing_subseq)
    show "subseq (log_recs (cl1 @ cl2) @ rs) (log_recs ?cl @ rs)"
      by (simp add: subseq_append' subseq_drop_many)
    show "increasing None (log_recs ?cl @ rs)" using log by (simp add: wal_log_def)
  qed
  moreover have "sorted_wrt (<) (map fst (cl1 @ cl2) @ [sq])"
    using log by (auto simp: wal_log_def sorted_wrt_append)
  moreover have "only_segments (del_file (segment_name q) w) (set (map fst (cl1 @ cl2) @ [sq]))"
    using log by (auto simp: wal_log_def only_segments_def distinct_removeAll)
  moreover have "segment_name sq \<noteq> segment_name q" by (rule ne) simp
  ultimately show ?thesis
    using log by (simp add: wal_log_def)
qed

subsection \<open>The writer's invariant\<close>

definition wal_rep ::
  "hash \<Rightarrow> wal_state \<Rightarrow> (nat \<times> wal_record list) list \<Rightarrow> wal_record list \<Rightarrow> bool" where
  "wal_rep h st cl rs \<longleftrightarrow>
     (case st of (self, w) \<Rightarrow>
      wal_log h w cl (seq self) rs [] \<and> wfile self = segment_name (seq self) \<and>
      closed self = map (\<lambda>(q, qs). (q, max_lsn qs)) cl \<and>
      current_max_lsn self = max_lsn rs \<and> current_bytes self = length (frames h rs))"

lemma max_lsn_simps [simp]:
  "max_lsn [] = 0" "max_lsn (r # rs) = max (lsn r) (max_lsn rs)"
  "max_lsn (rs @ qs) = max (max_lsn rs) (max_lsn qs)"
proof -
  show "max_lsn (rs @ qs) = max (max_lsn rs) (max_lsn qs)"
    by (induction rs) (simp_all add: max_lsn_def max.assoc)
qed (simp_all add: max_lsn_def)

lemma max_lsn_le: "max_lsn rs \<le> m \<longleftrightarrow> (\<forall>r \<in> set rs. lsn r \<le> m)"
  by (induction rs) auto

lemma fs_sync_cases:
  obtains w' where "io_try e (fs_sync p w) = (Inl e, w')" "same_bytes w w'" "\<not> healthy w"
  | w' where "io_try e (fs_sync p w) = (Inr (), w')" "same_bytes w w'" "healthy w \<longrightarrow> healthy w'"
proof -
  have "fst (fs_sync p w) \<or> \<not> healthy w"
    by (auto simp: fs_sync_def split: option.splits)
  moreover have "healthy w \<longrightarrow> healthy (snd (fs_sync p w))"
    by (auto simp: fs_sync_def split: option.splits)
  ultimately show thesis
    using that fs_sync_bytes [of w p] by (cases "fst (fs_sync p w)") (auto simp: io_try_def)
qed

lemma fsync_dir_cases:
  obtains w' where "fsync_dir w = (Inl (wal_err WalDirFsync io_str), w')" "same_bytes w w'" "\<not> healthy w"
  | w' where "fsync_dir w = (Inr (), w')" "same_bytes w w'" "healthy w \<longrightarrow> healthy w'"
proof -
  have "fst (fs_sync_dir w) \<or> \<not> healthy w"
    by (auto simp: fs_sync_dir_def split: option.splits)
  moreover have "healthy w \<longrightarrow> healthy (snd (fs_sync_dir w))"
    by (auto simp: fs_sync_dir_def split: option.splits)
  ultimately show thesis
    using that fs_sync_dir_bytes [of w] by (cases "fst (fs_sync_dir w)") (auto simp: io_try_def fsync_dir_def)
qed

lemma open_append_cases:
  obtains "open_append_file p w = (Inl (open_ctx ''open WAL segment'' io_str), tick w)" "\<not> healthy w"
  | "open_append_file p w = (Inr (), if fs_exists w p then tick w else put_file p new_file (tick w))"
proof (cases "next_fault w")
  case None
  then show thesis using that(2) by (simp add: open_append_file_def fs_open_append_def io_try_def)
next
  case (Some k)
  then have "\<not> healthy w" by (metis healthy_next option.distinct(1))
  with Some show thesis using that(1) by (simp add: open_append_file_def fs_open_append_def io_try_def)
qed

text \<open>What \<open>rotate\<close> leaves: the frames as they are, and after success a fresh current
  segment.\<close>

lemma rotate_cases:
  assumes rep: "wal_rep h (self, w) cl rs" and lt: "seq self < u64_max"
    and run: "wal_rotate (self, w) = (res, self', w')"
  shows "(wal_log h w' cl (seq self) rs [] \<or> wal_log h w' (cl @ [(seq self, rs)]) (Suc (seq self)) [] []) \<and>
     (res = Inr () \<longrightarrow> wal_rep h (self', w') (cl @ [(seq self, rs)]) [] \<and>
        seq self' = Suc (seq self) \<and> rotate_bytes self' = rotate_bytes self) \<and>
     (healthy w \<longrightarrow> res = Inr () \<and> healthy w')"
proof -
  have log: "wal_log h w cl (seq self) rs []" using rep by (simp add: wal_rep_def)
  have nx: "wadd_u64 (seq self) 1 = Suc (seq self)" using lt by simp
  show ?thesis
  proof (cases rule: fs_sync_cases [of "wal_err WalRotate io_str" "wfile self" w])
    case (1 w1)
    with run log show ?thesis by (auto simp: wal_rotate_def wal_log_same)
  next
    case (2 w1)
    then have log1: "wal_log h w1 cl (seq self) rs []" using log by (simp add: wal_log_same)
    note nxt = wal_log_next [OF log1 lt]
    show ?thesis
    proof (cases rule: open_append_cases [of "segment_name (Suc (seq self))" w1])
      case 1
      with run 2 log1 nx show ?thesis
        by (auto simp: wal_rotate_def Let_def wal_log_same [OF same_bytes_tick])
    next
      case o: 2
      let ?w2 = "put_file (segment_name (Suc (seq self))) new_file (tick w1)"
      have log2: "wal_log h ?w2 (cl @ [(seq self, rs)]) (Suc (seq self)) [] []"
        using wal_log_next(1) [of h "tick w1", OF _ lt] log1 by (simp add: wal_log_same [OF same_bytes_tick])
      show ?thesis
      proof (cases rule: fsync_dir_cases [of ?w2])
        case (1 w3)
        with run 2 o nx log2 nxt show ?thesis by (auto simp: wal_rotate_def Let_def wal_log_same)
      next
        case f: (2 w3)
        have log3: "wal_log h w3 (cl @ [(seq self, rs)]) (Suc (seq self)) [] []"
          using log2 f by (simp add: wal_log_same)
        have "res = Inr ()" "w' = w3" "self' = self\<lparr>closed := closed self @ [(seq self, current_max_lsn self)],
            seq := Suc (seq self), wfile := segment_name (Suc (seq self)), current_bytes := 0, current_max_lsn := 0\<rparr>"
          using run 2 o f nx nxt by (auto simp: wal_rotate_def Let_def)
        with log3 rep 2 f show ?thesis by (auto simp: wal_rep_def)
      qed
    qed
  qed
qed

text \<open>The frames a directory holds, and the frames an open writer stands for.\<close>

definition disk_holds :: "hash \<Rightarrow> world \<Rightarrow> wal_record list \<Rightarrow> bool" where
  "disk_holds h w recs \<longleftrightarrow> (\<exists>cl sq rs t. wal_log h w cl sq rs t \<and> recs = log_recs cl @ rs)"

definition wal_holds :: "hash \<Rightarrow> nat \<Rightarrow> wal_state \<Rightarrow> wal_record list \<Rightarrow> bool" where
  "wal_holds h n st recs \<longleftrightarrow>
     (\<exists>cl rs. wal_rep h st cl rs \<and> recs = log_recs cl @ rs) \<and> seq (fst st) + n \<le> u64_max"

lemma wal_holdsI:
  "wal_rep h st cl rs \<Longrightarrow> recs = log_recs cl @ rs \<Longrightarrow> seq (fst st) + n \<le> u64_max \<Longrightarrow> wal_holds h n st recs"
  by (auto simp: wal_holds_def)

lemma wal_log_holds: "wal_log h w cl sq rs t \<Longrightarrow> disk_holds h w (log_recs cl @ rs)"
  by (auto simp: disk_holds_def)

lemma wal_holds_disk: "wal_holds h n (self, w) recs \<Longrightarrow> disk_holds h w recs"
  by (auto simp: wal_holds_def wal_rep_def disk_holds_def)

lemma disk_holds_read: "disk_holds h w recs \<Longrightarrow> read_all_frames h w = Inr recs"
  by (auto simp: disk_holds_def read_all_log)

lemma torn_take:
  assumes "rec_ok r" "k < length (frame h r)"
  shows "torn h (take k (frame h r))"
proof -
  have "strict_prefix (take k (frame h r)) (frame h r)"
    using assms(2) by (metis length_take less_irrefl min.absorb4 strict_prefixI take_is_prefix)
  with assms(1) show ?thesis by (auto simp: torn_def)
qed

lemma wal_rep_write:
  assumes rep: "wal_rep h (self, w) cl rs" and r: "rec_ok r" "increasing None (log_recs cl @ rs @ [r])"
  shows "wal_rep h (self\<lparr>current_bytes := current_bytes self + length (frame h r),
       current_max_lsn := max (current_max_lsn self) (lsn r)\<rparr>,
       append_bytes (wfile self) (frame h r) (tick w)) cl (rs @ [r])"
    (is "wal_rep h (?s, ?w) cl _")
proof -
  from rep have log: "wal_log h (tick w) cl (seq self) rs []" and wf: "wfile self = segment_name (seq self)"
    by (auto simp: wal_rep_def wal_log_same [OF same_bytes_tick])
  have "wal_log h ?w cl (seq self) (rs @ [r]) []"
    unfolding wf by (rule wal_log_append [OF log]) (use r log in \<open>auto simp: wal_log_def\<close>)
  with rep wf show ?thesis by (auto simp: wal_rep_def)
qed

lemma wal_partial_write:
  assumes rep: "wal_rep h (self, w) cl rs" and r: "rec_ok r" "increasing None (log_recs cl @ rs @ [r])"
  shows "disk_holds h (append_bytes (wfile self) (take k (frame h r)) (tick w)) (log_recs cl @ rs) \<or>
    disk_holds h (append_bytes (wfile self) (take k (frame h r)) (tick w)) (log_recs cl @ rs @ [r])"
proof (cases "k < length (frame h r)")
  case True
  from rep have log: "wal_log h (tick w) cl (seq self) rs []" and wf: "wfile self = segment_name (seq self)"
    by (auto simp: wal_rep_def wal_log_same [OF same_bytes_tick])
  have "wal_log h (append_bytes (wfile self) (take k (frame h r)) (tick w)) cl (seq self) rs (take k (frame h r))"
    unfolding wf using log by (intro wal_log_append [OF log]) (auto simp: torn_take r True wal_log_def)
  then show ?thesis by (auto dest: wal_log_holds)
next
  case False
  then have "take k (frame h r) = frame h r" by simp
  with wal_rep_write [OF rep r] show ?thesis by (auto simp: wal_rep_def dest!: wal_log_holds)
qed

lemma append_cases:
  assumes hold: "wal_holds h (Suc n) (self, w) recs"
    and r: "rec_ok r" "increasing None (recs @ [r])"
    and run: "wal_append h (lsn r) (sig_tag r) (payload r) (self, w) = (res, self', w')"
  shows "(disk_holds h w' recs \<or> disk_holds h w' (recs @ [r])) \<and>
     (res = Inr () \<longrightarrow> wal_holds h n (self', w') (recs @ [r])) \<and>
     (healthy w \<longrightarrow> res = Inr () \<and> healthy w')"
proof -
  from hold obtain cl rs where rep: "wal_rep h (self, w) cl rs" and recs: "recs = log_recs cl @ rs"
    and room: "seq self + Suc n \<le> u64_max" by (auto simp: wal_holds_def)
  have len: "\<not> u32_max < length (payload r)" using r by (simp add: rec_ok_def)
  have inc: "increasing None (log_recs cl @ rs @ [r])" using r recs by simp
  let ?s1 = "self\<lparr>current_bytes := current_bytes self + length (frame h r),
       current_max_lsn := max (current_max_lsn self) (lsn r)\<rparr>"
  let ?w1 = "append_bytes (wfile self) (frame h r) (tick w)"
  note rep1 = wal_rep_write [OF rep r(1) inc]
  show ?thesis
  proof (cases "next_fault w")
    case (Some k)
    then have "\<not> healthy w" by (metis healthy_next option.distinct(1))
    with Some run len wal_partial_write [OF rep r(1) inc, of k] recs show ?thesis
      by (auto simp: wal_append_def fs_write_all_def io_try_def frame_def [symmetric])
  next
    case None
    show ?thesis
    proof (cases "rotate_bytes self \<le> current_bytes self + length (frame h r)")
      case True
      then have run': "wal_rotate (?s1, ?w1) = (res, self', w')"
        using run len None by (simp add: wal_append_def fs_write_all_def io_try_def frame_def Let_def)
      have "seq ?s1 < u64_max" using room by simp
      note rc = rotate_cases [OF rep1 this run']
      then have "disk_holds h w' (recs @ [r])" using recs by (auto dest: wal_log_holds)
      moreover have "res = Inr () \<longrightarrow> wal_holds h n (self', w') (recs @ [r])"
        using rc room recs by (auto intro: wal_holdsI)
      ultimately show ?thesis using rc by simp
    next
      case False
      then have "res = Inr ()" "self' = ?s1" "w' = ?w1"
        using run len None by (auto simp: wal_append_def fs_write_all_def io_try_def frame_def Let_def)
      moreover have "wal_holds h n (?s1, ?w1) (recs @ [r])"
        by (rule wal_holdsI [OF rep1]) (use room recs in auto)
      ultimately show ?thesis by (auto dest: wal_holds_disk)
    qed
  qed
qed

subsection \<open>Reclaiming\<close>

abbreviation live :: "nat \<Rightarrow> wal_record list \<Rightarrow> wal_record list" where
  "live wm recs \<equiv> filter (\<lambda>r. wm < lsn r) recs"

abbreviation kept_segs :: "nat \<Rightarrow> (nat \<times> wal_record list) list \<Rightarrow> (nat \<times> wal_record list) list" where
  "kept_segs wm cl \<equiv> filter (\<lambda>(q, qs). wm < max_lsn qs) cl"

lemma live_none: "max_lsn qs \<le> wm \<Longrightarrow> live wm qs = []"
  by (simp add: max_lsn_le filter_empty_conv leD)

lemma live_kept_segs: "live wm (log_recs (kept_segs wm cl)) = live wm (log_recs cl)"
proof (induction cl)
  case (Cons c cl)
  obtain q qs where c: "c = (q, qs)" by (cases c)
  have "\<not> wm < max_lsn qs \<Longrightarrow> live wm qs = []" by (rule live_none) simp
  with Cons c show ?case by simp
qed simp

lemma live_kept_eq: "kept_segs wm cl' = kept_segs wm cl \<Longrightarrow> live wm (log_recs cl') = live wm (log_recs cl)"
  by (metis live_kept_segs)

lemma log_recs_subseq: "subseq cl' cl \<Longrightarrow> subseq (log_recs cl') (log_recs cl)"
proof (induction rule: list_emb.induct)
  case (list_emb_Cons xs ys y)
  then show ?case by (cases y) (simp add: subseq_drop_many)
next
  case (list_emb_Cons2 x y xs ys)
  then show ?case by (cases y) (simp add: subseq_append')
qed simp

lemma remove_segment_cases:
  assumes log: "wal_log h w (pre @ (q, qs) # cl) sq rs t"
  obtains w' where "remove_if_exists (segment_name q) w = (Inl (wal_err WalRemove io_str), w')"
      "wal_log h w' (pre @ (q, qs) # cl) sq rs t" "\<not> healthy w"
  | w' where "remove_if_exists (segment_name q) w = (Inr (), w')"
      "wal_log h w' (pre @ cl) sq rs t" "healthy w \<longrightarrow> healthy w'"
proof (cases "next_fault w")
  case (Some k)
  then have "\<not> healthy w" by (metis healthy_next option.distinct(1))
  with Some log that(1) show thesis
    by (simp add: remove_if_exists_def fs_remove_def wal_log_same [OF same_bytes_tick])
next
  case None
  have "fs_exists w (segment_name q)"
    using log by (auto simp: wal_log_def fs_exists_names dest: fs_read_names)
  moreover have "wal_log h (del_file (segment_name q) (tick w)) (pre @ cl) sq rs t"
    using log by (intro wal_log_remove) (simp add: wal_log_same [OF same_bytes_tick])
  ultimately show thesis using None that(2) by (simp add: remove_if_exists_def fs_remove_def)
qed

lemma reclaim_loop_cases:
  "wal_log h w (pre @ cl) sq rs t \<Longrightarrow>
   reclaim_loop wm (map (\<lambda>(q, qs). (q, max_lsn qs)) cl) w = (res, w') \<Longrightarrow>
   \<exists>cl'. wal_log h w' (pre @ cl') sq rs t \<and> subseq cl' cl \<and> kept_segs wm cl' = kept_segs wm cl \<and>
     (\<forall>kept. res = Inr kept \<longrightarrow>
        cl' = kept_segs wm cl \<and> kept = map (\<lambda>(q, qs). (q, max_lsn qs)) cl') \<and>
     (healthy w \<longrightarrow> healthy w' \<and> (\<exists>kept. res = Inr kept))"
proof (induction cl arbitrary: pre w res w')
  case Nil
  then show ?case by auto
next
  case (Cons c cl)
  obtain q qs where c: "c = (q, qs)" by (cases c)
  show ?case
  proof (cases "max_lsn qs \<le> wm")
    case True
    from Cons.prems(1) c have log: "wal_log h w (pre @ (q, qs) # cl) sq rs t" by simp
    show ?thesis
    proof (cases rule: remove_segment_cases [OF log])
      case (1 w1)
      with Cons.prems(2) True c show ?thesis by (intro exI [of _ "c # cl"]) auto
    next
      case (2 w1)
      with Cons.prems(2) True c
      have "reclaim_loop wm (map (\<lambda>(q, qs). (q, max_lsn qs)) cl) w1 = (res, w')" by simp
      from Cons.IH [OF 2(2) this] obtain cl' where "wal_log h w' (pre @ cl') sq rs t" "subseq cl' cl"
        "kept_segs wm cl' = kept_segs wm cl"
        "\<forall>kept. res = Inr kept \<longrightarrow> cl' = kept_segs wm cl \<and> kept = map (\<lambda>(q, qs). (q, max_lsn qs)) cl'"
        "healthy w1 \<longrightarrow> healthy w' \<and> (\<exists>kept. res = Inr kept)" by blast
      with 2 True c show ?thesis by (intro exI [of _ cl']) auto
    qed
  next
    case False
    obtain res1 w1 where run: "reclaim_loop wm (map (\<lambda>(q, qs). (q, max_lsn qs)) cl) w = (res1, w1)"
      by (cases "reclaim_loop wm (map (\<lambda>(q, qs). (q, max_lsn qs)) cl) w")
    from Cons.prems(1) have "wal_log h w ((pre @ [c]) @ cl) sq rs t" by simp
    from Cons.IH [OF this run] obtain cl' where "wal_log h w1 (pre @ c # cl') sq rs t" "subseq cl' cl"
        "kept_segs wm cl' = kept_segs wm cl"
        "\<forall>kept. res1 = Inr kept \<longrightarrow> cl' = kept_segs wm cl \<and> kept = map (\<lambda>(q, qs). (q, max_lsn qs)) cl'"
        "healthy w \<longrightarrow> healthy w1 \<and> (\<exists>kept. res1 = Inr kept)" by auto
    moreover have "w' = w1" "\<forall>kept. res = Inr kept \<longrightarrow> (\<exists>k1. res1 = Inr k1 \<and> kept = (q, max_lsn qs) # k1)"
      "\<forall>k1. res1 = Inr k1 \<longrightarrow> res = Inr ((q, max_lsn qs) # k1)"
      using Cons.prems(2) False c run by (cases res1; auto)+
    ultimately show ?thesis using False c by (intro exI [of _ "c # cl'"]) auto
  qed
qed

lemma reclaim_cases:
  assumes hold: "wal_holds h (Suc n) (self, w) recs"
    and run: "wal_reclaim wm (self, w) = (res, self', w')"
  shows "\<exists>recs'. disk_holds h w' recs' \<and> subseq recs' recs \<and> live wm recs' = live wm recs \<and>
     (res = Inr () \<longrightarrow> wal_holds h n (self', w') recs' \<and> (\<forall>(q, m) \<in> set (closed self'). wm < m)) \<and>
     (healthy w \<longrightarrow> res = Inr () \<and> healthy w')"
proof -
  from hold obtain cl rs where rep: "wal_rep h (self, w) cl rs" and recs: "recs = log_recs cl @ rs"
    and room: "seq self + Suc n \<le> u64_max" by (auto simp: wal_holds_def)
  obtain res1 self1 w1 where rot: "wal_rotate (self, w) = (res1, self1, w1)"
    by (cases "wal_rotate (self, w)") auto
  have lt: "seq self < u64_max" using room by simp
  note rc = rotate_cases [OF rep lt rot]
  show ?thesis
  proof (cases res1)
    case (Inl e)
    then have "res = Inl e" "self' = self1" "w' = w1" using run rot by (auto simp: wal_reclaim_def)
    with rc Inl recs show ?thesis by (intro exI [of _ recs]) (auto dest: wal_log_holds)
  next
    case (Inr u)
    let ?cl = "cl @ [(seq self, rs)]"
    have rep1: "wal_rep h (self1, w1) ?cl []" and sq: "seq self1 = Suc (seq self)" using rc Inr by auto
    obtain res2 w2 where loop: "reclaim_loop wm (closed self1) w1 = (res2, w2)"
      by (cases "reclaim_loop wm (closed self1) w1")
    have log1: "wal_log h w1 ([] @ ?cl) (seq self1) [] []"
      and clo: "closed self1 = map (\<lambda>(q, qs). (q, max_lsn qs)) ?cl"
      using rep1 by (auto simp: wal_rep_def)
    from reclaim_loop_cases [OF log1 loop [unfolded clo]] obtain cl' where
      cl': "wal_log h w2 cl' (seq self1) [] []" "subseq cl' ?cl" "kept_segs wm cl' = kept_segs wm ?cl"
        "\<And>kept. res2 = Inr kept \<Longrightarrow> cl' = kept_segs wm ?cl \<and> kept = map (\<lambda>(q, qs). (q, max_lsn qs)) cl'"
        "healthy w1 \<Longrightarrow> healthy w2 \<and> (\<exists>kept. res2 = Inr kept)" by auto
    have sub: "subseq (log_recs cl') recs" using log_recs_subseq [OF cl'(2)] recs by simp
    have lv: "live wm (log_recs cl') = live wm recs" using live_kept_eq [OF cl'(3)] recs by simp
    have dh: "disk_holds h w2 (log_recs cl')" using wal_log_holds [OF cl'(1)] by simp
    have w': "w' = w2" using run rot Inr loop by (cases res2) (auto simp: wal_reclaim_def)
    have ok: "res = Inr () \<longrightarrow> wal_holds h n (self', w') (log_recs cl') \<and> (\<forall>(q, m) \<in> set (closed self'). wm < m)"
    proof
      assume "res = Inr ()"
      with run rot Inr loop obtain kept where k: "res2 = Inr kept" "self' = self1\<lparr>closed := kept\<rparr>"
        by (cases res2) (auto simp: wal_reclaim_def)
      have "wal_rep h (self', w') cl' []" using rep1 cl'(1) cl'(4) [OF k(1)] k w' by (auto simp: wal_rep_def)
      then have "wal_holds h n (self', w') (log_recs cl')"
        using room sq k by (auto intro: wal_holdsI)
      moreover have "\<forall>(q, m) \<in> set (closed self'). wm < m" using cl'(4) [OF k(1)] k by auto
      ultimately show "wal_holds h n (self', w') (log_recs cl') \<and> (\<forall>(q, m) \<in> set (closed self'). wm < m)" ..
    qed
    have hl: "healthy w \<longrightarrow> res = Inr () \<and> healthy w'"
      using rc cl'(5) run rot Inr loop w' by (cases res2) (auto simp: wal_reclaim_def)
    show ?thesis using dh sub lv ok hl w' by blast
  qed
qed

subsection \<open>Opening\<close>

lemma read_frames_log:
  "fs_read w p = Inr (frames h rs @ t) \<Longrightarrow> torn h t \<Longrightarrow> list_all rec_ok rs \<Longrightarrow> increasing None rs \<Longrightarrow>
     read_frames h w p = Inr rs"
  by (simp add: read_frames_def scan_frames_torn)

lemma load_closed_log:
  "segs_at h w cl \<Longrightarrow> list_all rec_ok (log_recs cl) \<Longrightarrow> increasing l (log_recs cl) \<Longrightarrow>
     load_closed h w (map (\<lambda>q. (q, segment_name q)) (map fst cl)) =
       Inr (map (\<lambda>(q, qs). (q, max_lsn qs)) cl)"
proof (induction cl arbitrary: l)
  case (Cons c cl)
  obtain q qs where c: "c = (q, qs)" by (cases c)
  with Cons.prems have "read_frames h w (segment_name q) = Inr qs"
    by (intro read_frames_log [where t = "[]"]) (auto intro: increasing_weaken)
  with Cons c show ?case by (auto simp: segment_max_lsn_def)
qed simp

text \<open>Opening a directory that holds a log rebuilds the bookkeeping from the files, torn tail or
  not; the torn bytes stay in the current segment.\<close>

lemma open_log:
  assumes log: "wal_log h w cl sq rs t" and ok: "healthy w"
  shows "\<exists>w'. open_with_rotate h rb w =
      (Inr \<lparr>seq = sq, wfile = segment_name sq, current_bytes = length (frames h rs @ t),
            current_max_lsn = max_lsn rs, rotate_bytes = rb,
            closed = map (\<lambda>(q, qs). (q, max_lsn qs)) cl\<rparr>, w') \<and>
    same_bytes w w' \<and> healthy w'"
proof -
  let ?segs = "map (\<lambda>q. (q, segment_name q)) (map fst cl @ [sq])"
  have ls: "list_segments (tick w) = Inr ?segs"
    using log by (intro wal_log_list_segments) (simp add: wal_log_same [OF same_bytes_tick])
  have rd: "fs_read w (segment_name sq) = Inr (frames h rs @ t)" using log by (simp add: wal_log_def)
  have lc: "load_closed h (tick w) (butlast ?segs) = Inr (map (\<lambda>(q, qs). (q, max_lsn qs)) cl)"
    using load_closed_log [of h "tick w" cl None] log
    by (simp add: butlast_append wal_log_def segs_at_def)
  have "read_frames h (tick w) (segment_name sq) = Inr rs"
    using log by (intro read_frames_log [where t = t]) (auto simp: wal_log_def intro: increasing_weaken)
  then have mx: "segment_max_lsn h (tick w) (segment_name sq) = Inr (max_lsn rs)"
    by (simp add: segment_max_lsn_def)
  have ln: "fs_len w (segment_name sq) = Some (length (frames h rs @ t))"
    using rd by (auto simp: fs_read_Some fs_len_def)
  have ex: "fs_exists w (segment_name sq)" using rd by (auto simp: fs_exists_names dest: fs_read_names)
  have cd: "io_try (open_ctx ''create WAL dir'' io_str) (fs_create_dir_all w) = (Inr (), tick w)"
    using ok by (simp add: io_try_def fs_create_dir_all_def)
  have oa: "open_append_file (segment_name sq) (tick w) = (Inr (), tick (tick w))"
    using ok ex by (simp add: open_append_file_def io_try_def fs_open_append_def)
  have "same_bytes w (tick (tick w))" by (auto simp: same_bytes_def)
  moreover have "healthy (tick (tick w))" using ok by simp
  moreover have "open_with_rotate h rb w =
      (Inr \<lparr>seq = sq, wfile = segment_name sq, current_bytes = length (frames h rs @ t),
            current_max_lsn = max_lsn rs, rotate_bytes = rb,
            closed = map (\<lambda>(q, qs). (q, max_lsn qs)) cl\<rparr>, tick (tick w))"
    using ls lc mx ln oa by (simp add: open_with_rotate_def cd last_map)
  ultimately show ?thesis by blast
qed

lemma open_empty:
  assumes "only_segments w {}" and ok: "healthy w"
  shows "\<exists>self w'. open_with_rotate h rb w = (Inr self, w') \<and> wal_rep h (self, w') [] [] \<and>
    seq self = 1 \<and> healthy w'"
proof -
  have one: "(1 :: nat) \<le> u64_max" by (simp add: u64_max_def)
  have notin: "segment_name 1 \<notin> set (fs_names w)"
    using assms(1) parse_segment_name [OF one] by (auto simp: only_segments_def)
  have "list_segments (tick w) = Inr (map (\<lambda>q. (q, segment_name q)) [])"
    by (rule list_segments_sorted) (use assms(1) in \<open>simp_all add: only_segments_def\<close>)
  then have ls: "list_segments (tick w) = Inr []" by simp
  let ?w = "put_file (segment_name 1) new_file (tick (tick w))"
  have oa: "open_append_file (segment_name 1) (tick w) = (Inr (), ?w)"
    using ok notin by (simp add: open_append_file_def io_try_def fs_open_append_def fs_exists_names)
  have cd: "io_try (open_ctx ''create WAL dir'' io_str) (fs_create_dir_all w) = (Inr (), tick w)"
    using ok by (simp add: io_try_def fs_create_dir_all_def)
  have log: "wal_log h ?w [] 1 [] []"
    using assms(1) notin one by (auto simp: wal_log_def only_segments_def new_file_def)
  show ?thesis
  proof (cases rule: fsync_dir_cases [of ?w])
    case (1 w')
    with ok show ?thesis by simp
  next
    case (2 w')
    then have "wal_log h w' [] 1 [] []" using log by (simp add: wal_log_same)
    with ls oa cd 2 ok show ?thesis by (simp add: open_with_rotate_def wal_rep_def)
  qed
qed

end
