(* ===== verification/Wal_Store.thy ===== *)
theory Wal_Store
  imports Wal_Writer
begin

text \<open>
  Durability of the write-ahead log and the log interface it offers: which bytes have been flushed
  when a segment is closed, what a power loss may take away, the \<open>log_store\<close> contract with its
  interpretation on the writer, and the incremental cursor of a read-only handle.
\<close>

subsection \<open>Flushed segments\<close>

definition sealed_file :: "world \<Rightarrow> nat \<Rightarrow> bool" where
  "sealed_file w q \<longleftrightarrow>
     (\<exists>f. file_at w (segment_name q) = Some f \<and> linked f \<and> length (content f) \<le> flushed f)"

definition linked_file :: "world \<Rightarrow> nat \<Rightarrow> bool" where
  "linked_file w q \<longleftrightarrow> (\<exists>f. file_at w (segment_name q) = Some f \<and> linked f)"

definition durable :: "wal_state \<Rightarrow> bool" where
  "durable st \<longleftrightarrow>
     (case st of (self, w) \<Rightarrow>
      (\<forall>q \<in> fst ` set (closed self). sealed_file w q) \<and> linked_file w (seq self))"

lemma file_at_append:
  "file_at (append_bytes p bs w) q =
     (if q = p then map_option (\<lambda>f. f\<lparr>content := content f @ bs\<rparr>) (file_at w p) else file_at w q)"
  by (auto simp: append_bytes_def split: option.splits)

lemma sealed_file_cong:
  "file_at w' (segment_name q) = file_at w (segment_name q) \<Longrightarrow> sealed_file w' q = sealed_file w q"
  by (simp add: sealed_file_def)

lemma sealed_linked: "sealed_file w q \<Longrightarrow> linked_file w q"
  by (auto simp: sealed_file_def linked_file_def)

lemma wal_rep_ne:
  assumes "wal_rep h (self, w) cl rs" "q \<in> fst ` set (closed self)"
  shows "segment_name q \<noteq> wfile self" "q < seq self" "q \<le> u64_max"
proof -
  have log: "wal_log h w cl (seq self) rs []" and wf: "wfile self = segment_name (seq self)"
    and "q \<in> set (map fst cl)" using assms by (force simp: wal_rep_def)+
  then show "q < seq self" "q \<le> u64_max" using wal_log_seqs [OF log, of q] by auto
  then show "segment_name q \<noteq> wfile self" using wf log by (auto simp: wal_log_def)
qed

lemma durable_write:
  assumes "wal_rep h (self, w) cl rs" "durable (self, w)"
  shows "durable (self\<lparr>current_bytes := b, current_max_lsn := m\<rparr>, append_bytes (wfile self) bs (tick w))"
proof -
  have "sealed_file (append_bytes (wfile self) bs (tick w)) q" if "q \<in> fst ` set (closed self)" for q
  proof -
    have "sealed_file (append_bytes (wfile self) bs (tick w)) q = sealed_file w q"
      using wal_rep_ne(1) [OF assms(1) that] by (intro sealed_file_cong) (simp add: file_at_append)
    with that assms(2) show ?thesis by (auto simp: durable_def)
  qed
  moreover have "linked_file (append_bytes (wfile self) bs (tick w)) (seq self)"
    using assms by (auto simp: durable_def linked_file_def file_at_append)
  ultimately show ?thesis by (simp add: durable_def)
qed

lemma sync_file_at:
  "file_at (snd (fs_sync p w)) q =
     (if q = p \<and> next_fault w = None
      then map_option (\<lambda>f. f\<lparr>flushed := length (content f)\<rparr>) (file_at w p) else file_at w q)"
  by (auto simp: fs_sync_def split: option.splits)

lemma sync_dir_file_at:
  "fst (fs_sync_dir w) \<Longrightarrow>
     file_at (snd (fs_sync_dir w)) q = map_option (\<lambda>f. f\<lparr>linked := True\<rparr>) (file_at w q)"
  by (auto simp: fs_sync_dir_def map_of_map_snd split: option.splits)

lemma rotate_durable:
  assumes rep: "wal_rep h (self, w) cl rs" and lt: "seq self < u64_max" and dur: "durable (self, w)"
    and run: "wal_rotate (self, w) = (Inr (), self', w')"
  shows "durable (self', w')"
proof -
  let ?p = "wfile self" and ?n = "segment_name (Suc (seq self))"
  from run obtain w1 w2 where
    w1: "fst (fs_sync ?p w)" "w1 = snd (fs_sync ?p w)" and
    w2: "fst (fs_open_append ?n w1)" "w2 = snd (fs_open_append ?n w1)" and
    w3: "fst (fs_sync_dir w2)" "w' = snd (fs_sync_dir w2)" and
    s: "self' = self\<lparr>closed := closed self @ [(seq self, current_max_lsn self)],
            seq := Suc (seq self), wfile := ?n, current_bytes := 0, current_max_lsn := 0\<rparr>"
    using lt by (auto simp: wal_rotate_def Let_def and_then_Inr io_try_Inr open_append_file_def fsync_dir_def)
  have wf: "?p = segment_name (seq self)" using rep by (simp add: wal_rep_def)
  have nf: "next_fault w = None" "next_fault w1 = None"
    using w1 w2 by (auto simp: fs_sync_def fs_open_append_def split: option.splits)
  have f1: "file_at w1 q = (if q = ?p then map_option (\<lambda>f. f\<lparr>flushed := length (content f)\<rparr>) (file_at w ?p)
      else file_at w q)" for q
    using nf w1 by (simp add: sync_file_at)
  have nex: "file_at w ?n = None"
    using wal_log_next(2) [of h w cl "seq self" rs] rep lt by (simp add: wal_rep_def fs_exists_def)
  have f2: "file_at w2 q = (if q = ?n then Some new_file else file_at w1 q)" for q
    using w2 nf nex f1 by (auto simp: fs_open_append_def fs_exists_def split: if_splits)
  have f3: "file_at w' q = map_option (\<lambda>f. f\<lparr>linked := True\<rparr>) (file_at w2 q)" for q
    using w3 sync_dir_file_at by simp
  have cur: "sealed_file w' (seq self)"
  proof -
    have "?n \<noteq> ?p" using lt by (simp add: wf)
    then show ?thesis
      using dur by (auto simp: sealed_file_def f3 f2 f1 wf durable_def linked_file_def)
  qed
  have old: "sealed_file w' q" if q: "q \<in> fst ` set (closed self)" for q
  proof -
    from wal_rep_ne [OF rep q] lt have "segment_name q \<noteq> ?n" "segment_name q \<noteq> ?p" by auto
    with dur q show ?thesis by (auto simp: sealed_file_def f3 f2 f1 durable_def)
  qed
  have "linked_file w' (Suc (seq self))" by (simp add: linked_file_def f3 f2)
  with cur old s show ?thesis by (auto simp: durable_def)
qed

lemma append_durable:
  assumes hold: "wal_holds h (Suc n) (self, w) recs" and r: "rec_ok r" "increasing None (recs @ [r])"
    and dur: "durable (self, w)"
    and run: "wal_append h (lsn r) (sig_tag r) (payload r) (self, w) = (Inr (), self', w')"
  shows "durable (self', w')"
proof -
  from hold obtain cl rs where rep: "wal_rep h (self, w) cl rs" and recs: "recs = log_recs cl @ rs"
    and room: "seq self + Suc n \<le> u64_max" by (auto simp: wal_holds_def)
  have inc: "increasing None (log_recs cl @ rs @ [r])" using r recs by simp
  note rep1 = wal_rep_write [OF rep r(1) inc]
  note d1 = durable_write [OF rep dur]
  have "next_fault w = None" using run r
    by (auto simp: wal_append_def rec_ok_def fs_write_all_def io_try_def Let_def split: option.splits)
  then show ?thesis
    using run r room d1 rotate_durable [OF rep1 _ d1, of self' w']
    by (auto simp: wal_append_def rec_ok_def fs_write_all_def io_try_def Let_def frame_def split: if_splits)
qed

lemma reclaim_loop_files:
  "reclaim_loop wm cl w = (Inr kept, w') \<Longrightarrow> \<forall>(p, m) \<in> set cl. p \<le> u64_max \<Longrightarrow>
     kept = filter (\<lambda>(p, m). wm < m) cl \<and>
     (\<forall>q \<le> u64_max. (\<forall>(p, m) \<in> set cl. m \<le> wm \<longrightarrow> p \<noteq> q) \<longrightarrow>
        file_at w' (segment_name q) = file_at w (segment_name q))"
proof (induction cl arbitrary: w kept)
  case (Cons c cl)
  obtain p m where c: "c = (p, m)" by (cases c)
  show ?case
  proof (cases "m \<le> wm")
    case True
    with Cons.prems c obtain w1 where rm: "remove_if_exists (segment_name p) w = (Inr (), w1)"
      and rest: "reclaim_loop wm cl w1 = (Inr kept, w')" by (auto simp: and_then_Inr)
    have "file_at w1 (segment_name q) = file_at w (segment_name q)" if "p \<noteq> q" "q \<le> u64_max" for q
      using rm that Cons.prems(2) c
      by (auto simp: remove_if_exists_def fs_remove_def split: option.splits if_splits)
    with Cons.IH [OF rest] Cons.prems c True show ?thesis by auto
  next
    case False
    with Cons.prems c obtain k1 where rest: "reclaim_loop wm cl w = (Inr k1, w')"
      and k: "kept = (p, m) # k1" by (auto simp: and_then_Inr)
    with Cons.IH [OF rest] Cons.prems c False show ?thesis by auto
  qed
qed simp

lemma reclaim_durable:
  assumes hold: "wal_holds h (Suc n) (self, w) recs" and dur: "durable (self, w)"
    and run: "wal_reclaim wm (self, w) = (Inr (), self', w')"
  shows "durable (self', w')"
proof -
  from hold obtain cl rs where rep: "wal_rep h (self, w) cl rs"
    and room: "seq self + Suc n \<le> u64_max" by (auto simp: wal_holds_def)
  then have lt: "seq self < u64_max" by simp
  from run obtain self1 w1 kept where rot: "wal_rotate (self, w) = (Inr (), self1, w1)"
    and loop: "reclaim_loop wm (closed self1) w1 = (Inr kept, w')" and s: "self' = self1\<lparr>closed := kept\<rparr>"
    by (auto simp: wal_reclaim_def and_then_Inr)
  have d1: "durable (self1, w1)" by (rule rotate_durable [OF rep lt dur rot])
  have rep1: "wal_rep h (self1, w1) (cl @ [(seq self, rs)]) []"
    using rotate_cases [OF rep lt rot] by simp
  have bnd: "\<forall>(p, m) \<in> set (closed self1). p \<le> u64_max"
    using wal_rep_ne(3) [OF rep1] by force
  have dist: "distinct (map fst (closed self1))"
    using rep1 by (auto simp: wal_rep_def wal_log_def comp_def split_def strict_sorted_iff)
  note fl = reclaim_loop_files [OF loop bnd]
  have same: "file_at w' (segment_name q) = file_at w1 (segment_name q)"
    if "q \<le> u64_max" "\<And>m. (q, m) \<in> set (closed self1) \<Longrightarrow> wm < m" for q
    using fl that by force
  have "sealed_file w' q" if "q \<in> fst ` set kept" for q
  proof -
    from that fl obtain m where m: "(q, m) \<in> set (closed self1)" "wm < m" by auto
    have "wm < m'" if "(q, m') \<in> set (closed self1)" for m'
      using eq_key_imp_eq_value [OF dist that m(1)] m(2) by simp
    moreover have "q \<le> u64_max" using bnd m(1) by blast
    ultimately have "sealed_file w' q = sealed_file w1 q"
      by (intro sealed_file_cong same)
    moreover have "sealed_file w1 q" using d1 m(1) by (force simp: durable_def)
    ultimately show ?thesis by simp
  qed
  moreover have "linked_file w' (seq self1) = linked_file w1 (seq self1)"
  proof -
    have "(seq self1, m) \<notin> set (closed self1)" for m
      using wal_rep_ne(2) [OF rep1, of "seq self1"] by force
    moreover have "seq self1 \<le> u64_max" using rep1 by (simp add: wal_rep_def wal_log_def)
    ultimately show ?thesis using same [of "seq self1"] by (auto simp: linked_file_def)
  qed
  ultimately show ?thesis using d1 s by (auto simp: durable_def)
qed

subsection \<open>Power loss\<close>

lemma prefix_frames:
  "list_all rec_ok rs \<Longrightarrow> prefix bs (frames h rs) \<Longrightarrow> \<exists>j t. bs = frames h (take j rs) @ t \<and> torn h t"
proof (induction rs arbitrary: bs)
  case Nil
  then show ?case by (intro exI [of _ 0] exI [of _ "[]"]) simp
next
  case (Cons r rs)
  show ?case
  proof (cases "prefix (frame h r) bs")
    case True
    then obtain cs where cs: "bs = frame h r @ cs" by (auto simp: prefix_def)
    with Cons.prems have "prefix cs (frames h rs)" by simp
    with Cons.IH [of cs] Cons.prems obtain j t where "cs = frames h (take j rs) @ t" "torn h t"
      by auto
    with cs show ?thesis by (intro exI [of _ "Suc j"] exI [of _ t]) simp
  next
    case False
    with Cons.prems have "strict_prefix bs (frame h r)"
      by (metis frames_simps(2) prefix_append prefix_order.le_neq_trans prefix_same_cases prefixI)
    with Cons.prems show ?thesis by (intro exI [of _ 0] exI [of _ bs]) (auto simp: torn_def)
  qed
qed

lemma power_loss_sealed:
  "power_loss w w' \<Longrightarrow> sealed_file w q \<Longrightarrow> fs_read w' (segment_name q) = fs_read w (segment_name q)"
proof -
  assume loss: "power_loss w w'" and "sealed_file w q"
  then obtain f where f: "file_at w (segment_name q) = Some f" "linked f" "length (content f) \<le> flushed f"
    by (auto simp: sealed_file_def)
  have "survives (Some f) (file_at w' (segment_name q))"
    using loss f(1) by (metis power_loss_def)
  with f obtain g where g: "file_at w' (segment_name q) = Some g" "readable g = readable f"
    "prefix (content g) (content f)" "length (content f) \<le> length (content g)"
    by (auto simp: survives_def split: option.splits)
  then have "content g = content f" by (auto simp: prefix_def)
  with f g show ?thesis by (simp add: fs_read_def)
qed

lemma power_loss_log:
  assumes log: "wal_log h w cl sq (rs1 @ rs2) []" and sealed: "\<forall>q \<in> fst ` set cl. sealed_file w q"
    and cur: "file_at w (segment_name sq) = Some f" "linked f" "length (frames h rs1) \<le> flushed f"
    and loss: "power_loss w w'"
  shows "\<exists>j. disk_holds h w' (log_recs cl @ rs1 @ take j rs2)"
proof -
  have cf: "content f = frames h rs1 @ frames h rs2" "readable f"
    using log cur by (auto simp: wal_log_def fs_read_def split: if_splits)
  from loss have "survives (Some f) (file_at w' (segment_name sq))"
    using cur by (metis power_loss_def)
  with cur cf obtain g where g: "file_at w' (segment_name sq) = Some g" "readable g"
    "prefix (content g) (frames h rs1 @ frames h rs2)" "length (frames h rs1) \<le> length (content g)"
    by (auto simp: survives_def split: option.splits)
  then obtain bs where bs: "content g = frames h rs1 @ bs" "prefix bs (frames h rs2)"
    by (metis append_eq_append_conv_if prefix_append prefix_def same_prefix_prefix prefix_length_prefix)
  have "list_all rec_ok rs2" using log by (simp add: wal_log_def)
  from prefix_frames [OF this bs(2)] obtain j t where jt: "bs = frames h (take j rs2) @ t" "torn h t" by blast
  have rd: "fs_read w' (segment_name sq) = Inr (frames h (rs1 @ take j rs2) @ t)"
    using g bs jt by (simp add: fs_read_def)
  have sg: "segs_at h w' cl = segs_at h w cl"
    by (rule segs_at_cong) (use loss sealed power_loss_sealed in blast)
  have nm: "set (fs_names w') \<subseteq> set (fs_names w)"
  proof
    fix p assume "p \<in> set (fs_names w')"
    then have "file_at w' p \<noteq> None" by (simp add: fs_exists_names [symmetric] fs_exists_def)
    moreover have "survives (file_at w p) (file_at w' p)" using loss by (simp add: power_loss_def)
    ultimately have "file_at w p \<noteq> None" by (auto simp: survives_def split: option.splits)
    then show "p \<in> set (fs_names w)" by (simp add: fs_exists_names [symmetric] fs_exists_def)
  qed
  have inc: "increasing None (log_recs cl @ rs1 @ take j rs2)"
    by (rule increasing_subseq [of _ "log_recs cl @ rs1 @ rs2"])
       (use log in \<open>auto simp: wal_log_def subseq_append' prefix_imp_subseq take_is_prefix\<close>)
  have "wal_log h w' cl sq (rs1 @ take j rs2) t"
    using log loss nm rd sg jt inc
    by (auto simp: wal_log_def only_segments_def power_loss_def list_all_iff dest: in_set_takeD)
  from wal_log_holds [OF this] show ?thesis by auto
qed

lemma sync_ok:
  assumes "wal_sync (self, w) = (Inr (), self', w')"
  shows "self' = self" "same_bytes w w'"
    "file_at w' q = (if q = wfile self
      then map_option (\<lambda>f. f\<lparr>flushed := length (content f)\<rparr>) (file_at w q) else file_at w q)"
proof -
  have r: "fst (fs_sync (wfile self) w)" "w' = snd (fs_sync (wfile self) w)" and s: "self' = self"
    using assms by (auto simp: wal_sync_def and_then_Inr io_try_Inr)
  then have "next_fault w = None" by (auto simp: fs_sync_def split: option.splits)
  then show "file_at w' q = (if q = wfile self
      then map_option (\<lambda>f. f\<lparr>flushed := length (content f)\<rparr>) (file_at w q) else file_at w q)"
    using r by (simp add: sync_file_at)
  show "self' = self" by (rule s)
  show "same_bytes w w'" using r fs_sync_bytes by simp
qed

lemma sync_power_loss:
  assumes hold: "wal_holds h n (self, w) recs" and dur: "durable (self, w)"
    and run: "wal_sync (self, w) = (Inr (), self', w')" and loss: "power_loss w' w''"
  shows "disk_holds h w'' recs"
proof -
  from hold obtain cl rs where rep: "wal_rep h (self, w) cl rs" and recs: "recs = log_recs cl @ rs"
    by (auto simp: wal_holds_def)
  note sy = sync_ok [OF run]
  have log: "wal_log h w' cl (seq self) (rs @ []) []"
    using rep sy(2) by (simp add: wal_rep_def wal_log_same)
  have wf: "wfile self = segment_name (seq self)" and clo: "fst ` set (closed self) = fst ` set cl"
    using rep by (auto simp: wal_rep_def image_iff) force+
  have sealed: "\<forall>q \<in> fst ` set cl. sealed_file w' q"
  proof
    fix q assume q: "q \<in> fst ` set cl"
    then have "sealed_file w' q = sealed_file w q"
      using wal_rep_ne(1) [OF rep, of q] clo by (intro sealed_file_cong) (simp add: sy(3))
    moreover have "sealed_file w q" using dur q clo by (simp add: durable_def del: ball_simps)
    ultimately show "sealed_file w' q" by simp
  qed
  from dur obtain f where f: "file_at w (segment_name (seq self)) = Some f" "linked f"
    by (auto simp: durable_def linked_file_def)
  then have f': "file_at w' (segment_name (seq self)) = Some (f\<lparr>flushed := length (content f)\<rparr>)"
    by (simp add: sy(3) wf)
  moreover have "content f = frames h rs"
    using rep f by (auto simp: wal_rep_def wal_log_def fs_read_def split: if_splits)
  ultimately obtain j where "disk_holds h w'' (log_recs cl @ rs @ take j [])"
    using power_loss_log [OF log sealed f' _ _ loss] f by auto
  with recs show ?thesis by simp
qed

subsection \<open>The log interface\<close>

text \<open>What the engine relies on: an append adds its record at the end, and reclaiming up to a
  watermark drops records but none above it. The first argument of \<open>holds\<close> is how many more
  operations the store has room for.\<close>

datatype log_op = AppendOp wal_record | ReclaimOp nat

fun op_recs :: "log_op list \<Rightarrow> wal_record list" where
  "op_recs [] = []"
| "op_recs (AppendOp r # ops) = r # op_recs ops"
| "op_recs (ReclaimOp wm # ops) = op_recs ops"

fun op_mark :: "log_op list \<Rightarrow> nat" where
  "op_mark [] = 0"
| "op_mark (AppendOp r # ops) = op_mark ops"
| "op_mark (ReclaimOp wm # ops) = max wm (op_mark ops)"

fun run_ops ::
  "(wal_record \<Rightarrow> 's \<Rightarrow> ('s, unit) outcome) \<Rightarrow> (nat \<Rightarrow> 's \<Rightarrow> ('s, unit) outcome) \<Rightarrow> log_op list \<Rightarrow> 's \<Rightarrow>
     ('s, unit) outcome" where
  "run_ops app rcl [] s = (Inr (), s)"
| "run_ops app rcl (AppendOp r # ops) s = and_then id (app r s) (\<lambda>_ s. run_ops app rcl ops s)"
| "run_ops app rcl (ReclaimOp wm # ops) s = and_then id (rcl wm s) (\<lambda>_ s. run_ops app rcl ops s)"

locale log_store =
  fixes holds :: "nat \<Rightarrow> 's \<Rightarrow> wal_record list \<Rightarrow> bool"
    and app :: "wal_record \<Rightarrow> 's \<Rightarrow> ('s, unit) outcome"
    and rcl :: "nat \<Rightarrow> 's \<Rightarrow> ('s, unit) outcome"
  assumes app_ok: "holds (Suc n) s recs \<Longrightarrow> rec_ok r \<Longrightarrow> increasing None (recs @ [r]) \<Longrightarrow>
      app r s = (Inr (), s') \<Longrightarrow> holds n s' (recs @ [r])"
    and rcl_ok: "holds (Suc n) s recs \<Longrightarrow> rcl wm s = (Inr (), s') \<Longrightarrow>
      \<exists>recs'. holds n s' recs' \<and> subseq recs' recs \<and> live wm recs' = live wm recs"
begin

lemma run_keeps_live:
  "holds (length ops + n) s recs \<Longrightarrow> list_all rec_ok (op_recs ops) \<Longrightarrow>
   increasing None (recs @ op_recs ops) \<Longrightarrow> run_ops app rcl ops s = (Inr (), s') \<Longrightarrow>
   \<exists>recs'. holds n s' recs' \<and> subseq recs' (recs @ op_recs ops) \<and>
     live (op_mark ops) recs' = live (op_mark ops) (recs @ op_recs ops)"
proof (induction ops arbitrary: s recs)
  case Nil
  then show ?case by auto
next
  case (Cons x ops)
  show ?case
  proof (cases x)
    case (AppendOp r)
    with Cons.prems obtain s1 where "app r s = (Inr (), s1)" and
      rest: "run_ops app rcl ops s1 = (Inr (), s')" by (auto simp: and_then_Inr)
    with Cons.prems AppendOp have "holds (length ops + n) s1 (recs @ [r])"
      by (intro app_ok) auto
    with Cons.IH [OF this _ _ rest] Cons.prems AppendOp show ?thesis by simp
  next
    case (ReclaimOp wm)
    with Cons.prems obtain s1 where "rcl wm s = (Inr (), s1)" and
      rest: "run_ops app rcl ops s1 = (Inr (), s')" by (auto simp: and_then_Inr)
    with Cons.prems ReclaimOp obtain recs1 where
      r1: "holds (length ops + n) s1 recs1" "subseq recs1 recs" "live wm recs1 = live wm recs"
      using rcl_ok [of "length ops + n" s recs wm s1] by auto
    have sub: "subseq (recs1 @ op_recs ops) (recs @ op_recs ops)" using r1 by (simp add: subseq_append)
    have "increasing None (recs1 @ op_recs ops)"
      by (rule increasing_subseq [OF sub]) (use Cons.prems ReclaimOp in simp)
    with Cons.IH [OF r1(1) _ _ rest] Cons.prems ReclaimOp obtain recs' where
      r2: "holds n s' recs'" "subseq recs' (recs1 @ op_recs ops)"
        "live (op_mark ops) recs' = live (op_mark ops) (recs1 @ op_recs ops)" by auto
    have mono: "live (max wm m) ys = live (max wm m) zs" if "live k ys = live k zs" "k \<le> max wm m" for k m ys zs
    proof -
      have "live (max wm m) xs = live (max wm m) (live k xs)" for xs
        using that(2) by (auto intro!: filter_cong)
      with that(1) show ?thesis by metis
    qed
    have "live (max wm (op_mark ops)) recs' = live (max wm (op_mark ops)) (recs1 @ op_recs ops)"
      by (rule mono [OF r2(3)]) simp
    also have "\<dots> = live (max wm (op_mark ops)) (recs @ op_recs ops)"
      using mono [OF r1(3), of "op_mark ops"] by simp
    finally have "live (op_mark (x # ops)) recs' = live (op_mark (x # ops)) (recs @ op_recs (x # ops))"
      using ReclaimOp by simp
    moreover have "subseq recs' (recs @ op_recs (x # ops))"
      using subseq_order.trans [OF r2(2) sub] ReclaimOp by simp
    ultimately show ?thesis using r2(1) by blast
  qed
qed

end

definition wal_store_holds :: "hash \<Rightarrow> nat \<Rightarrow> wal_state \<Rightarrow> wal_record list \<Rightarrow> bool" where
  "wal_store_holds h n st recs \<longleftrightarrow> wal_holds h n st recs \<and> durable st"

definition append_rec :: "hash \<Rightarrow> wal_record \<Rightarrow> wal_state \<Rightarrow> (wal_state, unit) outcome" where
  "append_rec h r st = wal_append h (lsn r) (sig_tag r) (payload r) st"

interpretation wal_log: log_store "wal_store_holds h" "append_rec h" wal_reclaim for h
proof
  fix n s recs r s'
  assume a: "wal_store_holds h (Suc n) s recs" "rec_ok r" "increasing None (recs @ [r])"
    "append_rec h r s = (Inr (), s')"
  obtain self w self' w' where s: "s = (self, w)" "s' = (self', w')" by (cases s, cases s')
  with a show "wal_store_holds h n s' (recs @ [r])"
    using append_cases [of h n self w recs r "Inr ()" self' w'] append_durable [of h n self w recs r self' w']
    by (simp add: wal_store_holds_def append_rec_def)
next
  fix n s recs wm s'
  assume a: "wal_store_holds h (Suc n) s recs" "wal_reclaim wm s = (Inr (), s')"
  obtain self w self' w' where s: "s = (self, w)" "s' = (self', w')" by (cases s, cases s')
  with a have "durable (self', w')" using reclaim_durable [of h n self w recs wm self' w']
    by (simp add: wal_store_holds_def)
  with a s show "\<exists>recs'. wal_store_holds h n s' recs' \<and> subseq recs' recs \<and> live wm recs' = live wm recs"
    using reclaim_cases [of h n self w recs wm "Inr ()" self' w'] by (auto simp: wal_store_holds_def)
qed

end
