(* ===== verification/Wal_Cursor.thy ===== *)
theory Wal_Cursor
  imports Wal_Store
begin

text \<open>
  The incremental cursor of a read-only handle (\<open>WalTailCursor\<close>): advancing it over a log that
  has grown, lost superseded segments or gained new ones reads the bytes appended since the last
  call only, and ends with the frames a scan of the whole log gives.
\<close>

subsection \<open>Resuming a scan\<close>

text \<open>Scanning may stop anywhere and go on from the bytes consumed: for every split of the bytes,
  torn or not.\<close>

lemma scan_resume:
  "scan_frames h xs l = (r1, n1, c1) \<Longrightarrow>
   scan_frames h (xs @ ys) l =
     (case scan_frames h (drop n1 (xs @ ys)) (upd_last r1 l) of
        (r2, n2, c2) \<Rightarrow> (r1 @ r2, n1 + n2, c2))"
proof (induction h xs l arbitrary: r1 n1 c1 rule: scan_frames.induct)
  case (1 h bs l)
  let ?len = "le_val (take 4 bs)" and ?ck = "le_val (take 8 (drop 4 bs))"
    and ?l = "le_val (take 8 (drop 12 bs))"
  let ?stop = "HEADER + ?len"
  let ?p = "take ?len (drop HEADER bs)"
  let ?good = "\<not> length bs < HEADER \<and> \<not> length bs < ?stop \<and> checksum h ?len ?l (bs ! 20) ?p = ?ck \<and>
    \<not> (case l of None \<Rightarrow> False | Some prev \<Rightarrow> ?l \<le> prev)"
  show ?case
  proof (cases ?good)
    case False
    then have "r1 = []" "n1 = 0"
      using "1.prems" by (auto simp: scan_frames.simps [of h bs] Let_def split: if_splits)
    then show ?thesis by (simp split: prod.split)
  next
    case True
    obtain rs n c where rest: "scan_frames h (drop ?stop bs) (Some ?l) = (rs, n, c)"
      by (cases "scan_frames h (drop ?stop bs) (Some ?l)") auto
    have r1: "r1 = \<lparr>lsn = ?l, sig_tag = bs ! 20, payload = ?p\<rparr> # rs" "n1 = ?stop + n"
      using "1.prems" True rest by (auto simp: scan_frames.simps [of h bs] Let_def)
    have ih: "scan_frames h (drop ?stop bs @ ys) (Some ?l) =
       (case scan_frames h (drop n (drop ?stop bs @ ys)) (upd_last rs (Some ?l)) of
          (r2, n2, c2) \<Rightarrow> (rs @ r2, n + n2, c2))"
      by (rule "1.IH" [OF _ refl refl refl refl refl _ refl _ _ rest]) (use True in auto)
    have hd: "take 4 (bs @ ys) = take 4 bs" "take 8 (drop 4 (bs @ ys)) = take 8 (drop 4 bs)"
      "take 8 (drop 12 (bs @ ys)) = take 8 (drop 12 bs)" "(bs @ ys) ! 20 = bs ! 20"
      "take ?len (drop HEADER (bs @ ys)) = ?p" "drop ?stop (bs @ ys) = drop ?stop bs @ ys"
      using True by (auto simp: HEADER_def nth_append)
    have "scan_frames h (bs @ ys) l =
      (case scan_frames h (drop ?stop bs @ ys) (Some ?l) of
         (qs, m, d) \<Rightarrow> (\<lparr>lsn = ?l, sig_tag = bs ! 20, payload = ?p\<rparr> # qs, ?stop + m, d))"
      using True by (subst scan_frames.simps) (auto simp: hd Let_def simp del: take_append drop_append)
    moreover have "drop n1 (bs @ ys) = drop n (drop ?stop bs @ ys)"
      unfolding r1(2) by (metis drop_drop hd(6) add.commute)
    ultimately show ?thesis using r1 by (simp add: ih split: prod.split)
  qed
qed

subsection \<open>One pass over the segments\<close>

abbreviation offset :: "wal_tail_cursor \<Rightarrow> nat \<Rightarrow> nat" where
  "offset c q \<equiv> (case map_of (offsets c) q of None \<Rightarrow> 0 | Some n \<Rightarrow> n)"

text \<open>Segments as number, frames scanned before and frames to scan; the last one may end torn.\<close>

fun tail_at :: "hash \<Rightarrow> world \<Rightarrow> (nat \<times> wal_record list \<times> wal_record list) list \<Rightarrow> bytes \<Rightarrow> bool" where
  "tail_at h w [] t = True"
| "tail_at h w ((q, old, new) # xs) t =
     (fs_read w (segment_name q) = Inr (frames h (old @ new) @ (if xs = [] then t else [])) \<and>
      tail_at h w xs t)"

abbreviation news :: "(nat \<times> wal_record list \<times> wal_record list) list \<Rightarrow> wal_record list" where
  "news xs \<equiv> concat (map (\<lambda>x. snd (snd x)) xs)"

lemma cursor_loop_tail:
  "tail_at h w xs t \<Longrightarrow> torn h t \<Longrightarrow> distinct (map fst xs) \<Longrightarrow>
   \<forall>(q, old, new) \<in> set xs. offset c q = length (frames h old) \<Longrightarrow>
   list_all rec_ok (news xs) \<Longrightarrow> increasing (cur_last_lsn c) (news xs) \<Longrightarrow>
   \<exists>c'. cursor_loop h w (map (\<lambda>x. (fst x, segment_name (fst x))) xs) c = (Inr (), c') \<and>
     cur_frames c' = cur_frames c @ news xs \<and>
     cur_last_lsn c' = upd_last (news xs) (cur_last_lsn c) \<and>
     (\<forall>q. offset c' q =
        (case map_of xs q of None \<Rightarrow> offset c q | Some (old, new) \<Rightarrow> length (frames h (old @ new))))"
proof (induction xs arbitrary: c)
  case Nil
  then show ?case by simp
next
  case (Cons x xs)
  obtain q old new where x: "x = (q, old, new)" by (cases x)
  define u where "u = (if xs = [] then t else [])"
  have u: "torn h u" "u \<noteq> [] \<Longrightarrow> xs = []" using Cons.prems(2) by (auto simp: u_def split: if_splits)
  have off: "offset c q = length (frames h old)" using Cons.prems(4) x by auto
  have rd: "read_segment_from w (segment_name q) (offset c q) = Inr (frames h new @ u)"
    using Cons.prems(1) x by (simp add: read_segment_from_def off u_def)
  have nw: "list_all rec_ok new" "increasing (cur_last_lsn c) new" using Cons.prems x by auto
  have tl: "tail_at h w xs t" "distinct (map fst xs)" "q \<notin> fst ` set xs"
    "list_all rec_ok (news xs)" "increasing (upd_last new (cur_last_lsn c)) (news xs)"
    using Cons.prems x by auto
  show ?case
  proof (cases "frames h new @ u = []")
    case True
    then have "new = []" by (cases new) auto
    have "\<forall>(q, old, new) \<in> set xs. offset c q = length (frames h old)" using Cons.prems(4) by auto
    moreover have "increasing (cur_last_lsn c) (news xs)" using tl(5) \<open>new = []\<close> by simp
    ultimately obtain c' where
      c': "cursor_loop h w (map (\<lambda>x. (fst x, segment_name (fst x))) xs) c = (Inr (), c')"
      "cur_frames c' = cur_frames c @ news xs" "cur_last_lsn c' = upd_last (news xs) (cur_last_lsn c)"
      "\<forall>q. offset c' q =
        (case map_of xs q of None \<Rightarrow> offset c q | Some (old, new) \<Rightarrow> length (frames h (old @ new)))"
      using Cons.IH [of c, OF tl(1) Cons.prems(2) tl(2) _ tl(4)] by blast
    have "map_of xs q = None" using tl(3) by (simp add: map_of_eq_None_iff)
    with c' True rd x \<open>new = []\<close> off show ?thesis by (intro exI [of _ c']) (auto simp: Let_def)
  next
    case False
    let ?c = "c\<lparr>cur_last_lsn := upd_last new (cur_last_lsn c),
       offsets := AList.update q (length (frames h old) + length (frames h new)) (offsets c),
       cur_frames := cur_frames c @ new\<rparr>"
    have sc: "scan_frames h (frames h new @ u) (cur_last_lsn c) = (new, length (frames h new), u = [])"
      by (rule scan_frames_torn [OF nw u(1)])
    have step: "cursor_loop h w (map (\<lambda>x. (fst x, segment_name (fst x))) (x # xs)) c =
       (if u = [] then cursor_loop h w (map (\<lambda>x. (fst x, segment_name (fst x))) xs) ?c else (Inr (), ?c))"
      using rd sc False off x by (cases "u = []") (simp_all add: Let_def)
    have "\<forall>(p, old, new) \<in> set xs. offset ?c p = length (frames h old)"
      using Cons.prems(4) tl(3) by (force split: option.splits)
    moreover have "increasing (cur_last_lsn ?c) (news xs)" using tl(5) by simp
    ultimately have "\<exists>c'. cursor_loop h w (map (\<lambda>x. (fst x, segment_name (fst x))) xs) ?c = (Inr (), c') \<and>
     cur_frames c' = cur_frames ?c @ news xs \<and> cur_last_lsn c' = upd_last (news xs) (cur_last_lsn ?c) \<and>
     (\<forall>q. offset c' q =
        (case map_of xs q of None \<Rightarrow> offset ?c q | Some (old, new) \<Rightarrow> length (frames h (old @ new))))"
      by (rule Cons.IH [of ?c, OF tl(1) Cons.prems(2) tl(2) _ tl(4)])
    then obtain c' where
      c': "cursor_loop h w (map (\<lambda>x. (fst x, segment_name (fst x))) xs) ?c = (Inr (), c')"
      "cur_frames c' = cur_frames c @ new @ news xs"
      "cur_last_lsn c' = upd_last (news xs) (upd_last new (cur_last_lsn c))"
      "\<forall>q. offset c' q =
        (case map_of xs q of None \<Rightarrow> offset ?c q | Some (old, new) \<Rightarrow> length (frames h (old @ new)))"
      by (auto simp del: map_map)
    have none: "map_of xs q = None" using tl(3) by (simp add: map_of_eq_None_iff)
    show ?thesis
    proof (cases "u = []")
      case True
      with c' step x none show ?thesis by (intro exI [of _ c']) (auto split: option.splits)
    next
      case False
      with u have "xs = []" by simp
      with False step x show ?thesis by (intro exI [of _ ?c]) auto
    qed
  qed
qed

subsection \<open>Refreshing a snapshot\<close>

text \<open>A cursor that has scanned a log: its offsets stand after the frames of every segment.\<close>

definition cursor_at ::
  "hash \<Rightarrow> wal_tail_cursor \<Rightarrow> (nat \<times> wal_record list) list \<Rightarrow> nat \<Rightarrow> wal_record list \<Rightarrow> bool" where
  "cursor_at h c cl sq rs \<longleftrightarrow>
     (\<forall>(q, qs) \<in> set (cl @ [(sq, rs)]). offset c q = length (frames h qs)) \<and>
     (\<forall>q > sq. offset c q = 0) \<and> cur_last_lsn c = upd_last (log_recs cl @ rs) None"

text \<open>How a log may have changed since: closed segments may be gone if every frame they had is at or
  below the watermark, the then current one may have grown (or be gone as well), new ones may have
  been added.\<close>

definition grown ::
  "nat \<Rightarrow> (nat \<times> wal_record list) list \<Rightarrow> nat \<Rightarrow> wal_record list \<Rightarrow>
   (nat \<times> wal_record list) list \<Rightarrow> nat \<Rightarrow> wal_record list \<Rightarrow> bool" where
  "grown wm cl sq rs cl2 sq2 rs2 \<longleftrightarrow>
     (\<exists>cl' new more.
        subseq cl' cl \<and> live wm (log_recs cl') = live wm (log_recs cl) \<and>
        (cl2 @ [(sq2, rs2)] = cl' @ (sq, rs @ new) # more \<or>
         cl2 @ [(sq2, rs2)] = cl' @ more \<and> live wm rs = [] \<and> new = []) \<and>
        (\<forall>(q, qs) \<in> set more. sq < q) \<and>
        list_all rec_ok (new @ log_recs more) \<and>
        increasing None (log_recs cl @ rs @ new @ log_recs more))"

lemma cursor_advance_log:
  assumes log: "wal_log h w cl sq rs t" and xs: "map fst xs = map fst cl @ [sq]" "tail_at h w xs t"
    and off: "\<forall>(q, old, new) \<in> set xs. offset c q = length (frames h old)"
    and rec: "list_all rec_ok (news xs)" "increasing (cur_last_lsn c) (news xs)"
  shows "\<exists>c'. cursor_advance h w c = (Inr (), c') \<and> cur_frames c' = cur_frames c @ news xs \<and>
     cur_last_lsn c' = upd_last (news xs) (cur_last_lsn c) \<and>
     (\<forall>q. offset c' q = (case map_of xs q of None \<Rightarrow> 0 | Some (old, new) \<Rightarrow> length (frames h (old @ new))))"
proof -
  let ?c = "c\<lparr>offsets := filter (\<lambda>(q, n). q \<in> set (map fst xs)) (offsets c)\<rparr>"
  have keep: "map_of (filter (\<lambda>(q, n). q \<in> S) os) p = (if p \<in> S then map_of os p else None)"
    for S p and os :: "(nat \<times> nat) list" by (induction os) auto
  have "distinct (map fst xs)" using log xs by (simp add: wal_log_def strict_sorted_iff)
  moreover have "torn h t" using log by (simp add: wal_log_def)
  moreover have "\<forall>(q, old, new) \<in> set xs. offset ?c q = length (frames h old)"
    using off by (force simp: keep)
  ultimately obtain c' where
    c': "cursor_loop h w (map (\<lambda>x. (fst x, segment_name (fst x))) xs) ?c = (Inr (), c')"
    "cur_frames c' = cur_frames c @ news xs" "cur_last_lsn c' = upd_last (news xs) (cur_last_lsn c)"
    "\<forall>q. offset c' q =
        (case map_of xs q of None \<Rightarrow> offset ?c q | Some (old, new) \<Rightarrow> length (frames h (old @ new)))"
    using cursor_loop_tail [OF xs(2), of ?c] rec by auto
  have "list_segments w = Inr (map (\<lambda>x. (fst x, segment_name (fst x))) xs)"
    using wal_log_list_segments [OF log] unfolding xs(1) [symmetric] by (simp add: comp_def)
  then have "cursor_advance h w c = (Inr (), c')" using c'(1) by (simp add: cursor_advance_def comp_def)
  moreover have "offset c' q = (case map_of xs q of None \<Rightarrow> 0 | Some (old, new) \<Rightarrow> length (frames h (old @ new)))" for q
  proof (cases "map_of xs q")
    case None
    then have "q \<notin> set (map fst xs)" by (simp add: map_of_eq_None_iff)
    then have "offset ?c q = 0" by (simp add: keep)
    with c'(4) None show ?thesis by simp
  qed (use c'(4) in simp)
  ultimately show ?thesis using c' by blast
qed

lemma tail_at_log:
  "map (\<lambda>x. (fst x, fst (snd x) @ snd (snd x))) xs = cl @ [(sq, rs)] \<Longrightarrow> segs_at h w cl \<Longrightarrow>
   fs_read w (segment_name sq) = Inr (frames h rs @ t) \<Longrightarrow> tail_at h w xs t"
proof (induction xs arbitrary: cl)
  case (Cons x xs)
  obtain q old new where x: "x = (q, old, new)" by (cases x)
  show ?case
  proof (cases cl)
    case Nil
    with Cons.prems x show ?thesis by auto
  next
    case (Cons c cl')
    with Cons.prems x have "xs \<noteq> []" by auto
    with Cons Cons.prems x Cons.IH [of cl'] show ?thesis by auto
  qed
qed simp

lemma cursor_first:
  assumes log: "wal_log h w cl sq rs t"
  shows "\<exists>c. cursor_advance h w fresh_cursor = (Inr (), c) \<and> cur_frames c = log_recs cl @ rs \<and>
    cursor_at h c cl sq rs"
proof -
  let ?xs = "map (\<lambda>(q, qs). (q, [] :: wal_record list, qs)) (cl @ [(sq, rs)])"
  have nw: "news ?xs = log_recs cl @ rs"
    by (simp add: log_recs_def comp_def split_def)
  have fs: "map fst ?xs = map fst cl @ [sq]" by (simp add: comp_def split_def)
  have "map (\<lambda>x. (fst x, fst (snd x) @ snd (snd x))) ?xs = cl @ [(sq, rs)]"
    by (simp add: comp_def split_def)
  then have tl: "tail_at h w ?xs t"
    by (rule tail_at_log) (use log in \<open>auto simp: wal_log_def\<close>)
  have "\<exists>c'. cursor_advance h w fresh_cursor = (Inr (), c') \<and> cur_frames c' = cur_frames fresh_cursor @ news ?xs \<and>
     cur_last_lsn c' = upd_last (news ?xs) (cur_last_lsn fresh_cursor) \<and>
     (\<forall>q. offset c' q = (case map_of ?xs q of None \<Rightarrow> 0 | Some (old, new) \<Rightarrow> length (frames h (old @ new))))"
    by (rule cursor_advance_log [OF log fs tl]) (use log nw in \<open>auto simp: fresh_cursor_def wal_log_def\<close>)
  then obtain c where c: "cursor_advance h w fresh_cursor = (Inr (), c)" "cur_frames c = log_recs cl @ rs"
    "cur_last_lsn c = upd_last (log_recs cl @ rs) None"
    "\<And>q. offset c q = (case map_of ?xs q of None \<Rightarrow> 0 | Some (old, new) \<Rightarrow> length (frames h (old @ new)))"
    unfolding nw by (auto simp: fresh_cursor_def)
  have dist: "distinct (map fst ?xs)" unfolding fs using log by (simp add: wal_log_def strict_sorted_iff)
  have "offset c q = length (frames h qs)" if "(q, qs) \<in> set (cl @ [(sq, rs)])" for q qs
  proof -
    from that have "(q, [], qs) \<in> set ?xs" by force
    with dist have "map_of ?xs q = Some ([], qs)" by (rule map_of_is_SomeI)
    with c(4) [of q] show ?thesis by (simp only: option.case prod.case append_Nil)
  qed
  moreover have "offset c q = 0" if "sq < q" for q
  proof -
    have "q \<notin> set (map fst ?xs)" unfolding fs using that wal_log_seqs [OF log, of q] by auto
    then have "map_of ?xs q = None" by (simp only: map_of_eq_None_iff set_map not_False_eq_True)
    with c(4) [of q] show ?thesis by (simp only: option.case)
  qed
  ultimately show ?thesis using c by (auto simp: cursor_at_def)
qed

lemma cursor_refresh:
  assumes at: "cursor_at h c cl sq rs" and fr: "cur_frames c = recs" "live wm recs = live wm (log_recs cl @ rs)"
    and log2: "wal_log h w2 cl2 sq2 rs2 t2" and gr: "grown wm cl sq rs cl2 sq2 rs2"
  shows "\<exists>c'. cursor_advance h w2 c = (Inr (), c') \<and>
    cur_frames (prune_sealed wm c') = live wm (log_recs cl2 @ rs2)"
proof -
  from gr obtain cl' new more where sub: "subseq cl' cl" and lv: "live wm (log_recs cl') = live wm (log_recs cl)"
    and seg: "cl2 @ [(sq2, rs2)] = cl' @ (sq, rs @ new) # more \<or>
         cl2 @ [(sq2, rs2)] = cl' @ more \<and> live wm rs = [] \<and> new = []"
    and more: "\<forall>(q, qs) \<in> set more. sq < q" and ok: "list_all rec_ok (new @ log_recs more)"
    and inc: "increasing None (log_recs cl @ rs @ new @ log_recs more)"
    by (auto simp: grown_def)
  let ?cur = "if cl2 @ [(sq2, rs2)] = cl' @ (sq, rs @ new) # more then [(sq, rs, new)] else []"
  let ?xs = "map (\<lambda>(q, qs). (q, qs, [])) cl' @ ?cur @ map (\<lambda>(q, qs). (q, [], qs)) more"
  have mp: "map (\<lambda>x. (fst x, fst (snd x) @ snd (snd x))) ?xs = cl2 @ [(sq2, rs2)]"
    using seg by (auto simp: comp_def split_def)
  have nw: "news ?xs = new @ log_recs more"
    using seg by (auto simp: log_recs_def comp_def split_def)
  have fs: "map fst ?xs = map fst cl2 @ [sq2]"
    using arg_cong [OF mp, of "map fst"] by (simp add: comp_def split_def)
  have tl: "tail_at h w2 ?xs t2"
    using mp by (rule tail_at_log) (use log2 in \<open>auto simp: wal_log_def\<close>)
  have off: "\<forall>(q, old, nw) \<in> set ?xs. offset c q = length (frames h old)"
    using at subseq_set [OF sub] more by (auto simp: cursor_at_def split: if_splits)
  have "\<exists>c'. cursor_advance h w2 c = (Inr (), c') \<and> cur_frames c' = cur_frames c @ news ?xs \<and>
     cur_last_lsn c' = upd_last (news ?xs) (cur_last_lsn c) \<and>
     (\<forall>q. offset c' q = (case map_of ?xs q of None \<Rightarrow> 0 | Some (old, new) \<Rightarrow> length (frames h (old @ new))))"
    by (rule cursor_advance_log [OF log2 fs tl off]) (use nw ok inc at in \<open>auto simp: cursor_at_def\<close>)
  then obtain c' where c': "cursor_advance h w2 c = (Inr (), c')" "cur_frames c' = recs @ new @ log_recs more"
    unfolding nw using fr by auto
  have "log_recs cl2 @ rs2 = log_recs (cl2 @ [(sq2, rs2)])" by simp
  also have "live wm \<dots> = live wm (log_recs cl @ rs @ new @ log_recs more)"
    using seg lv by (elim disjE conjE) (simp_all only: log_recs_simps filter_append append_Nil append.assoc)
  finally show ?thesis using c' fr by (auto simp: prune_sealed_def)
qed

end
