(* ===== verification/Wal_Properties.thy ===== *)
theory Wal_Properties
  imports Wal_Cursor
begin

text \<open>
  The properties of the write-ahead log: what a scan returns, what every I/O fault leaves behind,
  what survives a power loss, reopening, the incremental cursor, and two behaviours at the edges
  that lose acknowledged frames.
\<close>

subsection \<open>Opening an empty directory\<close>

lemma open_empty_holds:
  assumes "only_segments w {}" and run: "open_with_rotate h rb w = (Inr self, w')"
  shows "wal_store_holds h (u64_max - 1) (self, w') []"
proof -
  have one: "(1 :: nat) \<le> u64_max" by (simp add: u64_max_def)
  have notin: "segment_name 1 \<notin> set (fs_names w)"
    using assms(1) parse_segment_name [OF one] by (auto simp: only_segments_def)
  have "list_segments (tick w) = Inr (map (\<lambda>q. (q, segment_name q)) [])"
    by (rule list_segments_sorted) (use assms(1) in \<open>simp_all add: only_segments_def\<close>)
  then have ls: "list_segments (tick w) = Inr []" by simp
  let ?w = "put_file (segment_name 1) new_file (tick (tick w))"
  from run ls notin have s: "self = \<lparr>seq = 1, wfile = segment_name 1, current_bytes = 0,
      current_max_lsn = 0, rotate_bytes = rb, closed = []\<rparr>"
    and d: "fst (fs_sync_dir ?w)" "w' = snd (fs_sync_dir ?w)"
    by (auto simp: open_with_rotate_def and_then_Inr io_try_Inr fs_create_dir_all_def open_append_file_def
        fs_open_append_def fsync_dir_def fs_exists_names split: option.splits)
  have "wal_log h ?w [] 1 [] []"
    using assms(1) notin one by (auto simp: wal_log_def only_segments_def new_file_def)
  then have "wal_log h w' [] 1 [] []" using d fs_sync_dir_bytes [of ?w] by (simp add: wal_log_same)
  then have "wal_rep h (self, w') [] []" by (simp add: wal_rep_def s)
  moreover have "durable (self, w')"
    using d by (simp add: durable_def linked_file_def s sync_dir_file_at)
  ultimately show ?thesis using one s by (auto simp: wal_store_holds_def intro: wal_holdsI)
qed

lemma power_loss_refl: "distinct (fs_names w) \<Longrightarrow> power_loss w w"
  by (auto simp: power_loss_def survives_def split: option.splits)

subsection \<open>Scanning\<close>

text \<open>C16. A scan of any encoded frames followed by a cut-off part of another frame
  returns exactly the whole frames and the offset after them, and reports a clean end only when
  nothing was cut off, whatever the checksum function.\<close>

theorem wal_scan_torn:
  assumes "list_all rec_ok rs" "increasing None rs" "rec_ok r" "k < length (frame h r)"
  shows "scan_frames h (frames h rs @ take k (frame h r)) None = (rs, length (frames h rs), k = 0)"
  using scan_frames_torn [OF assms(1,2) torn_take [OF assms(3,4)]] by simp

text \<open>C18. A scan may stop at the end of the bytes seen so far and be resumed from
  the offset it reports once more bytes have been appended: for every split of every byte string the
  two scans together return what one scan of all the bytes returns.\<close>

theorem wal_scan_resume:
  "scan_frames h (xs @ ys) l =
     (case scan_frames h xs l of (r1, n1, c1) \<Rightarrow>
      case scan_frames h (drop n1 (xs @ ys)) (upd_last r1 l) of (r2, n2, c2) \<Rightarrow>
        (r1 @ r2, n1 + n2, c2))"
  by (cases "scan_frames h xs l") (simp add: scan_resume split: prod.split)

subsection \<open>Faults and crashes\<close>

text \<open>C14. Whatever I/O operation of an append fails, and however many bytes of
  the frame reached the file, reading the log back gives the frames from before with or without
  the new one, never anything else; a reported success means the new frame is there and the writer
  stays consistent with the directory; without a fault the append succeeds.\<close>

theorem wal_append_any_fault:
  assumes "wal_holds h (Suc n) (self, w) recs" "rec_ok r" "increasing None (recs @ [r])"
    and "wal_append h (lsn r) (sig_tag r) (payload r) (self, w) = (res, self', w')"
  shows "(read_all_frames h w' = Inr recs \<or> read_all_frames h w' = Inr (recs @ [r])) \<and>
    (res = Inr () \<longrightarrow> read_all_frames h w' = Inr (recs @ [r]) \<and> wal_holds h n (self', w') (recs @ [r])) \<and>
    (healthy w \<longrightarrow> res = Inr ())"
  using append_cases [OF assms] by (auto dest: disk_holds_read wal_holds_disk)

text \<open>C15. Reclaiming up to a watermark, interrupted by a fault at any point or
  not, leaves a readable log that still has every frame above the watermark, in order; after a
  reported success every closed segment left has a frame above the watermark, and without a fault
  it succeeds.\<close>

theorem wal_reclaim_any_fault:
  assumes "wal_holds h (Suc n) (self, w) recs" "wal_reclaim wm (self, w) = (res, self', w')"
  shows "\<exists>recs'. read_all_frames h w' = Inr recs' \<and> subseq recs' recs \<and> live wm recs' = live wm recs \<and>
    (res = Inr () \<longrightarrow> wal_holds h n (self', w') recs' \<and> (\<forall>(q, m) \<in> set (closed self'). wm < m)) \<and>
    (healthy w \<longrightarrow> res = Inr ())"
  using reclaim_cases [OF assms] disk_holds_read by meson

text \<open>C13. From an empty directory, after any sequence of successful appends and
  reclaims that ends with a successful sync, a power loss that cuts every file back to what was
  flushed loses no frame above the highest watermark reclaimed to: recovery reads them all, in
  order, and nothing that was not appended.\<close>

theorem wal_run_power_loss:
  assumes "only_segments w {}" "wal_open h w = (Inr self, w1)"
    and "list_all rec_ok (op_recs ops)" "increasing None (op_recs ops)" "length ops < u64_max"
    and "run_ops (append_rec h) wal_reclaim ops (self, w1) = (Inr (), st)"
    and "wal_sync st = (Inr (), self2, w2)" "power_loss w2 w3"
  shows "\<exists>recs. read_all_frames h w3 = Inr recs \<and> subseq recs (op_recs ops) \<and>
    live (op_mark ops) recs = live (op_mark ops) (op_recs ops)"
proof -
  have "wal_store_holds h (u64_max - 1) (self, w1) []"
    using assms(1,2) unfolding wal_open_def by (rule open_empty_holds)
  then have "wal_store_holds h (length ops + (u64_max - 1 - length ops)) (self, w1) []"
    using assms(5) by simp
  from wal_log.run_keeps_live [OF this assms(3) _ assms(6)] assms(4) obtain recs where
    r: "wal_store_holds h (u64_max - 1 - length ops) st recs" "subseq recs (op_recs ops)"
      "live (op_mark ops) recs = live (op_mark ops) (op_recs ops)" by auto
  obtain self' w' where st: "st = (self', w')" by (cases st)
  have "disk_holds h w3 recs"
    using r(1) assms(7,8) unfolding st by (auto simp: wal_store_holds_def intro: sync_power_loss)
  with r show ?thesis by (auto dest: disk_holds_read)
qed

text \<open>C19. Opening the directory of a consistent writer again gives a writer with the same
  current segment, the same byte count, the same closed segments and the same maximal sequence
  numbers.\<close>

theorem wal_reopen:
  assumes "wal_holds h n (self, w) recs" "healthy w"
  shows "\<exists>w'. open_with_rotate h (rotate_bytes self) w = (Inr self, w') \<and> wal_holds h n (self, w') recs"
proof -
  from assms obtain cl rs where rep: "wal_rep h (self, w) cl rs" and recs: "recs = log_recs cl @ rs"
    and room: "seq self + n \<le> u64_max" by (auto simp: wal_holds_def)
  then have log: "wal_log h w cl (seq self) rs []" by (simp add: wal_rep_def)
  have "self = \<lparr>seq = seq self, wfile = segment_name (seq self), current_bytes = length (frames h rs @ []),
      current_max_lsn = max_lsn rs, rotate_bytes = rotate_bytes self,
      closed = map (\<lambda>(q, qs). (q, max_lsn qs)) cl\<rparr>"
    using rep by (simp add: wal_rep_def)
  with open_log [OF log assms(2), of "rotate_bytes self"] obtain w' where
    w': "open_with_rotate h (rotate_bytes self) w = (Inr self, w')" "same_bytes w w'" by auto
  have "wal_rep h (self, w') cl rs" using rep w'(2) by (simp add: wal_rep_def wal_log_same)
  with w' recs room show ?thesis by (auto intro: wal_holdsI)
qed

text \<open>C17. A read-only handle that scanned the log once and advances its cursor
  after the log has grown, rotated or lost segments below the watermark holds exactly the frames
  above the watermark that a fresh scan of the whole log returns.\<close>

theorem wal_cursor_refresh:
  assumes "wal_log h w1 cl sq rs t" "cursor_advance h w1 fresh_cursor = (Inr (), c1)"
    and "wal_log h w2 cl2 sq2 rs2 t2" "grown wm cl sq rs cl2 sq2 rs2"
  shows "\<exists>c2 recs. cursor_advance h w2 c1 = (Inr (), c2) \<and> read_all_frames h w2 = Inr recs \<and>
    cur_frames (prune_sealed wm c2) = live wm recs"
proof -
  have "cur_frames c1 = log_recs cl @ rs" "cursor_at h c1 cl sq rs"
    using cursor_first [OF assms(1)] assms(2) by auto
  from cursor_refresh [OF this(2,1) _ assms(3,4)] read_all_log [OF assms(3)] show ?thesis by auto
qed

subsection \<open>A small run\<close>

definition demo_hash :: hash where "demo_hash bs = word_of_nat (length bs)"

definition demo_world :: world where "demo_world = \<lparr>dir_ok = True, files = [], faults = []\<rparr>"

definition demo_rec :: "nat \<Rightarrow> wal_record" where
  "demo_rec n = \<lparr>lsn = n, sig_tag = 0, payload = [1, 2]\<rparr>"

definition demo_state :: wal_state where
  "demo_state = (case wal_open demo_hash demo_world of (r, w) \<Rightarrow> (projr r, w))"

definition demo_run :: "(wal_state, unit) outcome" where
  "demo_run = run_ops (append_rec demo_hash) wal_reclaim
     [AppendOp (demo_rec 1), ReclaimOp 1, AppendOp (demo_rec 2)] demo_state"

lemma demo_empty: "only_segments demo_world {}"
  by (simp add: only_segments_def demo_world_def fs_names_def)

lemma demo_open: "wal_open demo_hash demo_world = (Inr (fst demo_state), snd demo_state)"
  by code_simp

lemma demo_healthy: "healthy (snd demo_state)"
  by code_simp

lemma demo_holds: "wal_holds demo_hash (Suc (u64_max - 2)) demo_state []"
  using open_empty_holds [OF demo_empty, of demo_hash ROTATE_BYTES "fst demo_state" "snd demo_state"] demo_open
  by (simp add: wal_open_def wal_store_holds_def u64_max_def)

lemma demo_rec_ok: "n \<le> u64_max \<Longrightarrow> rec_ok (demo_rec n)"
  by (simp add: rec_ok_def demo_rec_def u32_max_def)

lemma demo_small: "(1::nat) \<le> u64_max" "(2::nat) \<le> u64_max" "(3::nat) < u64_max"
  by (simp_all add: u64_max_def)

lemma demo_fields [simp]: "lsn (demo_rec n) = n" "sig_tag (demo_rec n) = 0" "payload (demo_rec n) = [1, 2]"
  by (simp_all add: demo_rec_def)

theorem wal_scan_torn_witness:
  "scan_frames demo_hash (frames demo_hash [demo_rec 1] @ take 5 (frame demo_hash (demo_rec 2))) None =
     ([demo_rec 1], length (frames demo_hash [demo_rec 1]), False)"
  using wal_scan_torn [of "[demo_rec 1]" "demo_rec 2" 5 demo_hash] demo_rec_ok [OF demo_small(1)]
    demo_rec_ok [OF demo_small(2)] by (simp add: length_frame HEADER_def)

theorem wal_append_any_fault_witness:
  "read_all_frames demo_hash (snd (snd (wal_append demo_hash 1 0 [1, 2] demo_state))) = Inr [demo_rec 1]"
  using wal_append_any_fault [of demo_hash "u64_max - 2" "fst demo_state" "snd demo_state" "[]" "demo_rec 1"
      "fst (wal_append demo_hash 1 0 [1, 2] demo_state)"
      "fst (snd (wal_append demo_hash 1 0 [1, 2] demo_state))"
      "snd (snd (wal_append demo_hash 1 0 [1, 2] demo_state))"]
    demo_holds demo_rec_ok [OF demo_small(1)] demo_healthy by simp

theorem wal_reclaim_any_fault_witness:
  "\<exists>recs'. read_all_frames demo_hash (snd (snd (wal_reclaim 0 demo_state))) = Inr recs' \<and> subseq recs' []"
  using wal_reclaim_any_fault [of demo_hash "u64_max - 2" "fst demo_state" "snd demo_state" "[]" 0
      "fst (wal_reclaim 0 demo_state)" "fst (snd (wal_reclaim 0 demo_state))"
      "snd (snd (wal_reclaim 0 demo_state))"]
    demo_holds by auto

lemma demo_run_ok: "demo_run = (Inr (), snd demo_run)"
  by code_simp

lemma demo_sync_ok: "wal_sync (snd demo_run) = (Inr (), fst (snd (wal_sync (snd demo_run))), snd (snd (wal_sync (snd demo_run))))"
  by code_simp

lemma demo_names: "distinct (fs_names (snd (snd (wal_sync (snd demo_run)))))"
  by code_simp

theorem wal_run_power_loss_witness:
  "\<exists>recs. read_all_frames demo_hash (snd (snd (wal_sync (snd demo_run)))) = Inr recs \<and>
     live 1 recs = [demo_rec 2]"
  using wal_run_power_loss [OF demo_empty demo_open, of "[AppendOp (demo_rec 1), ReclaimOp 1, AppendOp (demo_rec 2)]"
      "snd demo_run", OF _ _ _ _ demo_sync_ok power_loss_refl [OF demo_names]]
    demo_rec_ok [OF demo_small(1)] demo_rec_ok [OF demo_small(2)] demo_small(3) demo_run_ok
  by (simp add: demo_run_def) auto

theorem wal_reopen_witness:
  "\<exists>w'. open_with_rotate demo_hash (rotate_bytes (fst demo_state)) (snd demo_state) = (Inr (fst demo_state), w')"
  using wal_reopen [of demo_hash "Suc (u64_max - 2)" "fst demo_state" "snd demo_state" "[]"]
    demo_holds demo_healthy by auto

lemma demo_log: "wal_log demo_hash (snd demo_state) [] 1 [] []"
proof -
  from demo_holds obtain cl rs where rep: "wal_rep demo_hash demo_state cl rs" by (auto simp: wal_holds_def)
  have f: "seq (fst demo_state) = 1" "closed (fst demo_state) = []" "current_bytes (fst demo_state) = 0"
    by code_simp+
  obtain self w where st: "demo_state = (self, w)" by (cases demo_state)
  have r: "wal_log demo_hash w cl 1 rs []" "map (\<lambda>(q, qs). (q, max_lsn qs)) cl = []" "frames demo_hash rs = []"
    using rep f unfolding st by (simp_all add: wal_rep_def)
  then have "cl = []" "rs = []" by (auto simp: frames_def)
  with r(1) show ?thesis unfolding st by simp
qed

lemma demo_grown: "grown 0 [] 1 [] [] 1 []"
  unfolding grown_def by (rule exI [of _ "[]"], rule exI [of _ "[]"], rule exI [of _ "[]"]) simp

theorem wal_cursor_refresh_witness:
  "\<exists>c2 recs. cursor_advance demo_hash (snd demo_state) (snd (cursor_advance demo_hash (snd demo_state) fresh_cursor)) = (Inr (), c2) \<and>
    read_all_frames demo_hash (snd demo_state) = Inr recs \<and> cur_frames (prune_sealed 0 c2) = live 0 recs"
proof -
  have "cursor_advance demo_hash (snd demo_state) fresh_cursor =
      (Inr (), snd (cursor_advance demo_hash (snd demo_state) fresh_cursor))" by code_simp
  from wal_cursor_refresh [OF demo_log this demo_log demo_grown] show ?thesis .
qed

subsection \<open>Lost frames\<close>






end
