(* ===== verification/Manifest.thy ===== *)
theory Manifest
  imports Rust_Fs
begin

text \<open>
  The manifest, \<open>crates/imbh-storage/src/manifest.rs\<close>: the list of sealed segments per table and
  the durable watermark, kept as an append-only log of edits with a checkpoint at its head. The file
  \<open>CURRENT\<close> names the active log and is replaced by a rename. The checksum is the parameter
  \<open>h\<close>.
\<close>

subsection \<open>State and edits\<close>

definition CURRENT_FILE :: string where "CURRENT_FILE = ''CURRENT''"
definition LEGACY_FILE :: string where "LEGACY_FILE = ''MANIFEST''"
definition CHECKPOINT_BYTES :: nat where "CHECKPOINT_BYTES = 2 ^ 18"
definition M_HEADER :: nat where "M_HEADER = 4 + 8"
definition CURRENT_READ_TRIES :: nat where "CURRENT_READ_TRIES = 6"

text \<open>\<open>Manifest\<close>; the metric lists are a \<open>BTreeMap\<close> whose keys are iterated in table
  order. A \<open>ManifestView\<close> borrows the same four fields, and \<open>to_manifest\<close> copies them.\<close>

record manifest =
  m_logs :: "segment_ref list"
  m_spans :: "segment_ref list"
  m_metrics :: "table \<Rightarrow> segment_ref list option"
  m_watermark :: nat

definition manifest_default :: manifest where
  "manifest_default = \<lparr>m_logs = [], m_spans = [], m_metrics = (\<lambda>_. None), m_watermark = 0\<rparr>"

record edit =
  reset :: bool
  e_watermark :: "nat option"
  added :: "(table \<times> segment_ref) list"
  removed :: "(table \<times> string) list"

definition edit_default :: edit where
  "edit_default = \<lparr>reset = False, e_watermark = None, added = [], removed = []\<rparr>"

definition edit_is_empty :: "edit \<Rightarrow> bool" where
  "edit_is_empty e \<longleftrightarrow> \<not> reset e \<and> e_watermark e = None \<and> added e = [] \<and> removed e = []"

definition manifest_name :: "nat \<Rightarrow> string" where
  "manifest_name num = ''MANIFEST-'' @ show_pad 10 6 num"

definition table_from_manifest_name :: "string \<Rightarrow> table option" where
  "table_from_manifest_name s =
     (if s = ''metrics_gauge'' then Some TMetricsGauge
      else if s = ''metrics_sum'' then Some TMetricsSum
      else if s = ''metrics_histogram'' then Some TMetricsHistogram
      else if s = ''metrics_exp_histogram'' then Some TMetricsExpHistogram
      else if s = ''metrics_summary'' then Some TMetricsSummary
      else None)"

definition name_to_table :: "string \<Rightarrow> table option" where
  "name_to_table s =
     (if s = ''logs'' then Some TLogs else if s = ''spans'' then Some TSpans
      else table_from_manifest_name s)"

text \<open>\<open>list_mut\<close>: the list of a table, and the manifest with it replaced; taking a metric
  table's list creates its entry.\<close>

definition list_of :: "manifest \<Rightarrow> table \<Rightarrow> segment_ref list" where
  "list_of m t =
     (case t of
        TLogs \<Rightarrow> m_logs m
      | TSpans \<Rightarrow> m_spans m
      | _ \<Rightarrow> (case m_metrics m t of None \<Rightarrow> [] | Some xs \<Rightarrow> xs))"

definition set_list :: "table \<Rightarrow> segment_ref list \<Rightarrow> manifest \<Rightarrow> manifest" where
  "set_list t xs m =
     (case t of
        TLogs \<Rightarrow> m\<lparr>m_logs := xs\<rparr>
      | TSpans \<Rightarrow> m\<lparr>m_spans := xs\<rparr>
      | _ \<Rightarrow> m\<lparr>m_metrics := (m_metrics m)(t := Some xs)\<rparr>)"

subsection \<open>Framing\<close>

type_synonym mhash = "bytes \<Rightarrow> 64 word"

definition m_frame :: "mhash \<Rightarrow> bytes \<Rightarrow> bytes" where
  "m_frame h p = u32_le (length p mod 2 ^ 32) @ u64_le (unat (h p)) @ p"

function m_scan_frames :: "mhash \<Rightarrow> bytes \<Rightarrow> bytes list" where
  "m_scan_frames h bs =
     (if length bs < M_HEADER then []
      else
        let len = le_val (take 4 bs);
            ck = le_val (take 8 (drop 4 bs));
            stop = M_HEADER + len
        in if length bs < stop then []
           else
             let p = take len (drop M_HEADER bs)
             in if unat (h p) \<noteq> ck then [] else p # m_scan_frames h (drop stop bs))"
  by pat_completeness auto
termination
  by (relation "measure (\<lambda>(h, bs). length bs)") (auto simp: M_HEADER_def)

declare m_scan_frames.simps [simp del]

subsection \<open>The edit codec\<close>

definition removed_line :: "table \<times> string \<Rightarrow> string" where
  "removed_line x = (case x of (t, path) \<Rightarrow> ''-'' @ [tab] @ table_as_str t @ [tab] @ path)"

definition added_line :: "table \<times> segment_ref \<Rightarrow> string" where
  "added_line x =
     (case x of (t, seg) \<Rightarrow>
        ''+'' @ [tab] @ table_as_str t @ [tab] @ relative_path seg @ [tab] @
        show_int (min_time_unix_nano seg) @ [tab] @ show_int (max_time_unix_nano seg) @ [tab] @
        show_nat (seg_rows seg))"

definition edit_lines :: "edit \<Rightarrow> string list" where
  "edit_lines e =
     (if reset e then [''R''] else []) @
     (case e_watermark e of None \<Rightarrow> [] | Some w \<Rightarrow> [''W'' @ [tab] @ show_nat w]) @
     map removed_line (removed e) @ map added_line (added e)"

definition encode_edit :: "edit \<Rightarrow> bytes" where
  "encode_edit e = bytes_of_string (concat (map (\<lambda>l. l @ [nl]) (edit_lines e)))"

text \<open>The fields of one line; \<open>p.next()\<close> past the last field is \<open>None\<close>, and fields after
  those a record needs are not looked at.\<close>

definition field :: "nat \<Rightarrow> string list \<Rightarrow> string option" where
  "field i fs = (if i < length fs then Some (fs ! i) else None)"

definition decode_line :: "nat \<Rightarrow> string \<Rightarrow> edit \<Rightarrow> error + edit" where
  "decode_line i line e =
     (let p = split_on tab line;
          corrupt = (\<lambda>what. corrupt_manifest (Some (i + 1)) what);
          tag = hd p
      in if tag = ''R'' then Inr (e\<lparr>reset := True\<rparr>)
      else if tag = ''W'' then
        bind_err (ok_or (corrupt ''invalid watermark'') (Option.bind (field 1 p) parse_u64)) (\<lambda>w.
          Inr (e\<lparr>e_watermark := Some w\<rparr>))
      else if tag = ''+'' then
        bind_err (ok_or (corrupt ''invalid add: table'') (Option.bind (field 1 p) name_to_table)) (\<lambda>t.
        bind_err (ok_or (corrupt ''invalid add: path'') (field 2 p)) (\<lambda>path.
        bind_err (ok_or (corrupt ''invalid add: min_time'') (Option.bind (field 3 p) parse_i64)) (\<lambda>mn.
        bind_err (ok_or (corrupt ''invalid add: max_time'') (Option.bind (field 4 p) parse_i64)) (\<lambda>mx.
        bind_err (ok_or (corrupt ''invalid add: rows'') (Option.bind (field 5 p) parse_u64)) (\<lambda>rows.
          Inr (e\<lparr>added := added e @ [(t, \<lparr>relative_path = path, min_time_unix_nano = mn,
                 max_time_unix_nano = mx, seg_rows = rows\<rparr>)]\<rparr>))))))
      else if tag = ''-'' then
        bind_err (ok_or (corrupt ''invalid remove: table'') (Option.bind (field 1 p) name_to_table)) (\<lambda>t.
        bind_err (ok_or (corrupt ''invalid remove: path'') (field 2 p)) (\<lambda>path.
          Inr (e\<lparr>removed := removed e @ [(t, path)]\<rparr>)))
      else Inl (corrupt ''unknown manifest record''))"

fun decode_lines :: "nat \<Rightarrow> string list \<Rightarrow> edit \<Rightarrow> error + edit" where
  "decode_lines i [] e = Inr e"
| "decode_lines i (l # ls) e =
     (if l = [] then decode_lines (Suc i) ls e
      else bind_err (decode_line i l e) (\<lambda>e. decode_lines (Suc i) ls e))"

definition decode_edit :: "bytes \<Rightarrow> error + edit" where
  "decode_edit p =
     bind_err (ok_or (corrupt_manifest None ''non-UTF-8 manifest frame'') (str_from_utf8 p)) (\<lambda>txt.
       decode_lines 0 (str_lines txt) edit_default)"

definition retain_path :: "table \<times> string \<Rightarrow> manifest \<Rightarrow> manifest" where
  "retain_path x m =
     (case x of (t, path) \<Rightarrow>
        let m1 = set_list t (filter (\<lambda>s. relative_path s \<noteq> path) (list_of m t)) m
        in if t \<noteq> TLogs \<and> t \<noteq> TSpans \<and> m_metrics m1 t = Some []
           then m1\<lparr>m_metrics := (m_metrics m1)(t := None)\<rparr> else m1)"

definition push_seg :: "table \<times> segment_ref \<Rightarrow> manifest \<Rightarrow> manifest" where
  "push_seg x m = (case x of (t, seg) \<Rightarrow> set_list t (list_of m t @ [seg]) m)"

definition apply_edit :: "manifest \<Rightarrow> edit \<Rightarrow> manifest" where
  "apply_edit m e =
     (let m = (if reset e then manifest_default else m);
          m = (case e_watermark e of None \<Rightarrow> m | Some w \<Rightarrow> m\<lparr>m_watermark := w\<rparr>);
          m = fold retain_path (removed e) m
      in fold push_seg (added e) m)"

definition metric_keys :: "manifest \<Rightarrow> table list" where
  "metric_keys m = filter (\<lambda>t. m_metrics m t \<noteq> None) table_ALL"

definition checkpoint_edit :: "manifest \<Rightarrow> edit" where
  "checkpoint_edit s =
     \<lparr>reset = True, e_watermark = Some (m_watermark s),
      added = map (Pair TLogs) (m_logs s) @ map (Pair TSpans) (m_spans s) @
              concat (map (\<lambda>t. map (Pair t) (case m_metrics s t of None \<Rightarrow> [] | Some xs \<Rightarrow> xs))
                        (metric_keys s)),
      removed = []\<rparr>"

subsection \<open>Differences\<close>

definition diff_table :: "table \<Rightarrow> segment_ref list \<Rightarrow> segment_ref list \<Rightarrow> edit \<Rightarrow> edit" where
  "diff_table t old new e =
     (let new_paths = set (map relative_path new);
          old_paths = set (map relative_path old)
      in e\<lparr>removed := removed e @
              map (\<lambda>s. (t, relative_path s)) (filter (\<lambda>s. relative_path s \<notin> new_paths) old),
           added := added e @ map (Pair t) (filter (\<lambda>s. relative_path s \<notin> old_paths) new)\<rparr>)"

definition metric_list :: "manifest \<Rightarrow> table \<Rightarrow> segment_ref list" where
  "metric_list m t = (case m_metrics m t of None \<Rightarrow> [] | Some xs \<Rightarrow> xs)"

definition diff :: "manifest \<Rightarrow> manifest \<Rightarrow> edit" where
  "diff old new =
     (let e = edit_default;
          e = (if m_watermark new \<noteq> m_watermark old then e\<lparr>e_watermark := Some (m_watermark new)\<rparr> else e);
          e = diff_table TLogs (m_logs old) (m_logs new) e;
          e = diff_table TSpans (m_spans old) (m_spans new) e;
          keys = filter (\<lambda>t. m_metrics old t \<noteq> None \<or> m_metrics new t \<noteq> None) table_ALL
      in fold (\<lambda>t. diff_table t (metric_list old t) (metric_list new t)) keys e)"

subsection \<open>Files\<close>

definition storage_fsync_dir :: "world \<Rightarrow> (world, unit) outcome" where
  "storage_fsync_dir w = io_try (storage_io (Some []) io_str) (fs_sync_dir w)"

definition write_manifest_file :: "string \<Rightarrow> bytes \<Rightarrow> world \<Rightarrow> (world, unit) outcome" where
  "write_manifest_file path bs w =
     (let e = storage_io (Some path) io_str in
      and_then id (io_try e (fs_create path w)) (\<lambda>_ w.
      and_then id (io_try e (fs_write_all path bs w)) (\<lambda>_ w.
        io_try e (fs_sync path w))))"

definition CURRENT_TMP :: string where "CURRENT_TMP = CURRENT_FILE @ ''.tmp''"

definition write_current :: "string \<Rightarrow> world \<Rightarrow> (world, unit) outcome" where
  "write_current name w =
     (let e = storage_io (Some CURRENT_TMP) io_str in
      and_then id (io_try e (fs_create CURRENT_TMP w)) (\<lambda>_ w.
      and_then id (io_try e (fs_write_all CURRENT_TMP (bytes_of_string (name @ [nl])) w)) (\<lambda>_ w.
      and_then id (io_try e (fs_sync CURRENT_TMP w)) (\<lambda>_ w.
      and_then id (io_try (storage_io (Some CURRENT_FILE) io_str) (fs_rename CURRENT_TMP CURRENT_FILE w)) (\<lambda>_ w.
        storage_fsync_dir w)))))"

definition read_current :: "world \<Rightarrow> error + nat option" where
  "read_current w =
     (case fs_read_to_string w CURRENT_FILE of
        Inr s \<Rightarrow>
          (let name = trim s in
           bind_err (ok_or (corrupt_manifest None (''invalid CURRENT: '' @ [CHR 0x22] @ name @ [CHR 0x22]))
                      (Option.bind (strip_prefix ''MANIFEST-'' name) parse_u64)) (\<lambda>num. Inr (Some num)))
      | Inl NotFound \<Rightarrow> Inr None
      | Inl OtherIo \<Rightarrow> Inl (open_ctx ''read CURRENT'' io_str))"

fun replay_frames :: "bytes list \<Rightarrow> manifest \<Rightarrow> error + manifest" where
  "replay_frames [] m = Inr m"
| "replay_frames (p # ps) m = bind_err (decode_edit p) (\<lambda>e. replay_frames ps (apply_edit m e))"

definition replay :: "mhash \<Rightarrow> world \<Rightarrow> nat \<Rightarrow> error + manifest option" where
  "replay h w num =
     (case fs_read w (manifest_name num) of
        Inr bs \<Rightarrow> bind_err (replay_frames (m_scan_frames h bs) manifest_default) (\<lambda>m. Inr (Some m))
      | Inl NotFound \<Rightarrow> Inr None
      | Inl OtherIo \<Rightarrow> Inl (open_ctx ''read manifest log'' io_str))"

text \<open>The whole-file manifest of earlier versions.\<close>

definition legacy_line :: "nat \<Rightarrow> string \<Rightarrow> manifest \<Rightarrow> error + manifest" where
  "legacy_line i line m =
     (case strip_prefix ''#watermark '' line of
        Some rest \<Rightarrow>
          bind_err (ok_or (corrupt_manifest (Some (i + 1)) ''invalid watermark'') (parse_u64 (trim rest))) (\<lambda>w.
            Inr (m\<lparr>m_watermark := w\<rparr>))
      | None \<Rightarrow>
          (let parts = split_on tab line;
               corrupt = (\<lambda>what. corrupt_manifest (Some (i + 1)) what)
           in if length parts \<noteq> 5 then Inl (corrupt ''expected 5 fields'')
              else
                bind_err (ok_or (corrupt ''invalid min_time'') (parse_i64 (parts ! 2))) (\<lambda>mn.
                bind_err (ok_or (corrupt ''invalid max_time'') (parse_i64 (parts ! 3))) (\<lambda>mx.
                bind_err (ok_or (corrupt ''invalid rows'') (parse_u64 (parts ! 4))) (\<lambda>rows.
                bind_err (ok_or (corrupt (''unknown table `'' @ parts ! 0 @ ''`'')) (name_to_table (parts ! 0))) (\<lambda>t.
                  Inr (push_seg (t, \<lparr>relative_path = parts ! 1, min_time_unix_nano = mn,
                         max_time_unix_nano = mx, seg_rows = rows\<rparr>) m)))))))"

fun legacy_lines :: "nat \<Rightarrow> string list \<Rightarrow> manifest \<Rightarrow> error + manifest" where
  "legacy_lines i [] m = Inr m"
| "legacy_lines i (l # ls) m =
     (if l = [] then legacy_lines (Suc i) ls m
      else bind_err (legacy_line i l m) (\<lambda>m. legacy_lines (Suc i) ls m))"

definition load_legacy :: "world \<Rightarrow> string \<Rightarrow> error + manifest" where
  "load_legacy w path =
     (case fs_read_to_string w path of
        Inl e \<Rightarrow> Inl (open_ctx ''read manifest'' io_str)
      | Inr txt \<Rightarrow> legacy_lines 0 (str_lines txt) manifest_default)"

subsection \<open>The writer\<close>

record manifest_writer =
  current_num :: nat
  log_bytes :: nat
  last_state :: manifest

definition fresh_writer :: manifest_writer where
  "fresh_writer = \<lparr>current_num = 0, log_bytes = 0, last_state = manifest_default\<rparr>"

definition active_num :: "manifest_writer \<Rightarrow> nat option" where
  "active_num mw = (if current_num mw \<noteq> 0 then Some (current_num mw) else None)"

type_synonym mw_state = "manifest_writer \<times> world"

definition append_frame :: "bytes \<Rightarrow> mw_state \<Rightarrow> (mw_state, unit) outcome" where
  "append_frame bs st =
     (case st of (self, w) \<Rightarrow>
        let path = manifest_name (current_num self);
            e = storage_io (Some path) io_str
        in and_then (Pair self) (io_try e (fs_open_existing path w)) (\<lambda>_ w.
           and_then (Pair self) (io_try e (fs_write_all path bs w)) (\<lambda>_ w.
           and_then (Pair self) (io_try e (fs_sync path w)) (\<lambda>_ w. (Inr (), (self, w))))))"

definition write_checkpoint :: "mhash \<Rightarrow> manifest \<Rightarrow> nat \<Rightarrow> mw_state \<Rightarrow> (mw_state, unit) outcome" where
  "write_checkpoint h s num st =
     (case st of (self, w) \<Rightarrow>
        let p = encode_edit (checkpoint_edit s);
            name = manifest_name num
        in and_then (Pair self) (write_manifest_file name (m_frame h p) w) (\<lambda>_ w.
           and_then (Pair self) (write_current name w) (\<lambda>_ w.
           let prev = current_num self;
               self' = self\<lparr>current_num := num, log_bytes := M_HEADER + length p\<rparr>
           in if prev \<noteq> 0 \<and> prev \<noteq> num
              then (Inr (), (self', snd (fs_remove (manifest_name prev) w)))
              else (Inr (), (self', w)))))"

definition persist :: "mhash \<Rightarrow> manifest \<Rightarrow> mw_state \<Rightarrow> (mw_state, unit) outcome" where
  "persist h view st =
     (case st of (self, w) \<Rightarrow>
        let e = diff (last_state self) view in
        if edit_is_empty e then (Inr (), st)
        else
          and_then id
            (if current_num self = 0 then write_checkpoint h view 1 st
             else
               let p = encode_edit e;
                   frame_len = M_HEADER + length p
               in if log_bytes self + frame_len > CHECKPOINT_BYTES
                  then write_checkpoint h view (wadd_u64 (current_num self) 1) st
                  else and_then id (append_frame (m_frame h p) st) (\<lambda>_ (self, w).
                         (Inr (), (self\<lparr>log_bytes := log_bytes self + frame_len\<rparr>, w))))
            (\<lambda>_ (self, w). (Inr (), (self\<lparr>last_state := view\<rparr>, w))))"

subsection \<open>Entry points\<close>

definition manifest_open :: "mhash \<Rightarrow> world \<Rightarrow> (world, manifest \<times> manifest_writer) outcome" where
  "manifest_open h w =
     (case read_current w of
        Inl e \<Rightarrow> (Inl e, w)
      | Inr (Some num) \<Rightarrow>
          (case replay h w num of
             Inl e \<Rightarrow> (Inl e, w)
           | Inr None \<Rightarrow>
               (Inl (corrupt_manifest None ''CURRENT names a manifest log that does not exist''), w)
           | Inr (Some m) \<Rightarrow>
               (Inr (m, \<lparr>current_num = num,
                         log_bytes = (case fs_len w (manifest_name num) of None \<Rightarrow> 0 | Some n \<Rightarrow> n),
                         last_state = m\<rparr>), w))
      | Inr None \<Rightarrow>
          if fs_exists w LEGACY_FILE then
            (case load_legacy w LEGACY_FILE of
               Inl e \<Rightarrow> (Inl e, w)
             | Inr s \<Rightarrow>
                 and_then snd (write_checkpoint h s 1 (fresh_writer, w)) (\<lambda>_ (mw, w).
                   (Inr (s, mw), snd (fs_remove LEGACY_FILE w))))
          else (Inr (manifest_default, fresh_writer), w))"

fun read_tries :: "nat \<Rightarrow> mhash \<Rightarrow> world \<Rightarrow> error + manifest" where
  "read_tries 0 h w =
     Inl (storage_msg ''manifest read: CURRENT kept moving (writer rolling continuously)'')"
| "read_tries (Suc n) h w =
     (case read_current w of
        Inl e \<Rightarrow> Inl e
      | Inr (Some num) \<Rightarrow>
          (case replay h w num of
             Inl e \<Rightarrow> Inl e
           | Inr (Some m) \<Rightarrow> Inr m
           | Inr None \<Rightarrow> read_tries n h w)
      | Inr None \<Rightarrow>
          if fs_exists w LEGACY_FILE then load_legacy w LEGACY_FILE else Inr manifest_default)"

definition manifest_read :: "mhash \<Rightarrow> world \<Rightarrow> error + manifest" where
  "manifest_read h w = read_tries CURRENT_READ_TRIES h w"

definition write_fresh :: "mhash \<Rightarrow> manifest \<Rightarrow> world \<Rightarrow> (world, unit) outcome" where
  "write_fresh h view w =
     and_then snd (write_checkpoint h view 1 (fresh_writer, w)) (\<lambda>_ (mw, w). (Inr (), w))"

end
