(* ===== verification/Manifest_Codec.thy ===== *)
theory Manifest_Codec
  imports Manifest
begin

text \<open>
  The manifest's frames, edits and states: frames scan back up to a torn tail, an edit decodes to
  itself, and applying a difference to the old state gives the new one.
\<close>

subsection \<open>Frames\<close>

definition payload_ok :: "bytes \<Rightarrow> bool" where
  "payload_ok p \<longleftrightarrow> length p \<le> u32_max"

abbreviation m_frames :: "mhash \<Rightarrow> bytes list \<Rightarrow> bytes" where
  "m_frames h ps \<equiv> concat (map (m_frame h) ps)"

lemma length_m_frame [simp]: "length (m_frame h p) = M_HEADER + length p"
  by (simp add: m_frame_def M_HEADER_def)

lemma m_frame_parts:
  assumes "payload_ok p"
  shows "le_val (take 4 (m_frame h p @ t)) = length p"
    and "le_val (take 8 (drop 4 (m_frame h p @ t))) = unat (h p)"
    and "take (length p) (drop M_HEADER (m_frame h p @ t)) = p"
    and "drop (M_HEADER + length p) (m_frame h p @ t) = t"
proof -
  have n: "length p \<le> u32_max" using assms by (simp add: payload_ok_def)
  then have nm: "length p mod 4294967296 = length p" by (simp add: u32_max_def)
  have "unat (h p) < 2 ^ 64" by (rule order_less_le_trans [OF unsigned_less]) simp
  then have c: "unat (h p) \<le> u64_max" by (simp add: u64_max_def)
  have f: "m_frame h p = u32_le (length p) @ u64_le (unat (h p)) @ p"
    by (simp add: m_frame_def nm)
  show "le_val (take 4 (m_frame h p @ t)) = length p" using n by (simp add: f le_val_u32)
  show "le_val (take 8 (drop 4 (m_frame h p @ t))) = unat (h p)" using c by (simp add: f le_val_u64)
  show "take (length p) (drop M_HEADER (m_frame h p @ t)) = p" by (simp add: f M_HEADER_def)
  show "drop (M_HEADER + length p) (m_frame h p @ t) = t" by simp
qed

lemma m_scan_frame:
  assumes "payload_ok p"
  shows "m_scan_frames h (m_frame h p @ t) = p # m_scan_frames h t"
proof -
  have "\<not> length (m_frame h p @ t) < M_HEADER" "\<not> length (m_frame h p @ t) < M_HEADER + length p"
    by simp_all
  then show ?thesis
    by (subst m_scan_frames.simps)
       (simp add: m_frame_parts [OF assms] Let_def del: length_append take_append drop_append)
qed

lemma m_scan_prefix:
  assumes "payload_ok p" "k < length (m_frame h p)"
  shows "m_scan_frames h (take k (m_frame h p)) = []"
proof (cases "k < M_HEADER")
  case True
  then show ?thesis by (simp add: m_scan_frames.simps)
next
  case False
  let ?t = "take k (m_frame h p)"
  have "take 4 ?t = take 4 (m_frame h p)" using False by (simp add: M_HEADER_def min_def)
  then have "le_val (take 4 ?t) = length p" using m_frame_parts(1) [OF assms(1), of h "[]"] by simp
  moreover have "length ?t < M_HEADER + length p" using assms(2) by simp
  ultimately show ?thesis by (subst m_scan_frames.simps) (simp add: Let_def)
qed

lemma m_scan_frames_append:
  "list_all payload_ok ps \<Longrightarrow> m_scan_frames h (m_frames h ps @ t) = ps @ m_scan_frames h t"
  by (induction ps) (simp_all add: m_scan_frame)

lemma m_scan_Nil [simp]: "m_scan_frames h [] = []"
  by (simp add: m_scan_frames.simps M_HEADER_def)

lemma m_scan_log:
  "list_all payload_ok ps \<Longrightarrow> payload_ok p \<Longrightarrow>
     m_scan_frames h (m_frames h ps @ take k (m_frame h p)) =
       (if k < length (m_frame h p) then ps else ps @ [p])"
  using m_scan_frame [of p h "[]"] by (simp add: m_scan_frames_append m_scan_prefix)

subsection \<open>Edits\<close>

definition path_ok :: "string \<Rightarrow> bool" where
  "path_ok p \<longleftrightarrow> utf8_string p \<and> tab \<notin> set p \<and> nl \<notin> set p \<and> cr \<notin> set p"

definition seg_ok :: "segment_ref \<Rightarrow> bool" where
  "seg_ok s \<longleftrightarrow> path_ok (relative_path s) \<and> i64_ok (min_time_unix_nano s) \<and>
     i64_ok (max_time_unix_nano s) \<and> seg_rows s \<le> u64_max"

definition edit_ok :: "edit \<Rightarrow> bool" where
  "edit_ok e \<longleftrightarrow> (case e_watermark e of None \<Rightarrow> True | Some w \<Rightarrow> w \<le> u64_max) \<and>
     list_all (\<lambda>(t, p). path_ok p) (removed e) \<and> list_all (\<lambda>(t, s). seg_ok s) (added e)"

lemma name_to_table_as_str [simp, codec]: "name_to_table (table_as_str t) = Some t"
  by (cases t) (simp_all add: name_to_table_def table_from_manifest_name_def)

lemma table_chars: "c \<in> set (table_as_str t) \<Longrightarrow> c \<noteq> tab \<and> c \<noteq> nl \<and> c \<noteq> cr \<and> (of_char c :: nat) \<le> 127"
  by (cases t) auto

lemma table_no_sep [simp]: "tab \<notin> set (table_as_str t)" "nl \<notin> set (table_as_str t)" "cr \<notin> set (table_as_str t)"
  using table_chars by blast+

lemma show_no_sep [simp]:
  "tab \<notin> set (show_nat n)" "nl \<notin> set (show_nat n)" "cr \<notin> set (show_nat n)"
  "tab \<notin> set (show_int i)" "nl \<notin> set (show_int i)" "cr \<notin> set (show_int i)"
proof -
  have n: "c \<noteq> tab \<and> c \<noteq> nl \<and> c \<noteq> cr" if "c \<in> set (show_nat n)" for c n
    using digit_chars_props [OF show_nat_chars [OF that]] by simp
  then show "tab \<notin> set (show_nat n)" "nl \<notin> set (show_nat n)" "cr \<notin> set (show_nat n)" by blast+
  have i: "c \<noteq> tab \<and> c \<noteq> nl \<and> c \<noteq> cr" if "c \<in> set (show_int i)" for c
    using show_int_chars [OF that] digit_chars_props [of c] by auto
  then show "tab \<notin> set (show_int i)" "nl \<notin> set (show_int i)" "cr \<notin> set (show_int i)" by blast+
qed

lemma ascii_utf8:
  "utf8_string (table_as_str t)" "utf8_string (show_nat n)" "utf8_string (show_int i)"
proof -
  show "utf8_string (table_as_str t)"
    by (rule utf8_string_ascii) (use table_chars in \<open>auto simp: list_all_iff\<close>)
  show "utf8_string (show_nat n)"
    by (rule utf8_string_ascii) (use show_nat_chars digit_chars_props in \<open>auto simp: list_all_iff\<close>)
  show "utf8_string (show_int i)"
    by (rule utf8_string_ascii)
       (use show_int_chars digit_chars_props in \<open>fastforce simp: list_all_iff\<close>)
qed

lemma removed_line_ok:
  "path_ok p \<Longrightarrow> nl \<notin> set (removed_line (t, p)) \<and> cr \<notin> set (removed_line (t, p)) \<and>
     utf8_string (removed_line (t, p)) \<and> removed_line (t, p) \<noteq> []"
  by (auto simp: removed_line_def path_ok_def ascii_utf8)

lemma added_line_ok:
  "seg_ok s \<Longrightarrow> nl \<notin> set (added_line (t, s)) \<and> cr \<notin> set (added_line (t, s)) \<and>
     utf8_string (added_line (t, s)) \<and> added_line (t, s) \<noteq> []"
  by (auto simp: added_line_def seg_ok_def path_ok_def ascii_utf8)

lemma edit_lines_ok:
  assumes "edit_ok e" "l \<in> set (edit_lines e)"
  shows "nl \<notin> set l \<and> cr \<notin> set l \<and> utf8_string l \<and> l \<noteq> []"
  using assms removed_line_ok added_line_ok
  by (auto simp: edit_lines_def edit_ok_def list_all_iff ascii_utf8 split: option.splits if_splits)

lemma decode_removed:
  "path_ok p \<Longrightarrow> decode_line i (removed_line (t, p)) e = Inr (e\<lparr>removed := removed e @ [(t, p)]\<rparr>)"
proof -
  assume "path_ok p"
  then have "split_on tab (removed_line (t, p)) = [''-'', table_as_str t, p]"
    using split_on_append [of tab "''-''" "table_as_str t @ tab # p"]
    by (simp add: removed_line_def path_ok_def)
  then show ?thesis by (simp add: decode_line_def Let_def field_def)
qed

lemma decode_added:
  "seg_ok s \<Longrightarrow> decode_line i (added_line (t, s)) e = Inr (e\<lparr>added := added e @ [(t, s)]\<rparr>)"
proof -
  assume s: "seg_ok s"
  then have "split_on tab (added_line (t, s)) =
      [''+'', table_as_str t, relative_path s, show_int (min_time_unix_nano s),
       show_int (max_time_unix_nano s), show_nat (seg_rows s)]"
    using split_on_append [of tab "''+''"]
    by (simp add: added_line_def seg_ok_def path_ok_def)
  with s show ?thesis
    by (simp add: decode_line_def Let_def field_def seg_ok_def parse_i64_show parse_u64_show)
qed

lemma decode_watermark:
  "w \<le> u64_max \<Longrightarrow> decode_line i (''W'' @ [tab] @ show_nat w) e = Inr (e\<lparr>e_watermark := Some w\<rparr>)"
  using split_on_append [of tab "''W''" "show_nat w"]
  by (simp add: decode_line_def Let_def field_def parse_u64_show)

lemma decode_reset: "decode_line i ''R'' e = Inr (e\<lparr>reset := True\<rparr>)"
  by (simp add: decode_line_def)

lemma decode_lines_append:
  "decode_lines i (ls @ ks) e = bind_err (decode_lines i ls e) (\<lambda>e. decode_lines (i + length ls) ks e)"
  by (induction ls arbitrary: i e) (auto simp: bind_err_def split: sum.splits)

lemma decode_removed_lines:
  "list_all (\<lambda>(t, p). path_ok p) rs \<Longrightarrow>
     decode_lines i (map removed_line rs) e = Inr (e\<lparr>removed := removed e @ rs\<rparr>)"
proof (induction rs arbitrary: i e)
  case (Cons r rs)
  obtain t p where "r = (t, p)" by (cases r)
  with Cons show ?case by (simp add: decode_removed removed_line_ok)
qed simp

lemma decode_added_lines:
  "list_all (\<lambda>(t, s). seg_ok s) xs \<Longrightarrow>
     decode_lines i (map added_line xs) e = Inr (e\<lparr>added := added e @ xs\<rparr>)"
proof (induction xs arbitrary: i e)
  case (Cons r rs)
  obtain t s where "r = (t, s)" by (cases r)
  with Cons show ?case by (simp add: decode_added added_line_ok)
qed simp

lemma decode_edit_lines: "edit_ok e \<Longrightarrow> decode_lines 0 (edit_lines e) edit_default = Inr e"
proof -
  assume e: "edit_ok e"
  let ?r = "if reset e then [''R''] else []"
  let ?w = "case e_watermark e of None \<Rightarrow> [] | Some w \<Rightarrow> [''W'' @ [tab] @ show_nat w]"
  have "decode_lines 0 ?r edit_default = Inr (edit_default\<lparr>reset := reset e\<rparr>)"
    by (simp add: decode_reset edit_default_def)
  moreover have "decode_lines i ?w d = Inr (d\<lparr>e_watermark := e_watermark e\<rparr>)" if "e_watermark d = None" for i d
  proof (cases "e_watermark e")
    case None
    with that show ?thesis by (cases d) simp
  next
    case (Some w)
    with e have "w \<le> u64_max" by (simp add: edit_ok_def)
    from decode_watermark [OF this] Some show ?thesis by simp
  qed
  ultimately show ?thesis
    using e by (simp add: edit_lines_def decode_lines_append decode_removed_lines decode_added_lines
        edit_ok_def edit_default_def)
qed

lemma utf8_lines: "list_all utf8_string ls \<Longrightarrow> utf8_string (concat (map (\<lambda>l. l @ [nl]) ls))"
  by (induction ls) auto

lemma decode_encode_edit: "edit_ok e \<Longrightarrow> decode_edit (encode_edit e) = Inr e"
proof -
  assume e: "edit_ok e"
  then have "list_all utf8_string (edit_lines e)" using edit_lines_ok by (auto simp: list_all_iff)
  then have "str_from_utf8 (encode_edit e) = Some (concat (map (\<lambda>l. l @ [nl]) (edit_lines e)))"
    by (simp add: encode_edit_def str_from_utf8_string utf8_lines)
  moreover have "str_lines (concat (map (\<lambda>l. l @ [nl]) (edit_lines e))) = edit_lines e"
    using edit_lines_ok [OF e] by (subst str_lines_concat) (auto intro!: map_idI)
  ultimately show ?thesis using decode_edit_lines [OF e] by (simp add: decode_edit_def)
qed

subsection \<open>States\<close>

text \<open>Metric entries are keyed by metric tables only. Two states are the same when they have the
  same watermark and the same segments in every table: a metric entry with no segment is the same
  as none.\<close>

definition metrics_ok :: "manifest \<Rightarrow> bool" where
  "metrics_ok m \<longleftrightarrow> m_metrics m TLogs = None \<and> m_metrics m TSpans = None"

definition same_state :: "manifest \<Rightarrow> manifest \<Rightarrow> bool" where
  "same_state m m' \<longleftrightarrow> m_watermark m = m_watermark m' \<and> (\<forall>t. list_of m t = list_of m' t)"

lemma same_state_refl [simp]: "same_state m m"
  by (simp add: same_state_def)

lemma same_state_sym: "same_state m m' \<Longrightarrow> same_state m' m"
  by (simp add: same_state_def)

lemma same_state_trans: "same_state a b \<Longrightarrow> same_state b c \<Longrightarrow> same_state a c"
  by (simp add: same_state_def)

lemma list_of_set_list [simp]: "list_of (set_list t xs m) u = (if u = t then xs else list_of m u)"
  by (cases t; cases u) (simp_all add: list_of_def set_list_def)

lemma m_watermark_set_list [simp]: "m_watermark (set_list t xs m) = m_watermark m"
  by (cases t) (simp_all add: set_list_def)

lemma list_of_upd_watermark [simp]: "list_of (m\<lparr>m_watermark := w\<rparr>) t = list_of m t"
  by (cases t) (simp_all add: list_of_def)

lemma list_of_default [simp]: "list_of manifest_default t = []"
  by (cases t) (simp_all add: list_of_def manifest_default_def)

lemma list_of_drop_key:
  "m_metrics m t = Some [] \<Longrightarrow> list_of (m\<lparr>m_metrics := (m_metrics m)(t := None)\<rparr>) u = list_of m u"
  by (cases u; cases t) (simp_all add: list_of_def)

lemma retain_path_simps [simp]:
  "list_of (retain_path (t, p) m) u =
     (if u = t then filter (\<lambda>s. relative_path s \<noteq> p) (list_of m t) else list_of m u)"
  "m_watermark (retain_path x m) = m_watermark m"
  by (auto simp: retain_path_def Let_def list_of_drop_key split: prod.splits)

lemma fold_retain:
  "list_of (fold retain_path rs m) u = filter (\<lambda>s. (u, relative_path s) \<notin> set rs) (list_of m u)"
  "m_watermark (fold retain_path rs m) = m_watermark m"
proof (induction rs arbitrary: m)
  case (Cons r rs)
  obtain t p where r: "r = (t, p)" by (cases r)
  { case 1
    show ?case using Cons.IH(1) [of "retain_path r m"] by (auto simp: r conj_commute intro!: filter_cong) }
  { case 2 show ?case using Cons.IH(2) by (simp add: r) }
qed simp_all

lemma fold_push:
  "list_of (fold push_seg xs m) u = list_of m u @ map snd (filter (\<lambda>x. fst x = u) xs)"
  "m_watermark (fold push_seg xs m) = m_watermark m"
  by (induction xs arbitrary: m) (auto simp: push_seg_def split: prod.splits)

lemma apply_edit_list:
  "list_of (apply_edit m e) u =
     filter (\<lambda>s. (u, relative_path s) \<notin> set (removed e)) (if reset e then [] else list_of m u) @
     map snd (filter (\<lambda>x. fst x = u) (added e))"
  by (simp add: apply_edit_def Let_def fold_push fold_retain split: option.splits)

lemma apply_edit_watermark:
  "m_watermark (apply_edit m e) =
     (case e_watermark e of Some w \<Rightarrow> w | None \<Rightarrow> if reset e then 0 else m_watermark m)"
  by (simp add: apply_edit_def Let_def fold_push fold_retain manifest_default_def split: option.splits)

lemma apply_edit_same: "same_state m m' \<Longrightarrow> same_state (apply_edit m e) (apply_edit m' e)"
  by (simp add: same_state_def apply_edit_list apply_edit_watermark split: option.splits)

lemma filter_pair: "map snd (filter (\<lambda>x. fst x = u) (map (Pair t) xs)) = (if t = u then xs else [])"
  by (auto simp: filter_map comp_def)

lemma concat_pairs:
  "distinct ts \<Longrightarrow> map snd (filter (\<lambda>x. fst x = u) (concat (map (\<lambda>t. map (Pair t) (g t)) ts))) =
     (if u \<in> set ts then g u else [])"
  by (induction ts) (auto simp: filter_pair)

lemma checkpoint_state:
  assumes "metrics_ok s"
  shows "same_state (apply_edit m (checkpoint_edit s)) s"
proof -
  have "list_of (apply_edit m (checkpoint_edit s)) u = list_of s u" for u
  proof -
    have "map snd (filter (\<lambda>x. fst x = u) (concat (map (\<lambda>t. map (Pair t) (case m_metrics s t of None \<Rightarrow> [] | Some xs \<Rightarrow> xs))
        (metric_keys s)))) = (case m_metrics s u of None \<Rightarrow> [] | Some xs \<Rightarrow> xs)"
      by (subst concat_pairs) (auto simp: metric_keys_def)
    with assms show ?thesis unfolding apply_edit_list
      by (cases u) (simp_all add: checkpoint_edit_def filter_pair list_of_def metrics_ok_def comp_def)
  qed
  then show ?thesis by (simp add: same_state_def apply_edit_watermark checkpoint_edit_def)
qed

subsection \<open>Applying a difference\<close>

abbreviation paths :: "segment_ref list \<Rightarrow> string set" where
  "paths xs \<equiv> relative_path ` set xs"

lemma diff_table_simps:
  "removed (diff_table t old new e) =
     removed e @ map (\<lambda>s. (t, relative_path s)) (filter (\<lambda>s. relative_path s \<notin> paths new) old)"
  "added (diff_table t old new e) =
     added e @ map (Pair t) (filter (\<lambda>s. relative_path s \<notin> paths old) new)"
  "reset (diff_table t old new e) = reset e"
  "e_watermark (diff_table t old new e) = e_watermark e"
  by (simp_all add: diff_table_def Let_def)

lemma fold_diff:
  "removed (fold (\<lambda>t. diff_table t (f t) (g t)) ts e) =
     removed e @ concat (map (\<lambda>t. map (\<lambda>s. (t, relative_path s)) (filter (\<lambda>s. relative_path s \<notin> paths (g t)) (f t))) ts)"
  "added (fold (\<lambda>t. diff_table t (f t) (g t)) ts e) =
     added e @ concat (map (\<lambda>t. map (Pair t) (filter (\<lambda>s. relative_path s \<notin> paths (f t)) (g t))) ts)"
  "reset (fold (\<lambda>t. diff_table t (f t) (g t)) ts e) = reset e"
  "e_watermark (fold (\<lambda>t. diff_table t (f t) (g t)) ts e) = e_watermark e"
  by (induction ts arbitrary: e) (simp_all add: diff_table_simps)

lemma diff_simps:
  assumes "metrics_ok old" "metrics_ok new"
  shows "(u, p) \<in> set (removed (diff old new)) \<longleftrightarrow> p \<in> paths (list_of old u) \<and> p \<notin> paths (list_of new u)"
    and "map snd (filter (\<lambda>x. fst x = u) (added (diff old new))) =
           filter (\<lambda>s. relative_path s \<notin> paths (list_of old u)) (list_of new u)"
    and "\<not> reset (diff old new)"
    and "e_watermark (diff old new) =
           (if m_watermark new \<noteq> m_watermark old then Some (m_watermark new) else None)"
proof -
  let ?ks = "filter (\<lambda>t. m_metrics old t \<noteq> None \<or> m_metrics new t \<noteq> None) table_ALL"
  have ml: "u \<noteq> TLogs \<Longrightarrow> u \<noteq> TSpans \<Longrightarrow> list_of m u = metric_list m u" for m
    by (cases u) (simp_all add: list_of_def metric_list_def)
  have empty: "u \<notin> set ?ks \<Longrightarrow> metric_list old u = [] \<and> metric_list new u = []"
    by (auto simp: metric_list_def)
  have kl: "TLogs \<notin> set ?ks" "TSpans \<notin> set ?ks" using assms by (auto simp: metrics_ok_def)
  have rm: "removed (diff old new) =
      map (\<lambda>s. (TLogs, relative_path s)) (filter (\<lambda>s. relative_path s \<notin> paths (m_logs new)) (m_logs old)) @
      map (\<lambda>s. (TSpans, relative_path s)) (filter (\<lambda>s. relative_path s \<notin> paths (m_spans new)) (m_spans old)) @
      concat (map (\<lambda>t. map (\<lambda>s. (t, relative_path s))
        (filter (\<lambda>s. relative_path s \<notin> paths (metric_list new t)) (metric_list old t))) ?ks)"
    by (simp add: diff_def Let_def fold_diff diff_table_simps edit_default_def)
  have ad: "added (diff old new) =
      map (Pair TLogs) (filter (\<lambda>s. relative_path s \<notin> paths (m_logs old)) (m_logs new)) @
      map (Pair TSpans) (filter (\<lambda>s. relative_path s \<notin> paths (m_spans old)) (m_spans new)) @
      concat (map (\<lambda>t. map (Pair t)
        (filter (\<lambda>s. relative_path s \<notin> paths (metric_list old t)) (metric_list new t))) ?ks)"
    by (simp add: diff_def Let_def fold_diff diff_table_simps edit_default_def)
  have lo: "list_of m TLogs = m_logs m" "list_of m TSpans = m_spans m" for m
    by (simp_all add: list_of_def)
  show "(u, p) \<in> set (removed (diff old new)) \<longleftrightarrow> p \<in> paths (list_of old u) \<and> p \<notin> paths (list_of new u)"
  proof (cases "u = TLogs \<or> u = TSpans")
    case True
    with kl show ?thesis unfolding rm by (auto simp: lo)
  next
    case False
    with ml empty show ?thesis unfolding rm by (cases "u \<in> set ?ks") auto
  qed
  show "map snd (filter (\<lambda>x. fst x = u) (added (diff old new))) =
      filter (\<lambda>s. relative_path s \<notin> paths (list_of old u)) (list_of new u)"
  proof (cases "u = TLogs \<or> u = TSpans")
    case True
    with kl show ?thesis unfolding ad by (auto simp: filter_pair concat_pairs lo)
  next
    case False
    with ml empty show ?thesis unfolding ad by (cases "u \<in> set ?ks") (auto simp: filter_pair concat_pairs)
  qed
  show "\<not> reset (diff old new)" by (simp add: diff_def Let_def fold_diff diff_table_simps edit_default_def)
  show "e_watermark (diff old new) = (if m_watermark new \<noteq> m_watermark old then Some (m_watermark new) else None)"
    by (simp add: diff_def Let_def fold_diff diff_table_simps edit_default_def)
qed

text \<open>How the engine changes a list of segments: some are dropped, new ones are added at the end.\<close>

definition evolves :: "segment_ref list \<Rightarrow> segment_ref list \<Rightarrow> bool" where
  "evolves old new \<longleftrightarrow>
     (\<exists>add. new = filter (\<lambda>s. relative_path s \<in> paths new) old @ add \<and> (\<forall>s \<in> set add. relative_path s \<notin> paths old))"

lemma apply_diff_list:
  assumes "metrics_ok old" "metrics_ok new"
  shows "list_of (apply_edit old (diff old new)) u =
    filter (\<lambda>s. relative_path s \<in> paths (list_of new u)) (list_of old u) @
    filter (\<lambda>s. relative_path s \<notin> paths (list_of old u)) (list_of new u)"
proof -
  have "filter (\<lambda>s. (u, relative_path s) \<notin> set (removed (diff old new))) (list_of old u) =
      filter (\<lambda>s. relative_path s \<in> paths (list_of new u)) (list_of old u)"
    by (rule filter_cong) (use diff_simps(1) [OF assms] in auto)
  then show ?thesis by (simp add: apply_edit_list diff_simps(2,3) [OF assms])
qed

lemma apply_diff:
  assumes "metrics_ok old" "metrics_ok new" "\<And>t. evolves (list_of old t) (list_of new t)"
  shows "same_state (apply_edit old (diff old new)) new"
proof -
  have "filter (\<lambda>s. relative_path s \<in> paths new') old' @ filter (\<lambda>s. relative_path s \<notin> paths old') new' = new'"
    if ev: "evolves old' new'" for old' new'
  proof -
    from ev obtain add where a: "new' = filter (\<lambda>s. relative_path s \<in> paths new') old' @ add"
      "\<forall>s \<in> set add. relative_path s \<notin> paths old'" by (auto simp: evolves_def)
    have "filter (\<lambda>s. relative_path s \<notin> paths old') new' = add"
      by (subst a(1)) (use a(2) in \<open>auto simp: filter_empty_conv\<close>)
    with a(1) show ?thesis by metis
  qed
  with assms show ?thesis
    by (simp add: same_state_def apply_diff_list apply_edit_watermark diff_simps split: option.splits)
qed

end
