(* ===== verification/Manifest_Writer.thy ===== *)
theory Manifest_Writer
  imports Manifest_Codec
begin

text \<open>
  The manifest writer on disk: after every fault of a persist a reader sees the old state or the new
  one, a reported success means the new one, and opening gives the state last persisted.
\<close>

subsection \<open>File names\<close>

lemma manifest_name_neq [simp]:
  "manifest_name n \<noteq> CURRENT_FILE" "manifest_name n \<noteq> CURRENT_TMP" "manifest_name n \<noteq> LEGACY_FILE"
  "CURRENT_FILE \<noteq> manifest_name n" "CURRENT_TMP \<noteq> manifest_name n" "LEGACY_FILE \<noteq> manifest_name n"
  "CURRENT_FILE \<noteq> CURRENT_TMP" "LEGACY_FILE \<noteq> CURRENT_FILE" "LEGACY_FILE \<noteq> CURRENT_TMP"
  "CURRENT_TMP \<noteq> CURRENT_FILE" "CURRENT_FILE \<noteq> LEGACY_FILE" "CURRENT_TMP \<noteq> LEGACY_FILE"
  by (auto simp: manifest_name_def CURRENT_FILE_def CURRENT_TMP_def LEGACY_FILE_def)

lemma parse_manifest_name [codec]:
  "n \<le> u64_max \<Longrightarrow> Option.bind (strip_prefix ''MANIFEST-'' (manifest_name n)) parse_u64 = Some n"
  unfolding manifest_name_def parse_u64_def
  by (simp only: strip_prefix_append Option.bind.simps) (simp add: parse_uint_pad)

lemma manifest_name_inject [simp]:
  "a \<le> u64_max \<Longrightarrow> b \<le> u64_max \<Longrightarrow> manifest_name a = manifest_name b \<longleftrightarrow> a = b"
  by (metis option.inject parse_manifest_name)

lemma manifest_name_text:
  "utf8_string (manifest_name n @ [nl])" "trim (manifest_name n @ [nl]) = manifest_name n"
proof -
  have chars: "c \<in> set digit_chars" if "c \<in> set (show_pad 10 6 n)" for c
    using that by (rule show_pad_chars)
  show "utf8_string (manifest_name n @ [nl])"
    by (rule utf8_string_ascii)
       (use chars digit_chars_props in \<open>auto simp: manifest_name_def list_all_iff\<close>)
  have l: "last (manifest_name n) \<in> set digit_chars"
    using chars [of "last (show_pad 10 6 n)"] by (simp add: manifest_name_def)
  have "manifest_name n \<noteq> []" "graphic (hd (manifest_name n))"
    by (simp_all add: manifest_name_def graphic_def)
  then show "trim (manifest_name n @ [nl]) = manifest_name n"
    using trim_nl digit_chars_graphic [OF l] by simp
qed

abbreviation current_text :: "nat \<Rightarrow> bytes" where
  "current_text n \<equiv> bytes_of_string (manifest_name n @ [nl])"

lemma read_current_name:
  assumes "fs_read w CURRENT_FILE = Inr (current_text n)" "n \<le> u64_max"
  shows "read_current w = Inr (Some n)"
proof -
  have "fs_read_to_string w CURRENT_FILE = Inr (manifest_name n @ [nl])"
    using assms(1) manifest_name_text(1) [of n]
    by (simp add: fs_read_to_string_def str_from_utf8_string del: bytes_of_string_append)
  then show ?thesis
    using parse_manifest_name [OF assms(2)]
    by (simp add: read_current_def manifest_name_text(2))
qed

subsection \<open>What a log replays to\<close>

definition state_ok :: "manifest \<Rightarrow> bool" where
  "state_ok m \<longleftrightarrow> metrics_ok m \<and> m_watermark m \<le> u64_max \<and> (\<forall>t. list_all seg_ok (list_of m t))"

lemma checkpoint_ok: "state_ok s \<Longrightarrow> edit_ok (checkpoint_edit s)"
proof -
  assume s: "state_ok s"
  have "seg_ok x" if "t \<in> set (metric_keys s)" "m_metrics s t = Some xs" "x \<in> set xs" for t xs x
  proof -
    have "t \<noteq> TLogs" "t \<noteq> TSpans" using that s by (auto simp: state_ok_def metrics_ok_def)
    then have "list_of s t = xs" using that by (cases t) (simp_all add: list_of_def)
    with s that show ?thesis by (auto simp: state_ok_def list_all_iff)
  qed
  moreover have "list_all seg_ok (m_logs s)" "list_all seg_ok (m_spans s)"
    using s by (auto simp: state_ok_def list_of_def dest: spec [of _ TLogs] spec [of _ TSpans])
  ultimately show ?thesis
    using s by (auto simp: edit_ok_def checkpoint_edit_def state_ok_def list_all_iff metric_keys_def split: option.splits)
qed

lemma added_diff_subset:
  "metrics_ok old \<Longrightarrow> metrics_ok new \<Longrightarrow> (t, s) \<in> set (added (diff old new)) \<Longrightarrow> s \<in> set (list_of new t)"
proof -
  assume m: "metrics_ok old" "metrics_ok new" and "(t, s) \<in> set (added (diff old new))"
  then have "s \<in> set (map snd (filter (\<lambda>x. fst x = t) (added (diff old new))))" by force
  then show ?thesis by (simp add: diff_simps(2) [OF m])
qed

lemma diff_ok: "state_ok old \<Longrightarrow> state_ok new \<Longrightarrow> edit_ok (diff old new)"
proof -
  assume s: "state_ok old" "state_ok new"
  then have m: "metrics_ok old" "metrics_ok new" by (simp_all add: state_ok_def)
  have "path_ok p" if "(t, p) \<in> set (removed (diff old new))" for t p
    using that s by (fastforce simp: diff_simps(1) [OF m] state_ok_def list_all_iff seg_ok_def)
  moreover have "seg_ok x" if "(t, x) \<in> set (added (diff old new))" for t x
    using added_diff_subset [OF m that] s by (auto simp: state_ok_def list_all_iff)
  ultimately show ?thesis
    using s by (auto simp: edit_ok_def list_all_iff diff_simps(4) [OF m] state_ok_def)
qed

definition log_state :: "edit list \<Rightarrow> manifest" where
  "log_state es = foldl apply_edit manifest_default es"

lemma replay_frames_edits:
  "list_all edit_ok es \<Longrightarrow> replay_frames (map encode_edit es) m = Inr (foldl apply_edit m es)"
  by (induction es arbitrary: m) (simp_all add: decode_encode_edit)

text \<open>A log file that holds these edits, followed by a torn frame.\<close>

definition log_at :: "mhash \<Rightarrow> world \<Rightarrow> nat \<Rightarrow> edit list \<Rightarrow> bool" where
  "log_at h w n es \<longleftrightarrow>
     (\<exists>t. fs_read w (manifest_name n) = Inr (m_frames h (map encode_edit es) @ t) \<and> m_scan_frames h t = []) \<and>
     list_all edit_ok es \<and> list_all (\<lambda>e. payload_ok (encode_edit e)) es"

lemma replay_log: "log_at h w n es \<Longrightarrow> replay h w n = Inr (Some (log_state es))"
proof -
  assume l: "log_at h w n es"
  then obtain t where t: "fs_read w (manifest_name n) = Inr (m_frames h (map encode_edit es) @ t)"
    "m_scan_frames h t = []" and e: "list_all edit_ok es" "list_all payload_ok (map encode_edit es)"
    by (auto simp: log_at_def list_all_iff)
  then have "m_scan_frames h (m_frames h (map encode_edit es) @ t) = map encode_edit es"
    by (simp only: m_scan_frames_append append_Nil2)
  then show ?thesis using t e by (simp add: replay_def replay_frames_edits log_state_def del: map_map)
qed

lemma manifest_read_log:
  assumes "fs_read w CURRENT_FILE = Inr (current_text n)" "n \<le> u64_max" "log_at h w n es"
  shows "manifest_read h w = Inr (log_state es)"
  using read_current_name [OF assms(1,2)] replay_log [OF assms(3)]
  by (simp add: manifest_read_def CURRENT_READ_TRIES_def numeral_eq_Suc)

lemma manifest_read_empty:
  assumes "fs_read w CURRENT_FILE = Inl NotFound" "fs_read w LEGACY_FILE = Inl NotFound"
  shows "manifest_read h w = Inr manifest_default"
  using assms
  by (simp add: manifest_read_def CURRENT_READ_TRIES_def numeral_eq_Suc read_current_def
      fs_read_to_string_def fs_exists_read)

lemma log_at_unchanged: "unchanged S w w' \<Longrightarrow> manifest_name n \<notin> S \<Longrightarrow> log_at h w' n es = log_at h w n es"
  by (simp add: log_at_def unchanged_read)

subsection \<open>Steps on the files\<close>

lemma io_try_cases:
  obtains "io_try e r = (Inl e, snd r)" "\<not> fst r" | "io_try e r = (Inr (), snd r)" "fst r"
  by (cases "fst r") (auto simp: io_try_def)

lemma write_manifest_file_effect:
  assumes "write_manifest_file p bs w = (res, w')"
  shows "unchanged {p} w w'" and "res = Inr () \<Longrightarrow> fs_read w' p = Inr bs"
proof -
  let ?w1 = "snd (fs_create p w)"
  let ?w2 = "snd (fs_write_all p bs ?w1)"
  let ?w3 = "snd (fs_sync p ?w2)"
  have u1: "unchanged {p} w ?w1" by (rule fs_create_read)
  have u2: "unchanged {p} w ?w2"
    using unchanged_trans [OF u1 fs_write_all_read(1) [of p ?w1 bs]] by simp
  have u3: "unchanged {p} w ?w3" using u2 by (simp add: unchanged_def fs_sync_read)
  have w': "w' = ?w1 \<or> w' = ?w2 \<or> w' = ?w3"
    using assms by (auto simp: write_manifest_file_def Let_def io_try_def split: if_splits)
  then show "unchanged {p} w w'" using u1 u2 u3 by auto
  show "fs_read w' p = Inr bs" if "res = Inr ()"
  proof -
    have "fst (fs_create p w)" "fst (fs_write_all p bs ?w1)" "w' = ?w3"
      using assms that by (auto simp: write_manifest_file_def Let_def io_try_def split: if_splits)
    then show ?thesis using fs_create_read(2) [of p w] fs_write_all_read(2) [of p bs ?w1]
      by (simp add: fs_sync_read)
  qed
qed

lemma write_current_effect:
  assumes "write_current name w = (res, w')"
  shows "unchanged {CURRENT_FILE, CURRENT_TMP} w w'"
    and "fs_read w' CURRENT_FILE = fs_read w CURRENT_FILE \<or>
         fs_read w' CURRENT_FILE = Inr (bytes_of_string (name @ [nl]))"
    and "res = Inr () \<Longrightarrow> fs_read w' CURRENT_FILE = Inr (bytes_of_string (name @ [nl]))"
proof -
  let ?bs = "bytes_of_string (name @ [nl])"
  let ?w1 = "snd (fs_create CURRENT_TMP w)"
  let ?w2 = "snd (fs_write_all CURRENT_TMP ?bs ?w1)"
  let ?w3 = "snd (fs_sync CURRENT_TMP ?w2)"
  let ?w4 = "snd (fs_rename CURRENT_TMP CURRENT_FILE ?w3)"
  let ?w5 = "snd (fs_sync_dir ?w4)"
  have u1: "unchanged {CURRENT_TMP} w ?w1" by (rule fs_create_read)
  have u2: "unchanged {CURRENT_TMP} w ?w2"
    using unchanged_trans [OF u1 fs_write_all_read(1) [of CURRENT_TMP ?w1 ?bs]] by simp
  have u3: "unchanged {CURRENT_TMP} w ?w3" using u2 by (simp add: unchanged_def fs_sync_read)
  have u4: "unchanged {CURRENT_FILE, CURRENT_TMP} w ?w4"
    using unchanged_trans [OF u3 fs_rename_read(1) [of CURRENT_TMP CURRENT_FILE]]
    by (rule unchanged_mono) auto
  have u5: "unchanged {CURRENT_FILE, CURRENT_TMP} w ?w5" using u4 by (simp add: unchanged_def fs_sync_dir_read)
  consider (early) "w' = ?w1 \<or> w' = ?w2 \<or> w' = ?w3 \<or> (w' = ?w4 \<and> \<not> fst (fs_rename CURRENT_TMP CURRENT_FILE ?w3))"
      "res \<noteq> Inr ()"
    | (late) "w' = ?w5" "fst (fs_create CURRENT_TMP w)" "fst (fs_write_all CURRENT_TMP ?bs ?w1)"
      "fst (fs_rename CURRENT_TMP CURRENT_FILE ?w3)"
    using assms by (auto simp: write_current_def storage_fsync_dir_def Let_def io_try_def split: if_splits)
  note c = this
  have late: "fs_read ?w5 CURRENT_FILE = Inr ?bs"
    if "fst (fs_create CURRENT_TMP w)" "fst (fs_write_all CURRENT_TMP ?bs ?w1)"
      "fst (fs_rename CURRENT_TMP CURRENT_FILE ?w3)"
    using that fs_create_read(2) [of CURRENT_TMP w] fs_write_all_read(2) [of CURRENT_TMP ?bs ?w1]
      fs_rename_read(2) [of CURRENT_TMP CURRENT_FILE ?w3]
    by (simp add: fs_sync_dir_read fs_sync_read)
  have early: "fs_read w' CURRENT_FILE = fs_read w CURRENT_FILE"
    if "w' = ?w1 \<or> w' = ?w2 \<or> w' = ?w3 \<or> (w' = ?w4 \<and> \<not> fst (fs_rename CURRENT_TMP CURRENT_FILE ?w3))"
    using that u1 u2 u3 unchanged_trans [OF u3 fs_rename_read(3) [of CURRENT_TMP CURRENT_FILE ?w3]]
    by (auto simp: unchanged_def)
  show "unchanged {CURRENT_FILE, CURRENT_TMP} w w'"
    using c by cases (use u1 u2 u3 u4 u5 in \<open>auto intro: unchanged_mono\<close>)
  show "fs_read w' CURRENT_FILE = fs_read w CURRENT_FILE \<or> fs_read w' CURRENT_FILE = Inr ?bs"
    using c by cases (use early late in auto)
  show "res = Inr () \<Longrightarrow> fs_read w' CURRENT_FILE = Inr ?bs"
    using c by cases (use late in auto)
qed

subsection \<open>The writer's invariant\<close>

text \<open>The last persisted state, and the directory that shows it: nothing at all before the first
  persist, then the log named by \<open>CURRENT\<close>, with no torn tail while the writer runs.\<close>

definition log_clean :: "mhash \<Rightarrow> world \<Rightarrow> nat \<Rightarrow> edit list \<Rightarrow> bool" where
  "log_clean h w n es \<longleftrightarrow>
     fs_read w (manifest_name n) = Inr (m_frames h (map encode_edit es)) \<and>
     list_all edit_ok es \<and> list_all (\<lambda>e. payload_ok (encode_edit e)) es"

definition mw_inv :: "mhash \<Rightarrow> nat \<Rightarrow> mw_state \<Rightarrow> bool" where
  "mw_inv h k st \<longleftrightarrow>
     (case st of (self, w) \<Rightarrow>
        state_ok (last_state self) \<and> current_num self + k \<le> u64_max \<and>
        (if current_num self = 0
         then fs_read w CURRENT_FILE = Inl NotFound \<and> fs_read w LEGACY_FILE = Inl NotFound \<and>
              same_state manifest_default (last_state self)
         else fs_read w CURRENT_FILE = Inr (current_text (current_num self)) \<and>
              (\<exists>es. log_clean h w (current_num self) es \<and> same_state (log_state es) (last_state self) \<and>
                 log_bytes self = length (m_frames h (map encode_edit es)))))"

lemma log_clean_at: "log_clean h w n es \<Longrightarrow> log_at h w n es"
  unfolding log_clean_def log_at_def by (metis append_Nil2 m_scan_Nil)

text \<open>What a reader sees.\<close>

definition shows_state :: "mhash \<Rightarrow> world \<Rightarrow> manifest \<Rightarrow> bool" where
  "shows_state h w s \<longleftrightarrow> (\<exists>m. manifest_read h w = Inr m \<and> same_state m s)"

lemma mw_inv_shows: "mw_inv h k (self, w) \<Longrightarrow> shows_state h w (last_state self)"
  using manifest_read_empty manifest_read_log log_clean_at
  by (fastforce simp: mw_inv_def shows_state_def split: if_splits)

lemma shows_log:
  "fs_read w CURRENT_FILE = Inr (current_text n) \<Longrightarrow> n \<le> u64_max \<Longrightarrow> log_at h w n es \<Longrightarrow>
     same_state (log_state es) s \<Longrightarrow> shows_state h w s"
  using manifest_read_log by (auto simp: shows_state_def)

definition fits :: "manifest \<Rightarrow> bool" where
  "fits s \<longleftrightarrow> payload_ok (encode_edit (checkpoint_edit s))"

lemma checkpoint_cases:
  assumes inv: "mw_inv h k (self, w)" and s: "state_ok s" "fits s"
    and n: "0 < num" "num \<le> u64_max" "num \<noteq> current_num self"
    and run: "write_checkpoint h s num (self, w) = (res, self', w')"
  shows "(shows_state h w' (last_state self) \<or> shows_state h w' s) \<and>
    (res = Inr () \<longrightarrow> shows_state h w' s \<and> current_num self' = num \<and>
       (num + j \<le> u64_max \<longrightarrow> mw_inv h j (self'\<lparr>last_state := s\<rparr>, w')))"
proof -
  let ?e = "checkpoint_edit s"
  let ?p = "encode_edit ?e"
  have cn: "current_num self \<le> u64_max" using inv by (simp add: mw_inv_def)
  obtain res1 w1 where r1: "write_manifest_file (manifest_name num) (m_frame h ?p) w = (res1, w1)"
    by (cases "write_manifest_file (manifest_name num) (m_frame h ?p) w")
  note f1 = write_manifest_file_effect [OF r1]
  have keep: "mw_inv h k (self, v)" if "unchanged S w v" "S \<inter> {CURRENT_FILE, LEGACY_FILE, manifest_name (current_num self)} = {}"
    for v S
    using inv that by (auto simp: mw_inv_def log_clean_def unchanged_def)
  have nn: "manifest_name num \<noteq> manifest_name (current_num self)" using n cn by simp
  have inv1: "mw_inv h k (self, w1)" by (rule keep [OF f1(1)]) (use nn in auto)
  have old1: "shows_state h w1 (last_state self)" by (rule mw_inv_shows [OF inv1])
  show ?thesis
  proof (cases res1)
    case (Inl e)
    with r1 run have "res = Inl e" "w' = w1" by (auto simp: write_checkpoint_def Let_def)
    with old1 show ?thesis by simp
  next
    case (Inr u)
    then have rd: "fs_read w1 (manifest_name num) = Inr (m_frame h ?p)" using f1(2) by simp
    obtain res2 w2 where r2: "write_current (manifest_name num) w1 = (res2, w2)"
      by (cases "write_current (manifest_name num) w1")
    note f2 = write_current_effect [OF r2]
    have rd2: "fs_read w2 (manifest_name num) = Inr (m_frame h ?p)"
      using rd f2(1) by (simp add: unchanged_def)
    have st: "same_state (log_state [?e]) s"
      using checkpoint_state [of s manifest_default] s by (simp add: log_state_def state_ok_def)
    have clean: "log_clean h v num [?e]" if "fs_read v (manifest_name num) = Inr (m_frame h ?p)" for v
      using that checkpoint_ok [OF s(1)] s(2) by (simp add: log_clean_def fits_def)
    have new: "shows_state h v s" if "fs_read v CURRENT_FILE = Inr (current_text num)"
        "fs_read v (manifest_name num) = Inr (m_frame h ?p)" for v
      by (rule shows_log [OF that(1) n(2) log_clean_at [OF clean [OF that(2)]] st])
    have old2: "shows_state h w2 (last_state self)" if "fs_read w2 CURRENT_FILE = fs_read w1 CURRENT_FILE"
    proof -
      have "unchanged {CURRENT_TMP} w1 w2"
        using f2(1) that unfolding unchanged_def by (metis insert_iff)
      then have "unchanged {manifest_name num, CURRENT_TMP} w w2"
        using unchanged_trans [OF f1(1)] by (metis Un_insert_left sup_bot_left)
      then have "mw_inv h k (self, w2)" by (rule keep) (use nn in auto)
      then show ?thesis by (rule mw_inv_shows)
    qed
    show ?thesis
    proof (cases res2)
      case (Inl e)
      with r1 r2 Inr run have "res = Inl e" "w' = w2" by (auto simp: write_checkpoint_def Let_def)
      with f2(2) old2 new rd2 show ?thesis by auto
    next
      case i2: (Inr u2)
      let ?self = "self\<lparr>current_num := num, log_bytes := M_HEADER + length ?p\<rparr>"
      have cur: "fs_read w2 CURRENT_FILE = Inr (current_text num)" using f2(3) i2 by simp
      have res: "res = Inr ()" "self' = ?self" and w': "w' = w2 \<or> w' = snd (fs_remove (manifest_name (current_num self)) w2)"
        using r1 r2 Inr i2 run by (auto simp: write_checkpoint_def Let_def split: if_splits)
      have "unchanged {manifest_name (current_num self)} w2 w'"
        using w' fs_remove_read by auto
      then have rd': "fs_read w' CURRENT_FILE = Inr (current_text num)"
          "fs_read w' (manifest_name num) = Inr (m_frame h ?p)"
        using cur rd2 nn by (auto simp: unchanged_def)
      have "num + j \<le> u64_max \<longrightarrow> mw_inv h j (self'\<lparr>last_state := s\<rparr>, w')"
        using rd'(1) clean [OF rd'(2)] st s n res by (auto simp: mw_inv_def intro!: exI [of _ "[?e]"])
      with res new [OF rd'] show ?thesis by simp
    qed
  qed
qed

lemma append_frame_cases:
  assumes inv: "mw_inv h k (self, w)" and num: "current_num self \<noteq> 0"
    and s: "state_ok s" "same_state (apply_edit (last_state self) e) s" "edit_ok e" "payload_ok (encode_edit e)"
    and run: "append_frame (m_frame h (encode_edit e)) (self, w) = (res, self', w')"
  shows "(shows_state h w' (last_state self) \<or> shows_state h w' s) \<and> self' = self \<and>
    (res = Inr () \<longrightarrow> shows_state h w' s \<and>
       mw_inv h k (self\<lparr>log_bytes := log_bytes self + (M_HEADER + length (encode_edit e)), last_state := s\<rparr>, w'))"
proof -
  let ?n = "current_num self" and ?f = "m_frame h (encode_edit e)"
  let ?p = "manifest_name ?n"
  from inv num obtain es where cur: "fs_read w CURRENT_FILE = Inr (current_text ?n)"
    and log: "log_clean h w ?n es" and st: "same_state (log_state es) (last_state self)"
    and lb: "log_bytes self = length (m_frames h (map encode_edit es))" and le: "?n + k \<le> u64_max"
    by (auto simp: mw_inv_def)
  have rd: "fs_read w ?p = Inr (m_frames h (map encode_edit es))" using log by (simp add: log_clean_def)
  let ?w1 = "snd (fs_open_existing ?p w)"
  let ?w2 = "snd (fs_write_all ?p ?f ?w1)"
  let ?w3 = "snd (fs_sync ?p ?w2)"
  have rd1: "fs_read ?w1 = fs_read w" by (simp add: fs_open_existing_def fun_eq_iff)
  have ext: "same_state (log_state (es @ [e])) s"
    using same_state_trans [OF apply_edit_same [OF st] s(2)] by (simp add: log_state_def)
  have sc: "m_scan_frames h (take j ?f) = []" if "j < length ?f" for j
    using m_scan_prefix [OF s(4) that] .
  obtain j where j: "fs_read ?w2 ?p = Inr (m_frames h (map encode_edit es) @ take j ?f)"
    using fs_write_all_read(3) [of ?p ?f ?w1] rd rd1 by auto
  have u2: "unchanged {?p} w ?w2" using fs_write_all_read(1) [of ?p ?w1 ?f] by (simp add: unchanged_def rd1)
  have cur2: "fs_read v CURRENT_FILE = Inr (current_text ?n)" if "unchanged {?p} w v" for v
    using that cur by (simp add: unchanged_def)
  have both: "shows_state h v (last_state self) \<or> shows_state h v s"
    if v: "unchanged {?p} w v" "fs_read v ?p = Inr (m_frames h (map encode_edit es) @ take j ?f)" for v
  proof (cases "j < length ?f")
    case True
    then have "log_at h v ?n es" using log v sc unfolding log_at_def log_clean_def by blast
    then show ?thesis using shows_log [OF cur2 [OF v(1)] _ _ st] le by simp
  next
    case False
    then have "log_clean h v ?n (es @ [e])" using log v s by (simp add: log_clean_def)
    then show ?thesis using shows_log [OF cur2 [OF v(1)] _ log_clean_at ext] le by simp
  qed
  have w': "(w' = ?w1 \<and> res \<noteq> Inr ()) \<or> (w' = ?w2 \<and> res \<noteq> Inr ()) \<or> (w' = ?w3)" and sf: "self' = self"
    and ok: "res = Inr () \<Longrightarrow> fst (fs_write_all ?p ?f ?w1) \<and> w' = ?w3"
    using run by (auto simp: append_frame_def Let_def io_try_def split: if_splits)
  have u3: "unchanged {?p} w ?w3" "fs_read ?w3 = fs_read ?w2" using u2 by (auto simp: unchanged_def fs_sync_read)
  have old: "shows_state h ?w1 (last_state self)"
    using shows_log [of ?w1 ?n h es] cur st le log_clean_at [OF log] rd1 by (simp add: log_at_def)
  have "shows_state h w' (last_state self) \<or> shows_state h w' s"
    using w' old both [OF u2 j] both [of ?w3] u3 j by auto
  moreover have "shows_state h w' s \<and> mw_inv h k (self\<lparr>log_bytes := log_bytes self + (M_HEADER + length (encode_edit e)),
      last_state := s\<rparr>, w')" if "res = Inr ()"
  proof -
    have "fs_read w' ?p = Inr (m_frames h (map encode_edit es) @ ?f)"
      using ok [OF that] fs_write_all_read(2) [of ?p ?f ?w1] rd rd1 u3 by simp
    then have cl: "log_clean h w' ?n (es @ [e])" using log s by (simp add: log_clean_def)
    have cu: "fs_read w' CURRENT_FILE = Inr (current_text ?n)" 
      using cur2 [OF u3(1)] conjunct2 [OF ok [OF that]] by metis
    have "shows_state h w' s" using shows_log [OF cu _ log_clean_at [OF cl] ext] le by simp
    moreover have "mw_inv h k (self\<lparr>log_bytes := log_bytes self + (M_HEADER + length (encode_edit e)),
      last_state := s\<rparr>, w')"
      using cu cl ext s num le lb by (auto simp: mw_inv_def intro!: exI [of _ "es @ [e]"])
    ultimately show ?thesis ..
  qed
  ultimately show ?thesis using sf by blast
qed

subsection \<open>Persisting\<close>

lemma empty_diff:
  assumes "metrics_ok old" "metrics_ok new" "\<And>t. evolves (list_of old t) (list_of new t)"
    and "edit_is_empty (diff old new)"
  shows "same_state old new"
proof -
  have "list_of (apply_edit old (diff old new)) t = list_of old t" for t
    using assms(4) by (simp add: apply_edit_list edit_is_empty_def)
  moreover have "m_watermark (apply_edit old (diff old new)) = m_watermark old"
    using assms(4) by (simp add: apply_edit_watermark edit_is_empty_def)
  ultimately show ?thesis using apply_diff [OF assms(1-3)] by (simp add: same_state_def)
qed

lemma small_payload: "length p \<le> CHECKPOINT_BYTES \<Longrightarrow> payload_ok p"
  by (simp add: payload_ok_def CHECKPOINT_BYTES_def u32_max_def)

lemma persist_cases:
  assumes inv: "mw_inv h (Suc k) (self, w)" and view: "state_ok view" "fits view"
    and ev: "\<And>t. evolves (list_of (last_state self) t) (list_of view t)"
    and run: "persist h view (self, w) = (res, self', w')"
  shows "(shows_state h w' (last_state self) \<or> shows_state h w' view) \<and>
    (res = Inr () \<longrightarrow> shows_state h w' view \<and> mw_inv h k (self', w') \<and> same_state (last_state self') view)"
proof -
  let ?e = "diff (last_state self) view"
  have ls: "state_ok (last_state self)" using inv by (simp add: mw_inv_def)
  then have mo: "metrics_ok (last_state self)" "metrics_ok view" using view by (simp_all add: state_ok_def)
  have weak: "mw_inv h k st" if "mw_inv h (Suc k) st" for st
    using that by (auto simp: mw_inv_def split: if_splits prod.splits)
  show ?thesis
  proof (cases "edit_is_empty ?e")
    case True
    with run have r: "res = Inr ()" "self' = self" "w' = w" by (auto simp: persist_def Let_def)
    have ss: "same_state (last_state self) view" by (rule empty_diff [OF mo ev True])
    then have "shows_state h w view"
      using mw_inv_shows [OF inv] same_state_trans by (auto simp: shows_state_def)
    with r ss weak [OF inv] show ?thesis by simp
  next
    case ne: False
    have ck: ?thesis if "write_checkpoint h view num (self, w) = (res1, self1, w1)"
        "0 < num" "num + k \<le> u64_max" "num \<noteq> current_num self"
        "res = res1" "w' = w1" "res1 = Inr () \<Longrightarrow> self' = self1\<lparr>last_state := view\<rparr>" for num res1 self1 w1
      using checkpoint_cases [OF inv view that(2) _ that(4,1), of k] that by auto
    show ?thesis
    proof (cases "current_num self = 0")
      case True
      obtain res1 self1 w1 where c: "write_checkpoint h view 1 (self, w) = (res1, self1, w1)"
        by (cases "write_checkpoint h view 1 (self, w)") auto
      with run ne True have "res = res1 \<and> w' = w1 \<and> (res1 = Inr () \<longrightarrow> self' = self1\<lparr>last_state := view\<rparr>)"
        by (cases res1) (auto simp: persist_def Let_def)
      with ck [OF c] True inv show ?thesis by (auto simp: mw_inv_def)
    next
      case False
      let ?len = "M_HEADER + length (encode_edit ?e)"
      have nx: "wadd_u64 (current_num self) 1 = Suc (current_num self)" using inv by (simp add: mw_inv_def)
      show ?thesis
      proof (cases "log_bytes self + ?len > CHECKPOINT_BYTES")
        case True
        obtain res1 self1 w1 where c: "write_checkpoint h view (Suc (current_num self)) (self, w) = (res1, self1, w1)"
          by (cases "write_checkpoint h view (Suc (current_num self)) (self, w)") auto
        with run ne False True nx have "res = res1 \<and> w' = w1 \<and> (res1 = Inr () \<longrightarrow> self' = self1\<lparr>last_state := view\<rparr>)"
          by (cases res1) (auto simp: persist_def Let_def)
        with ck [OF c] inv show ?thesis by (auto simp: mw_inv_def)
      next
        case fit: False
        obtain res1 self1 w1 where c: "append_frame (m_frame h (encode_edit ?e)) (self, w) = (res1, self1, w1)"
          by (cases "append_frame (m_frame h (encode_edit ?e)) (self, w)") auto
        have pl: "payload_ok (encode_edit ?e)" using fit by (intro small_payload) simp
        note a = append_frame_cases [OF inv False view(1) apply_diff [OF mo ev] diff_ok [OF ls view(1)] pl c]
        from c run ne False fit have "res = res1 \<and> w' = w1 \<and>
          (res1 = Inr () \<longrightarrow> self' = self1\<lparr>log_bytes := log_bytes self1 + ?len, last_state := view\<rparr>)"
          by (cases res1) (auto simp: persist_def Let_def)
        with a weak show ?thesis by auto
      qed
    qed
  qed
qed

subsection \<open>Opening\<close>

text \<open>A directory written by a manifest writer, with a torn tail or not, opens to the state it shows;
  without one the writer is consistent again.\<close>

lemma open_log_state:
  assumes "fs_read w CURRENT_FILE = Inr (current_text n)" "n \<le> u64_max" "log_at h w n es"
  shows "\<exists>mw. manifest_open h w = (Inr (log_state es, mw), w) \<and> current_num mw = n \<and> last_state mw = log_state es"
  using read_current_name [OF assms(1,2)] replay_log [OF assms(3)] by (simp add: manifest_open_def)

lemma state_ok_apply: "edit_ok e \<Longrightarrow> state_ok m \<Longrightarrow> state_ok (apply_edit m e)"
proof -
  assume e: "edit_ok e" and m: "state_ok m"
  have d: "metrics_ok manifest_default" by (simp add: metrics_ok_def manifest_default_def)
  have set_ok: "metrics_ok m \<Longrightarrow> metrics_ok (set_list t xs m)" for t xs m
    by (cases t) (auto simp: metrics_ok_def set_list_def)
  have ret: "metrics_ok m \<Longrightarrow> metrics_ok (retain_path x m)" for x m
    using set_ok by (auto simp: retain_path_def Let_def metrics_ok_def split: prod.splits) 
  have fr: "metrics_ok m \<Longrightarrow> metrics_ok (fold retain_path rs m)" for rs m
    by (induction rs arbitrary: m) (auto intro: ret)
  have fp: "metrics_ok m \<Longrightarrow> metrics_ok (fold push_seg xs m)" for xs m
    by (induction xs arbitrary: m) (auto simp: push_seg_def intro: set_ok split: prod.splits)
  have "metrics_ok (apply_edit m e)"
    using m d by (auto simp: apply_edit_def Let_def state_ok_def metrics_ok_def intro!: fp [unfolded metrics_ok_def] fr [unfolded metrics_ok_def] split: option.splits) 
  moreover have "m_watermark (apply_edit m e) \<le> u64_max"
    using e m by (auto simp: apply_edit_watermark edit_ok_def state_ok_def split: option.splits)
  moreover have "list_all seg_ok (list_of (apply_edit m e) t)" for t
    using e m by (auto simp: apply_edit_list edit_ok_def state_ok_def list_all_iff)
  ultimately show ?thesis by (simp add: state_ok_def)
qed

lemma open_clean:
  assumes "fs_read w CURRENT_FILE = Inr (current_text n)" "0 < n" "n + k \<le> u64_max" "log_clean h w n es"
  shows "\<exists>mw. manifest_open h w = (Inr (log_state es, mw), w) \<and> mw_inv h k (mw, w) \<and> last_state mw = log_state es"
proof -
  have ok: "state_ok m \<Longrightarrow> list_all edit_ok es \<Longrightarrow> state_ok (foldl apply_edit m es)" for m es
    by (induction es arbitrary: m) (auto intro: state_ok_apply)
  have d: "state_ok manifest_default" by (simp add: state_ok_def metrics_ok_def) (simp add: manifest_default_def)
  have "state_ok (log_state es)" using ok [OF d] assms(4) by (simp add: log_state_def log_clean_def)
  moreover have "fs_len w (manifest_name n) = Some (length (m_frames h (map encode_edit es)))"
    using assms(4) by (auto simp: log_clean_def fs_read_Some fs_len_def)
  ultimately show ?thesis
    using read_current_name [OF assms(1)] replay_log [OF log_clean_at [OF assms(4)]] assms
    by (auto simp: manifest_open_def mw_inv_def intro!: exI [of _ es])
qed

end
