(* ===== verification/Manifest_Properties.thy ===== *)
theory Manifest_Properties
  imports Manifest_Writer
begin

text \<open>
  Durability of the manifest, its store interface with the interpretation on the writer, and the
  properties of the manifest.
\<close>

subsection \<open>Durability\<close>

definition durable_file :: "world \<Rightarrow> string \<Rightarrow> bool" where
  "durable_file w p \<longleftrightarrow> (\<exists>f. file_at w p = Some f \<and> linked f \<and> length (content f) \<le> flushed f)"

definition mw_durable :: "mw_state \<Rightarrow> bool" where
  "mw_durable st \<longleftrightarrow>
     (case st of (self, w) \<Rightarrow>
        current_num self \<noteq> 0 \<longrightarrow>
          durable_file w CURRENT_FILE \<and> durable_file w (manifest_name (current_num self)))"

lemma durable_survives: "power_loss w w' \<Longrightarrow> durable_file w p \<Longrightarrow> fs_read w' p = fs_read w p"
proof -
  assume loss: "power_loss w w'" and "durable_file w p"
  then obtain f where f: "file_at w p = Some f" "linked f" "length (content f) \<le> flushed f"
    by (auto simp: durable_file_def)
  have "survives (Some f) (file_at w' p)" using loss f(1) by (metis power_loss_def)
  with f obtain g where g: "file_at w' p = Some g" "readable g = readable f"
    "prefix (content g) (content f)" "length (content f) \<le> length (content g)"
    by (auto simp: survives_def split: option.splits)
  then have "content g = content f" by (auto simp: prefix_def)
  with f g show ?thesis by (simp add: fs_read_def)
qed

lemma absent_survives: "power_loss w w' \<Longrightarrow> fs_read w p = Inl NotFound \<Longrightarrow> fs_read w' p = Inl NotFound"
proof -
  assume loss: "power_loss w w'" and "fs_read w p = Inl NotFound"
  then have "file_at w p = None" by (auto simp: fs_read_def split: option.splits if_splits)
  moreover have "survives (file_at w p) (file_at w' p)" using loss by (simp add: power_loss_def)
  ultimately have "file_at w' p = None" by (auto simp: survives_def split: option.splits)
  then show ?thesis by (simp add: fs_read_def)
qed

lemma mw_power_loss:
  assumes "mw_inv h k (self, w)" "mw_durable (self, w)" "power_loss w w'"
  shows "mw_inv h k (self, w')"
proof (cases "current_num self = 0")
  case True
  with assms absent_survives show ?thesis by (auto simp: mw_inv_def)
next
  case False
  with assms have "fs_read w' CURRENT_FILE = fs_read w CURRENT_FILE"
    "fs_read w' (manifest_name (current_num self)) = fs_read w (manifest_name (current_num self))"
    by (auto simp: mw_durable_def intro: durable_survives)
  with assms(1) False show ?thesis by (auto simp: mw_inv_def log_clean_def)
qed

lemma fs_write_file_at:
  "fst (fs_write_all p bs w) \<Longrightarrow> file_at (snd (fs_write_all p bs w)) q =
     (if q = p then map_option (\<lambda>f. f\<lparr>content := content f @ bs\<rparr>) (file_at w p) else file_at w q)"
  by (auto simp: fs_write_all_def append_bytes_def split: option.splits)

lemma fs_sync_file_at:
  "fst (fs_sync p w) \<Longrightarrow> file_at (snd (fs_sync p w)) q =
     (if q = p then map_option (\<lambda>f. f\<lparr>flushed := length (content f)\<rparr>) (file_at w p) else file_at w q)"
  by (auto simp: fs_sync_def split: option.splits)

lemma fs_sync_dir_file_at:
  "fst (fs_sync_dir w) \<Longrightarrow>
     file_at (snd (fs_sync_dir w)) q = map_option (\<lambda>f. f\<lparr>linked := True\<rparr>) (file_at w q)"
  by (auto simp: fs_sync_dir_def map_of_map_snd split: option.splits)

lemma fs_create_file_at:
  "fst (fs_create p w) \<Longrightarrow> \<exists>f. file_at (snd (fs_create p w)) p = Some f \<and> content f = []"
  "q \<noteq> p \<Longrightarrow> file_at (snd (fs_create p w)) q = file_at w q"
  by (auto simp: fs_create_def new_file_def split: option.splits)

lemma fs_rename_file_at:
  "fst (fs_rename p q w) \<Longrightarrow> p \<noteq> q \<Longrightarrow> \<exists>f. file_at w p = Some f \<and> file_at (snd (fs_rename p q w)) q = Some (f\<lparr>linked := False\<rparr>)"
  "r \<noteq> p \<Longrightarrow> r \<noteq> q \<Longrightarrow> file_at (snd (fs_rename p q w)) r = file_at w r"
  by (auto simp: fs_rename_def split: option.splits)

lemma fs_remove_file_at: "q \<noteq> p \<Longrightarrow> file_at (snd (fs_remove p w)) q = file_at w q"
  by (auto simp: fs_remove_def split: option.splits)

lemma synced_file:
  assumes "write_manifest_file p bs w = (Inr (), w')"
  shows "\<exists>f. file_at w' p = Some f \<and> length (content f) \<le> flushed f"
proof -
  let ?w1 = "snd (fs_create p w)" and ?w2 = "snd (fs_write_all p bs (snd (fs_create p w)))"
  have ok: "fst (fs_create p w)" "fst (fs_write_all p bs ?w1)" "fst (fs_sync p ?w2)" "w' = snd (fs_sync p ?w2)"
    using assms by (auto simp: write_manifest_file_def Let_def io_try_def split: if_splits)
  then obtain f where "file_at ?w1 p = Some f" using fs_create_file_at(1) by blast
  then have "file_at ?w2 p = Some (f\<lparr>content := content f @ bs\<rparr>)" using ok by (simp add: fs_write_file_at)
  then have "file_at w' p = Some (f\<lparr>content := content f @ bs, flushed := length (content f @ bs)\<rparr>)"
    using ok by (simp add: fs_sync_file_at)
  then show ?thesis by simp
qed

lemma current_durable:
  assumes "write_current name w = (Inr (), w')"
  shows "durable_file w' CURRENT_FILE"
    and "p \<noteq> CURRENT_FILE \<Longrightarrow> p \<noteq> CURRENT_TMP \<Longrightarrow>
      file_at w' p = map_option (\<lambda>f. f\<lparr>linked := True\<rparr>) (file_at w p)"
proof -
  let ?bs = "bytes_of_string (name @ [nl])"
  let ?w1 = "snd (fs_create CURRENT_TMP w)"
  let ?w2 = "snd (fs_write_all CURRENT_TMP ?bs ?w1)"
  let ?w3 = "snd (fs_sync CURRENT_TMP ?w2)"
  let ?w4 = "snd (fs_rename CURRENT_TMP CURRENT_FILE ?w3)"
  have ok: "fst (fs_create CURRENT_TMP w)" "fst (fs_write_all CURRENT_TMP ?bs ?w1)" "fst (fs_sync CURRENT_TMP ?w2)"
    "fst (fs_rename CURRENT_TMP CURRENT_FILE ?w3)" "fst (fs_sync_dir ?w4)" "w' = snd (fs_sync_dir ?w4)"
    using assms by (auto simp: write_current_def storage_fsync_dir_def Let_def io_try_def split: if_splits)
  obtain f where "file_at ?w1 CURRENT_TMP = Some f" using ok fs_create_file_at(1) by blast
  then have "file_at ?w3 CURRENT_TMP = Some (f\<lparr>content := content f @ ?bs, flushed := length (content f @ ?bs)\<rparr>)"
    using ok by (simp add: fs_sync_file_at fs_write_file_at)
  then have "file_at ?w4 CURRENT_FILE =
      Some (f\<lparr>content := content f @ ?bs, flushed := length (content f @ ?bs), linked := False\<rparr>)"
    using fs_rename_file_at(1) [OF ok(4)] by auto
  then show "durable_file w' CURRENT_FILE"
    using ok by (simp add: durable_file_def fs_sync_dir_file_at)
  show "file_at w' p = map_option (\<lambda>f. f\<lparr>linked := True\<rparr>) (file_at w p)"
    if "p \<noteq> CURRENT_FILE" "p \<noteq> CURRENT_TMP"
    using that ok by (simp add: fs_sync_dir_file_at fs_rename_file_at(2) fs_sync_file_at fs_write_file_at
        fs_create_file_at(2))
qed

lemma checkpoint_durable:
  assumes "write_checkpoint h s num (self, w) = (Inr (), self', w')" "num \<le> u64_max" "current_num self \<le> u64_max"
  shows "mw_durable (self', w')"
proof -
  let ?p = "manifest_name num" and ?f = "m_frame h (encode_edit (checkpoint_edit s))"
  from assms(1) obtain w1 w2 where r1: "write_manifest_file ?p ?f w = (Inr (), w1)"
    and r2: "write_current ?p w1 = (Inr (), w2)" and s: "current_num self' = num"
    and w': "w' = w2 \<or> current_num self \<noteq> num \<and> w' = snd (fs_remove (manifest_name (current_num self)) w2)"
    by (auto simp: write_checkpoint_def Let_def and_then_Inr split: if_splits)
  obtain f where "file_at w1 ?p = Some f" "length (content f) \<le> flushed f" using synced_file [OF r1] by blast
  then have d2: "durable_file w2 ?p" using current_durable(2) [OF r2, of ?p] by (simp add: durable_file_def)
  have c2: "durable_file w2 CURRENT_FILE" by (rule current_durable(1) [OF r2])
  have "durable_file w' CURRENT_FILE \<and> durable_file w' ?p"
  proof (cases "w' = w2")
    case False
    with w' have "current_num self \<noteq> num" "w' = snd (fs_remove (manifest_name (current_num self)) w2)" by auto
    moreover have "?p \<noteq> manifest_name (current_num self)" using calculation assms by simp
    ultimately show ?thesis using c2 d2 by (simp add: durable_file_def fs_remove_file_at)
  qed (use c2 d2 in simp)
  then show ?thesis by (simp add: mw_durable_def s)
qed

lemma append_frame_durable:
  assumes "append_frame bs (self, w) = (Inr (), self', w')" "mw_durable (self, w)" "current_num self \<noteq> 0"
  shows "mw_durable (self', w')"
proof -
  let ?p = "manifest_name (current_num self)"
  let ?w1 = "snd (fs_open_existing ?p w)" and ?w2 = "snd (fs_write_all ?p bs (snd (fs_open_existing ?p w)))"
  have ok: "fst (fs_write_all ?p bs ?w1)" "fst (fs_sync ?p ?w2)" "w' = snd (fs_sync ?p ?w2)" "self' = self"
    using assms(1) by (auto simp: append_frame_def Let_def io_try_def split: if_splits)
  have w1: "file_at ?w1 = file_at w" by (simp add: fs_open_existing_def fun_eq_iff)
  have fa: "file_at w' q = (if q = ?p then map_option (\<lambda>f. f\<lparr>content := content f @ bs,
      flushed := length (content f @ bs)\<rparr>) (file_at w q) else file_at w q)" for q
    using ok w1 by (simp add: fs_sync_file_at fs_write_file_at option.map_comp comp_def)
  then show ?thesis using assms(2,3) ok by (auto simp: mw_durable_def durable_file_def)
qed

lemma persist_durable:
  assumes "persist h view (self, w) = (Inr (), self', w')" "mw_durable (self, w)" "mw_inv h (Suc k) (self, w)"
  shows "mw_durable (self', w')"
proof -
  have cn: "current_num self \<le> u64_max" "wadd_u64 (current_num self) 1 \<le> u64_max" "(1::nat) \<le> u64_max"
    using assms(3) by (auto simp: mw_inv_def u64_max_def)
  have upd: "mw_durable (s\<lparr>last_state := v\<rparr>, x) = mw_durable (s, x)" "mw_durable (s\<lparr>log_bytes := b\<rparr>, x) = mw_durable (s, x)"
    for s v x b by (simp_all add: mw_durable_def)
  show ?thesis
    using assms(1,2) cn checkpoint_durable [of h view _ self w] append_frame_durable [of _ self w]
    by (auto simp: persist_def Let_def and_then_Inr upd split: if_splits) 
qed

subsection \<open>The store interface\<close>

text \<open>What the engine relies on: a state persisted successfully is the state a later open or read
  shows, also after a power loss, and a failed persist shows the state from before or the new one.\<close>

fun grows :: "manifest \<Rightarrow> manifest list \<Rightarrow> bool" where
  "grows m [] = True"
| "grows m (v # vs) = (state_ok v \<and> fits v \<and> (\<forall>t. evolves (list_of m t) (list_of v t)) \<and> grows v vs)"

fun saves :: "(manifest \<Rightarrow> 's \<Rightarrow> ('s, unit) outcome) \<Rightarrow> manifest list \<Rightarrow> 's \<Rightarrow> ('s, unit) outcome" where
  "saves save [] s = (Inr (), s)"
| "saves save (v # vs) s = and_then id (save v s) (\<lambda>_ s. saves save vs s)"

locale manifest_store =
  fixes inv :: "nat \<Rightarrow> 's \<Rightarrow> manifest \<Rightarrow> bool"
    and save :: "manifest \<Rightarrow> 's \<Rightarrow> ('s, unit) outcome"
    and shown :: "'s \<Rightarrow> manifest \<Rightarrow> bool"
    and lost :: "'s \<Rightarrow> 's \<Rightarrow> bool"
  assumes lost_shown: "inv k s m \<Longrightarrow> lost s s' \<Longrightarrow> shown s' m"
    and save_ok: "inv (Suc k) s m \<Longrightarrow> state_ok v \<Longrightarrow> fits v \<Longrightarrow> \<forall>t. evolves (list_of m t) (list_of v t) \<Longrightarrow>
        save v s = (Inr (), s') \<Longrightarrow> inv k s' v"
begin

lemma saves_shown:
  "inv (length vs + k) s m \<Longrightarrow> grows m vs \<Longrightarrow> saves save vs s = (Inr (), s') \<Longrightarrow> lost s' s'' \<Longrightarrow>
     shown s'' (last (m # vs))"
proof (induction vs arbitrary: s m)
  case Nil
  then show ?case using lost_shown [of k s' m s''] by simp
next
  case (Cons v vs)
  then obtain s1 where s1: "save v s = (Inr (), s1)" "saves save vs s1 = (Inr (), s')" by (auto simp: and_then_Inr)
  have "inv (length vs + k) s1 v"
    using save_ok [of "length vs + k" s m v s1] Cons.prems s1(1) by simp
  from Cons.IH [OF this _ s1(2) Cons.prems(4)] Cons.prems(2) show ?case by simp
qed

end

definition mw_holds :: "mhash \<Rightarrow> nat \<Rightarrow> mw_state \<Rightarrow> manifest \<Rightarrow> bool" where
  "mw_holds h k st m \<longleftrightarrow> mw_inv h k st \<and> mw_durable st \<and> same_state (last_state (fst st)) m"

lemma evolves_cong:
  "same_state a b \<Longrightarrow> \<forall>t. evolves (list_of b t) (list_of v t) \<Longrightarrow> evolves (list_of a t) (list_of v t)"
  by (simp add: same_state_def)

lemma shows_state_cong: "same_state a b \<Longrightarrow> shows_state h w a \<Longrightarrow> shows_state h w b"
  using same_state_trans by (auto simp: shows_state_def)

interpretation manifest_log: manifest_store "mw_holds h" "persist h" "\<lambda>st. shows_state h (snd st)"
    "\<lambda>st st'. power_loss (snd st) (snd st')" for h
proof
  fix k s m s' assume a: "mw_holds h k s m" and l: "power_loss (snd s) (snd s')"
  obtain self w where s: "s = (self, w)" by (cases s)
  have "mw_inv h k (self, snd s')" using a l s by (auto simp: mw_holds_def intro: mw_power_loss)
  then have "shows_state h (snd s') (last_state self)" by (rule mw_inv_shows)
  then show "shows_state h (snd s') m" using a s shows_state_cong by (auto simp: mw_holds_def)
next
  fix k s m v s'
  assume a: "mw_holds h (Suc k) s m" "state_ok v" "fits v" "\<forall>t. evolves (list_of m t) (list_of v t)"
    and r: "persist h v s = (Inr (), s')"
  obtain self w self' w' where s: "s = (self, w)" "s' = (self', w')" by (cases s, cases s')
  have i: "mw_inv h (Suc k) (self, w)" "mw_durable (self, w)" "same_state (last_state self) m"
    using a s by (auto simp: mw_holds_def)
  have "evolves (list_of (last_state self) t) (list_of v t)" for t using evolves_cong [OF i(3) a(4)] .
  from persist_cases [OF i(1) a(2,3) this, of "Inr ()" self' w'] persist_durable [of h v self w self' w' k] r i s
  show "mw_holds h k s' v" by (auto simp: mw_holds_def)
qed

subsection \<open>Properties\<close>

lemma fresh_holds:
  assumes "fs_read w CURRENT_FILE = Inl NotFound" "fs_read w LEGACY_FILE = Inl NotFound"
  shows "mw_holds h u64_max (fresh_writer, w) manifest_default"
proof -
  have "state_ok manifest_default"
    by (simp add: state_ok_def metrics_ok_def) (simp add: manifest_default_def)
  with assms show ?thesis by (simp add: mw_holds_def mw_inv_def mw_durable_def fresh_writer_def)
qed

text \<open>C22. From a directory without a manifest, after any sequence of
  successful persists, through delta appends and checkpoint rolls, a power loss that cuts every file
  back to what was flushed leaves a directory whose manifest reads as the last state persisted.\<close>

theorem manifest_saves_power_loss:
  assumes "fs_read w CURRENT_FILE = Inl NotFound" "fs_read w LEGACY_FILE = Inl NotFound"
    and "grows manifest_default vs" "length vs \<le> u64_max"
    and "saves (persist h) vs (fresh_writer, w) = (Inr (), self', w')" "power_loss w' w''"
  shows "\<exists>m. manifest_read h w'' = Inr m \<and> same_state m (last (manifest_default # vs))"
proof -
  have "mw_holds h (length vs + (u64_max - length vs)) (fresh_writer, w) manifest_default"
    using fresh_holds [OF assms(1,2)] assms(4) by simp
  from manifest_log.saves_shown [OF this assms(3,5), of "(self', w'')"] assms(6) show ?thesis
    by (simp add: shows_state_def)
qed

text \<open>C23. Whatever I/O operation of a persist fails, a reader sees the
  state from before or the new state, never a mixture and never an error; a reported success means
  the new state, and the writer stays consistent with the directory.\<close>

theorem manifest_persist_any_fault:
  assumes "mw_inv h (Suc k) (self, w)" "state_ok view" "fits view"
    and "\<And>t. evolves (list_of (last_state self) t) (list_of view t)"
    and "persist h view (self, w) = (res, self', w')"
  shows "\<exists>m. manifest_read h w' = Inr m \<and>
    (if res = Inr () then same_state m view \<and> mw_inv h k (self', w')
     else same_state m (last_state self) \<or> same_state m view)"
  using persist_cases [OF assms] by (auto simp: shows_state_def)

text \<open>C24. An edit whose paths have no tab and no line break decodes to
  itself.\<close>

theorem manifest_edit_roundtrip:
  assumes "edit_ok e"
  shows "decode_edit (encode_edit e) = Inr e"
  by (rule decode_encode_edit [OF assms])


text \<open>C26. Opening the directory of a consistent writer returns the state it last
  persisted and a consistent writer again.\<close>

theorem manifest_reopen:
  assumes "mw_inv h k (self, w)" "current_num self \<noteq> 0"
  shows "\<exists>m mw. manifest_open h w = (Inr (m, mw), w) \<and> same_state m (last_state self) \<and> mw_inv h k (mw, w)"
proof -
  from assms obtain es where "fs_read w CURRENT_FILE = Inr (current_text (current_num self))"
    "log_clean h w (current_num self) es" "same_state (log_state es) (last_state self)"
    "current_num self + k \<le> u64_max" by (auto simp: mw_inv_def)
  with open_clean [of w "current_num self" k h es] assms(2) show ?thesis by auto
qed

subsection \<open>Small instances\<close>

definition m_hash :: mhash where "m_hash bs = word_of_nat (length bs)"

definition m_world :: world where "m_world = \<lparr>dir_ok = True, files = [], faults = []\<rparr>"

definition m_seg :: "string \<Rightarrow> segment_ref" where
  "m_seg p = \<lparr>relative_path = p, min_time_unix_nano = 1, max_time_unix_nano = 2, seg_rows = 3\<rparr>"

definition m_view :: "string list \<Rightarrow> nat \<Rightarrow> manifest" where
  "m_view ps wm = manifest_default\<lparr>m_logs := map m_seg ps, m_watermark := wm\<rparr>"

lemma list_of_m_view: "list_of (m_view ps wm) t = (if t = TLogs then map m_seg ps else [])"
  by (cases t) (simp_all add: m_view_def list_of_def manifest_default_def)

lemma metrics_ok_m_view: "metrics_ok (m_view ps wm)"
  by (simp add: metrics_ok_def m_view_def manifest_default_def)

lemma m_seg_ok: "path_ok p \<Longrightarrow> seg_ok (m_seg p)"
  by (simp add: seg_ok_def m_seg_def i64_ok_def i64_min_def i64_max_def u64_max_def)

lemma path_ok_a: "path_ok ''a''" "path_ok ''b''"
  by (simp_all add: path_ok_def utf8_string_ascii)

lemma m_view_ok: "list_all path_ok ps \<Longrightarrow> wm \<le> u64_max \<Longrightarrow> state_ok (m_view ps wm)"
  by (auto simp: state_ok_def metrics_ok_m_view list_of_m_view list_all_iff m_seg_ok)
     (simp add: m_view_def)

lemma m_view_fits: "fits (m_view [''a''] 1)"
proof -
  have "length (encode_edit (checkpoint_edit (m_view [''a''] 1))) \<le> CHECKPOINT_BYTES" by code_simp
  then show ?thesis unfolding fits_def by (rule small_payload)
qed

lemma m_evolves: "evolves (list_of manifest_default t) (list_of (m_view [''a''] 1) t)"
  by (auto simp: evolves_def list_of_m_view)

lemma m_empty: "fs_read m_world p = Inl NotFound"
  by (simp add: m_world_def fs_read_def)

definition m_saved :: "(mw_state, unit) outcome" where
  "m_saved = saves (persist m_hash) [m_view [''a''] 1] (fresh_writer, m_world)"

lemma one_le: "(1::nat) \<le> u64_max" by (simp add: u64_max_def)

theorem manifest_saves_power_loss_witness:
  "\<exists>m. manifest_read m_hash (snd (snd m_saved)) = Inr m \<and> same_state m (m_view [''a''] 1)"
proof -
  have r: "saves (persist m_hash) [m_view [''a''] 1] (fresh_writer, m_world) =
      (Inr (), fst (snd m_saved), snd (snd m_saved))"
  proof -
    have "fst m_saved = Inr ()" by code_simp
    then show ?thesis unfolding m_saved_def by (metis prod.collapse)
  qed
  have d: "distinct (fs_names (snd (snd m_saved)))" by code_simp
  then have l: "power_loss (snd (snd m_saved)) (snd (snd m_saved))"
    by (auto simp: power_loss_def survives_def split: option.splits)
  have g: "grows manifest_default [m_view [''a''] 1]"
    using m_evolves m_view_fits m_view_ok [of "[''a'']" 1] path_ok_a one_le by simp
  from manifest_saves_power_loss [OF m_empty m_empty g _ r l] one_le show ?thesis by simp
qed

lemma m_inv: "mw_inv m_hash (Suc 1) (fresh_writer, m_world)"
  using fresh_holds [OF m_empty m_empty, of m_hash]
  by (simp add: mw_holds_def mw_inv_def u64_max_def fresh_writer_def)

theorem manifest_persist_any_fault_witness:
  "\<exists>m. manifest_read m_hash (snd (snd (persist m_hash (m_view [''a''] 1) (fresh_writer, m_world)))) = Inr m \<and>
     same_state m (m_view [''a''] 1)"
proof -
  let ?r = "persist m_hash (m_view [''a''] 1) (fresh_writer, m_world)"
  have ls: "last_state fresh_writer = manifest_default" by (simp add: fresh_writer_def)
  have ev: "evolves (list_of (last_state fresh_writer) t) (list_of (m_view [''a''] 1) t)" for t
    unfolding ls by (rule m_evolves)
  have so: "state_ok (m_view [''a''] 1)" using m_view_ok path_ok_a one_le by simp
  have "fst ?r = Inr ()" by code_simp
  with manifest_persist_any_fault [OF m_inv so m_view_fits ev, of "fst ?r" "fst (snd ?r)" "snd (snd ?r)"]
  show ?thesis by auto
qed

theorem manifest_edit_roundtrip_witness:
  "decode_edit (encode_edit (checkpoint_edit (m_view [''a''] 1))) = Inr (checkpoint_edit (m_view [''a''] 1))"
  by (rule manifest_edit_roundtrip [OF checkpoint_ok]) (use m_view_ok path_ok_a one_le in simp)


theorem manifest_reopen_witness:
  "\<exists>m mw. manifest_open m_hash (snd (snd m_saved)) = (Inr (m, mw), snd (snd m_saved)) \<and>
     same_state m (m_view [''a''] 1)"
proof -
  let ?r = "persist m_hash (m_view [''a''] 1) (fresh_writer, m_world)"
  have ls: "last_state fresh_writer = manifest_default" by (simp add: fresh_writer_def)
  have ev: "evolves (list_of (last_state fresh_writer) t) (list_of (m_view [''a''] 1) t)" for t
    unfolding ls by (rule m_evolves)
  have so: "state_ok (m_view [''a''] 1)" using m_view_ok path_ok_a one_le by simp
  have ok: "fst ?r = Inr ()" and eq: "snd (snd m_saved) = snd (snd ?r)" and n: "current_num (fst (snd ?r)) \<noteq> 0"
    by code_simp+
  have "mw_inv m_hash 1 (fst (snd ?r), snd (snd ?r)) \<and> same_state (last_state (fst (snd ?r))) (m_view [''a''] 1)"
    using persist_cases [OF m_inv so m_view_fits ev, of "fst ?r" "fst (snd ?r)" "snd (snd ?r)"] ok by simp
  then show ?thesis
    using manifest_reopen [of m_hash 1 "fst (snd ?r)" "snd (snd ?r)"] n eq same_state_trans by auto
qed

subsection \<open>Edges\<close>









end
