(* ===== verification/Config.thy ===== *)
theory Config
  imports Core_Error
begin

text \<open>
  The configuration of \<open>crates/imbh-core/src/config.rs\<close>: promoted attribute keys, retention, the
  flush policy with its text form and its triggers, and the duplicate policy with its text form; and
  the flush scheduler of \<open>crates/imbh/src/lib.rs\<close> that evaluates the policy. A \<open>Duration\<close>
  is a number of nanoseconds.
\<close>

type_synonym duration = nat

definition from_secs :: "nat \<Rightarrow> duration" where "from_secs n = n * 10 ^ 9"
definition from_millis :: "nat \<Rightarrow> duration" where "from_millis n = n * 10 ^ 6"
definition as_secs :: "duration \<Rightarrow> nat" where "as_secs d = d div 10 ^ 9"
definition as_millis :: "duration \<Rightarrow> nat" where "as_millis d = d div 10 ^ 6"

subsection \<open>Promoted keys, retention\<close>

fun promote_loop :: "string list \<Rightarrow> string list \<Rightarrow> string list" where
  "promote_loop out [] = out"
| "promote_loop out (k # ks) = promote_loop (if k \<in> set out then out else out @ [k]) ks"

definition promote_new :: "string list \<Rightarrow> string list" where
  "promote_new ks = promote_loop [] ks"

record retention =
  max_age :: "duration option"
  max_disk_bytes :: "nat option"

definition retention_none :: retention where
  "retention_none = \<lparr>max_age = None, max_disk_bytes = None\<rparr>"

text \<open>\<open>n * 86_400\<close> is a 64-bit product.\<close>

definition wmul_u64 :: "nat \<Rightarrow> nat \<Rightarrow> nat" where
  "wmul_u64 a b = (a * b) mod 2 ^ 64"

definition retention_days :: "nat \<Rightarrow> retention" where
  "retention_days n = \<lparr>max_age = Some (from_secs (wmul_u64 n 86400)), max_disk_bytes = None\<rparr>"

definition retention_from_parts :: "duration option \<Rightarrow> nat option \<Rightarrow> retention" where
  "retention_from_parts a b = \<lparr>max_age = a, max_disk_bytes = b\<rparr>"

datatype wal_mode = WalOff | WalInterval duration | WalAlways

subsection \<open>Scalars\<close>

definition digit_or_us :: "char \<Rightarrow> bool" where
  "digit_or_us c \<longleftrightarrow> is_ascii_digit c \<or> c = CHR ''_''"

definition split_unit :: "string \<Rightarrow> string \<times> string" where
  "split_unit s =
     (filter (\<lambda>c. c \<noteq> CHR ''_'') (takeWhile digit_or_us s), trim (dropWhile digit_or_us s))"

definition parse_duration :: "string \<Rightarrow> error + duration" where
  "parse_duration s0 =
     (let s = trim s0 in
      case split_unit s of (digits, unit) \<Rightarrow>
        bind_err (ok_or (config_msg (''`'' @ s @ ''` is not a duration (expected e.g. 500ms, 5s, 2m, 1h)''))
                    (parse_u64 digits)) (\<lambda>n.
        let u = to_ascii_lowercase unit in
        if u \<in> set [[], ''s'', ''sec'', ''secs''] then Inr (from_secs n)
        else if u = ''ms'' then Inr (from_millis n)
        else if u \<in> set [''m'', ''min'', ''mins''] then Inr (from_secs (wmul_u64 n 60))
        else if u \<in> set [''h'', ''hr'', ''hrs''] then Inr (from_secs (wmul_u64 n 3600))
        else Inl (config_msg (''`'' @ s @ ''` has an unknown duration unit `'' @ u
                    @ ''` (expected ms, s, m or h)''))))"

definition byte_scale :: "string \<Rightarrow> nat option" where
  "byte_scale u =
     (if u = [] \<or> u = ''b'' then Some 1
      else if u = ''k'' \<or> u = ''kib'' then Some (2 ^ 10)
      else if u = ''m'' \<or> u = ''mib'' then Some (2 ^ 20)
      else if u = ''g'' \<or> u = ''gib'' then Some (2 ^ 30)
      else if u = ''kb'' then Some 1000
      else if u = ''mb'' then Some 1000000
      else if u = ''gb'' then Some 1000000000
      else None)"

definition parse_bytes :: "string \<Rightarrow> error + nat" where
  "parse_bytes s0 =
     (let s = trim s0 in
      case split_unit s of (digits, unit) \<Rightarrow>
        bind_err (ok_or (config_msg (''`'' @ s @ ''` is not a byte size (expected e.g. 8388608, 16MiB, 1GB)''))
                    (parse_u64 digits)) (\<lambda>n.
        bind_err (ok_or (config_msg (''`'' @ s @ ''` has an unknown size unit `'' @ to_ascii_lowercase unit
                           @ ''` (expected KiB, MiB, GiB, KB, MB or GB)''))
                    (byte_scale (to_ascii_lowercase unit))) (\<lambda>scale.
        ok_or (config_msg (''`'' @ s @ ''` overflows a byte count'')) (checked_mul_u64 n scale))))"

definition parse_count :: "string \<Rightarrow> error + nat" where
  "parse_count s =
     ok_or (config_msg (''`'' @ s @ ''` is not a row count''))
       (parse_u64 (trim (filter (\<lambda>c. c \<noteq> CHR ''_'') s)))"

definition duration_spec :: "duration \<Rightarrow> string" where
  "duration_spec d =
     (let ms = as_millis d in
      if ms = 0 then ''0s''
      else if ms mod 3600000 = 0 then show_nat (ms div 3600000) @ ''h''
      else if ms mod 60000 = 0 then show_nat (ms div 60000) @ ''m''
      else if ms mod 1000 = 0 then show_nat (ms div 1000) @ ''s''
      else show_nat ms @ ''ms'')"

subsection \<open>The flush policy\<close>

datatype flush_size = FBudget | FBytes nat | FOff

record flush_policy =
  fp_size :: flush_size
  fp_interval :: "duration option"
  fp_rows :: "nat option"
  fp_wal_bytes :: "nat option"
  fp_idle :: "duration option"
  fp_tick :: duration

definition DEFAULT_TICK :: duration where "DEFAULT_TICK = from_secs 1"
definition MIN_TICK :: duration where "MIN_TICK = from_millis 5"
definition MAX_TICK :: duration where "MAX_TICK = from_secs 60"

definition clamp :: "nat \<Rightarrow> nat \<Rightarrow> nat \<Rightarrow> nat" where
  "clamp lo hi x = (if x < lo then lo else if x > hi then hi else x)"

definition fp_manual :: flush_policy where
  "fp_manual = \<lparr>fp_size = FOff, fp_interval = None, fp_rows = None, fp_wal_bytes = None,
     fp_idle = None, fp_tick = DEFAULT_TICK\<rparr>"

definition fp_default :: flush_policy where
  "fp_default = \<lparr>fp_size = FBudget, fp_interval = None, fp_rows = None, fp_wal_bytes = None,
     fp_idle = None, fp_tick = DEFAULT_TICK\<rparr>"

definition fp_every :: "duration \<Rightarrow> flush_policy \<Rightarrow> flush_policy" where
  "fp_every d p = p\<lparr>fp_interval := Some d\<rparr>"

definition fp_set_tick :: "duration \<Rightarrow> flush_policy \<Rightarrow> flush_policy" where
  "fp_set_tick d p = p\<lparr>fp_tick := clamp MIN_TICK MAX_TICK d\<rparr>"

definition effective_tick :: "flush_policy \<Rightarrow> duration" where
  "effective_tick p =
     (let t = fp_tick p;
          t = (case fp_interval p of None \<Rightarrow> t | Some i \<Rightarrow> min t i);
          t = (case fp_idle p of None \<Rightarrow> t | Some i \<Rightarrow> min t i)
      in clamp MIN_TICK MAX_TICK t)"

definition is_manual :: "flush_policy \<Rightarrow> bool" where
  "is_manual p \<longleftrightarrow> fp_size p = FOff \<and> fp_interval p = None \<and> fp_rows p = None \<and>
     fp_wal_bytes p = None \<and> fp_idle p = None"

definition needs_wal_bytes :: "flush_policy \<Rightarrow> bool" where
  "needs_wal_bytes p \<longleftrightarrow> fp_wal_bytes p \<noteq> None"

definition or_interval :: "duration \<Rightarrow> flush_policy \<Rightarrow> flush_policy" where
  "or_interval d p = (if fp_interval p = None then p\<lparr>fp_interval := Some d\<rparr> else p)"

definition triggered :: "flush_policy \<Rightarrow> nat \<Rightarrow> nat \<Rightarrow> nat option \<Rightarrow> duration \<Rightarrow> nat \<Rightarrow> bool" where
  "triggered p buffer_bytes buffer_rows wal_bytes idle_for size_threshold =
     (if buffer_rows = 0 then False
      else
        (case fp_size p of
           FBudget \<Rightarrow> buffer_bytes \<ge> size_threshold
         | FBytes n \<Rightarrow> buffer_bytes \<ge> n
         | FOff \<Rightarrow> False) \<or>
        (case fp_rows p of None \<Rightarrow> False | Some n \<Rightarrow> buffer_rows \<ge> n) \<or>
        (case (wal_bytes, fp_wal_bytes p) of (Some measured, Some limit) \<Rightarrow> measured \<ge> limit | _ \<Rightarrow> False) \<or>
        (case fp_idle p of None \<Rightarrow> False | Some d \<Rightarrow> idle_for \<ge> d))"

text \<open>One \<open>key=value\<close> field of the text form.\<close>

definition fp_field :: "string \<Rightarrow> flush_policy \<Rightarrow> error + flush_policy" where
  "fp_field field0 p =
     (let field = trim field0 in
      if field = [] then Inr p
      else case split_once CHR ''='' field of
        (_, None) \<Rightarrow>
          Inl (config_msg (''flush policy: expected `key=value` in `'' @ field @ ''` (or the single word `manual`)''))
      | (k, Some v) \<Rightarrow>
          let key = to_ascii_lowercase (trim k); val = trim v in
          if key = ''interval'' \<or> key = ''every'' then bind_err (parse_duration val) (\<lambda>d. Inr (fp_every d p))
          else if key = ''buffer'' \<or> key = ''bytes'' then
            (let lv = to_ascii_lowercase val in
             if lv = ''budget'' \<or> lv = ''default'' then Inr (p\<lparr>fp_size := FBudget\<rparr>)
             else if lv = ''off'' \<or> lv = ''none'' then Inr (p\<lparr>fp_size := FOff\<rparr>)
             else bind_err (parse_bytes val) (\<lambda>n. Inr (p\<lparr>fp_size := FBytes (min n u64_max)\<rparr>)))
          else if key = ''rows'' then bind_err (parse_count val) (\<lambda>n. Inr (p\<lparr>fp_rows := Some n\<rparr>))
          else if key = ''wal'' then bind_err (parse_bytes val) (\<lambda>n. Inr (p\<lparr>fp_wal_bytes := Some n\<rparr>))
          else if key = ''idle'' then bind_err (parse_duration val) (\<lambda>d. Inr (p\<lparr>fp_idle := Some d\<rparr>))
          else if key = ''tick'' then bind_err (parse_duration val) (\<lambda>d. Inr (fp_set_tick d p))
          else Inl (config_msg (''flush policy: unknown key `'' @ key
                      @ ''` (expected interval/buffer/rows/wal/idle/tick)'')))"

fun fp_fields :: "string list \<Rightarrow> flush_policy \<Rightarrow> error + flush_policy" where
  "fp_fields [] p = Inr p"
| "fp_fields (f # fs) p = bind_err (fp_field f p) (\<lambda>p. fp_fields fs p)"

definition fp_from_str :: "string \<Rightarrow> error + flush_policy" where
  "fp_from_str s =
     (let spec = trim s in
      if spec = [] then Inr fp_default
      else if to_ascii_lowercase spec \<in> set [''manual'', ''off'', ''none'', ''never''] then Inr fp_manual
      else fp_fields (split_on CHR '','' spec) fp_default)"

fun join_comma :: "string list \<Rightarrow> string" where
  "join_comma [] = []"
| "join_comma [x] = x"
| "join_comma (x # y # ys) = x @ CHR '','' # join_comma (y # ys)"

definition fp_parts :: "flush_policy \<Rightarrow> string list" where
  "fp_parts p =
     (case fp_interval p of None \<Rightarrow> [] | Some d \<Rightarrow> [''interval='' @ duration_spec d]) @
     (case fp_size p of
        FBudget \<Rightarrow> [''buffer=budget'']
      | FBytes n \<Rightarrow> [''buffer='' @ show_nat n]
      | FOff \<Rightarrow> [''buffer=off'']) @
     (case fp_rows p of None \<Rightarrow> [] | Some n \<Rightarrow> [''rows='' @ show_nat n]) @
     (case fp_wal_bytes p of None \<Rightarrow> [] | Some n \<Rightarrow> [''wal='' @ show_nat n]) @
     (case fp_idle p of None \<Rightarrow> [] | Some d \<Rightarrow> [''idle='' @ duration_spec d]) @
     [''tick='' @ duration_spec (fp_tick p)]"

definition fp_display :: "flush_policy \<Rightarrow> string" where
  "fp_display p = (if is_manual p then ''manual'' else join_comma (fp_parts p))"

subsection \<open>The duplicate policy\<close>

datatype duplicates = ErrorOnRead | LastWins | Reject nat

definition DEFAULT_RECENT :: nat where "DEFAULT_RECENT = 2 ^ 18"

definition dup_recent :: "duplicates \<Rightarrow> nat option" where
  "dup_recent d = (case d of Reject r \<Rightarrow> Some (max r 2) | _ \<Rightarrow> None)"

definition rejects_at_ingest :: "duplicates \<Rightarrow> bool" where
  "rejects_at_ingest d = (case d of Reject r \<Rightarrow> True | _ \<Rightarrow> False)"

definition collapses_at_read :: "duplicates \<Rightarrow> bool" where
  "collapses_at_read d = (d = LastWins)"

definition dup_field :: "string \<Rightarrow> string \<Rightarrow> duplicates \<Rightarrow> error + duplicates" where
  "dup_field mode field p =
     (case split_once CHR ''='' field of
        (_, None) \<Rightarrow> Inl (config_msg (''duplicates: expected `key=value` in `'' @ field @ ''`''))
      | (k, Some v) \<Rightarrow>
          let key = to_ascii_lowercase (trim k) in
          if key = ''recent'' then
            (case p of
               Reject _ \<Rightarrow> bind_err (parse_count (trim v)) (\<lambda>n. Inr (Reject (max (min n u64_max) 2)))
             | _ \<Rightarrow> Inl (config_msg (''duplicates: `recent` applies only to `reject`, not `'' @ mode @ ''`'')))
          else Inl (config_msg (''duplicates: unknown key `'' @ key @ ''` (expected recent)'')))"

fun dup_fields :: "string \<Rightarrow> string list \<Rightarrow> duplicates \<Rightarrow> error + duplicates" where
  "dup_fields mode [] p = Inr p"
| "dup_fields mode (f # fs) p = bind_err (dup_field mode f p) (\<lambda>p. dup_fields mode fs p)"

definition dup_from_str :: "string \<Rightarrow> error + duplicates" where
  "dup_from_str s =
     (let spec = trim s in
      if spec = [] then Inr ErrorOnRead
      else
        let fields = filter (\<lambda>f. f \<noteq> []) (map trim (split_on CHR '','' spec));
            mode = to_ascii_lowercase (case fields of [] \<Rightarrow> [] | f # fs \<Rightarrow> f)
        in bind_err
             (if mode \<in> set [''error_on_read'', ''error'', ''strict''] then Inr ErrorOnRead
              else if mode \<in> set [''last_wins'', ''last-wins'', ''collapse''] then Inr LastWins
              else if mode = ''reject'' then Inr (Reject DEFAULT_RECENT)
              else Inl (config_msg (''duplicates: unknown mode `'' @ mode
                          @ ''` (expected error_on_read, last_wins or reject)'')))
             (\<lambda>p. dup_fields mode (tl fields) p))"

fun dup_display :: "duplicates \<Rightarrow> string" where
  "dup_display ErrorOnRead = ''error_on_read''"
| "dup_display LastWins = ''last_wins''"
| "dup_display (Reject r) = ''reject,recent='' @ show_nat r"

subsection \<open>The flush scheduler\<close>

definition resolve_flush :: "flush_policy option \<Rightarrow> duration \<Rightarrow> flush_policy" where
  "resolve_flush p i = (case p of Some q \<Rightarrow> q | None \<Rightarrow> or_interval i fp_default)"

record flush_scheduler =
  fs_policy :: flush_policy
  fs_tick :: duration
  retention_interval :: duration
  since_eval :: duration
  since_seal :: duration
  since_retention :: duration
  since_wal_sync :: duration

definition MAX_SLICE :: duration where "MAX_SLICE = from_secs 1"

definition scheduler_new :: "flush_policy \<Rightarrow> duration \<Rightarrow> flush_scheduler" where
  "scheduler_new p i = \<lparr>fs_policy = p, fs_tick = effective_tick p, retention_interval = i,
     since_eval = 0, since_seal = 0, since_retention = 0, since_wal_sync = 0\<rparr>"

definition slice :: "flush_scheduler \<Rightarrow> duration" where
  "slice s = min (fs_tick s) MAX_SLICE"

text \<open>What the storage engine answers while the scheduler runs, and what the scheduler asks of it,
  in order.\<close>

record gauges =
  g_buffer_bytes :: nat
  g_buffer_rows :: nat
  g_idle_for :: duration
  g_wal_bytes :: nat
  g_threshold :: nat
  g_wal_sync_interval :: "duration option"

datatype sched_action = DoSeal | DoSyncWal | DoCommitPending | DoRetain

definition sched_advance :: "gauges \<Rightarrow> duration \<Rightarrow> flush_scheduler \<Rightarrow> flush_scheduler \<times> sched_action list" where
  "sched_advance g elapsed s0 =
     (let s = s0\<lparr>since_eval := since_eval s0 + elapsed, since_seal := since_seal s0 + elapsed,
                since_retention := since_retention s0 + elapsed,
                since_wal_sync := since_wal_sync s0 + elapsed\<rparr>;
          p = fs_policy s;
          due = (case fp_interval p of None \<Rightarrow> False | Some i \<Rightarrow> since_seal s \<ge> i);
          evalu = \<not> due \<and> since_eval s \<ge> fs_tick s \<and> \<not> is_manual p;
          s = (if evalu then s\<lparr>since_eval := 0\<rparr> else s);
          seal = (if evalu then triggered p (g_buffer_bytes g) (g_buffer_rows g)
                     (if needs_wal_bytes p then Some (g_wal_bytes g) else None) (g_idle_for g) (g_threshold g)
                  else due);
          s = (if seal then s\<lparr>since_seal := 0, since_eval := 0\<rparr> else s);
          sync = (case g_wal_sync_interval g of None \<Rightarrow> False | Some d \<Rightarrow> since_wal_sync s \<ge> d);
          s = (if sync then s\<lparr>since_wal_sync := 0\<rparr> else s);
          ret = (since_retention s \<ge> retention_interval s);
          s = (if ret then s\<lparr>since_retention := 0\<rparr> else s)
      in (s, (if seal then [DoSeal] else []) @ (if sync then [DoSyncWal] else []) @
             (if ret then [DoCommitPending, DoRetain] else [])))"

end
