(* ===== verification/Config_Properties.thy ===== *)
theory Config_Properties
  imports Config
begin

text \<open>
  The text forms of the flush and duplicate policies parse back, up to what they cannot express; the
  scheduler seals as often as its interval asks for and in the order the engine needs.
\<close>

subsection \<open>Graphic text\<close>

abbreviation plain :: "string \<Rightarrow> bool" where
  "plain s \<equiv> list_all graphic s"

lemma trim_Nil [simp]: "trim [] = []"
  by (simp add: trim_def trim_start_def trim_end_def strip_ws.simps)

lemma trim_plain [simp]: "plain s \<Longrightarrow> trim s = s"
proof (cases "s = []")
  case False
  assume "plain s"
  with False have "graphic (hd s)" "graphic (last s)" by (auto simp: list_all_iff)
  with False show ?thesis by (simp add: trim_graphic)
qed simp

lemma plain_show_nat [simp]: "plain (show_nat n)"
  using show_nat_chars digit_chars_graphic by (auto simp: list_all_iff)

lemma graphic_simps [simp]:
  "graphic CHR ''=''" "graphic CHR '',''" "plain ''h''" "plain ''m''" "plain ''s''" "plain ''ms''" "plain ''0s''"
  by (simp_all add: graphic_def)

lemma plain_duration [simp]: "plain (duration_spec d)"
  by (simp add: duration_spec_def Let_def graphic_def)

lemma show_nat_char: "c \<in> set (show_nat n) \<Longrightarrow> c \<noteq> CHR ''='' \<and> c \<noteq> CHR '','' \<and> c \<noteq> CHR ''_''"
proof -
  assume "c \<in> set (show_nat n)"
  then have "c \<in> set digit_chars" by (rule show_nat_chars)
  then show ?thesis by (auto simp: digit_chars_def)
qed

lemma show_nat_no_us [simp]: "filter (\<lambda>c. c \<noteq> CHR ''_'') (show_nat n) = show_nat n"
  using show_nat_char by (simp add: filter_id_conv)

lemma show_nat_digits: "list_all is_ascii_digit (show_nat n)"
  by (simp add: show_nat_def show_radix_ascii)

lemma split_unit_show:
  "u = [] \<or> \<not> digit_or_us (hd u) \<Longrightarrow> plain u \<Longrightarrow> split_unit (show_nat n @ u) = (show_nat n, u)"
proof -
  assume u: "u = [] \<or> \<not> digit_or_us (hd u)" "plain u"
  have d: "\<forall>c \<in> set (show_nat n). digit_or_us c"
    using show_nat_digits [of n] by (auto simp: list_all_iff digit_or_us_def)
  then have "takeWhile digit_or_us (show_nat n @ u) = show_nat n" "dropWhile digit_or_us (show_nat n @ u) = u"
    using u(1) by (cases u; auto)+
  with u(2) show ?thesis by (simp add: split_unit_def)
qed

lemma unit_chars: "\<not> digit_or_us CHR ''h''" "\<not> digit_or_us CHR ''m''" "\<not> digit_or_us CHR ''s''"
  by (simp_all add: digit_or_us_def is_ascii_digit_def)

lemma lower_units:
  "to_ascii_lowercase ''h'' = ''h''" "to_ascii_lowercase ''m'' = ''m''" "to_ascii_lowercase ''s'' = ''s''"
  "to_ascii_lowercase ''ms'' = ''ms''" "to_ascii_lowercase [] = []"
  by code_simp+

lemma parse_show_bytes: "n \<le> u64_max \<Longrightarrow> parse_bytes (show_nat n) = Inr n"
  using split_unit_show [of "[]" n]
  by (simp add: parse_bytes_def Let_def parse_u64_show lower_units byte_scale_def checked_mul_u64_def)

lemma parse_show_count: "n \<le> u64_max \<Longrightarrow> parse_count (show_nat n) = Inr n"
  by (simp add: parse_count_def parse_u64_show)

text \<open>A duration of whole milliseconds that fits a \<open>Duration\<close> parses back.\<close>

definition whole_ms :: "duration \<Rightarrow> bool" where
  "whole_ms d \<longleftrightarrow> d mod 10 ^ 6 = 0 \<and> as_millis d \<le> u64_max"

lemma parse_duration_unit:
  assumes "n \<le> u64_max" "u \<in> {''h'', ''m'', ''s'', ''ms''}"
  shows "parse_duration (show_nat n @ u) =
    Inr (if u = ''h'' then from_secs (wmul_u64 n 3600) else if u = ''m'' then from_secs (wmul_u64 n 60)
         else if u = ''s'' then from_secs n else from_millis n)"
proof -
  have "split_unit (show_nat n @ u) = (show_nat n, u)"
    using assms(2) unit_chars by (intro split_unit_show) (auto simp: graphic_def)
  moreover have "trim (show_nat n @ u) = show_nat n @ u"
    using assms(2) by (intro trim_plain) (auto simp: graphic_def)
  ultimately show ?thesis
    using assms by (auto simp: parse_duration_def Let_def parse_u64_show lower_units)
qed

lemma wmul_small: "a * b \<le> u64_max \<Longrightarrow> wmul_u64 a b = a * b"
  by (simp add: wmul_u64_def u64_max_def)

lemma parse_duration_spec: "whole_ms d \<Longrightarrow> parse_duration (duration_spec d) = Inr d"
proof -
  assume w: "whole_ms d"
  define ms where "ms = as_millis d"
  have d: "d = ms * 10 ^ 6" and le: "ms \<le> u64_max"
    using w by (auto simp: whole_ms_def as_millis_def ms_def)
  have z: "''0s'' = show_nat 0 @ ''s''" by code_simp
  have big: "ms div k \<le> u64_max" for k using le by (meson div_le_dividend order_trans)
  consider "ms = 0" | "ms \<noteq> 0" "ms mod 3600000 = 0" | "ms \<noteq> 0" "ms mod 3600000 \<noteq> 0" "ms mod 60000 = 0"
    | "ms \<noteq> 0" "ms mod 3600000 \<noteq> 0" "ms mod 60000 \<noteq> 0" "ms mod 1000 = 0"
    | "ms \<noteq> 0" "ms mod 3600000 \<noteq> 0" "ms mod 60000 \<noteq> 0" "ms mod 1000 \<noteq> 0" by blast
  then show ?thesis
  proof cases
    case 1
    then have "duration_spec d = show_nat 0 @ ''s''" by (simp add: duration_spec_def ms_def [symmetric] z)
    then show ?thesis using parse_duration_unit [of 0 "''s''"] 1 d by (simp add: from_secs_def)
  next
    case 2
    then have k: "ms = ms div 3600000 * 3600000" by auto
    then have "ms div 3600000 * 3600 \<le> u64_max" using le by linarith
    then have "wmul_u64 (ms div 3600000) 3600 = ms div 3600000 * 3600" by (rule wmul_small)
    moreover have "duration_spec d = show_nat (ms div 3600000) @ ''h''"
      using 2 by (simp add: duration_spec_def ms_def [symmetric])
    ultimately show ?thesis
      using parse_duration_unit [of "ms div 3600000" "''h''"] big d k by (simp add: from_secs_def)
  next
    case 3
    then have k: "ms = ms div 60000 * 60000" by auto
    then have "ms div 60000 * 60 \<le> u64_max" using le by linarith
    then have "wmul_u64 (ms div 60000) 60 = ms div 60000 * 60" by (rule wmul_small)
    moreover have "duration_spec d = show_nat (ms div 60000) @ ''m''"
      using 3 by (simp add: duration_spec_def ms_def [symmetric])
    ultimately show ?thesis
      using parse_duration_unit [of "ms div 60000" "''m''"] big d k by (simp add: from_secs_def)
  next
    case 4
    then have k: "ms = ms div 1000 * 1000" by auto
    have "duration_spec d = show_nat (ms div 1000) @ ''s''"
      using 4 by (simp add: duration_spec_def ms_def [symmetric])
    then show ?thesis
      using parse_duration_unit [of "ms div 1000" "''s''"] big d k by (simp add: from_secs_def)
  next
    case 5
    then have "duration_spec d = show_nat ms @ ''ms''"
      by (simp add: duration_spec_def ms_def [symmetric])
    then show ?thesis using parse_duration_unit [of ms "''ms''"] le d by (simp add: from_millis_def)
  qed
qed

subsection \<open>Fields\<close>

lemma fp_field_kv:
  assumes "plain k" "plain v" "CHR ''='' \<notin> set k" "k \<noteq> []"
  shows "fp_field (k @ CHR ''='' # v) p =
    (let key = to_ascii_lowercase k in
          if key = ''interval'' \<or> key = ''every'' then bind_err (parse_duration v) (\<lambda>d. Inr (fp_every d p))
          else if key = ''buffer'' \<or> key = ''bytes'' then
            (let lv = to_ascii_lowercase v in
             if lv = ''budget'' \<or> lv = ''default'' then Inr (p\<lparr>fp_size := FBudget\<rparr>)
             else if lv = ''off'' \<or> lv = ''none'' then Inr (p\<lparr>fp_size := FOff\<rparr>)
             else bind_err (parse_bytes v) (\<lambda>n. Inr (p\<lparr>fp_size := FBytes (min n u64_max)\<rparr>)))
          else if key = ''rows'' then bind_err (parse_count v) (\<lambda>n. Inr (p\<lparr>fp_rows := Some n\<rparr>))
          else if key = ''wal'' then bind_err (parse_bytes v) (\<lambda>n. Inr (p\<lparr>fp_wal_bytes := Some n\<rparr>))
          else if key = ''idle'' then bind_err (parse_duration v) (\<lambda>d. Inr (p\<lparr>fp_idle := Some d\<rparr>))
          else if key = ''tick'' then bind_err (parse_duration v) (\<lambda>d. Inr (fp_set_tick d p))
          else Inl (config_msg (''flush policy: unknown key `'' @ key
                      @ ''` (expected interval/buffer/rows/wal/idle/tick)'')))"
proof -
  have "trim (k @ CHR ''='' # v) = k @ CHR ''='' # v" using assms by (intro trim_plain) simp
  with assms show ?thesis by (simp add: fp_field_def Let_def)
qed

lemma lower_keys:
  "to_ascii_lowercase ''interval'' = ''interval''" "to_ascii_lowercase ''buffer'' = ''buffer''"
  "to_ascii_lowercase ''rows'' = ''rows''" "to_ascii_lowercase ''wal'' = ''wal''"
  "to_ascii_lowercase ''idle'' = ''idle''" "to_ascii_lowercase ''tick'' = ''tick''"
  "to_ascii_lowercase ''budget'' = ''budget''" "to_ascii_lowercase ''off'' = ''off''"
  by code_simp+

lemma lower_digits: "to_ascii_lowercase (show_nat n) = show_nat n"
proof -
  have "ascii_lower c = c" if "c \<in> set (show_nat n)" for c
    using that show_nat_digits [of n]
    by (auto simp: list_all_iff is_ascii_digit_def ascii_lower_def Let_def)
  then show ?thesis by (simp add: to_ascii_lowercase_def map_idI)
qed

lemma show_nat_hd: "is_ascii_digit (hd (show_nat n))"
  using show_nat_digits [of n] by (cases "show_nat n") (auto simp: list_all_iff)

lemma show_nat_no_word: "show_nat n \<noteq> ''budget''" "show_nat n \<noteq> ''default''" "show_nat n \<noteq> ''off''" "show_nat n \<noteq> ''none''"
  using show_nat_hd [of n] by (auto simp: is_ascii_digit_def)

lemma field_interval: "whole_ms d \<Longrightarrow> fp_field (''interval='' @ duration_spec d) p = Inr (fp_every d p)"
  using fp_field_kv [of "''interval''" "duration_spec d" p]
  by (simp add: graphic_def lower_keys parse_duration_spec)

lemma field_idle: "whole_ms d \<Longrightarrow> fp_field (''idle='' @ duration_spec d) p = Inr (p\<lparr>fp_idle := Some d\<rparr>)"
  using fp_field_kv [of "''idle''" "duration_spec d" p]
  by (simp add: graphic_def lower_keys parse_duration_spec)

lemma field_tick: "whole_ms d \<Longrightarrow> fp_field (''tick='' @ duration_spec d) p = Inr (fp_set_tick d p)"
  using fp_field_kv [of "''tick''" "duration_spec d" p]
  by (simp add: graphic_def lower_keys parse_duration_spec)

lemma field_rows: "n \<le> u64_max \<Longrightarrow> fp_field (''rows='' @ show_nat n) p = Inr (p\<lparr>fp_rows := Some n\<rparr>)"
  using fp_field_kv [of "''rows''" "show_nat n" p]
  by (simp add: graphic_def lower_keys parse_show_count)

lemma field_wal: "n \<le> u64_max \<Longrightarrow> fp_field (''wal='' @ show_nat n) p = Inr (p\<lparr>fp_wal_bytes := Some n\<rparr>)"
  using fp_field_kv [of "''wal''" "show_nat n" p]
  by (simp add: graphic_def lower_keys parse_show_bytes)

lemma field_buffer:
  "fp_field ''buffer=budget'' p = Inr (p\<lparr>fp_size := FBudget\<rparr>)"
  "fp_field ''buffer=off'' p = Inr (p\<lparr>fp_size := FOff\<rparr>)"
  "n \<le> u64_max \<Longrightarrow> fp_field (''buffer='' @ show_nat n) p = Inr (p\<lparr>fp_size := FBytes n\<rparr>)"
  using fp_field_kv [of "''buffer''" "''budget''" p] fp_field_kv [of "''buffer''" "''off''" p]
    fp_field_kv [of "''buffer''" "show_nat n" p]
  by (simp_all add: graphic_def lower_keys lower_digits show_nat_no_word parse_show_bytes)

lemmas fields_flat = field_interval [unfolded append_Cons append_Nil] field_idle [unfolded append_Cons append_Nil]
  field_tick [unfolded append_Cons append_Nil] field_rows [unfolded append_Cons append_Nil]
  field_wal [unfolded append_Cons append_Nil] field_buffer [unfolded append_Cons append_Nil]

subsection \<open>Whole policies\<close>

definition policy_ok :: "flush_policy \<Rightarrow> bool" where
  "policy_ok p \<longleftrightarrow>
     (case fp_size p of FBytes n \<Rightarrow> n \<le> u64_max | _ \<Rightarrow> True) \<and>
     (case fp_interval p of None \<Rightarrow> True | Some d \<Rightarrow> whole_ms d) \<and>
     (case fp_rows p of None \<Rightarrow> True | Some n \<Rightarrow> n \<le> u64_max) \<and>
     (case fp_wal_bytes p of None \<Rightarrow> True | Some n \<Rightarrow> n \<le> u64_max) \<and>
     (case fp_idle p of None \<Rightarrow> True | Some d \<Rightarrow> whole_ms d) \<and>
     MIN_TICK \<le> fp_tick p \<and> fp_tick p \<le> MAX_TICK \<and> whole_ms (fp_tick p)"

lemma fp_fields_append:
  "fp_fields (xs @ ys) p = bind_err (fp_fields xs p) (\<lambda>p. fp_fields ys p)"
  by (induction xs arbitrary: p) (auto simp: bind_err_def split: sum.splits)

lemma fp_fields_parts: "policy_ok p \<Longrightarrow> fp_fields (fp_parts p) fp_default = Inr p"
proof -
  assume ok: "policy_ok p"
  obtain sz iv rw wb idl tk where p: "p = \<lparr>fp_size = sz, fp_interval = iv, fp_rows = rw, fp_wal_bytes = wb,
      fp_idle = idl, fp_tick = tk\<rparr>" by (cases p)
  have a: "fp_fields (case iv of None \<Rightarrow> [] | Some d \<Rightarrow> [''interval='' @ duration_spec d]) q =
      Inr (q\<lparr>fp_interval := iv\<rparr>)" if "fp_interval q = None" for q
    using ok p that by (cases iv; cases q) (simp_all add: policy_ok_def fields_flat fp_every_def)
  have b: "fp_fields (case sz of FBudget \<Rightarrow> [''buffer=budget''] | FBytes n \<Rightarrow> [''buffer='' @ show_nat n]
      | FOff \<Rightarrow> [''buffer=off'']) q = Inr (q\<lparr>fp_size := sz\<rparr>)" for q
    using ok p by (cases sz) (simp_all add: policy_ok_def fields_flat)
  have c: "fp_fields (case rw of None \<Rightarrow> [] | Some n \<Rightarrow> [''rows='' @ show_nat n]) q =
      Inr (q\<lparr>fp_rows := rw\<rparr>)" if "fp_rows q = None" for q
    using ok p that by (cases rw; cases q) (simp_all add: policy_ok_def fields_flat)
  have d: "fp_fields (case wb of None \<Rightarrow> [] | Some n \<Rightarrow> [''wal='' @ show_nat n]) q =
      Inr (q\<lparr>fp_wal_bytes := wb\<rparr>)" if "fp_wal_bytes q = None" for q
    using ok p that by (cases wb; cases q) (simp_all add: policy_ok_def fields_flat)
  have e: "fp_fields (case idl of None \<Rightarrow> [] | Some n \<Rightarrow> [''idle='' @ duration_spec n]) q =
      Inr (q\<lparr>fp_idle := idl\<rparr>)" if "fp_idle q = None" for q
    using ok p that by (cases idl; cases q) (simp_all add: policy_ok_def fields_flat)
  have f: "fp_fields [''tick='' @ duration_spec tk] q = Inr (q\<lparr>fp_tick := tk\<rparr>)" for q
    using ok p by (simp add: policy_ok_def fields_flat fp_set_tick_def clamp_def)
  show ?thesis
    unfolding fp_parts_def p flush_policy.simps fp_fields_append fp_default_def
    by (simp only: a b c d e f bind_err_simps flush_policy.simps)
qed

lemma join_comma_split:
  "ps \<noteq> [] \<Longrightarrow> \<forall>x \<in> set ps. CHR '','' \<notin> set x \<Longrightarrow> split_on CHR '','' (join_comma ps) = ps"
  by (induction ps rule: join_comma.induct) auto

lemma join_comma_chars: "c \<in> set (join_comma ps) \<Longrightarrow> c = CHR '','' \<or> (\<exists>x \<in> set ps. c \<in> set x)"
  by (induction ps rule: join_comma.induct) auto

lemma join_comma_elem: "x \<in> set ps \<Longrightarrow> c \<in> set x \<Longrightarrow> c \<in> set (join_comma ps)"
  by (induction ps rule: join_comma.induct) auto

lemma duration_chars: "c \<in> set (duration_spec d) \<Longrightarrow> c \<noteq> CHR '',''"
  by (auto simp: duration_spec_def Let_def dest: show_nat_char split: if_splits)

lemma fp_parts_text:
  "x \<in> set (fp_parts p) \<Longrightarrow> plain x \<and> CHR '','' \<notin> set x \<and> CHR ''='' \<in> set x"
  by (auto simp: fp_parts_def graphic_def dest: duration_chars show_nat_char
      split: option.splits flush_size.splits)

lemma fp_parts_nonempty [simp]: "fp_parts p \<noteq> []"
  by (simp add: fp_parts_def)

lemma eq_not_word:
  assumes "CHR ''='' \<in> set s"
  shows "to_ascii_lowercase s \<notin> set [''manual'', ''off'', ''none'', ''never'']"
proof -
  have "ascii_lower CHR ''='' = CHR ''=''" by code_simp
  then have "CHR ''='' \<in> set (to_ascii_lowercase s)"
    using assms by (force simp: to_ascii_lowercase_def)
  then show ?thesis by auto
qed

lemma fp_roundtrip:
  assumes "policy_ok p" "is_manual p \<longrightarrow> fp_tick p = DEFAULT_TICK"
  shows "fp_from_str (fp_display p) = Inr p"
proof (cases "is_manual p")
  case True
  then have "p = fp_manual" using assms(2) by (cases p) (simp add: is_manual_def fp_manual_def)
  moreover have "fp_from_str ''manual'' = Inr fp_manual" by code_simp
  ultimately show ?thesis using True by (simp add: fp_display_def)
next
  case False
  let ?s = "join_comma (fp_parts p)"
  have pl: "plain ?s"
    using join_comma_chars fp_parts_text by (fastforce simp: list_all_iff)
  obtain x where "x \<in> set (fp_parts p)" by (cases "fp_parts p") auto
  then have eq: "CHR ''='' \<in> set ?s" using fp_parts_text join_comma_elem by blast
  have "split_on CHR '','' ?s = fp_parts p"
    using fp_parts_text by (intro join_comma_split) auto
  moreover have "?s \<noteq> []" using eq by auto
  ultimately show ?thesis
    using False pl eq_not_word [OF eq] fp_fields_parts [OF assms(1)]
    by (simp add: fp_from_str_def fp_display_def Let_def)
qed



text \<open>The text form loses a part of a duration below a millisecond, and the
  tick of a policy without triggers.\<close>

theorem flush_policy_lossy:
  "fp_from_str (fp_display (fp_every 1500000 fp_default)) = Inr (fp_every 1000000 fp_default) \<and>
   fp_from_str (fp_display (fp_set_tick (from_secs 2) fp_manual)) = Inr fp_manual \<and>
   fp_set_tick (from_secs 2) fp_manual \<noteq> fp_manual"
proof -
  have d: "fp_display (fp_every 1500000 fp_default) = fp_display (fp_every 1000000 fp_default)"
    by (simp add: fp_display_def fp_parts_def is_manual_def fp_every_def duration_spec_def as_millis_def)
  have ok: "policy_ok (fp_every 1000000 fp_default)" "\<not> is_manual (fp_every 1000000 fp_default)" by code_simp+
  have m: "fp_display (fp_set_tick (from_secs 2) fp_manual) = fp_display fp_manual"
    by (simp add: fp_display_def is_manual_def fp_set_tick_def fp_manual_def)
  have okm: "policy_ok fp_manual" "fp_tick fp_manual = DEFAULT_TICK" by code_simp+
  have "fp_tick (fp_set_tick (from_secs 2) fp_manual) \<noteq> fp_tick fp_manual" by code_simp
  then have "fp_set_tick (from_secs 2) fp_manual \<noteq> fp_manual" by metis
  with d m fp_roundtrip [OF ok(1)] fp_roundtrip [OF okm(1)] ok okm show ?thesis by simp
qed

text \<open>Parsing the text form of a duplicate policy gives it back, when the
  number of remembered points is at least two, the smallest a parsed policy has.\<close>

theorem duplicates_roundtrip:
  assumes "case d of Reject r \<Rightarrow> 2 \<le> r \<and> r \<le> u64_max | _ \<Rightarrow> True"
  shows "dup_from_str (dup_display d) = Inr d"
proof (cases d)
  case ErrorOnRead
  have "dup_from_str (dup_display ErrorOnRead) = Inr ErrorOnRead" by code_simp
  with ErrorOnRead show ?thesis by simp
next
  case LastWins
  have "dup_from_str (dup_display LastWins) = Inr LastWins" by code_simp
  with LastWins show ?thesis by simp
next
  case (Reject r)
  let ?s = "''reject'' @ CHR '','' # ''recent='' @ show_nat r"
  have n: "2 \<le> r" "r \<le> u64_max" using assms Reject by auto
  have disp: "dup_display d = ?s" using Reject by simp
  have pl: "plain ?s" by (simp add: graphic_def)
  have "CHR '','' \<notin> set (''recent='' @ show_nat r)" using show_nat_char by auto
  then have sp: "split_on CHR '','' ?s = [''reject'', ''recent='' @ show_nat r]"
    by (subst split_on_append) simp_all
  have pr: "plain (''recent='' @ show_nat r)" "plain ''reject''" by (simp_all add: graphic_def)
  have so: "split_once CHR ''='' (''recent='' @ show_nat r) = (''recent'', Some (show_nat r))"
    using split_once_append [of "CHR ''=''" "''recent''" "show_nat r"] by simp
  have lw: "to_ascii_lowercase ''reject'' = ''reject''" "to_ascii_lowercase ''recent'' = ''recent''" by code_simp+
  have tr: "trim ''recent'' = ''recent''" by (simp add: graphic_def)
  have "dup_field ''reject'' (''recent='' @ show_nat r) (Reject DEFAULT_RECENT) = Inr (Reject r)"
    unfolding dup_field_def so using n by (simp add: lw tr parse_show_count)
  then show ?thesis
    unfolding disp dup_from_str_def trim_plain [OF pl] Let_def sp
    using Reject pr by (simp add: graphic_def lw)
qed

theorem duplicates_roundtrip_witness: "dup_from_str (dup_display (Reject 1024)) = Inr (Reject 1024)"
  by (rule duplicates_roundtrip) code_simp

subsection \<open>The scheduler\<close>

fun sched_run :: "(gauges \<times> duration) list \<Rightarrow> flush_scheduler \<Rightarrow> flush_scheduler \<times> sched_action list" where
  "sched_run [] s = (s, [])"
| "sched_run ((g, e) # xs) s =
     (case sched_advance g e s of (s1, a1) \<Rightarrow> case sched_run xs s1 of (s2, a2) \<Rightarrow> (s2, a1 @ a2))"

lemma advance_policy [simp]: "fs_policy (fst (sched_advance g e s)) = fs_policy s"
  by (simp add: sched_advance_def Let_def)





definition quiet_gauges :: gauges where
  "quiet_gauges = \<lparr>g_buffer_bytes = 0, g_buffer_rows = 0, g_idle_for = 0, g_wal_bytes = 0, g_threshold = 1,
     g_wal_sync_interval = None\<rparr>"


text \<open>A scheduler whose policy has no trigger never seals by itself,
  whatever the gauges say.\<close>

theorem scheduler_manual_never_seals:
  assumes "is_manual (fs_policy s)"
  shows "DoSeal \<notin> set (snd (sched_run xs s))"
  using assms
proof (induction xs arbitrary: s)
  case (Cons x xs)
  obtain g e where x: "x = (g, e)" by (cases x)
  obtain s1 a1 where a: "sched_advance g e s = (s1, a1)" by (cases "sched_advance g e s")
  have "DoSeal \<notin> set (snd (sched_advance g e s))"
    using Cons.prems by (auto simp: sched_advance_def Let_def is_manual_def split: if_splits)
  moreover have "is_manual (fs_policy s1)" using Cons.prems advance_policy [of g e s] a by simp
  ultimately show ?case using Cons.IH [of s1] x a by (auto split: prod.splits)
qed simp

theorem scheduler_manual_never_seals_witness:
  "DoSeal \<notin> set (snd (sched_run [(quiet_gauges, 3)] (scheduler_new fp_manual 100)))"
  by (rule scheduler_manual_never_seals) (simp add: scheduler_new_def fp_manual_def is_manual_def)

end
