(* ===== verification/Pending.thy ===== *)
theory Pending
  imports Config Manifest_Codec "HOL-Library.List_Lexorder" "HOL-Library.Char_ord"
begin

text \<open>
  The records a housekeeper leaves for the writer (\<open>crates/imbh-storage/src/pending.rs\<close>) and the
  database's info file (\<open>crates/imbh-storage/src/lib.rs\<close>): tab-separated text with escaped
  fields, framed and checksummed for the records. The checksum is the parameter \<open>h\<close>.
\<close>

subsection \<open>Escaping\<close>

fun escape :: "string \<Rightarrow> string" where
  "escape [] = []"
| "escape (c # s) =
     (if c = backslash then [backslash, backslash]
      else if c = tab then [backslash, CHR ''t'']
      else if c = nl then [backslash, CHR ''n'']
      else [c]) @ escape s"

fun unescape :: "string \<Rightarrow> string" where
  "unescape [] = []"
| "unescape [c] = [c]"
| "unescape (c # d # s) =
     (if c \<noteq> backslash then c # unescape (d # s)
      else if d = CHR ''t'' then tab # unescape s
      else if d = CHR ''n'' then nl # unescape s
      else if d = backslash then backslash # unescape s
      else backslash # d # unescape s)"

text \<open>The info file has its own copies of the two functions, equal line by line.\<close>

definition escape_field :: "string \<Rightarrow> string" where "escape_field s = escape s"
definition unescape_field :: "string \<Rightarrow> string" where "unescape_field s = unescape s"

subsection \<open>Pending records\<close>

definition PENDING_VERSION :: nat where "PENDING_VERSION = 1"
definition PENDING_DIR :: string where "PENDING_DIR = ''pending''"
definition P_HEADER :: nat where "P_HEADER = 4 + 8"

record pending_rewrite =
  pr_table :: table
  pr_inputs :: "string list"
  pr_output :: segment_ref
  pr_digest :: nat
  pr_promote :: "string list"

definition kv_line :: "string \<Rightarrow> string \<Rightarrow> string" where
  "kv_line k v = k @ [tab] @ v"

definition pending_lines :: "pending_rewrite \<Rightarrow> string list" where
  "pending_lines r =
     [kv_line ''version'' (show_nat PENDING_VERSION), kv_line ''table'' (table_as_str (pr_table r))] @
     map (\<lambda>k. kv_line ''promote'' (escape k)) (pr_promote r) @
     map (\<lambda>i. kv_line ''input'' (escape i)) (pr_inputs r) @
     [kv_line ''output'' (escape (relative_path (pr_output r))),
      kv_line ''rows'' (show_nat (seg_rows (pr_output r))),
      kv_line ''min_time'' (show_int (min_time_unix_nano (pr_output r))),
      kv_line ''max_time'' (show_int (max_time_unix_nano (pr_output r))),
      kv_line ''digest'' (show_pad 16 16 (pr_digest r))]"

definition pending_encode :: "pending_rewrite \<Rightarrow> bytes" where
  "pending_encode r = bytes_of_string (concat (map (\<lambda>l. l @ [nl]) (pending_lines r)))"

text \<open>The variables of the decoding loop.\<close>

record pending_acc =
  a_version :: "nat option"
  a_table :: "table option"
  a_output :: "string option"
  a_digest :: "nat option"
  a_rows :: "nat option"
  a_min :: "int option"
  a_max :: "int option"
  a_inputs :: "string list"
  a_promote :: "string list"

definition acc_empty :: pending_acc where
  "acc_empty = \<lparr>a_version = None, a_table = None, a_output = None, a_digest = None, a_rows = None,
     a_min = None, a_max = None, a_inputs = [], a_promote = []\<rparr>"

definition pending_line :: "pending_acc \<Rightarrow> string \<Rightarrow> pending_acc" where
  "pending_line a line =
     (case split_once tab line of (k, rest) \<Rightarrow>
        let v = (case rest of None \<Rightarrow> [] | Some v \<Rightarrow> v) in
        if k = ''version'' then a\<lparr>a_version := parse_u32 v\<rparr>
        else if k = ''table'' then a\<lparr>a_table := find (\<lambda>t. table_as_str t = v) table_ALL\<rparr>
        else if k = ''promote'' then a\<lparr>a_promote := a_promote a @ [unescape v]\<rparr>
        else if k = ''input'' then a\<lparr>a_inputs := a_inputs a @ [unescape v]\<rparr>
        else if k = ''output'' then a\<lparr>a_output := Some (unescape v)\<rparr>
        else if k = ''rows'' then a\<lparr>a_rows := parse_u64 v\<rparr>
        else if k = ''min_time'' then a\<lparr>a_min := parse_i64 v\<rparr>
        else if k = ''max_time'' then a\<lparr>a_max := parse_i64 v\<rparr>
        else if k = ''digest'' then a\<lparr>a_digest := parse_uint 16 u64_max v\<rparr>
        else a)"

definition pending_decode :: "bytes \<Rightarrow> pending_rewrite option" where
  "pending_decode p =
     (case str_from_utf8 p of None \<Rightarrow> None | Some txt \<Rightarrow>
      let a = foldl pending_line acc_empty (str_lines txt) in
      if a_version a \<noteq> Some PENDING_VERSION \<or> a_inputs a = [] then None
      else
        (case (a_table a, a_output a, a_min a, a_max a, a_rows a, a_digest a) of
           (Some t, Some out, Some mn, Some mx, Some rows, Some dg) \<Rightarrow>
             Some \<lparr>pr_table = t, pr_inputs = a_inputs a,
                   pr_output = \<lparr>relative_path = out, min_time_unix_nano = mn, max_time_unix_nano = mx,
                                seg_rows = rows\<rparr>,
                   pr_digest = dg, pr_promote = promote_new (a_promote a)\<rparr>
         | _ \<Rightarrow> None))"

definition digest_file :: "mhash \<Rightarrow> world \<Rightarrow> string \<Rightarrow> error + nat" where
  "digest_file h w p =
     (case fs_read w p of Inl e \<Rightarrow> Inl (storage_io (Some p) io_str) | Inr bs \<Rightarrow> Inr (unat (h bs)))"

definition pending_name :: "mhash \<Rightarrow> pending_rewrite \<Rightarrow> string" where
  "pending_name h r =
     show_pad 16 16 (unat (h (bytes_of_string (relative_path (pr_output r))))) @ ''.job''"

definition pending_path :: "string \<Rightarrow> string" where
  "pending_path name = PENDING_DIR @ ''/'' @ name"

definition pending_write :: "mhash \<Rightarrow> pending_rewrite \<Rightarrow> world \<Rightarrow> (world, string) outcome" where
  "pending_write h r w =
     and_then id (io_try (storage_io (Some PENDING_DIR) io_str) (fs_create_dir_all w)) (\<lambda>_ w.
     let p = pending_encode r;
         framed = u32_le (length p mod 2 ^ 32) @ u64_le (unat (h p)) @ p;
         name = pending_name h r;
         final_path = pending_path name;
         tmp = pending_path (name @ ''.tmp'')
     in case (case fs_write tmp framed w of (ok, w1) \<Rightarrow>
                if ok then fs_rename tmp final_path w1 else (False, w1)) of
          (True, w2) \<Rightarrow> (Inr final_path, w2)
        | (False, w2) \<Rightarrow> (Inl (storage_io (Some final_path) io_str), snd (fs_remove tmp w2)))"

definition read_one :: "mhash \<Rightarrow> world \<Rightarrow> string \<Rightarrow> pending_rewrite option" where
  "read_one h w p =
     (case fs_read w p of
        Inl e \<Rightarrow> None
      | Inr bs \<Rightarrow>
          if length bs < P_HEADER then None
          else
            let len = le_val (take 4 bs);
                ck = le_val (take 8 (drop 4 bs))
            in if length bs < P_HEADER + len then None
               else
                 let pl = take len (drop P_HEADER bs)
                 in if unat (h pl) \<noteq> ck then None else pending_decode pl)"

text \<open>The entries of the directory \<open>pending\<close> whose extension is \<open>job\<close>, in path order.\<close>

definition is_job :: "string \<Rightarrow> bool" where
  "is_job p \<longleftrightarrow>
     (case strip_prefix (PENDING_DIR @ ''/'') p of
        None \<Rightarrow> False
      | Some name \<Rightarrow> CHR ''/'' \<notin> set name \<and> suffix ''.job'' name \<and> name \<noteq> ''.job'')"

definition pending_list :: "mhash \<Rightarrow> world \<Rightarrow> (string + string \<times> pending_rewrite) list" where
  "pending_list h w =
     (if \<not> dir_ok w then []
      else sort_key (\<lambda>r. case r of Inr (p, _) \<Rightarrow> p | Inl p \<Rightarrow> p)
        (map (\<lambda>p. case read_one h w p of Some r \<Rightarrow> Inr (p, r) | None \<Rightarrow> Inl p)
          (filter is_job (fs_names w))))"

subsection \<open>The info file\<close>

definition INFO_FILE :: string where "INFO_FILE = ''db.info''"

definition wal_mode_token :: "wal_mode \<Rightarrow> string" where
  "wal_mode_token m = (case m of WalOff \<Rightarrow> ''off'' | WalInterval d \<Rightarrow> ''interval'' | WalAlways \<Rightarrow> ''always'')"

definition db_info_lines :: "wal_mode \<Rightarrow> string list \<Rightarrow> retention \<Rightarrow> string list" where
  "db_info_lines m keys r =
     [kv_line ''wal_mode'' (wal_mode_token m)] @
     map (\<lambda>k. kv_line ''promote'' (escape_field k)) keys @
     (case max_age r of None \<Rightarrow> [] | Some a \<Rightarrow> [kv_line ''retain_max_age_secs'' (show_nat (as_secs a))]) @
     (case max_disk_bytes r of None \<Rightarrow> [] | Some b \<Rightarrow> [kv_line ''retain_max_disk_bytes'' (show_nat b)])"

definition db_info_text :: "wal_mode \<Rightarrow> string list \<Rightarrow> retention \<Rightarrow> string" where
  "db_info_text m keys r = concat (map (\<lambda>l. l @ [nl]) (db_info_lines m keys r))"

definition write_db_info_at :: "wal_mode \<Rightarrow> string list \<Rightarrow> retention \<Rightarrow> world \<Rightarrow> bool \<times> world" where
  "write_db_info_at m keys r w =
     (let tmp = INFO_FILE @ ''.tmp''
      in case (case fs_write tmp (bytes_of_string (db_info_text m keys r)) w of (ok, w1) \<Rightarrow>
                 if ok then fs_rename tmp INFO_FILE w1 else (False, w1)) of
           (True, w2) \<Rightarrow> (True, w2)
         | (False, w2) \<Rightarrow> (False, snd (fs_remove tmp w2)))"

definition info_field :: "string \<Rightarrow> string list \<Rightarrow> nat option" where
  "info_field tag ls =
     (case List.map_filter (\<lambda>line. let p = split_on tab line in
              if hd p = tag then Option.bind (field 1 p) parse_u64 else None) ls of
        [] \<Rightarrow> None | x # xs \<Rightarrow> Some x)"

definition read_retention :: "world \<Rightarrow> retention" where
  "read_retention w =
     (case fs_read_to_string w INFO_FILE of
        Inl e \<Rightarrow> retention_none
      | Inr txt \<Rightarrow>
          retention_from_parts
            (map_option from_secs (info_field ''retain_max_age_secs'' (str_lines txt)))
            (info_field ''retain_max_disk_bytes'' (str_lines txt)))"

definition read_promote :: "world \<Rightarrow> string list" where
  "read_promote w =
     (case fs_read_to_string w INFO_FILE of
        Inl e \<Rightarrow> promote_new []
      | Inr txt \<Rightarrow>
          promote_new (List.map_filter (\<lambda>line. let p = split_on tab line in
            if hd p = ''promote'' then Some (unescape_field (case field 1 p of None \<Rightarrow> [] | Some v \<Rightarrow> v)) else None)
            (str_lines txt)))"

definition write_db_info :: "wal_mode \<Rightarrow> world \<Rightarrow> world" where
  "write_db_info m w = snd (write_db_info_at m (read_promote w) (read_retention w) w)"

definition writer_wal_disabled :: "world \<Rightarrow> bool" where
  "writer_wal_disabled w =
     (case fs_read_to_string w INFO_FILE of
        Inl e \<Rightarrow> False
      | Inr txt \<Rightarrow>
          list_ex (\<lambda>line. let p = split_on tab line in hd p = ''wal_mode'' \<and> field 1 p = Some ''off'')
            (str_lines txt))"

end
