(* ===== verification/Pending_Properties.thy ===== *)
theory Pending_Properties
  imports Pending
begin

text \<open>
  The escaping interface of the two text formats, the round trips of pending records and of the info
  file, what a fault in writing them leaves, and the one kind of key that does not come back.
\<close>

subsection \<open>Fields\<close>

text \<open>What a line-oriented format asks of its field escaping.\<close>

locale field_codec =
  fixes enc :: "string \<Rightarrow> string" and dec :: "string \<Rightarrow> string"
  assumes dec_enc: "dec (enc s) = s"
    and enc_tab: "tab \<notin> set (enc s)"
    and enc_nl: "nl \<notin> set (enc s)"
    and enc_last: "s \<noteq> [] \<Longrightarrow> last (enc s) = cr \<longleftrightarrow> last s = cr"
    and enc_Nil: "enc [] = []"
    and enc_utf8: "utf8_string s \<Longrightarrow> utf8_string (enc s)"
begin

text \<open>A line of a key and an escaped field has one separator and survives \<open>str::lines\<close>, unless
  the field ends in a carriage return.\<close>

lemma line_split: "tab \<notin> set k \<Longrightarrow> split_once tab (kv_line k (enc v)) = (k, Some (enc v))"
  by (simp add: kv_line_def)

lemma line_fields: "tab \<notin> set k \<Longrightarrow> split_on tab (kv_line k (enc v)) = [k, enc v]"
  using enc_tab by (simp add: kv_line_def)

lemma line_cr: "v = [] \<or> last v \<noteq> cr \<Longrightarrow> strip_cr (kv_line k (enc v)) = kv_line k (enc v)"
proof -
  assume v: "v = [] \<or> last v \<noteq> cr"
  have "last (kv_line k (enc v)) \<noteq> cr"
  proof (cases "enc v = []")
    case True
    then show ?thesis by (simp add: kv_line_def)
  next
    case False
    then have "v \<noteq> []" using enc_Nil by auto
    with v enc_last [of v] False show ?thesis by (simp add: kv_line_def)
  qed
  moreover have "kv_line k (enc v) \<noteq> []" by (simp add: kv_line_def)
  ultimately show ?thesis by (simp add: strip_cr_last)
qed

end

lemma unescape_escape: "unescape (escape s) = s"
proof (induction s)
  case (Cons c s)
  have "c \<noteq> backslash \<Longrightarrow> unescape (c # t) = c # unescape t" for t by (cases t) auto
  with Cons show ?case by auto
qed simp

lemma escape_chars: "tab \<notin> set (escape s)" "nl \<notin> set (escape s)"
  by (induction s) auto

lemma escape_nonempty [simp]: "escape s = [] \<longleftrightarrow> s = []"
  by (cases s) auto

lemma escape_last: "s \<noteq> [] \<Longrightarrow> last (escape s) = cr \<longleftrightarrow> last s = cr"
  by (induction s) auto

text \<open>Escaping replaces single-byte characters only, so it keeps a text well-formed.\<close>

lemma escape_append: "escape (s @ t) = escape s @ escape t"
  by (induction s) auto

lemma escape_high: "list_all (\<lambda>c. 127 < (of_char c :: nat)) s \<Longrightarrow> escape s = s"
  by (induction s) auto

abbreviation high :: "char \<Rightarrow> bool" where
  "high c \<equiv> 127 < (of_char c :: nat)"

lemma byte_high:
  "cont_byte (of_char c) \<Longrightarrow> high c"
  "utf8_lead2 (of_char c) b \<Longrightarrow> high c" "utf8_lead2 a (of_char c) \<Longrightarrow> high c"
  "utf8_lead3 (of_char c) b \<Longrightarrow> high c" "utf8_lead3 a (of_char c) \<Longrightarrow> high c"
  "utf8_lead4 (of_char c) b \<Longrightarrow> high c" "utf8_lead4 a (of_char c) \<Longrightarrow> high c"
  by (auto simp: cont_byte_def utf8_lead2_def utf8_lead3_def utf8_lead4_def word_le_nat_alt unat_of_char
      simp flip: of_char_eq_iff)
     (auto dest!: arg_cong [of _ _ unat] simp: unat_of_char)

lemma utf8_split:
  assumes "utf8_string s" "s \<noteq> []"
  shows "(\<exists>c t. s = c # t \<and> \<not> high c \<and> utf8_string t) \<or>
    (\<exists>m t. s = m @ t \<and> m \<noteq> [] \<and> list_all high m \<and> utf8_string m \<and> utf8_string t)"
proof -
  obtain a s1 where s: "s = a # s1" using assms(2) by (cases s) auto
  show ?thesis
  proof (cases "high a")
    case False
    then show ?thesis using assms s by auto
  next
    case True
    have "\<not> (of_char a :: byte) \<le> 127" using True by (simp add: of_char_le_127)
    then obtain r where r: "utf8_step (bytes_of_string s) = Some r" "utf8_valid r"
      using assms utf8_valid.simps [of "bytes_of_string s"]
      by (cases "utf8_step (bytes_of_string s)") (auto simp: utf8_string_def bytes_of_string_def simp del: utf8_step.simps)
    consider b s2 where "s1 = b # s2" "utf8_lead2 (of_char a) (of_char b)" "r = bytes_of_string s2"
      | b c s3 where "s1 = b # c # s3" "utf8_lead3 (of_char a) (of_char b)" "cont_byte (of_char c)" "r = bytes_of_string s3"
          "\<not> utf8_lead2 (of_char a) (of_char b)"
      | b c d s4 where "s1 = b # c # d # s4" "utf8_lead4 (of_char a) (of_char b)" "cont_byte (of_char c)"
          "cont_byte (of_char d)" "r = bytes_of_string s4" "\<not> utf8_lead2 (of_char a) (of_char b)"
          "\<not> (utf8_lead3 (of_char a) (of_char b) \<and> cont_byte (of_char c))"
      using r(1) s \<open>\<not> (of_char a :: byte) \<le> 127\<close>
      by (cases s1 rule: remdups_adj.cases; auto split: if_splits list.splits simp: bytes_of_string_def)
    then show ?thesis
    proof cases
      case 1
      then have "utf8_string [a, b]"
        using \<open>\<not> (of_char a :: byte) \<le> 127\<close> by (simp add: utf8_string_def utf8_valid.simps [of "[of_char a, of_char b]"])
      with 1 s r byte_high show ?thesis
        by (intro disjI2 exI [of _ "[a, b]"] exI [of _ s2]) (auto simp: utf8_string_def)
    next
      case 2
      then have "utf8_string [a, b, c]"
        using \<open>\<not> (of_char a :: byte) \<le> 127\<close>
        by (simp add: utf8_string_def utf8_valid.simps [of "[of_char a, of_char b, of_char c]"])
      with 2 s r byte_high show ?thesis
        by (intro disjI2 exI [of _ "[a, b, c]"] exI [of _ s3]) (auto simp: utf8_string_def)
    next
      case 3
      then have "utf8_string [a, b, c, d]"
        using \<open>\<not> (of_char a :: byte) \<le> 127\<close>
        by (simp add: utf8_string_def utf8_valid.simps [of "[of_char a, of_char b, of_char c, of_char d]"])
      with 3 s r byte_high show ?thesis
        by (intro disjI2 exI [of _ "[a, b, c, d]"] exI [of _ s4]) (auto simp: utf8_string_def)
    qed
  qed
qed

lemma escape_utf8: "utf8_string s \<Longrightarrow> utf8_string (escape s)"
proof (induction s rule: length_induct)
  case (1 s)
  show ?case
  proof (cases "s = []")
    case False
    from utf8_split [OF "1.prems" False] show ?thesis
    proof (elim disjE exE conjE)
      fix c t assume s: "s = c # t" and c: "\<not> high c" and t: "utf8_string t"
      then have "utf8_string (escape t)" using "1.IH" by simp
      with s c show ?thesis by simp
    next
      fix m t assume s: "s = m @ t" and m: "m \<noteq> []" "list_all high m" "utf8_string m" and t: "utf8_string t"
      then have "utf8_string (escape t)" using "1.IH" by simp
      with s m show ?thesis by (simp add: escape_append escape_high)
    qed
  qed simp
qed

interpretation pending_fields: field_codec escape unescape
  by unfold_locales (simp_all add: unescape_escape escape_chars escape_last escape_utf8)

interpretation info_fields: field_codec escape_field unescape_field
  unfolding escape_field_def unescape_field_def
  by unfold_locales (simp_all add: unescape_escape escape_chars escape_last escape_utf8)

subsection \<open>Round trip of a pending record\<close>

definition field_ok :: "string \<Rightarrow> bool" where
  "field_ok s \<longleftrightarrow> utf8_string s \<and> (s = [] \<or> last s \<noteq> cr)"


lemma promote_loop_distinct: "distinct (out @ ks) \<Longrightarrow> promote_loop out ks = out @ ks"
  by (induction ks arbitrary: out) auto

lemma promote_new_distinct: "distinct ks \<Longrightarrow> promote_new ks = ks"
  by (simp add: promote_new_def promote_loop_distinct)

lemma number_safe:
  "tab \<notin> set (show_nat n)" "nl \<notin> set (show_nat n)" "cr \<notin> set (show_nat n)"
  "tab \<notin> set (show_int i)" "nl \<notin> set (show_int i)" "cr \<notin> set (show_int i)"
  "tab \<notin> set (show_pad b k n)" "nl \<notin> set (show_pad b k n)" "cr \<notin> set (show_pad b k n)"
  using show_nat_chars [of _ n] show_int_chars [of _ i] show_pad_chars [of _ b k n]
  by (auto dest: digit_chars_props)

lemma number_utf8: "utf8_string (show_nat n)" "utf8_string (show_int i)" "utf8_string (show_pad b k n)"
proof -
  have "utf8_string s" if "\<And>c. c \<in> set s \<Longrightarrow> c = CHR ''-'' \<or> c \<in> set digit_chars" for s
    using that digit_chars_props by (fastforce intro!: utf8_string_ascii simp: list_all_iff)
  then show "utf8_string (show_nat n)" "utf8_string (show_int i)" "utf8_string (show_pad b k n)"
    using show_nat_chars show_int_chars show_pad_chars by blast+
qed


lemma kv_chars: "nl \<notin> set k \<Longrightarrow> nl \<notin> set v \<Longrightarrow> nl \<notin> set (kv_line k v)"
  by (simp add: kv_line_def)

lemma kv_utf8: "utf8_string k \<Longrightarrow> utf8_string v \<Longrightarrow> utf8_string (kv_line k v)"
  by (simp add: kv_line_def)

lemma kv_cr: "cr \<notin> set v \<Longrightarrow> cr \<notin> set k \<Longrightarrow> strip_cr (kv_line k v) = kv_line k v"
  by (simp add: kv_line_def)

text \<open>The loop over the lines of an encoded record.\<close>

lemma pending_line_kv:
  "tab \<notin> set k \<Longrightarrow> pending_line a (kv_line k v) = pending_line a (k @ tab # v)"
  by (simp add: kv_line_def)





text \<open>A line that comes back from \<open>str::lines\<close> as it was written.\<close>

definition line_ok :: "string \<Rightarrow> bool" where
  "line_ok l \<longleftrightarrow> nl \<notin> set l \<and> strip_cr l = l \<and> utf8_string l"

lemma line_ok_field:
  "field_ok v \<Longrightarrow> nl \<notin> set k \<Longrightarrow> utf8_string k \<Longrightarrow> line_ok (kv_line k (escape v))"
  using pending_fields.line_cr escape_chars escape_utf8 by (auto simp: field_ok_def line_ok_def kv_chars kv_utf8)

lemma line_ok_plain:
  "nl \<notin> set k \<Longrightarrow> cr \<notin> set k \<Longrightarrow> utf8_string k \<Longrightarrow> nl \<notin> set v \<Longrightarrow> cr \<notin> set v \<Longrightarrow> utf8_string v \<Longrightarrow>
   line_ok (kv_line k v)"
  by (simp add: line_ok_def kv_chars kv_utf8 kv_cr)


lemma lines_ok_read:
  assumes "list_all line_ok ls"
  shows "str_lines (concat (map (\<lambda>l. l @ [nl]) ls)) = ls"
    and "utf8_string (concat (map (\<lambda>l. l @ [nl]) ls))"
proof -
  have "str_lines (concat (map (\<lambda>l. l @ [nl]) ls)) = map strip_cr ls"
    using assms by (intro str_lines_concat) (simp add: list_all_iff line_ok_def)
  also have "\<dots> = ls" using assms by (intro map_idI) (simp add: list_all_iff line_ok_def)
  finally show "str_lines (concat (map (\<lambda>l. l @ [nl]) ls)) = ls" .
  show "utf8_string (concat (map (\<lambda>l. l @ [nl]) ls))"
    using assms by (induction ls) (auto simp: line_ok_def)
qed


subsection \<open>Replacing a file by rename\<close>

lemma replace_effect:
  assumes "(case fs_write tmp bs w of (ok, w1) \<Rightarrow> if ok then fs_rename tmp fin w1 else (False, w1)) = (ok, w2)"
    and "tmp \<noteq> fin"
  shows "unchanged {tmp, fin} w w2"
    and "fs_read w2 fin = (if ok then Inr bs else fs_read w fin)"
proof -
  let ?w1 = "snd (fs_create tmp w)"
  let ?w2 = "snd (fs_write_all tmp bs ?w1)"
  let ?w3 = "snd (fs_rename tmp fin ?w2)"
  have u1: "unchanged {tmp} w ?w1" by (rule fs_create_read)
  have u2: "unchanged {tmp} w ?w2"
    using unchanged_trans [OF u1 fs_write_all_read(1) [of tmp ?w1 bs]] by simp
  have u3: "unchanged {tmp, fin} w ?w3"
    using unchanged_trans [OF u2 fs_rename_read(1) [of tmp fin ?w2]] by (simp add: insert_commute)
  have c: "w2 = ?w1 \<and> \<not> ok \<or> w2 = ?w2 \<and> \<not> ok \<or> w2 = ?w3 \<and> ok = fst (fs_rename tmp fin ?w2) \<and>
      fst (fs_create tmp w) \<and> fst (fs_write_all tmp bs ?w1)"
    using assms(1) by (auto simp: fs_write_def split_def split: if_splits)
  show "unchanged {tmp, fin} w w2"
    using c u1 u2 u3 by (auto simp: unchanged_def)
  have "fs_read ?w3 fin = Inr bs"
    if "fst (fs_create tmp w)" "fst (fs_write_all tmp bs ?w1)" "fst (fs_rename tmp fin ?w2)"
    using that fs_create_read(2) [of tmp w] fs_write_all_read(2) [of tmp bs ?w1]
      fs_rename_read(2) [of tmp fin ?w2] assms(2) by simp
  moreover have "fs_read ?w3 fin = fs_read w fin" if "\<not> fst (fs_rename tmp fin ?w2)"
    using u2 fs_rename_read(3) [OF that] assms(2) by (auto simp: unchanged_def)
  ultimately show "fs_read w2 fin = (if ok then Inr bs else fs_read w fin)"
    using c u1 u2 assms(2) by (auto simp: unchanged_def)
qed

lemma remove_unchanged: "p \<noteq> q \<Longrightarrow> fs_read (snd (fs_remove p w)) q = fs_read w q"
  using fs_remove_read [of p w] by (simp add: unchanged_def)




subsection \<open>The info file\<close>

lemma write_db_info_effect:
  assumes "write_db_info_at m keys r w = (ok, w')"
  shows "fs_read w' INFO_FILE =
      (if ok then Inr (bytes_of_string (db_info_text m keys r)) else fs_read w INFO_FILE)"
proof -
  let ?t = "INFO_FILE @ ''.tmp''" and ?b = "bytes_of_string (db_info_text m keys r)"
  let ?c = "case fs_write ?t ?b w of (ok, w1) \<Rightarrow> if ok then fs_rename ?t INFO_FILE w1 else (False, w1)"
  obtain ok2 w2 where c: "?c = (ok2, w2)" by (cases ?c)
  have ne: "?t \<noteq> INFO_FILE" by simp
  note eff = replace_effect [OF c ne]
  have "ok2 = ok \<and> w' = (if ok then w2 else snd (fs_remove ?t w2))"
    using assms c by (cases ok2) (simp_all add: write_db_info_at_def Let_def)
  then show ?thesis using eff(2) remove_unchanged [OF ne, of w2] by auto
qed

definition info_ok :: "string list \<Rightarrow> retention \<Rightarrow> bool" where
  "info_ok keys r \<longleftrightarrow> list_all field_ok keys \<and> distinct keys \<and>
     (\<forall>a. max_age r = Some a \<longrightarrow> as_secs a \<le> u64_max) \<and> (\<forall>b. max_disk_bytes r = Some b \<longrightarrow> b \<le> u64_max)"

lemma db_info_lines_ok: "list_all field_ok keys \<Longrightarrow> list_all line_ok (db_info_lines m keys r)"
  unfolding db_info_lines_def
  by (auto simp: list_all_iff number_safe number_utf8 line_ok_field line_ok_plain escape_field_def wal_mode_token_def
      split: option.splits wal_mode.splits)

lemma db_info_read:
  assumes "list_all field_ok keys" "fs_read w INFO_FILE = Inr (bytes_of_string (db_info_text m keys r))"
  shows "\<exists>txt. fs_read_to_string w INFO_FILE = Inr txt \<and> str_lines txt = db_info_lines m keys r"
  using assms lines_ok_read [OF db_info_lines_ok [OF assms(1), of m r]]
  by (simp add: fs_read_to_string_def db_info_text_def str_from_utf8_string)

text \<open>The three readers on the lines of a written file.\<close>

lemma kv_fields: "tab \<notin> set k \<Longrightarrow> tab \<notin> set v \<Longrightarrow> split_on tab (kv_line k v) = [k, v]"
  by (simp add: kv_line_def)

lemma map_filter_append: "List.map_filter f (xs @ ys) = List.map_filter f xs @ List.map_filter f ys"
  by (induction xs) (auto simp: List.map_filter_simps split: option.splits)

lemma map_filter_none: "\<forall>x \<in> set xs. f x = None \<Longrightarrow> List.map_filter f xs = []"
  by (induction xs) (auto simp: List.map_filter_simps)

lemma map_filter_some: "List.map_filter f (map g xs) = map k xs" if "\<And>x. f (g x) = Some (k x)"
  using that by (induction xs) (auto simp: List.map_filter_simps)

lemmas info_split = info_fields.line_fields kv_fields number_safe

lemma token_safe: "tab \<notin> set (wal_mode_token m)"
  by (cases m) (simp_all add: wal_mode_token_def)

abbreviation opt_line :: "string \<Rightarrow> nat option \<Rightarrow> string list" where
  "opt_line tag x \<equiv> (case x of None \<Rightarrow> [] | Some n \<Rightarrow> [kv_line tag (show_nat n)])"

definition info_lines :: "wal_mode \<Rightarrow> string list \<Rightarrow> nat option \<Rightarrow> nat option \<Rightarrow> string list" where
  "info_lines m keys age disk =
     [kv_line ''wal_mode'' (wal_mode_token m)] @ map (\<lambda>k. kv_line ''promote'' (escape_field k)) keys @
     opt_line ''retain_max_age_secs'' age @ opt_line ''retain_max_disk_bytes'' disk"

lemma db_info_lines: "db_info_lines m keys r = info_lines m keys (map_option as_secs (max_age r)) (max_disk_bytes r)"
  by (simp add: db_info_lines_def info_lines_def split: option.splits)

lemma info_field_lines:
  assumes "\<forall>n. age = Some n \<longrightarrow> n \<le> u64_max" "\<forall>n. disk = Some n \<longrightarrow> n \<le> u64_max"
  shows "info_field ''retain_max_age_secs'' (info_lines m keys age disk) = age" "info_field ''retain_max_disk_bytes'' (info_lines m keys age disk) = disk"
proof -
  let ?f = "\<lambda>tag line. let p = split_on tab line in if hd p = tag then Option.bind (field 1 p) parse_u64 else None"
  have pro: "List.map_filter (?f tag) (map (\<lambda>k. kv_line ''promote'' (escape_field k)) keys) = []"
    if "tag \<noteq> ''promote''" for tag
    using that by (intro map_filter_none) (auto simp: info_split)
  have num: "List.map_filter (?f tag) (opt_line tag2 x) = (if tag = tag2 then (case x of None \<Rightarrow> [] | Some n \<Rightarrow> [n]) else [])"
    if "tab \<notin> set tag2" "\<forall>n. x = Some n \<longrightarrow> n \<le> u64_max" for tag tag2 x
    using that by (auto simp: List.map_filter_simps info_split field_def codec split: option.splits)
  show "info_field ''retain_max_age_secs'' (info_lines m keys age disk) = age" "info_field ''retain_max_disk_bytes'' (info_lines m keys age disk) = disk"
    unfolding info_field_def info_lines_def map_filter_append
    using assms by (auto simp: pro num token_safe info_split List.map_filter_simps split: option.splits)
qed

lemma info_promote_lines:
  shows "List.map_filter (\<lambda>line. let p = split_on tab line in
      if hd p = ''promote'' then Some (unescape_field (case field 1 p of None \<Rightarrow> [] | Some v \<Rightarrow> v)) else None) (info_lines m keys age disk) = keys"
    (is "List.map_filter ?f _ = _")
proof -
  have pro: "List.map_filter ?f (map (\<lambda>k. kv_line ''promote'' (escape_field k)) keys) = map (\<lambda>k. k) keys"
    by (rule map_filter_some) (simp add: info_split info_fields.dec_enc field_def)
  have num: "List.map_filter ?f (opt_line tag x) = []" if "tab \<notin> set tag" "tag \<noteq> ''promote''" for tag x
    using that by (auto simp: List.map_filter_simps info_split split: option.splits)
  show ?thesis unfolding info_lines_def map_filter_append by (simp add: pro num token_safe info_split List.map_filter_simps)
qed

lemma info_mode_lines:
  shows "list_ex (\<lambda>line. let p = split_on tab line in hd p = ''wal_mode'' \<and> field 1 p = Some ''off'') (info_lines m keys age disk) \<longleftrightarrow> m = WalOff"
  using token_safe [of m]
  by (cases m) (auto simp: info_lines_def info_split field_def wal_mode_token_def list_ex_iff split: option.splits)

subsection \<open>Claims\<close>


text \<open>After the info file is rewritten a reader sees the promoted keys in
  order, the retention with its age cut to whole seconds and the log mode; a rewrite that fails at any
  operation leaves all three as they were.\<close>

theorem db_info_roundtrip:
  assumes "info_ok keys r" "write_db_info_at m keys r w = (ok, w')"
  shows "read_promote w' = (if ok then keys else read_promote w) \<and>
    read_retention w' =
      (if ok then \<lparr>max_age = map_option (\<lambda>a. from_secs (as_secs a)) (max_age r), max_disk_bytes = max_disk_bytes r\<rparr>
       else read_retention w) \<and>
    writer_wal_disabled w' = (if ok then m = WalOff else writer_wal_disabled w)"
proof (cases ok)
  case False
  then have "fs_read w' INFO_FILE = fs_read w INFO_FILE" using write_db_info_effect [OF assms(2)] by simp
  with False show ?thesis
    by (simp add: read_promote_def read_retention_def writer_wal_disabled_def fs_read_to_string_def)
next
  case True
  have ok: "list_all field_ok keys" "distinct keys"
    "\<forall>n. map_option as_secs (max_age r) = Some n \<longrightarrow> n \<le> u64_max" "\<forall>n. max_disk_bytes r = Some n \<longrightarrow> n \<le> u64_max"
    using assms(1) by (auto simp: info_ok_def)
  obtain s where t: "fs_read_to_string w' INFO_FILE = Inr s"
      "str_lines s = info_lines m keys (map_option as_secs (max_age r)) (max_disk_bytes r)"
    using db_info_read [OF ok(1), of w' m r] write_db_info_effect [OF assms(2)] True by (auto simp: db_info_lines)
  show ?thesis
    using True info_mode_lines
    by (simp add: read_promote_def read_retention_def writer_wal_disabled_def t info_promote_lines
        info_field_lines [OF ok(3,4)] promote_new_distinct ok(2) retention_from_parts_def option.map_comp comp_def)
qed

text \<open>A promoted key that ends in a carriage return does not come back from the
  info file: the escaping leaves the carriage return in place and \<open>str::lines\<close> takes it off the
  end of the line, so the reader finds another key.\<close>

theorem info_key_cr_lost:
  "read_promote (snd (write_db_info_at WalAlways [''k'' @ [cr]] retention_none
     \<lparr>dir_ok = True, files = [], faults = []\<rparr>)) = [''k'']"
  by code_simp

subsection \<open>Witnesses\<close>


definition p_world :: world where
  "p_world = \<lparr>dir_ok = True, files = [], faults = []\<rparr>"



theorem db_info_roundtrip_witness:
  "read_promote (snd (write_db_info_at WalOff [''a'', [tab]] (retention_days 1) p_world)) = [''a'', [tab]] \<and>
   writer_wal_disabled (snd (write_db_info_at WalOff [''a'', [tab]] (retention_days 1) p_world))"
proof -
  let ?x = "write_db_info_at WalOff [''a'', [tab]] (retention_days 1) p_world"
  have i: "info_ok [''a'', [tab]] (retention_days 1)"
    by (simp add: info_ok_def field_ok_def retention_days_def from_secs_def as_secs_def wmul_u64_def u64_max_def)
  have "fst ?x" by code_simp
  with db_info_roundtrip [OF i, of WalOff p_world "fst ?x" "snd ?x"] show ?thesis by simp
qed

end
