(* ===== verification/Rows.thy ===== *)
theory Rows
  imports Core_Types
begin

text \<open>
  The normalized rows of \<open>crates/imbh-core/src/row.rs\<close>, the hand-off from the decoder to the
  storage engine, with the estimate of the memory each one takes. A floating-point number is its bit
  pattern: it is stored and never computed with here.
\<close>

type_synonym f64 = "64 word"

text \<open>\<open>map_or(0, |s| s.len())\<close>.\<close>

definition opt_len :: "string option \<Rightarrow> nat" where
  "opt_len s = (case s of None \<Rightarrow> 0 | Some t \<Rightarrow> length t)"

record log_row =
  lr_time_unix_nano :: int
  lr_observed_time_unix_nano :: "int option"
  lr_service :: "string option"
  lr_severity_number :: byte
  lr_severity_text :: "string option"
  lr_body :: string
  lr_attributes :: string
  lr_resource :: string
  lr_scope :: string
  lr_trace_id :: "bytes option"
  lr_span_id :: "bytes option"
  lr_flags :: "32 word"

definition lr_approx_bytes :: "log_row \<Rightarrow> nat" where
  "lr_approx_bytes r =
     64 + opt_len (lr_service r) + opt_len (lr_severity_text r) + length (lr_body r) +
       length (lr_attributes r) + length (lr_resource r) + length (lr_scope r)"

record span_row =
  sr_trace_id :: bytes
  sr_span_id :: bytes
  sr_parent_span_id :: "bytes option"
  sr_name :: string
  sr_kind :: string
  sr_start_time_unix_nano :: int
  sr_duration_ns :: nat
  sr_status_code :: string
  sr_status_message :: "string option"
  sr_service :: "string option"
  sr_attributes :: string
  sr_resource :: string
  sr_scope :: string
  sr_events :: "string option"
  sr_links :: "string option"
  sr_trace_state :: "string option"
  sr_flags :: "32 word"

definition sr_approx_bytes :: "span_row \<Rightarrow> nat" where
  "sr_approx_bytes r =
     96 + length (sr_name r) + length (sr_kind r) + length (sr_status_code r) +
       opt_len (sr_status_message r) + opt_len (sr_service r) + length (sr_attributes r) +
       length (sr_resource r) + length (sr_scope r) + opt_len (sr_events r) + opt_len (sr_links r) +
       opt_len (sr_trace_state r)"

record scalar_metric_row =
  sm_table :: table
  sm_time_unix_nano :: int
  sm_start_time_unix_nano :: "int option"
  sm_metric :: string
  sm_unit :: string
  sm_service :: "string option"
  sm_attributes :: string
  sm_resource :: string
  sm_scope :: string
  sm_flags :: "32 word"
  sm_value :: f64
  sm_temporality :: "string option"
  sm_is_monotonic :: "bool option"
  sm_exemplars :: string

definition sm_approx_bytes :: "scalar_metric_row \<Rightarrow> nat" where
  "sm_approx_bytes r =
     80 + length (sm_metric r) + length (sm_unit r) + opt_len (sm_service r) + length (sm_attributes r) +
       length (sm_resource r) + length (sm_scope r) + length (sm_exemplars r)"

record histogram_row =
  hr_time_unix_nano :: int
  hr_start_time_unix_nano :: "int option"
  hr_metric :: string
  hr_unit :: string
  hr_service :: "string option"
  hr_attributes :: string
  hr_resource :: string
  hr_scope :: string
  hr_flags :: "32 word"
  hr_count :: nat
  hr_sum :: "f64 option"
  hr_min :: "f64 option"
  hr_max :: "f64 option"
  hr_explicit_bounds :: "f64 list"
  hr_bucket_counts :: "nat list"
  hr_temporality :: "string option"
  hr_exemplars :: string

definition hr_approx_bytes :: "histogram_row \<Rightarrow> nat" where
  "hr_approx_bytes r =
     112 + length (hr_metric r) + length (hr_unit r) + opt_len (hr_service r) +
       length (hr_attributes r) + length (hr_resource r) + length (hr_scope r) +
       length (hr_explicit_bounds r) * 8 + length (hr_bucket_counts r) * 8 +
       length (hr_exemplars r)"

record exp_histogram_row =
  er_time_unix_nano :: int
  er_start_time_unix_nano :: "int option"
  er_metric :: string
  er_unit :: string
  er_service :: "string option"
  er_attributes :: string
  er_resource :: string
  er_scope :: string
  er_flags :: "32 word"
  er_count :: nat
  er_sum :: "f64 option"
  er_min :: "f64 option"
  er_max :: "f64 option"
  er_scale :: int
  er_zero_count :: nat
  er_zero_threshold :: f64
  er_positive_offset :: int
  er_positive_counts :: "nat list"
  er_negative_offset :: int
  er_negative_counts :: "nat list"
  er_temporality :: "string option"
  er_exemplars :: string

definition er_approx_bytes :: "exp_histogram_row \<Rightarrow> nat" where
  "er_approx_bytes r =
     136 + length (er_metric r) + length (er_unit r) + opt_len (er_service r) +
       length (er_attributes r) + length (er_resource r) + length (er_scope r) +
       length (er_positive_counts r) * 8 + length (er_negative_counts r) * 8 +
       length (er_exemplars r)"

record summary_row =
  su_time_unix_nano :: int
  su_start_time_unix_nano :: "int option"
  su_metric :: string
  su_unit :: string
  su_service :: "string option"
  su_attributes :: string
  su_resource :: string
  su_scope :: string
  su_flags :: "32 word"
  su_count :: nat
  su_sum :: f64
  su_quantiles :: "f64 list"
  su_values :: "f64 list"

definition su_approx_bytes :: "summary_row \<Rightarrow> nat" where
  "su_approx_bytes r =
     96 + length (su_metric r) + length (su_unit r) + opt_len (su_service r) + length (su_attributes r) +
       length (su_resource r) + length (su_scope r) + length (su_quantiles r) * 8 +
       length (su_values r) * 8"

end
