(* ===== verification/Dedup.thy ===== *)
theory Dedup
  imports Rows Config
begin

text \<open>
  The duplicate guard of metric ingest (\<open>crates/imbh/src/dedup.rs\<close>): the identity of a point,
  the two generations of remembered keys, and the filter over the four row kinds of an export.
  \<open>DefaultHasher\<close>'s algorithm is left open by its documentation: it is the parameter
  \<open>hf\<close>, a function of the bytes written to it.
\<close>

type_synonym hasher = "bytes \<Rightarrow> 64 word"

record seen_key =
  sk_series :: "64 word \<times> 64 word"
  sk_ts :: int

definition KIND_GAUGE :: byte where "KIND_GAUGE = 0"
definition KIND_SUM :: byte where "KIND_SUM = 1"
definition KIND_HISTOGRAM :: byte where "KIND_HISTOGRAM = 2"
definition KIND_EXP_HISTOGRAM :: byte where "KIND_EXP_HISTOGRAM = 3"
definition KIND_SUMMARY :: byte where "KIND_SUMMARY = 4"

text \<open>The trait \<open>SeriesIdentity\<close> and its implementations.\<close>

record series_identity =
  si_kind :: byte
  si_metric :: string
  si_service :: "string option"
  si_attributes :: string
  si_ts :: int

definition scalar_identity :: "scalar_metric_row \<Rightarrow> series_identity" where
  "scalar_identity r =
     \<lparr>si_kind = (if sm_table r = TMetricsSum then KIND_SUM else KIND_GAUGE), si_metric = sm_metric r,
      si_service = sm_service r, si_attributes = sm_attributes r, si_ts = sm_time_unix_nano r\<rparr>"

definition histogram_identity :: "histogram_row \<Rightarrow> series_identity" where
  "histogram_identity r =
     \<lparr>si_kind = KIND_HISTOGRAM, si_metric = hr_metric r, si_service = hr_service r,
      si_attributes = hr_attributes r, si_ts = hr_time_unix_nano r\<rparr>"

definition exp_histogram_identity :: "exp_histogram_row \<Rightarrow> series_identity" where
  "exp_histogram_identity r =
     \<lparr>si_kind = KIND_EXP_HISTOGRAM, si_metric = er_metric r, si_service = er_service r,
      si_attributes = er_attributes r, si_ts = er_time_unix_nano r\<rparr>"

definition summary_identity :: "summary_row \<Rightarrow> series_identity" where
  "summary_identity r =
     \<lparr>si_kind = KIND_SUMMARY, si_metric = su_metric r, si_service = su_service r,
      si_attributes = su_attributes r, si_ts = su_time_unix_nano r\<rparr>"

text \<open>What the \<open>Hash\<close> implementations write: integers as little-endian bytes, a string
  followed by the byte 255, an option preceded by its discriminant as a machine word.\<close>

definition hash_str :: "string \<Rightarrow> bytes" where
  "hash_str s = bytes_of_string s @ [255]"

definition hash_opt_str :: "string option \<Rightarrow> bytes" where
  "hash_opt_str s = (case s of None \<Rightarrow> u64_le 0 | Some t \<Rightarrow> u64_le 1 @ hash_str t)"

definition series_stream :: "nat \<Rightarrow> byte \<Rightarrow> string \<Rightarrow> string option \<Rightarrow> string \<Rightarrow> bytes" where
  "series_stream salt kind metric service attributes =
     u64_le salt @ [kind] @ hash_str metric @ hash_opt_str service @ hash_str attributes"

definition SALTS :: "nat \<times> nat" where
  "SALTS = (0x9e3779b97f4a7c15, 0xc2b2ae3d27d4eb4f)"

definition series_hash ::
  "hasher \<Rightarrow> byte \<Rightarrow> string \<Rightarrow> string option \<Rightarrow> string \<Rightarrow> 64 word \<times> 64 word" where
  "series_hash hf kind metric service attributes =
     (hf (series_stream (fst SALTS) kind metric service attributes),
      hf (series_stream (snd SALTS) kind metric service attributes))"

definition identity_key :: "hasher \<Rightarrow> series_identity \<Rightarrow> seen_key" where
  "identity_key hf i =
     \<lparr>sk_series = series_hash hf (si_kind i) (si_metric i) (si_service i) (si_attributes i),
      sk_ts = si_ts i\<rparr>"

record guard_state =
  gs_current :: "seen_key set"
  gs_previous :: "seen_key set"
  gs_cap :: nat

definition guard_state_new :: "nat \<Rightarrow> guard_state" where
  "guard_state_new recent =
     \<lparr>gs_current = {}, gs_previous = {}, gs_cap = max (recent div 2) 1\<rparr>"

definition admit :: "seen_key \<Rightarrow> guard_state \<Rightarrow> bool \<times> guard_state" where
  "admit key s =
     (if key \<in> gs_current s \<or> key \<in> gs_previous s then (False, s)
      else
        let s1 = (if gs_cap s \<le> card (gs_current s)
                  then s\<lparr>gs_previous := gs_current s, gs_current := {}\<rparr> else s)
        in (True, s1\<lparr>gs_current := insert key (gs_current s1)\<rparr>))"

text \<open>\<open>filter\<close>: \<open>Vec::retain\<close> with the guard as its predicate; the exemplar names the
  first row dropped.\<close>

definition exemplar_text :: "series_identity \<Rightarrow> string" where
  "exemplar_text i =
     si_metric i @ ''{service='' @ (case si_service i of None \<Rightarrow> ''-'' | Some s \<Rightarrow> s) @ ''}'' @
     si_attributes i @ '' at '' @ show_int (si_ts i)"

fun retain_loop ::
  "hasher \<Rightarrow> ('r \<Rightarrow> series_identity) \<Rightarrow> 'r list \<Rightarrow> guard_state \<Rightarrow> string option \<Rightarrow>
   'r list \<times> guard_state \<times> string option" where
  "retain_loop hf ident [] s ex = ([], s, ex)"
| "retain_loop hf ident (r # rs) s ex =
     (case admit (identity_key hf (ident r)) s of (admitted, s1) \<Rightarrow>
      case retain_loop hf ident rs s1
             (if \<not> admitted \<and> ex = None then Some (exemplar_text (ident r)) else ex) of
        (kept, s2, ex2) \<Rightarrow> ((if admitted then r # kept else kept), s2, ex2))"

definition filter_rows ::
  "hasher \<Rightarrow> ('r \<Rightarrow> series_identity) \<Rightarrow> 'r list \<Rightarrow> guard_state \<Rightarrow> string option \<Rightarrow>
   nat \<times> 'r list \<times> guard_state \<times> string option" where
  "filter_rows hf ident rows s ex =
     (case retain_loop hf ident rows s ex of (kept, s2, ex2) \<Rightarrow>
        (length rows - length kept, kept, s2, ex2))"

record decoded_metrics =
  dm_rows :: "scalar_metric_row list"
  dm_histograms :: "histogram_row list"
  dm_exp_histograms :: "exp_histogram_row list"
  dm_summaries :: "summary_row list"
  dm_accepted :: nat
  dm_rejected :: nat

record dedup_guard =
  dg_state :: "guard_state option"
  dg_rejected :: nat

definition dedup_guard_new :: "duplicates \<Rightarrow> dedup_guard" where
  "dedup_guard_new policy =
     \<lparr>dg_state = map_option guard_state_new (dup_recent policy), dg_rejected = 0\<rparr>"

definition guard_retain ::
  "hasher \<Rightarrow> dedup_guard \<Rightarrow> decoded_metrics \<Rightarrow> nat \<times> dedup_guard \<times> decoded_metrics" where
  "guard_retain hf g d =
     (case dg_state g of
        None \<Rightarrow> (0, g, d)
      | Some s0 \<Rightarrow>
          (case filter_rows hf scalar_identity (dm_rows d) s0 None of (n1, k1, s1, ex1) \<Rightarrow>
           case filter_rows hf histogram_identity (dm_histograms d) s1 ex1 of (n2, k2, s2, ex2) \<Rightarrow>
           case filter_rows hf exp_histogram_identity (dm_exp_histograms d) s2 ex2 of (n3, k3, s3, ex3) \<Rightarrow>
           case filter_rows hf summary_identity (dm_summaries d) s3 ex3 of (n4, k4, s4, ex4) \<Rightarrow>
             let dropped = n1 + n2 + n3 + n4
             in (dropped,
                 g\<lparr>dg_state := Some s4,
                   dg_rejected := (if 0 < dropped then wadd_u64 (dg_rejected g) dropped else dg_rejected g)\<rparr>,
                 d\<lparr>dm_rows := k1, dm_histograms := k2, dm_exp_histograms := k3, dm_summaries := k4\<rparr>)))"

text \<open>\<open>decode_metrics\<close> of \<open>crates/imbh/src/lib.rs\<close>. The decoder, a function of generated
  protobuf types, is the parameter \<open>dec\<close>; it returns the four row lists with zero counts.\<close>

type_synonym metrics_decoder =
  "bytes \<Rightarrow> error + scalar_metric_row list \<times> histogram_row list \<times> exp_histogram_row list \<times> summary_row list"

definition decode_metrics ::
  "metrics_decoder \<Rightarrow> hasher \<Rightarrow> bytes \<Rightarrow> dedup_guard \<Rightarrow> (error + decoded_metrics) \<times> dedup_guard" where
  "decode_metrics dec hf body g =
     (case dec body of
        Inl e \<Rightarrow> (Inl e, g)
      | Inr (rows, hs, es, ss) \<Rightarrow>
          (case guard_retain hf g
                  \<lparr>dm_rows = rows, dm_histograms = hs, dm_exp_histograms = es, dm_summaries = ss,
                   dm_accepted = 0, dm_rejected = 0\<rparr> of
             (n, g2, d) \<Rightarrow>
               (Inr (d\<lparr>dm_rejected := n,
                       dm_accepted := length (dm_rows d) + length (dm_histograms d) +
                         length (dm_exp_histograms d) + length (dm_summaries d)\<rparr>), g2)))"

end
