(* ===== verification/Dedup_Properties.thy ===== *)
theory Dedup_Properties
  imports Dedup
begin

text \<open>
  What the duplicate guard promises: which keys it remembers, that it never forgets inside its window,
  what an export keeps and what a replay of the log keeps compared with the writer.
\<close>

subsection \<open>Runs of an admission rule\<close>

fun admit_run :: "('k \<Rightarrow> 's \<Rightarrow> bool \<times> 's) \<Rightarrow> 'k list \<Rightarrow> 's \<Rightarrow> bool list \<times> 's" where
  "admit_run ad [] s = ([], s)"
| "admit_run ad (k # ks) s =
     (fst (ad k s) # fst (admit_run ad ks (snd (ad k s))), snd (admit_run ad ks (snd (ad k s))))"

definition chosen :: "'a list \<Rightarrow> bool list \<Rightarrow> 'a list" where
  "chosen xs bs = map fst (filter snd (zip xs bs))"

lemma chosen_simps [simp]:
  "chosen [] bs = []" "chosen (x # xs) (b # bs) = (if b then x # chosen xs bs else chosen xs bs)"
  by (simp_all add: chosen_def)

lemma length_admit_run [simp]: "length (fst (admit_run ad ks s)) = length ks"
  by (induction ks arbitrary: s) auto

lemma admit_run_append:
  "admit_run ad (ks @ ls) s =
     (fst (admit_run ad ks s) @ fst (admit_run ad ls (snd (admit_run ad ks s))),
      snd (admit_run ad ls (snd (admit_run ad ks s))))"
  by (induction ks arbitrary: s) auto

lemma chosen_append: "length bs = length xs \<Longrightarrow> chosen (xs @ ys) (bs @ cs) = chosen xs bs @ chosen ys cs"
  by (simp add: chosen_def)

lemma chosen_map: "chosen (map f xs) bs = map f (chosen xs bs)"
  by (simp add: chosen_def zip_map1 split_def filter_map comp_def)

lemma chosen_subseq: "length bs = length xs \<Longrightarrow> subseq (chosen xs bs) xs"
proof (induction xs arbitrary: bs)
  case (Cons x xs)
  then obtain b cs where "bs = b # cs" by (cases bs) auto
  with Cons show ?case by auto
qed simp

text \<open>The interface of an admission rule: it admits exactly the keys it does not know, knows a key it
  has just been offered, and learns no other.\<close>

locale admission =
  fixes ad :: "'k \<Rightarrow> 's \<Rightarrow> bool \<times> 's" and known :: "'s \<Rightarrow> 'k set"
  assumes admit_iff: "fst (ad k s) \<longleftrightarrow> k \<notin> known s"
    and offered_known: "k \<in> known (snd (ad k s))"
    and learns: "known (snd (ad k s)) \<subseteq> insert k (known s)"
begin

lemma run_known: "known (snd (admit_run ad ks s)) \<subseteq> known s \<union> set ks"
proof (induction ks arbitrary: s)
  case (Cons k ks)
  then show ?case using learns [of k s] Cons.IH [of "snd (ad k s)"] by auto
qed simp

text \<open>Every key that is not known at first is chosen at least once.\<close>

lemma run_covers: "set ks - known s \<subseteq> set (chosen ks (fst (admit_run ad ks s)))"
proof (induction ks arbitrary: s)
  case (Cons k ks)
  show ?case
  proof
    fix x assume x: "x \<in> set (k # ks) - known s"
    show "x \<in> set (chosen (k # ks) (fst (admit_run ad (k # ks) s)))"
    proof (cases "x = k")
      case True
      with x show ?thesis by (simp add: admit_iff)
    next
      case False
      then have "x \<notin> known (snd (ad k s))" using x learns [of k s] by auto
      with x False Cons.IH [of "snd (ad k s)"] show ?thesis by auto
    qed
  qed
qed simp

lemma run_empty: "known s = {} \<Longrightarrow> set (chosen ks (fst (admit_run ad ks s))) = set ks"
proof
  show "set (chosen ks (fst (admit_run ad ks s))) \<subseteq> set ks"
    by (rule subseq_set [OF chosen_subseq]) simp
  assume "known s = {}"
  then show "set ks \<subseteq> set (chosen ks (fst (admit_run ad ks s)))" using run_covers [of ks s] by simp
qed

end

definition guard_known :: "guard_state \<Rightarrow> seen_key set" where
  "guard_known s = gs_current s \<union> gs_previous s"

interpretation guard: admission admit guard_known
  by unfold_locales (auto simp: admit_def guard_known_def Let_def)

subsection \<open>The window\<close>

text \<open>\<open>hist\<close> is everything admitted so far: the current generation is its end, the previous one
  the stretch of \<open>gs_cap\<close> keys before.\<close>

definition window_inv :: "seen_key list \<Rightarrow> guard_state \<Rightarrow> bool" where
  "window_inv hist s \<longleftrightarrow> 0 < gs_cap s \<and>
     (\<exists>old prev cur. hist = old @ prev @ cur \<and> distinct (prev @ cur) \<and> gs_previous s = set prev \<and>
        gs_current s = set cur \<and> length cur \<le> gs_cap s \<and>
        (length prev = gs_cap s \<or> prev = [] \<and> old = []))"

lemma window_invI:
  "0 < gs_cap s \<Longrightarrow> hist = old @ prev @ cur \<Longrightarrow> distinct (prev @ cur) \<Longrightarrow> gs_previous s = set prev \<Longrightarrow>
   gs_current s = set cur \<Longrightarrow> length cur \<le> gs_cap s \<Longrightarrow> length prev = gs_cap s \<or> prev = [] \<and> old = [] \<Longrightarrow>
   window_inv hist s"
  unfolding window_inv_def by blast

lemma window_new: "window_inv [] (guard_state_new recent)"
  by (auto simp: window_inv_def guard_state_new_def)

lemma gs_cap_admit [simp]: "gs_cap (snd (admit k s)) = gs_cap s"
  by (simp add: admit_def Let_def)

lemma gs_cap_run [simp]: "gs_cap (snd (admit_run admit ks s)) = gs_cap s"
  by (induction ks arbitrary: s) auto

lemma window_admit:
  assumes "window_inv hist s"
  shows "window_inv (if fst (admit k s) then hist @ [k] else hist) (snd (admit k s))"
proof (cases "k \<in> guard_known s")
  case True
  then have "admit k s = (False, s)" by (auto simp: admit_def guard_known_def)
  with assms show ?thesis by simp
next
  case False
  from assms obtain old prev cur where w: "0 < gs_cap s" "hist = old @ prev @ cur" "distinct (prev @ cur)"
      "gs_previous s = set prev" "gs_current s = set cur" "length cur \<le> gs_cap s"
      "length prev = gs_cap s \<or> prev = [] \<and> old = []"
    unfolding window_inv_def by blast
  have k: "k \<notin> set prev" "k \<notin> set cur" using False w by (auto simp: guard_known_def)
  have a: "fst (admit k s)" using False by (simp add: guard.admit_iff)
  have card: "card (gs_current s) = length cur" using w by (simp add: distinct_card)
  show ?thesis
  proof (cases "gs_cap s \<le> length cur")
    case True
    then have s: "snd (admit k s) = s\<lparr>gs_previous := set cur, gs_current := {k}\<rparr>"
      using False w card by (auto simp: admit_def guard_known_def Let_def)
    have "window_inv (hist @ [k]) (snd (admit k s))"
      unfolding s using w True k by (intro window_invI [of _ _ "old @ prev" cur "[k]"]) simp_all
    with a show ?thesis by simp
  next
    case lt: False
    then have s: "snd (admit k s) = s\<lparr>gs_current := insert k (set cur)\<rparr>"
      using False w card by (auto simp: admit_def guard_known_def Let_def)
    have "window_inv (hist @ [k]) (snd (admit k s))"
      unfolding s using w lt k by (intro window_invI [of _ _ old prev "cur @ [k]"]) auto
    with a show ?thesis by simp
  qed
qed

lemma window_run:
  "window_inv hist s \<Longrightarrow>
   window_inv (hist @ chosen ks (fst (admit_run admit ks s))) (snd (admit_run admit ks s))"
proof (induction ks arbitrary: hist s)
  case (Cons k ks)
  from Cons.IH [OF window_admit [OF Cons.prems, of k]] show ?case by (auto split: if_splits)
qed simp

lemma window_bounds:
  assumes "window_inv hist s"
  shows "card (gs_current s) + card (gs_previous s) \<le> 2 * gs_cap s"
    and "set (drop (length hist - gs_cap s) hist) \<subseteq> guard_known s"
    and "guard_known s \<subseteq> set hist"
proof -
  from assms obtain old prev cur where w: "0 < gs_cap s" "hist = old @ prev @ cur" "distinct (prev @ cur)"
      "gs_previous s = set prev" "gs_current s = set cur" "length cur \<le> gs_cap s"
      "length prev = gs_cap s \<or> prev = [] \<and> old = []"
    unfolding window_inv_def by blast
  show "card (gs_current s) + card (gs_previous s) \<le> 2 * gs_cap s"
    using w card_length [of cur] card_length [of prev] by auto
  have "set (drop (length hist - gs_cap s) hist) \<subseteq> set (prev @ cur)"
    using w(7)
  proof
    assume "length prev = gs_cap s"
    then have "length old \<le> length hist - gs_cap s" using w(2) by simp
    then have "drop (length hist - gs_cap s) hist = drop (length hist - gs_cap s - length old) (prev @ cur)"
      using w(2) by simp
    then show ?thesis by (metis set_drop_subset)
  next
    assume "prev = [] \<and> old = []"
    then show ?thesis using w(2) by (simp add: set_drop_subset)
  qed
  then show "set (drop (length hist - gs_cap s) hist) \<subseteq> guard_known s"
    using w by (auto simp: guard_known_def)
  show "guard_known s \<subseteq> set hist" using w by (auto simp: guard_known_def)
qed


subsection \<open>Exports\<close>

definition export_keys :: "hasher \<Rightarrow> decoded_metrics \<Rightarrow> seen_key list" where
  "export_keys hf d =
     map (identity_key hf \<circ> scalar_identity) (dm_rows d) @
     map (identity_key hf \<circ> histogram_identity) (dm_histograms d) @
     map (identity_key hf \<circ> exp_histogram_identity) (dm_exp_histograms d) @
     map (identity_key hf \<circ> summary_identity) (dm_summaries d)"

lemma retain_loop_run:
  "retain_loop hf ident rows s ex = (kept, s2, ex2) \<Longrightarrow>
   kept = chosen rows (fst (admit_run admit (map (identity_key hf \<circ> ident) rows) s)) \<and>
   s2 = snd (admit_run admit (map (identity_key hf \<circ> ident) rows) s)"
proof (induction rows arbitrary: s ex kept s2 ex2)
  case (Cons r rs)
  obtain b s1 where a: "admit (identity_key hf (ident r)) s = (b, s1)" by (cases "admit (identity_key hf (ident r)) s")
  let ?ex = "if \<not> b \<and> ex = None then Some (exemplar_text (ident r)) else ex"
  obtain k3 s3 ex3 where l: "retain_loop hf ident rs s1 ?ex = (k3, s3, ex3)"
    by (cases "retain_loop hf ident rs s1 ?ex") auto
  from Cons.IH [OF l] Cons.prems a l show ?case by (auto split: if_splits)
qed simp

lemma filter_rows_run:
  assumes "filter_rows hf ident rows s ex = (n, kept, s2, ex2)"
  shows "kept = chosen rows (fst (admit_run admit (map (identity_key hf \<circ> ident) rows) s))"
    and "s2 = snd (admit_run admit (map (identity_key hf \<circ> ident) rows) s)"
    and "n + length kept = length rows" and "subseq kept rows"
proof -
  obtain k3 s3 ex3 where l: "retain_loop hf ident rows s ex = (k3, s3, ex3)"
    by (cases "retain_loop hf ident rows s ex") auto
  with assms have e: "kept = k3" "s2 = s3" "n = length rows - length kept" by (auto simp: filter_rows_def)
  with retain_loop_run [OF l]
  show k: "kept = chosen rows (fst (admit_run admit (map (identity_key hf \<circ> ident) rows) s))"
    and "s2 = snd (admit_run admit (map (identity_key hf \<circ> ident) rows) s)" by simp_all
  show sub: "subseq kept rows" unfolding k by (rule chosen_subseq) simp
  show "n + length kept = length rows" using e list_emb_length [OF sub] by simp
qed

definition export_size :: "decoded_metrics \<Rightarrow> nat" where
  "export_size d = length (dm_rows d) + length (dm_histograms d) + length (dm_exp_histograms d) + length (dm_summaries d)"

lemma length_export_keys [simp]: "length (export_keys hf d) = export_size d"
  by (simp add: export_keys_def export_size_def)

lemma guard_retain_run:
  assumes "guard_retain hf g d = (n, g', d')" "dg_state g = Some s"
  shows "export_keys hf d' = chosen (export_keys hf d) (fst (admit_run admit (export_keys hf d) s))"
    and "dg_state g' = Some (snd (admit_run admit (export_keys hf d) s))"
    and "n + export_size d' = export_size d"
    and "subseq (dm_rows d') (dm_rows d) \<and> subseq (dm_histograms d') (dm_histograms d) \<and>
      subseq (dm_exp_histograms d') (dm_exp_histograms d) \<and> subseq (dm_summaries d') (dm_summaries d)"
    and "dg_rejected g' = (if 0 < n then wadd_u64 (dg_rejected g) n else dg_rejected g)"
proof -
  obtain n1 k1 s1 e1 where f1: "filter_rows hf scalar_identity (dm_rows d) s None = (n1, k1, s1, e1)"
    by (cases "filter_rows hf scalar_identity (dm_rows d) s None") auto
  obtain n2 k2 s2 e2 where f2: "filter_rows hf histogram_identity (dm_histograms d) s1 e1 = (n2, k2, s2, e2)"
    by (cases "filter_rows hf histogram_identity (dm_histograms d) s1 e1") auto
  obtain n3 k3 s3 e3 where f3: "filter_rows hf exp_histogram_identity (dm_exp_histograms d) s2 e2 = (n3, k3, s3, e3)"
    by (cases "filter_rows hf exp_histogram_identity (dm_exp_histograms d) s2 e2") auto
  obtain n4 k4 s4 e4 where f4: "filter_rows hf summary_identity (dm_summaries d) s3 e3 = (n4, k4, s4, e4)"
    by (cases "filter_rows hf summary_identity (dm_summaries d) s3 e3") auto
  note r1 = filter_rows_run [OF f1] and r2 = filter_rows_run [OF f2]
    and r3 = filter_rows_run [OF f3] and r4 = filter_rows_run [OF f4]
  have eq: "n = n1 + n2 + n3 + n4"
    "d' = d\<lparr>dm_rows := k1, dm_histograms := k2, dm_exp_histograms := k3, dm_summaries := k4\<rparr>"
    "g' = g\<lparr>dg_state := Some s4, dg_rejected := (if 0 < n then wadd_u64 (dg_rejected g) n else dg_rejected g)\<rparr>"
    using assms f1 f2 f3 f4 by (auto simp: guard_retain_def Let_def)
  show "export_keys hf d' = chosen (export_keys hf d) (fst (admit_run admit (export_keys hf d) s))"
    by (simp add: export_keys_def eq r1(1) r2(1) r3(1) r4(1) r1(2) [symmetric] r2(2) [symmetric] r3(2) [symmetric]
        admit_run_append chosen_append chosen_map [symmetric] del: map_map)
  show "dg_state g' = Some (snd (admit_run admit (export_keys hf d) s))"
    by (simp add: export_keys_def eq r4(2) r1(2) [symmetric] r2(2) [symmetric] r3(2) [symmetric] admit_run_append)
  show "n + export_size d' = export_size d"
    using r1(3) r2(3) r3(3) r4(3) by (simp add: export_size_def eq)
  show "subseq (dm_rows d') (dm_rows d) \<and> subseq (dm_histograms d') (dm_histograms d) \<and>
      subseq (dm_exp_histograms d') (dm_exp_histograms d) \<and> subseq (dm_summaries d') (dm_summaries d)"
    using r1(4) r2(4) r3(4) r4(4) by (simp add: eq)
  show "dg_rejected g' = (if 0 < n then wadd_u64 (dg_rejected g) n else dg_rejected g)"
    by (simp add: eq)
qed

text \<open>A sequence of exports through one guard: the keys that were kept, in order.\<close>

fun retain_all :: "hasher \<Rightarrow> dedup_guard \<Rightarrow> decoded_metrics list \<Rightarrow> decoded_metrics list \<times> dedup_guard" where
  "retain_all hf g [] = ([], g)"
| "retain_all hf g (d # ds) =
     (case guard_retain hf g d of (n, g1, d1) \<Rightarrow>
      case retain_all hf g1 ds of (rest, g2) \<Rightarrow> (d1 # rest, g2))"

abbreviation keys_of :: "hasher \<Rightarrow> decoded_metrics list \<Rightarrow> seen_key list" where
  "keys_of hf ds \<equiv> concat (map (export_keys hf) ds)"

lemma retain_all_run:
  "dg_state g = Some s \<Longrightarrow>
   keys_of hf (fst (retain_all hf g ds)) = chosen (keys_of hf ds) (fst (admit_run admit (keys_of hf ds) s)) \<and>
   dg_state (snd (retain_all hf g ds)) = Some (snd (admit_run admit (keys_of hf ds) s))"
proof (induction ds arbitrary: g s)
  case (Cons d ds)
  obtain n g1 d1 where r: "guard_retain hf g d = (n, g1, d1)" by (cases "guard_retain hf g d") auto
  note c = guard_retain_run [OF r Cons.prems]
  obtain rest g2 where r2: "retain_all hf g1 ds = (rest, g2)" by (cases "retain_all hf g1 ds")
  from Cons.IH [OF c(2)] r2 c(1) r show ?case by (simp add: admit_run_append chosen_append)
qed simp

lemma retain_all_off: "dg_state g = None \<Longrightarrow> fst (retain_all hf g ds) = ds"
proof (induction ds arbitrary: g)
  case (Cons d ds)
  then show ?case by (simp add: guard_retain_def split_def)
qed simp

subsection \<open>Series identity\<close>

lemma of_char_255: "(of_char c :: byte) = 255 \<longleftrightarrow> (of_char c :: nat) = 255"
proof -
  have "(of_char c :: byte) = 255 \<longleftrightarrow> unat (of_char c :: byte) = unat (255 :: byte)" by (simp only: unsigned_word_eqI word_unat_eq_iff)
  then show ?thesis by (simp add: unat_of_char)
qed

lemma utf8_step_no_255: "utf8_step bs = Some r \<Longrightarrow> \<exists>m. bs = m @ r \<and> 255 \<notin> set m"
proof -
  assume a: "utf8_step bs = Some r"
  have le: "\<not> (255 :: byte) \<le> 127" "\<not> (255 :: byte) \<le> 191" "\<not> (255::byte) \<le> 223" "\<not> (255::byte) \<le> 239"
    "\<not> (255::byte) \<le> 143" "\<not> (255::byte) \<le> 159" "\<not> (255::byte) \<le> 243" "\<not> (255::byte) \<le> 236" by simp_all
  have lead: "utf8_lead2 x y \<Longrightarrow> x \<noteq> 255 \<and> y \<noteq> 255" "utf8_lead3 x y \<Longrightarrow> x \<noteq> 255 \<and> y \<noteq> 255"
    "utf8_lead4 x y \<Longrightarrow> x \<noteq> 255 \<and> y \<noteq> 255" "cont_byte x \<Longrightarrow> x \<noteq> 255" for x y
    by (auto simp: utf8_lead2_def utf8_lead3_def utf8_lead4_def cont_byte_def)
  show ?thesis
  proof (cases bs)
    case (Cons x bs1)
    show ?thesis
    proof (cases "x \<le> 127")
      case True
      then show ?thesis using a Cons by (intro exI [of _ "[x]"]) auto
    next
      case False
      then consider y where "bs1 = y # r" "utf8_lead2 x y" | y z where "bs1 = y # z # r" "utf8_lead3 x y" "cont_byte z"
        | y z u where "bs1 = y # z # u # r" "utf8_lead4 x y" "cont_byte z" "cont_byte u"
        using a Cons by (auto split: if_splits list.splits)
      then show ?thesis
      proof cases
        case 1
        then show ?thesis using Cons lead by (intro exI [of _ "[x, y]"]) auto
      next
        case 2
        then show ?thesis using Cons lead by (intro exI [of _ "[x, y, z]"]) auto
      next
        case 3
        then show ?thesis using Cons lead by (intro exI [of _ "[x, y, z, u]"]) auto
      qed
    qed
  qed (use a in simp)
qed

lemma utf8_no_255: "utf8_valid bs \<Longrightarrow> 255 \<notin> set bs"
proof (induction bs rule: utf8_valid.induct)
  case (1 bs)
  show ?case
  proof (cases "bs = []")
    case False
    then obtain r where r: "utf8_step bs = Some r" "utf8_valid r"
      using "1.prems" by (auto simp: utf8_valid.simps [of bs] split: option.splits)
    then show ?thesis using "1.IH" False utf8_step_no_255 [OF r(1)] by auto
  qed simp
qed

lemma append_sep_inj:
  "x \<notin> set a \<Longrightarrow> x \<notin> set b \<Longrightarrow> a @ x # ys = b @ x # zs \<Longrightarrow> a = b \<and> ys = zs"
proof (induction a arbitrary: b)
  case Nil
  then show ?case by (cases b) auto
next
  case (Cons c a)
  then show ?case by (cases b) auto
qed

text \<open>The terminator makes the written strings prefix-free.\<close>

lemma hash_str_inj:
  assumes "utf8_string s" "utf8_string t" "hash_str s @ xs = hash_str t @ ys"
  shows "s = t \<and> xs = ys"
proof -
  have "255 \<notin> set (bytes_of_string s)" "255 \<notin> set (bytes_of_string t)"
    using assms(1,2) utf8_no_255 by (simp_all add: utf8_string_def)
  then have "bytes_of_string s = bytes_of_string t \<and> xs = ys"
    using assms(3) append_sep_inj [of 255 "bytes_of_string s" "bytes_of_string t" xs ys] by (simp add: hash_str_def)
  then show ?thesis by simp
qed

lemma hash_opt_str_inj:
  assumes "pred_option utf8_string s" "pred_option utf8_string t" "hash_opt_str s @ xs = hash_opt_str t @ ys"
  shows "s = t \<and> xs = ys"
proof -
  have "le_val (u64_le 0) \<noteq> le_val (u64_le 1)" by (simp add: le_val_u64 u64_max_def)
  then have ne: "u64_le 0 @ us \<noteq> u64_le 1 @ vs" for us vs by auto
  show ?thesis
  proof (cases s; cases t)
    fix a b assume st: "s = Some a" "t = Some b"
    then have "hash_str a @ xs = hash_str b @ ys" using assms(3) by (simp add: hash_opt_str_def)
    with hash_str_inj [of a b xs ys] st assms(1,2) show ?thesis by simp
  next
    fix b assume "s = None" "t = Some b"
    then show ?thesis using assms(3) ne by (simp add: hash_opt_str_def)
  next
    fix a assume "s = Some a" "t = None"
    then show ?thesis using assms(3) ne [symmetric] by (simp add: hash_opt_str_def)
  next
    assume "s = None" "t = None"
    then show ?thesis using assms(3) by (simp add: hash_opt_str_def)
  qed
qed

lemma series_stream_inj:
  assumes "utf8_string m" "utf8_string m'" "pred_option utf8_string v" "pred_option utf8_string v'"
    "utf8_string a" "utf8_string a'" "series_stream s k m v a = series_stream s k' m' v' a'"
  shows "k = k' \<and> m = m' \<and> v = v' \<and> a = a'"
proof -
  have e: "k = k'" "hash_str m @ hash_opt_str v @ hash_str a = hash_str m' @ hash_opt_str v' @ hash_str a'"
    using assms(7) by (simp_all add: series_stream_def)
  from hash_str_inj [OF assms(1,2) e(2)] have m: "m = m'" "hash_opt_str v @ hash_str a = hash_opt_str v' @ hash_str a'"
    by simp_all
  from hash_opt_str_inj [OF assms(3,4) m(2)] have v: "v = v'" "hash_str a @ [] = hash_str a' @ []" by simp_all
  from hash_str_inj [OF assms(5,6) v(2)] e m v show ?thesis by simp
qed

subsection \<open>Claims\<close>

text \<open>C35. After any sequence of offered points the guard remembers at most twice its
  generation size; it refuses each of the last \<open>recent / 2\<close> points it admitted, and admits every
  point it has never admitted before.\<close>

theorem dedup_window:
  assumes "admit_run admit ks (guard_state_new recent) = (bs, s)" "n = max (recent div 2) 1"
  shows "card (gs_current s) + card (gs_previous s) \<le> 2 * n \<and>
    (k \<in> set (drop (length (chosen ks bs) - n) (chosen ks bs)) \<longrightarrow> admit k s = (False, s)) \<and>
    (k \<notin> set (chosen ks bs) \<longrightarrow> fst (admit k s))"
proof -
  have cap: "gs_cap s = n"
    using assms gs_cap_run [of ks "guard_state_new recent"] by (simp add: guard_state_new_def)
  have w: "window_inv (chosen ks bs) s"
    using window_run [OF window_new [of recent], of ks] assms(1) by simp
  note b = window_bounds [OF w, unfolded cap]
  have "admit k s = (False, s)" if "k \<in> set (drop (length (chosen ks bs) - n) (chosen ks bs))"
    using b(2) that by (auto simp: admit_def guard_known_def)
  moreover have "fst (admit k s)" if "k \<notin> set (chosen ks bs)"
    using b(3) that by (auto simp: guard.admit_iff)
  ultimately show ?thesis using b(1) by blast
qed


text \<open>With a hasher that does not collide on the two points, two points have the
  same key exactly when they agree on kind, metric, service, attributes and timestamp: the bytes written
  to the hasher separate the fields.\<close>

theorem dedup_identity:
  assumes "utf8_string (si_metric a)" "utf8_string (si_metric b)" "utf8_string (si_attributes a)"
    "utf8_string (si_attributes b)" "pred_option utf8_string (si_service a)" "pred_option utf8_string (si_service b)"
    and "let f = \<lambda>i. series_stream (fst SALTS) (si_kind i) (si_metric i) (si_service i) (si_attributes i)
      in hf (f a) = hf (f b) \<longrightarrow> f a = f b"
  shows "identity_key hf a = identity_key hf b \<longleftrightarrow> a = b"
proof
  assume "identity_key hf a = identity_key hf b"
  then have h: "si_ts a = si_ts b"
    "series_stream (fst SALTS) (si_kind a) (si_metric a) (si_service a) (si_attributes a) =
     series_stream (fst SALTS) (si_kind b) (si_metric b) (si_service b) (si_attributes b)"
    using assms(7) by (simp_all add: identity_key_def series_hash_def Let_def)
  from series_stream_inj [OF assms(1,2,5,6,3,4) h(2)] h(1) show "a = b" by simp
qed simp

text \<open>C37. A replay that starts from an empty guard keeps at least one point for
  every series and timestamp in the log, so for every one the writer kept, whatever the writer's guard
  held and in whatever order it had forgotten.\<close>

theorem dedup_replay_keys:
  "set (keys_of hf (fst (retain_all hf (dedup_guard_new policy) ds))) = set (keys_of hf ds) \<and>
   set (keys_of hf (fst (retain_all hf writer ds))) \<subseteq> set (keys_of hf ds)"
proof
  show "set (keys_of hf (fst (retain_all hf (dedup_guard_new policy) ds))) = set (keys_of hf ds)"
  proof (cases "dup_recent policy")
    case None
    then show ?thesis using retain_all_off [of "dedup_guard_new policy"] by (simp add: dedup_guard_new_def)
  next
    case (Some n)
    have "dg_state (dedup_guard_new policy) = Some (guard_state_new n)" using Some by (simp add: dedup_guard_new_def)
    from retain_all_run [OF this, of hf ds] guard.run_empty [of "guard_state_new n" "keys_of hf ds"]
    show ?thesis by (simp add: guard_known_def guard_state_new_def)
  qed
  show "set (keys_of hf (fst (retain_all hf writer ds))) \<subseteq> set (keys_of hf ds)"
  proof (cases "dg_state writer")
    case None
    then show ?thesis by (simp add: retain_all_off)
  next
    case (Some s)
    from retain_all_run [OF this, of hf ds] show ?thesis
      using subseq_set [OF chosen_subseq [of "fst (admit_run admit (keys_of hf ds) s)" "keys_of hf ds"]] by simp
  qed
qed

subsection \<open>Witnesses and the replay counterexample\<close>

definition d_row :: "int \<Rightarrow> scalar_metric_row" where
  "d_row t = \<lparr>sm_table = TMetricsGauge, sm_time_unix_nano = t, sm_start_time_unix_nano = None, sm_metric = ''m'',
     sm_unit = [], sm_service = None, sm_attributes = ''{}'', sm_resource = ''{}'', sm_scope = ''{}'', sm_flags = 0,
     sm_value = 0, sm_temporality = None, sm_is_monotonic = None, sm_exemplars = ''[]''\<rparr>"

definition d_export :: "int list \<Rightarrow> decoded_metrics" where
  "d_export ts = \<lparr>dm_rows = map d_row ts, dm_histograms = [], dm_exp_histograms = [], dm_summaries = [],
     dm_accepted = 0, dm_rejected = 0\<rparr>"

definition d_hash :: hasher where
  "d_hash bs = word_of_nat (le_val bs)"

definition d_kept :: "dedup_guard \<Rightarrow> int list list \<Rightarrow> int list list" where
  "d_kept g tss = map (\<lambda>d. map sm_time_unix_nano (dm_rows d)) (fst (retain_all d_hash g (map d_export tss)))"

text \<open>A replay of the unsealed records can drop a row the writer had kept: the
  writer's generations had turned over earlier, because it had admitted a sealed point first, and had
  forgotten the point that the replay still remembers.\<close>

theorem dedup_replay_drops:
  "d_kept (dedup_guard_new (Reject 4)) [[0], [1], [2], [3], [4], [1]] = [[0], [1], [2], [3], [4], [1]] \<and>
   d_kept (dedup_guard_new (Reject 4)) [[1], [2], [3], [4], [1]] = [[1], [2], [3], [4], []]"
  by code_simp

definition d_key :: "int \<Rightarrow> seen_key" where
  "d_key t = \<lparr>sk_series = (0, 0), sk_ts = t\<rparr>"

theorem dedup_window_witness:
  "\<not> fst (admit (d_key 2) (snd (admit_run admit [d_key 1, d_key 2, d_key 1] (guard_state_new 2)))) \<and>
   fst (admit (d_key 7) (snd (admit_run admit [d_key 1, d_key 2, d_key 1] (guard_state_new 2))))"
proof -
  let ?r = "admit_run admit [d_key 1, d_key 2, d_key 1] (guard_state_new 2)"
  have c: "chosen [d_key 1, d_key 2, d_key 1] (fst ?r) = [d_key 1, d_key 2]" by code_simp
  have "d_key 7 \<notin> {d_key 1, d_key 2}" by code_simp
  with dedup_window [of "[d_key 1, d_key 2, d_key 1]" 2 "fst ?r" "snd ?r" 1 "d_key 2"]
    dedup_window [of "[d_key 1, d_key 2, d_key 1]" 2 "fst ?r" "snd ?r" 1 "d_key 7"] c
  show ?thesis by simp
qed


theorem dedup_identity_witness:
  "identity_key d_hash (scalar_identity (d_row 1)) \<noteq> identity_key d_hash (scalar_identity (d_row 2))"
proof -
  have "scalar_identity (d_row 1) \<noteq> scalar_identity (d_row 2)" by (simp add: scalar_identity_def d_row_def)
  with dedup_identity [of "scalar_identity (d_row 1)" "scalar_identity (d_row 2)" d_hash] show ?thesis
    by (simp add: scalar_identity_def d_row_def)
qed

end
