(* ===== verification/Ingest_Queue.thy ===== *)
theory Ingest_Queue
  imports Dedup
begin

text \<open>
  The bounded queue between the callers of async ingest and its worker
  (\<open>crates/imbh/src/ingest_queue.rs\<close>), and the step relation of callers, worker and closer around
  it. A step is what happens under one lock or one call of \<open>tokio::sync::Notify\<close>, so the
  relation has every interleaving of them.

  \<open>Notify\<close> is a parameter: its operations are the record \<open>notify_ops\<close>, and
  \<open>notify_laws\<close> is what the queue relies on.
\<close>

datatype ingest_job =
    JLogs bytes "log_row list"
  | JTraces bytes "span_row list"
  | JMetrics bytes "scalar_metric_row list" "histogram_row list" "exp_histogram_row list" "summary_row list"

datatype overflow = Block | Fail | DropOldest

record ingest_channel =
  ic_q :: "ingest_job list"
  ic_capacity :: nat
  ic_overflow :: overflow
  ic_closed :: bool
  ic_dropped :: nat
  ic_errors :: nat

datatype offer_outcome = Enqueued | Full ingest_job | Closed

definition channel_new :: "nat \<Rightarrow> overflow \<Rightarrow> ingest_channel" where
  "channel_new cap ov =
     \<lparr>ic_q = [], ic_capacity = max cap 1, ic_overflow = ov, ic_closed = False, ic_dropped = 0, ic_errors = 0\<rparr>"

definition full_error :: "ingest_channel \<Rightarrow> error" where
  "full_error c = queue_full (ic_capacity c) (ic_capacity c)"

definition closed_error :: error where
  "closed_error = ingest_msg ''async ingest queue is closed''"

fun into_send_result :: "ingest_channel \<Rightarrow> offer_outcome \<Rightarrow> error + unit" where
  "into_send_result c Enqueued = Inr ()"
| "into_send_result c (Full j) = Inl (full_error c)"
| "into_send_result c Closed = Inl closed_error"

definition offer :: "ingest_job \<Rightarrow> ingest_channel \<Rightarrow> offer_outcome \<times> ingest_channel" where
  "offer j c =
     (if ic_closed c then (Closed, c)
      else if length (ic_q c) < ic_capacity c then (Enqueued, c\<lparr>ic_q := ic_q c @ [j]\<rparr>)
      else (Full j, c))"

definition push_dropping_oldest :: "ingest_job \<Rightarrow> ingest_channel \<Rightarrow> offer_outcome \<times> ingest_channel" where
  "push_dropping_oldest j c =
     (if ic_closed c then (Closed, c)
      else
        let c1 = (if ic_capacity c \<le> length (ic_q c) \<and> ic_q c \<noteq> []
                  then c\<lparr>ic_q := tl (ic_q c), ic_dropped := wadd_u64 (ic_dropped c) 1\<rparr> else c)
        in (Enqueued, c1\<lparr>ic_q := ic_q c1 @ [j]\<rparr>))"

definition try_enqueue :: "ingest_job \<Rightarrow> ingest_channel \<Rightarrow> offer_outcome \<times> ingest_channel" where
  "try_enqueue j c = (if ic_overflow c = DropOldest then push_dropping_oldest j c else offer j c)"

definition try_send :: "ingest_job \<Rightarrow> ingest_channel \<Rightarrow> (error + unit) \<times> ingest_channel" where
  "try_send j c = (case try_enqueue j c of (r, c1) \<Rightarrow> (into_send_result c1 r, c1))"

definition chan_pop :: "ingest_channel \<Rightarrow> ingest_job option \<times> ingest_channel" where
  "chan_pop c =
     (case ic_q c of [] \<Rightarrow> (None, c) | j # js \<Rightarrow> (Some j, c\<lparr>ic_q := js\<rparr>))"

definition record_error :: "ingest_channel \<Rightarrow> ingest_channel" where
  "record_error c = c\<lparr>ic_errors := wadd_u64 (ic_errors c) 1\<rparr>"

definition set_closed :: "ingest_channel \<Rightarrow> ingest_channel" where
  "set_closed c = c\<lparr>ic_closed := True\<rparr>"

definition depth :: "ingest_channel \<Rightarrow> nat" where
  "depth c = length (ic_q c)"

subsection \<open>Notify\<close>

text \<open>\<open>n_view\<close> shows the futures that wait, oldest first, those that are ready, each with
  whether \<open>notify_one\<close> woke it while it waited, and whether a permit is stored.\<close>

type_synonym notify_view = "nat list \<times> (nat \<times> bool) list \<times> bool"

record 'n notify_ops =
  n_new :: 'n
  n_enable :: "nat \<Rightarrow> 'n \<Rightarrow> 'n"
  n_one :: "'n \<Rightarrow> 'n"
  n_waiters :: "'n \<Rightarrow> 'n"
  n_finish :: "nat \<Rightarrow> 'n \<Rightarrow> 'n"
  n_drop :: "nat \<Rightarrow> 'n \<Rightarrow> 'n"
  n_view :: "'n \<Rightarrow> notify_view"

abbreviation waiting :: "('n, 'z) notify_ops_scheme \<Rightarrow> 'n \<Rightarrow> nat list" where
  "waiting N n \<equiv> fst (n_view N n)"

abbreviation notified :: "('n, 'z) notify_ops_scheme \<Rightarrow> 'n \<Rightarrow> nat list" where
  "notified N n \<equiv> map fst (fst (snd (n_view N n)))"

abbreviation permit :: "('n, 'z) notify_ops_scheme \<Rightarrow> 'n \<Rightarrow> bool" where
  "permit N n \<equiv> snd (snd (n_view N n))"

text \<open>\<open>notify_one\<close> wakes the oldest waiter or stores a permit; \<open>notify_waiters\<close> wakes all
  and stores none; \<open>enable\<close> takes a stored permit or joins the queue. A future that completes is
  gone; one that is dropped is gone too, and passes on a wake-up of \<open>notify_one\<close> it has not used.\<close>

definition one_view :: "notify_view \<Rightarrow> notify_view" where
  "one_view v = (case v of ([], r, b) \<Rightarrow> ([], r, True) | (x # w, r, b) \<Rightarrow> (w, (x, True) # r, b))"

definition all_view :: "notify_view \<Rightarrow> notify_view" where
  "all_view v = (case v of (w, r, b) \<Rightarrow> ([], map (\<lambda>x. (x, False)) w @ r, b))"

definition enable_view :: "nat \<Rightarrow> notify_view \<Rightarrow> notify_view" where
  "enable_view p v = (case v of (w, r, b) \<Rightarrow> if b then (w, (p, False) # r, False) else (w @ [p], r, False))"

definition gone_view :: "nat \<Rightarrow> notify_view \<Rightarrow> notify_view" where
  "gone_view p v = (case v of (w, r, b) \<Rightarrow> (removeAll p w, filter (\<lambda>x. fst x \<noteq> p) r, b))"

definition notify_laws :: "('n, 'z) notify_ops_scheme \<Rightarrow> bool" where
  "notify_laws N \<longleftrightarrow>
     n_view N (n_new N) = ([], [], False) \<and>
     (\<forall>p n. n_view N (n_enable N p n) = enable_view p (n_view N n)) \<and>
     (\<forall>n. n_view N (n_one N n) = one_view (n_view N n)) \<and>
     (\<forall>n. n_view N (n_waiters N n) = all_view (n_view N n)) \<and>
     (\<forall>p n. n_view N (n_finish N p n) = gone_view p (n_view N n)) \<and>
     (\<forall>p n. n_view N (n_drop N p n) =
        (if (p, True) \<in> set (fst (snd (n_view N n))) then one_view (gone_view p (n_view N n)) else gone_view p (n_view N n)))"

subsection \<open>Callers, worker, closer\<close>

text \<open>A caller of \<open>send\<close> under \<open>Block\<close> arms a future of \<open>space_ready\<close>, offers, and
  parks if the queue is full; one of \<open>try_send\<close>, or of \<open>send\<close> under another policy, offers once.
  After a push comes the call of \<open>item_ready.notify_one\<close>, then the future is dropped.\<close>

datatype caller =
    Idle
  | Armed ingest_job
  | Parked ingest_job
  | Pushed
  | Returning
  | Plain ingest_job
  | PlainPushed
  | Finished bool

text \<open>\<open>run_ingest_worker\<close>: draining (a second time after it has seen the channel closed), having
  popped a job and not yet called \<open>space_ready.notify_one\<close>, having found the queue empty, having armed
  \<open>item_ready\<close>, parked on it, done.\<close>

datatype worker = Draining bool | Popped bool | Checking | ArmedItem | ParkedItem | Exited

datatype closer = NotClosing | FlagSet | ItemWoken | ClosingDone

record 'n queue_sys =
  qs_chan :: ingest_channel
  qs_space :: 'n
  qs_item :: 'n
  qs_caller :: "nat \<Rightarrow> caller"
  qs_worker :: worker
  qs_closer :: closer
  qs_accepted :: "ingest_job list"
  qs_out :: "(bool \<times> ingest_job) list"

text \<open>The last two fields record history: the jobs accepted, and those that left the queue, with
  whether the worker took them or they were evicted.\<close>

definition queue_init :: "('n, 'z) notify_ops_scheme \<Rightarrow> nat \<Rightarrow> overflow \<Rightarrow> 'n queue_sys" where
  "queue_init N cap ov =
     \<lparr>qs_chan = channel_new cap ov, qs_space = n_new N, qs_item = n_new N, qs_caller = (\<lambda>p. Idle),
      qs_worker = Draining False, qs_closer = NotClosing, qs_accepted = [], qs_out = []\<rparr>"

definition worker_id :: nat where "worker_id = 0"

abbreviation set_caller :: "nat \<Rightarrow> caller \<Rightarrow> 'n queue_sys \<Rightarrow> 'n queue_sys" where
  "set_caller p c s \<equiv> s\<lparr>qs_caller := (qs_caller s)(p := c)\<rparr>"

text \<open>What a push records: the evicted job, if any, and the accepted one.\<close>

definition evictions :: "ingest_channel \<Rightarrow> (bool \<times> ingest_job) list" where
  "evictions c =
     (if ic_overflow c = DropOldest \<and> ic_capacity c \<le> length (ic_q c) \<and> ic_q c \<noteq> []
      then [(False, hd (ic_q c))] else [])"

inductive queue_step :: "('n, 'z) notify_ops_scheme \<Rightarrow> 'n queue_sys \<Rightarrow> 'n queue_sys \<Rightarrow> bool"
  for N :: "('n, 'z) notify_ops_scheme" where
  send_block:
    "qs_caller s p = Idle \<Longrightarrow> ic_overflow (qs_chan s) = Block \<Longrightarrow>
     queue_step N s (set_caller p (Armed j) (s\<lparr>qs_space := n_enable N p (qs_space s)\<rparr>))"
| send_plain:
    "qs_caller s p = Idle \<Longrightarrow> queue_step N s (set_caller p (Plain j) s)"
| offer_ok:
    "qs_caller s p = Armed j \<Longrightarrow> offer j (qs_chan s) = (Enqueued, c) \<Longrightarrow>
     queue_step N s (set_caller p Pushed (s\<lparr>qs_chan := c, qs_accepted := qs_accepted s @ [j]\<rparr>))"
| offer_full:
    "qs_caller s p = Armed j \<Longrightarrow> offer j (qs_chan s) = (Full j, c) \<Longrightarrow>
     queue_step N s (set_caller p (Parked j) (s\<lparr>qs_chan := c\<rparr>))"
| offer_closed:
    "qs_caller s p = Armed j \<Longrightarrow> offer j (qs_chan s) = (Closed, c) \<Longrightarrow>
     queue_step N s (set_caller p (Finished False) (s\<lparr>qs_chan := c, qs_space := n_drop N p (qs_space s)\<rparr>))"
| wake_rearm:
    "qs_caller s p = Parked j \<Longrightarrow> p \<in> set (notified N (qs_space s)) \<Longrightarrow>
     queue_step N s (set_caller p (Armed j) (s\<lparr>qs_space := n_enable N p (n_finish N p (qs_space s))\<rparr>))"
| pushed_notify:
    "qs_caller s p = Pushed \<Longrightarrow>
     queue_step N s (set_caller p Returning (s\<lparr>qs_item := n_one N (qs_item s)\<rparr>))"
| returning_drop:
    "qs_caller s p = Returning \<Longrightarrow>
     queue_step N s (set_caller p (Finished True) (s\<lparr>qs_space := n_drop N p (qs_space s)\<rparr>))"
| plain_ok:
    "qs_caller s p = Plain j \<Longrightarrow> try_enqueue j (qs_chan s) = (Enqueued, c) \<Longrightarrow>
     queue_step N s (set_caller p PlainPushed (s\<lparr>qs_chan := c, qs_accepted := qs_accepted s @ [j],
       qs_out := qs_out s @ evictions (qs_chan s)\<rparr>))"
| plain_refused:
    "qs_caller s p = Plain j \<Longrightarrow> try_enqueue j (qs_chan s) = (r, c) \<Longrightarrow> r \<noteq> Enqueued \<Longrightarrow>
     queue_step N s (set_caller p (Finished False) (s\<lparr>qs_chan := c\<rparr>))"
| plain_notify:
    "qs_caller s p = PlainPushed \<Longrightarrow>
     queue_step N s (set_caller p (Finished True) (s\<lparr>qs_item := n_one N (qs_item s)\<rparr>))"
| pop_some:
    "qs_worker s = Draining b \<Longrightarrow> chan_pop (qs_chan s) = (Some j, c) \<Longrightarrow>
     queue_step N s (s\<lparr>qs_chan := c, qs_worker := Popped b, qs_out := qs_out s @ [(True, j)]\<rparr>)"
| pop_notify:
    "qs_worker s = Popped b \<Longrightarrow>
     queue_step N s (s\<lparr>qs_worker := Draining b, qs_space := n_one N (qs_space s)\<rparr>)"
| pop_none:
    "qs_worker s = Draining b \<Longrightarrow> chan_pop (qs_chan s) = (None, c) \<Longrightarrow>
     queue_step N s (s\<lparr>qs_chan := c, qs_worker := (if b then Exited else Checking)\<rparr>)"
| check_closed:
    "qs_worker s = Checking \<Longrightarrow> ic_closed (qs_chan s) \<Longrightarrow>
     queue_step N s (s\<lparr>qs_worker := Draining True\<rparr>)"
| check_open:
    "qs_worker s = Checking \<Longrightarrow> \<not> ic_closed (qs_chan s) \<Longrightarrow>
     queue_step N s (s\<lparr>qs_worker := ArmedItem, qs_item := n_enable N worker_id (qs_item s)\<rparr>)"
| wait_skip:
    "qs_worker s = ArmedItem \<Longrightarrow> ic_q (qs_chan s) \<noteq> [] \<or> ic_closed (qs_chan s) \<Longrightarrow>
     queue_step N s (s\<lparr>qs_worker := Draining False, qs_item := n_drop N worker_id (qs_item s)\<rparr>)"
| wait_park:
    "qs_worker s = ArmedItem \<Longrightarrow> ic_q (qs_chan s) = [] \<Longrightarrow> \<not> ic_closed (qs_chan s) \<Longrightarrow>
     queue_step N s (s\<lparr>qs_worker := ParkedItem\<rparr>)"
| item_wake:
    "qs_worker s = ParkedItem \<Longrightarrow> worker_id \<in> set (notified N (qs_item s)) \<Longrightarrow>
     queue_step N s (s\<lparr>qs_worker := Draining False, qs_item := n_finish N worker_id (qs_item s)\<rparr>)"
| close_flag:
    "qs_closer s = NotClosing \<Longrightarrow>
     queue_step N s (s\<lparr>qs_chan := set_closed (qs_chan s), qs_closer := FlagSet\<rparr>)"
| close_item:
    "qs_closer s = FlagSet \<Longrightarrow>
     queue_step N s (s\<lparr>qs_item := n_waiters N (qs_item s), qs_closer := ItemWoken\<rparr>)"
| close_space:
    "qs_closer s = ItemWoken \<Longrightarrow>
     queue_step N s (s\<lparr>qs_space := n_waiters N (qs_space s), qs_closer := ClosingDone\<rparr>)"

inductive queue_reachable :: "('n, 'z) notify_ops_scheme \<Rightarrow> nat \<Rightarrow> overflow \<Rightarrow> 'n queue_sys \<Rightarrow> bool"
  for N cap ov where
  init: "queue_reachable N cap ov (queue_init N cap ov)"
| step: "queue_reachable N cap ov s \<Longrightarrow> queue_step N s t \<Longrightarrow> queue_reachable N cap ov t"

end
