(* ===== verification/Ingest_Queue_Properties.thy ===== *)
theory Ingest_Queue_Properties
  imports Ingest_Queue
begin

text \<open>
  What holds of the ingest queue in every interleaving of its callers, its worker and a close: nothing
  accepted is lost, the queue is first-in first-out and bounded, a worker that exits has emptied it,
  and no wake-up is lost.
\<close>

subsection \<open>Operations\<close>

lemma offer_cases:
  "offer j c = (Enqueued, d) \<longleftrightarrow> \<not> ic_closed c \<and> length (ic_q c) < ic_capacity c \<and> d = c\<lparr>ic_q := ic_q c @ [j]\<rparr>"
  "offer j c = (Full i, d) \<longleftrightarrow> \<not> ic_closed c \<and> ic_capacity c \<le> length (ic_q c) \<and> i = j \<and> d = c"
  "offer j c = (Closed, d) \<longleftrightarrow> ic_closed c \<and> d = c"
  by (auto simp: offer_def)

lemma pop_cases:
  "chan_pop c = (Some j, d) \<longleftrightarrow> (\<exists>js. ic_q c = j # js \<and> d = c\<lparr>ic_q := js\<rparr>)"
  "chan_pop c = (None, d) \<longleftrightarrow> ic_q c = [] \<and> d = c"
  by (auto simp: chan_pop_def split: list.splits)

lemma try_enqueue_refused: "try_enqueue j c = (r, d) \<Longrightarrow> r \<noteq> Enqueued \<Longrightarrow> d = c"
  by (auto simp: try_enqueue_def offer_def push_dropping_oldest_def Let_def split: if_splits)

lemma try_enqueue_ok:
  assumes "try_enqueue j c = (Enqueued, d)"
  shows "\<not> ic_closed c" "ic_closed d = ic_closed c" "ic_capacity d = ic_capacity c" "ic_overflow d = ic_overflow c"
    "map snd (evictions c) @ ic_q d = ic_q c @ [j]"
    "ic_dropped d = wadd_u64 (ic_dropped c) (length (evictions c)) \<or> evictions c = [] \<and> ic_dropped d = ic_dropped c"
    "0 < ic_capacity c \<Longrightarrow> length (ic_q c) \<le> ic_capacity c \<Longrightarrow> length (ic_q d) \<le> ic_capacity d"
    "0 < ic_capacity c \<Longrightarrow> length (ic_q c) \<le> length (ic_q d)"
  using assms by (auto simp: try_enqueue_def offer_def push_dropping_oldest_def evictions_def Let_def split: if_splits)

lemma evictions_none: "ic_overflow c \<noteq> DropOldest \<Longrightarrow> evictions c = []"
  by (simp add: evictions_def)

lemma evictions_flags: "length (filter (\<lambda>x. \<not> fst x) (evictions c)) = length (evictions c)"
  by (simp add: evictions_def)

lemmas queue_op_simps = offer_cases pop_cases set_closed_def

subsection \<open>History\<close>

definition history_inv :: "nat \<Rightarrow> overflow \<Rightarrow> 'n queue_sys \<Rightarrow> bool" where
  "history_inv cap ov s \<longleftrightarrow>
     ic_capacity (qs_chan s) = max cap 1 \<and> ic_overflow (qs_chan s) = ov \<and>
     length (ic_q (qs_chan s)) \<le> max cap 1 \<and>
     qs_accepted s = map snd (qs_out s) @ ic_q (qs_chan s) \<and>
     (ov = DropOldest \<or> list_all fst (qs_out s)) \<and>
     ic_dropped (qs_chan s) = length (filter (\<lambda>x. \<not> fst x) (qs_out s)) mod 2 ^ 64"

lemma history_step: "queue_step N s t \<Longrightarrow> history_inv cap ov s \<Longrightarrow> history_inv cap ov t"
proof (induction rule: queue_step.induct)
  case (plain_ok s p j c)
  note t = try_enqueue_ok [OF plain_ok(2)]
  have "ic_dropped c = length (filter (\<lambda>x. \<not> fst x) (qs_out s @ evictions (qs_chan s))) mod 2 ^ 64"
    using plain_ok(3) t(6) by (auto simp: history_inv_def evictions_flags wadd_u64_def mod_add_left_eq)
  then show ?case using plain_ok(3) t evictions_none [of "qs_chan s"] by (auto simp: history_inv_def)
next
  case (plain_refused s p j r c)
  then show ?case using try_enqueue_refused [OF plain_refused(2,3)] by (simp add: history_inv_def)
qed (auto simp: history_inv_def queue_op_simps)

lemma history_reachable: "queue_reachable N cap ov s \<Longrightarrow> history_inv cap ov s"
proof (induction rule: queue_reachable.induct)
  case init
  then show ?case by (simp add: history_inv_def queue_init_def channel_new_def)
qed (rule history_step)

subsection \<open>Closing\<close>

definition closing_inv :: "'n queue_sys \<Rightarrow> bool" where
  "closing_inv s \<longleftrightarrow>
     (ic_closed (qs_chan s) \<longleftrightarrow> qs_closer s \<noteq> NotClosing) \<and>
     (qs_worker s \<in> {Draining True, Popped True, Exited} \<longrightarrow> ic_closed (qs_chan s)) \<and>
     (qs_worker s = Exited \<longrightarrow> ic_q (qs_chan s) = [])"

lemma closing_step: "queue_step N s t \<Longrightarrow> closing_inv s \<Longrightarrow> closing_inv t"
proof (induction rule: queue_step.induct)
  case (plain_ok s p j c)
  then show ?case using try_enqueue_ok [OF plain_ok(2)] by (auto simp: closing_inv_def)
next
  case (plain_refused s p j r c)
  then show ?case using try_enqueue_refused [OF plain_refused(2,3)] by (auto simp: closing_inv_def)
qed (auto simp: closing_inv_def queue_op_simps)

lemma closing_reachable: "queue_reachable N cap ov s \<Longrightarrow> closing_inv s"
proof (induction rule: queue_reachable.induct)
  case init
  then show ?case by (simp add: closing_inv_def queue_init_def channel_new_def)
qed (rule closing_step)

subsection \<open>The worker's wake-ups\<close>

lemma notify_lawsD:
  assumes "notify_laws N"
  shows "n_view N (n_new N) = ([], [], False)" "n_view N (n_enable N p n) = enable_view p (n_view N n)"
    "n_view N (n_one N n) = one_view (n_view N n)" "n_view N (n_waiters N n) = all_view (n_view N n)"
    "n_view N (n_finish N p n) = gone_view p (n_view N n)"
    "n_view N (n_drop N p n) =
       (if (p, True) \<in> set (fst (snd (n_view N n))) then one_view (gone_view p (n_view N n)) else gone_view p (n_view N n))"
  using assms unfolding notify_laws_def by blast+

definition pushing :: "(nat \<Rightarrow> caller) \<Rightarrow> bool" where
  "pushing k \<longleftrightarrow> (\<exists>p. k p \<in> {Pushed, PlainPushed})"

lemma pushing_upd: "pushing k \<Longrightarrow> k p \<noteq> Pushed \<Longrightarrow> k p \<noteq> PlainPushed \<Longrightarrow> pushing (k(p := c))"
  by (auto simp: pushing_def)

lemma pushing_new [simp]: "pushing (k(p := Pushed))" "pushing (k(p := PlainPushed))"
  by (auto simp: pushing_def)

text \<open>\<open>item_ok\<close>: the one future of \<open>item_ready\<close> is the worker's, and while the parked
  worker is not woken the queue is empty or a caller is about to notify, and a close is not past it.\<close>

definition item_ok :: "notify_view \<Rightarrow> worker \<Rightarrow> bool \<Rightarrow> bool \<Rightarrow> bool" where
  "item_ok v wk quiet early \<longleftrightarrow>
     (if wk \<in> {ArmedItem, ParkedItem}
      then v = ([worker_id], [], False) \<and> (wk = ParkedItem \<longrightarrow> quiet \<and> early) \<or> (\<exists>f b. v = ([], [(worker_id, f)], b))
      else \<exists>b. v = ([], [], b))"

definition item_inv :: "('n, 'z) notify_ops_scheme \<Rightarrow> 'n queue_sys \<Rightarrow> bool" where
  "item_inv N s \<longleftrightarrow>
     item_ok (n_view N (qs_item s)) (qs_worker s) (ic_q (qs_chan s) = [] \<or> pushing (qs_caller s))
       (qs_closer s \<in> {NotClosing, FlagSet})"

lemma item_ok_mono: "item_ok v wk q e \<Longrightarrow> (q \<Longrightarrow> q') \<Longrightarrow> (e \<Longrightarrow> e') \<Longrightarrow> item_ok v wk q' e'"
  by (auto simp: item_ok_def split: if_splits)

lemma item_ok_one: "item_ok v wk q e \<Longrightarrow> item_ok (one_view v) wk q' e'"
  by (auto simp: item_ok_def one_view_def split: if_splits)

lemma item_ok_all: "item_ok v wk q e \<Longrightarrow> item_ok (all_view v) wk q' e'"
  by (auto simp: item_ok_def all_view_def split: if_splits)

lemma item_ok_gone:
  assumes "item_ok v wk q e" "wk \<in> {ArmedItem, ParkedItem}" "wk' \<notin> {ArmedItem, ParkedItem}"
  shows "item_ok (gone_view worker_id v) wk' q' e'" "item_ok (one_view (gone_view worker_id v)) wk' q' e'"
  using assms by (auto simp: item_ok_def gone_view_def one_view_def split: if_splits)

lemma item_ok_enable: "item_ok v Checking q e \<Longrightarrow> item_ok (enable_view worker_id v) ArmedItem q' e'"
  unfolding item_ok_def enable_view_def by (simp, elim exE) (case_tac b; auto)

lemma item_frame:
  assumes "item_inv N s" "qs_item t = qs_item s" "qs_worker t = qs_worker s"
    "qs_closer s \<in> {NotClosing, FlagSet} \<Longrightarrow> qs_closer t \<in> {NotClosing, FlagSet}"
    "ic_q (qs_chan s) = [] \<or> pushing (qs_caller s) \<Longrightarrow> ic_q (qs_chan t) = [] \<or> pushing (qs_caller t)"
  shows "item_inv N t"
  unfolding item_inv_def assms(2,3)
  by (rule item_ok_mono [OF assms(1) [unfolded item_inv_def]]) (fact assms(4,5))+

lemma item_idle:
  assumes "item_inv N s" "qs_item t = qs_item s" "qs_worker s \<notin> {ArmedItem, ParkedItem}" "qs_worker t \<notin> {ArmedItem, ParkedItem}"
  shows "item_inv N t"
  using assms by (simp add: item_inv_def item_ok_def)

lemma item_step:
  assumes "notify_laws N" "queue_step N s t" "closing_inv s" "item_inv N s"
  shows "item_inv N t"
  using assms(2,3,4)
proof (induction rule: queue_step.induct)
  case (plain_refused s p j r c)
  show ?case
    by (rule item_frame [OF plain_refused(5)])
      (use plain_refused try_enqueue_refused [OF plain_refused(2,3)] in \<open>auto intro: pushing_upd\<close>)
next
  case (wait_park s)
  then show ?case by (auto simp: item_inv_def item_ok_def closing_inv_def)
next
  case (wait_skip s)
  then show ?case using item_ok_gone
    by (auto simp: item_inv_def notify_lawsD [OF assms(1)])
next
  case (item_wake s)
  then show ?case using item_ok_gone by (auto simp: item_inv_def notify_lawsD [OF assms(1)])
next
  case (check_open s)
  then show ?case unfolding item_inv_def by (auto simp: notify_lawsD [OF assms(1)] intro: item_ok_enable)
next
  case (pushed_notify s p)
  then show ?case unfolding item_inv_def by (auto simp: notify_lawsD [OF assms(1)] intro: item_ok_one)
next
  case (plain_notify s p)
  then show ?case unfolding item_inv_def by (auto simp: notify_lawsD [OF assms(1)] intro: item_ok_one)
next
  case (close_item s)
  then show ?case unfolding item_inv_def by (auto simp: notify_lawsD [OF assms(1)] intro: item_ok_all)
next
  case (pop_some s b j c)
  show ?case by (rule item_idle [OF pop_some(4)]) (use pop_some in auto)
next
  case (pop_notify s b)
  show ?case by (rule item_idle [OF pop_notify(3)]) (use pop_notify in auto)
next
  case (pop_none s b c)
  show ?case by (rule item_idle [OF pop_none(4)]) (use pop_none in auto)
next
  case (check_closed s)
  show ?case by (rule item_idle [OF check_closed(4)]) (use check_closed in auto)
qed (erule item_frame; auto simp: queue_op_simps intro: pushing_upd)+

lemma item_reachable: "queue_reachable N cap ov s \<Longrightarrow> notify_laws N \<Longrightarrow> item_inv N s"
proof (induction rule: queue_reachable.induct)
  case init
  then show ?case unfolding item_inv_def item_ok_def queue_init_def by (simp add: notify_lawsD) blast
qed (auto intro: item_step closing_reachable)

subsection \<open>The callers' wake-ups\<close>

fun behind :: "'a \<Rightarrow> 'a list \<Rightarrow> 'a list" where
  "behind p [] = []"
| "behind p (x # xs) = (if x = p then xs else behind p xs)"

lemma behind_append: "p \<in> set w \<Longrightarrow> behind p (w @ xs) = behind p w @ xs"
  by (induction w) auto

lemma behind_filter: "P p \<Longrightarrow> behind p (filter P w) = filter P (behind p w)"
  by (induction w) auto

lemma behind_subset: "set (behind p w) \<subseteq> set w"
  by (induction w) auto

lemma behind_distinct: "distinct w \<Longrightarrow> distinct (behind p w)"
  by (induction w) auto

fun is_armed :: "caller \<Rightarrow> bool" where
  "is_armed (Armed j) = True"
| "is_armed c = False"

fun in_loop :: "caller \<Rightarrow> bool" where
  "in_loop (Armed j) = True"
| "in_loop (Parked j) = True"
| "in_loop c = False"

fun holds_future :: "caller \<Rightarrow> bool" where
  "holds_future (Armed j) = True"
| "holds_future (Parked j) = True"
| "holds_future Pushed = True"
| "holds_future Returning = True"
| "holds_future c = False"

text \<open>The wake-ups on their way: ready futures that will be used or passed on, and callers behind
  \<open>p\<close> that are about to offer.\<close>

definition tokens :: "(nat \<Rightarrow> caller) \<Rightarrow> (nat \<times> bool) list \<Rightarrow> nat" where
  "tokens k r = length (filter (\<lambda>x. snd x \<or> in_loop (k (fst x))) r)"

definition armed_behind :: "(nat \<Rightarrow> caller) \<Rightarrow> nat \<Rightarrow> nat list \<Rightarrow> nat" where
  "armed_behind k p w = length (filter (\<lambda>x. is_armed (k x)) (behind p w))"

definition credit :: "(nat \<Rightarrow> caller) \<Rightarrow> nat \<Rightarrow> notify_view \<Rightarrow> nat" where
  "credit k p v = tokens k (fst (snd v)) + armed_behind k p (fst v)"

lemma filter_upd_length:
  "distinct (map f xs) \<Longrightarrow> length (filter (\<lambda>x. P (k (f x)) x) xs) \<le> length (filter (\<lambda>x. P ((k(y := c)) (f x)) x) xs) + 1"
proof (induction xs)
  case (Cons a xs)
  show ?case
  proof (cases "f a = y")
    case True
    then have "y \<notin> f ` set xs" using Cons.prems by auto
    then have "filter (\<lambda>x. P ((k(y := c)) (f x)) x) xs = filter (\<lambda>x. P (k (f x)) x) xs"
      by (intro filter_cong) (auto simp: image_iff)
    then show ?thesis by simp
  qed (use Cons in auto)
qed simp

lemma tokens_same: "y \<notin> fst ` set r \<Longrightarrow> tokens (k(y := c)) r = tokens k r"
  unfolding tokens_def by (intro arg_cong [of _ _ length] filter_cong) (auto simp: image_iff)

lemma armed_behind_same: "y \<notin> set w \<Longrightarrow> armed_behind (k(y := c)) p w = armed_behind k p w"
  unfolding armed_behind_def using behind_subset [of p w] by (intro arg_cong [of _ _ length] filter_cong) auto

lemma credit_upd:
  assumes "distinct (w @ map fst r)"
  shows "credit k p (w, r, b) \<le> credit (k(y := c)) p (w, r, b) + 1"
proof (cases "y \<in> set w")
  case True
  then have "tokens (k(y := c)) r = tokens k r" using assms by (intro tokens_same) auto
  moreover have "armed_behind k p w \<le> armed_behind (k(y := c)) p w + 1"
    unfolding armed_behind_def using filter_upd_length [of id "behind p w" "\<lambda>x y. is_armed x" k y c] assms
    by (simp add: behind_distinct)
  ultimately show ?thesis by (simp add: credit_def)
next
  case False
  then have "armed_behind (k(y := c)) p w = armed_behind k p w" by (rule armed_behind_same)
  moreover have "tokens k r \<le> tokens (k(y := c)) r + 1"
    unfolding tokens_def using filter_upd_length [of fst r "\<lambda>x y. snd y \<or> in_loop x" k y c] assms by simp
  ultimately show ?thesis by (simp add: credit_def)
qed

lemma credit_enable:
  assumes "p \<in> set (fst v)" "\<not> snd (snd v)" "x \<notin> set (fst v)" "x \<notin> fst ` set (fst (snd v))"
  shows "credit (k(x := Armed j)) p (enable_view x v) = credit k p v + 1"
  using assms by (cases v)
    (auto simp: credit_def enable_view_def tokens_same armed_behind_def behind_append
      intro!: arg_cong [of _ _ length] filter_cong dest: subsetD [OF behind_subset])

lemma credit_one:
  assumes "p \<in> set (fst (one_view v))" "distinct (fst v)"
  shows "credit k p (one_view v) = credit k p v + 1"
proof -
  obtain w r b where v: "v = (w, r, b)" by (cases v)
  show ?thesis
  proof (cases w)
    case Nil
    then show ?thesis using assms v by (simp add: one_view_def)
  next
    case (Cons x xs)
    then show ?thesis using assms v by (auto simp: one_view_def credit_def tokens_def armed_behind_def)
  qed
qed

text \<open>A future that goes away takes at most one wake-up with it, and none if its caller has left the
  loop and \<open>notify_one\<close> had not woken it.\<close>

lemma tokens_gone:
  assumes "distinct (map fst r)"
  shows "tokens k r \<le> tokens k (filter (\<lambda>y. fst y \<noteq> x) r) + 1"
    and "(x, True) \<notin> set r \<Longrightarrow> \<not> in_loop (k x) \<Longrightarrow> tokens k (filter (\<lambda>y. fst y \<noteq> x) r) = tokens k r"
proof -
  show "tokens k r \<le> tokens k (filter (\<lambda>y. fst y \<noteq> x) r) + 1"
    using assms
  proof (induction r)
    case (Cons a r)
    show ?case
    proof (cases "fst a = x")
      case True
      then have "filter (\<lambda>y. fst y \<noteq> x) r = r" using Cons.prems by (force simp: filter_id_conv image_iff)
      with True show ?thesis by (simp add: tokens_def)
    qed (use Cons in \<open>auto simp: tokens_def\<close>)
  qed (simp add: tokens_def)
  show "tokens k (filter (\<lambda>y. fst y \<noteq> x) r) = tokens k r" if "(x, True) \<notin> set r" "\<not> in_loop (k x)"
    unfolding tokens_def filter_filter using that
    by (intro arg_cong [of _ _ length] filter_cong) auto
qed

lemma credit_gone:
  assumes "distinct (fst v @ map fst (fst (snd v)))" "p \<noteq> x" "\<not> is_armed (k x) \<or> x \<notin> set (fst v)"
  shows "credit k p v \<le> credit k p (gone_view x v) + 1"
    and "(x, True) \<notin> set (fst (snd v)) \<Longrightarrow> \<not> in_loop (k x) \<Longrightarrow> credit k p (gone_view x v) = credit k p v"
proof -
  obtain w r b where v: "v = (w, r, b)" by (cases v)
  have "armed_behind k p (removeAll x w) = armed_behind k p w"
    unfolding armed_behind_def removeAll_filter_not_eq using assms(2,3) behind_subset [of p w]
    by (auto simp: behind_filter v intro!: arg_cong [of _ _ length] filter_cong)
  then show "credit k p v \<le> credit k p (gone_view x v) + 1"
    "(x, True) \<notin> set (fst (snd v)) \<Longrightarrow> \<not> in_loop (k x) \<Longrightarrow> credit k p (gone_view x v) = credit k p v"
    using tokens_gone [where r = r and k = k and x = x] assms(1) by (auto simp: v credit_def gone_view_def)
qed

text \<open>\<open>space_ok\<close>: the futures are those of the callers that hold one, each once; a permit is
  stored only while nobody waits; and while the channel is open, the free slots in front of a parked
  caller that nobody has woken are covered by wake-ups on their way.\<close>

definition ids :: "notify_view \<Rightarrow> nat list" where
  "ids v = fst v @ map fst (fst (snd v))"

definition space_ok :: "notify_view \<Rightarrow> (nat \<Rightarrow> caller) \<Rightarrow> bool" where
  "space_ok v k \<longleftrightarrow>
     distinct (ids v) \<and> set (ids v) = {p. holds_future (k p)} \<and> (snd (snd v) \<longrightarrow> fst v = [])"

definition waits :: "notify_view \<Rightarrow> (nat \<Rightarrow> caller) \<Rightarrow> nat \<Rightarrow> bool" where
  "waits v k p \<longleftrightarrow> p \<in> set (fst v) \<and> (\<exists>j. k p = Parked j)"

definition pop_token :: "worker \<Rightarrow> nat" where
  "pop_token wk = (case wk of Popped b \<Rightarrow> 1 | _ \<Rightarrow> 0)"

definition slots_ok :: "notify_view \<Rightarrow> (nat \<Rightarrow> caller) \<Rightarrow> worker \<Rightarrow> ingest_channel \<Rightarrow> bool" where
  "slots_ok v k wk c \<longleftrightarrow>
     ic_closed c \<or> (\<forall>p. waits v k p \<longrightarrow> ic_capacity c \<le> length (ic_q c) + credit k p v + pop_token wk)"

definition space_inv :: "('n, 'z) notify_ops_scheme \<Rightarrow> 'n queue_sys \<Rightarrow> bool" where
  "space_inv N s \<longleftrightarrow>
     space_ok (n_view N (qs_space s)) (qs_caller s) \<and>
     (qs_closer s = ClosingDone \<longrightarrow> (\<forall>p. \<not> waits (n_view N (qs_space s)) (qs_caller s) p)) \<and>
     slots_ok (n_view N (qs_space s)) (qs_caller s) (qs_worker s) (qs_chan s)"

lemma ids_one: "mset (ids (one_view v)) = mset (ids v)"
  by (auto simp: ids_def one_view_def split: prod.splits list.splits)

lemma ids_all: "mset (ids (all_view v)) = mset (ids v)"
  by (auto simp: ids_def all_view_def comp_def multiset.map_comp split: prod.splits)

lemma space_ok_mset:
  "space_ok v k \<Longrightarrow> mset (ids v') = mset (ids v) \<Longrightarrow> (snd (snd v') \<Longrightarrow> fst v' = []) \<Longrightarrow> space_ok v' k"
  unfolding space_ok_def using mset_eq_imp_distinct_iff mset_eq_setD by metis

lemma space_ok_one:
  assumes "space_ok v k"
  shows "space_ok (one_view v) k"
  by (rule space_ok_mset [OF assms ids_one])
    (use assms in \<open>auto simp: space_ok_def one_view_def split: prod.splits list.splits\<close>)

lemma space_ok_all: "space_ok v k \<Longrightarrow> space_ok (all_view v) k"
  by (erule space_ok_mset [OF _ ids_all]) (auto simp: all_view_def split: prod.splits)

lemma space_ok_enable: "space_ok v k \<Longrightarrow> \<not> holds_future (k x) \<Longrightarrow> space_ok (enable_view x v) (k(x := Armed j))"
  by (cases v) (auto simp: space_ok_def enable_view_def ids_def)

lemma ids_gone: "ids (gone_view x v) = removeAll x (ids v)"
proof -
  have "map fst (filter (\<lambda>y. fst y \<noteq> x) r) = removeAll x (map fst r)" for r :: "(nat \<times> bool) list"
    by (induction r) auto
  then show ?thesis by (simp add: ids_def gone_view_def split: prod.splits)
qed

lemma space_ok_gone:
  assumes "space_ok v k" "\<not> holds_future c"
  shows "space_ok (gone_view x v) (k(x := c))"
  unfolding space_ok_def ids_gone using assms
  by (auto simp: space_ok_def distinct_removeAll gone_view_def split: prod.splits)

lemma space_ok_upd: "space_ok v k \<Longrightarrow> holds_future (k x) = holds_future c \<Longrightarrow> space_ok v (k(x := c))"
proof -
  assume a: "space_ok v k" "holds_future (k x) = holds_future c"
  have "{p. holds_future ((k(x := c)) p)} = {p. holds_future (k p)}" using a(2) by auto
  then show ?thesis using a(1) by (simp add: space_ok_def split: prod.splits)
qed

lemma space_ok_distinct: "space_ok v k \<Longrightarrow> distinct (fst v @ map fst (fst (snd v)))"
  by (simp add: space_ok_def ids_def)

lemma space_ok_mem: "space_ok v k \<Longrightarrow> x \<in> set (fst v) \<or> x \<in> fst ` set (fst (snd v)) \<longleftrightarrow> holds_future (k x)"
  by (auto simp: space_ok_def ids_def)

text \<open>How the operations of a step move the wake-ups.\<close>

lemma slots_upd:
  assumes "slots_ok v k wk c" "distinct (ids v)" "\<And>j. d \<noteq> Parked j"
    and "ic_closed c' \<or> ic_closed c' = ic_closed c \<and> ic_capacity c' = ic_capacity c \<and>
      length (ic_q c) + (if in_loop (k x) then 1 else 0) \<le> length (ic_q c')"
    and "in_loop (k x) \<or> \<not> is_armed (k x)"
  shows "slots_ok v (k(x := d)) wk c'"
proof (cases "ic_closed c'")
  case False
  have "ic_capacity c' \<le> length (ic_q c') + credit (k(x := d)) p v + pop_token wk" if w: "waits v (k(x := d)) p" for p
  proof -
    have px: "p \<noteq> x" "waits v k p" using w assms(3) by (auto simp: waits_def split: if_splits)
    have le: "ic_capacity c \<le> length (ic_q c) + credit k p v + pop_token wk"
      using assms(1,4) False px by (auto simp: slots_ok_def)
    obtain ws r b where v: "v = (ws, r, b)" by (cases v)
    have up: "credit k p v \<le> credit (k(x := d)) p v + 1"
      unfolding v by (rule credit_upd) (use assms(2) v in \<open>simp add: ids_def\<close>)
    have out: "credit k p v \<le> credit (k(x := d)) p v" if nl: "\<not> in_loop (k x)"
    proof -
      have "tokens k r \<le> tokens (k(x := d)) r" unfolding tokens_def length_filter_conv_card
        by (intro card_mono) (use nl in auto)
      moreover have "armed_behind k p ws \<le> armed_behind (k(x := d)) p ws" unfolding armed_behind_def length_filter_conv_card
        by (intro card_mono) (use nl assms(5) in auto)
      ultimately show ?thesis by (simp add: v credit_def)
    qed
    show ?thesis using le up out assms(4) False by (cases "in_loop (k x)") auto
  qed
  then show ?thesis by (simp add: slots_ok_def)
qed (simp add: slots_ok_def)

lemma slots_one:
  assumes "slots_ok v k wk c" "distinct (ids v)" "pop_token wk \<le> pop_token wk' + 1"
  shows "slots_ok (one_view v) k wk' c"
proof -
  have "waits v k p" if "waits (one_view v) k p" for p
    using that by (auto simp: waits_def one_view_def split: prod.splits list.splits)
  moreover have "credit k p (one_view v) = credit k p v + 1" if "waits (one_view v) k p" for p
    using that assms(2) by (intro credit_one) (auto simp: waits_def ids_def)
  ultimately show ?thesis using assms(1,3) by (fastforce simp: slots_ok_def)
qed

lemma slots_enable:
  assumes "slots_ok v k wk c" "space_ok v k" "\<not> holds_future (k x)"
  shows "slots_ok (enable_view x v) (k(x := Armed j)) wk c"
proof -
  obtain ws r b where v: "v = (ws, r, b)" by (cases v)
  have "waits v k p \<and> credit (k(x := Armed j)) p (enable_view x v) = credit k p v + 1"
    if "waits (enable_view x v) (k(x := Armed j)) p" for p
  proof -
    have px: "p \<noteq> x" using that by (auto simp: waits_def)
    have b: "\<not> b" using that assms(2) v by (auto simp: waits_def enable_view_def space_ok_def)
    then have w: "p \<in> set ws" using that px v by (auto simp: waits_def enable_view_def)
    have "x \<notin> set ws" "x \<notin> fst ` set r" using space_ok_mem [OF assms(2), of x] assms(3) v by auto
    then have "credit (k(x := Armed j)) p (enable_view x v) = credit k p v + 1"
      using w b v by (intro credit_enable) auto
    then show ?thesis using that px w v by (auto simp: waits_def)
  qed
  then show ?thesis using assms(1) by (fastforce simp: slots_ok_def)
qed

lemma ids_mem: "x \<in> set (ids v) \<longleftrightarrow> x \<in> set (fst v) \<or> x \<in> fst ` set (fst (snd v))"
  by (simp add: ids_def)

lemma waits_gone: "waits (gone_view x v) k p \<Longrightarrow> waits v k p \<and> p \<noteq> x"
  by (auto simp: waits_def gone_view_def split: prod.splits)

lemma slots_mono:
  assumes "slots_ok v k wk c" "\<And>p. waits v' k' p \<Longrightarrow> waits v k p \<and> credit k p v \<le> credit k' p v'"
  shows "slots_ok v' k' wk c"
  using assms unfolding slots_ok_def by (meson add_le_mono order_refl order_trans)

lemma slots_drop:
  assumes "slots_ok v k wk c" "distinct (ids v)" "\<not> in_loop (k x)"
    "v' = (if (x, True) \<in> set (fst (snd v)) then one_view (gone_view x v) else gone_view x v)" "\<And>j. d \<noteq> Parked j"
  shows "slots_ok v' (k(x := d)) wk c"
proof -
  have na: "\<not> is_armed (k x)" using assms(3) by (cases "k x") auto
  have dg: "distinct (ids (gone_view x v))" using assms(2) by (simp add: ids_gone distinct_removeAll)
  have dist: "distinct (ids v')"
    using dg mset_eq_imp_distinct_iff [OF ids_one [of "gone_view x v"]] assms(4) by auto
  have g: "credit k p v \<le> credit k p (gone_view x v) + 1"
    "(x, True) \<notin> set (fst (snd v)) \<Longrightarrow> credit k p (gone_view x v) = credit k p v" if "p \<noteq> x" for p
    using credit_gone [of v p x k] that assms(2,3) na by (auto simp: ids_def)
  have o: "waits (gone_view x v) k p \<and> credit k p (one_view (gone_view x v)) = credit k p (gone_view x v) + 1"
    if "waits (one_view (gone_view x v)) k p" for p
    using that dg credit_one [of p "gone_view x v" k]
    by (auto simp: waits_def ids_def one_view_def split: prod.splits list.splits)
  have "slots_ok v' k wk c"
  proof (rule slots_mono [OF assms(1)])
    fix p assume w: "waits v' k p"
    show "waits v k p \<and> credit k p v \<le> credit k p v'"
    proof (cases "(x, True) \<in> set (fst (snd v))")
      case True
      then show ?thesis using w o [of p] waits_gone [of x v k p] g(1) [of p] assms(4) by auto
    next
      case False
      then show ?thesis using w waits_gone [of x v k p] g(2) [of p] assms(4) by auto
    qed
  qed
  then show ?thesis by (rule slots_upd) (use dist assms(3,5) na in auto)
qed

lemma slots_rearm:
  assumes "slots_ok v k wk c" "space_ok v k" "x \<in> fst ` set (fst (snd v))"
  shows "slots_ok (enable_view x (gone_view x v)) (k(x := Armed j)) wk c"
proof -
  let ?g = "gone_view x v"
  have nw: "x \<notin> set (fst v)" using space_ok_distinct [OF assms(2)] assms(3) by auto
  show ?thesis
  proof (rule slots_mono [OF assms(1)])
    fix p assume w: "waits (enable_view x ?g) (k(x := Armed j)) p"
    have px: "p \<noteq> x" using w by (auto simp: waits_def)
    have b: "\<not> snd (snd ?g)" and pg: "p \<in> set (fst ?g)"
      using w px assms(2) by (auto simp: waits_def enable_view_def gone_view_def space_ok_def split: prod.splits if_splits)
    have "credit (k(x := Armed j)) p (enable_view x ?g) = credit k p ?g + 1"
      using pg b by (intro credit_enable) (auto simp: gone_view_def split: prod.splits)
    moreover have "credit k p v \<le> credit k p ?g + 1"
      using credit_gone(1) [of v p x k] space_ok_distinct [OF assms(2)] px nw by simp
    moreover have "waits v k p" using pg w px by (auto simp: waits_def gone_view_def split: prod.splits)
    ultimately show "waits v k p \<and> credit k p v \<le> credit (k(x := Armed j)) p (enable_view x ?g)" by simp
  qed
qed

lemma space_ok_drop:
  assumes "space_ok v k" "\<not> holds_future d"
    "v' = (if (x, True) \<in> set (fst (snd v)) then one_view (gone_view x v) else gone_view x v)"
  shows "space_ok v' (k(x := d))"
  using assms space_ok_gone space_ok_one by auto

lemma space_ok_rearm: "space_ok v k \<Longrightarrow> space_ok (enable_view x (gone_view x v)) (k(x := Armed j))"
  using space_ok_enable [OF space_ok_gone [of v k "Finished False" x], of x j] by simp

lemma slots_chan:
  "slots_ok v k wk c \<Longrightarrow> ic_closed c' \<or> ic_closed c' = ic_closed c \<and> ic_capacity c' = ic_capacity c \<and>
     length (ic_q c) + pop_token wk \<le> length (ic_q c') + pop_token wk' \<Longrightarrow> slots_ok v k wk' c'"
  unfolding slots_ok_def by fastforce

lemma waits_upd: "\<not> (\<exists>j. d = Parked j) \<Longrightarrow> waits v (k(x := d)) p \<Longrightarrow> waits v k p"
  by (auto simp: waits_def split: if_splits)

lemma waits_one: "waits (one_view v) k p \<Longrightarrow> waits v k p"
  by (auto simp: waits_def one_view_def split: prod.splits list.splits)

lemma waits_all: "\<not> waits (all_view v) k p"
  by (simp add: waits_def all_view_def split: prod.splits)

lemma waits_drop:
  "waits (if b then one_view (gone_view x v) else gone_view x v) k p \<Longrightarrow> waits v k p"
  by (auto split: if_splits dest!: waits_one waits_gone)

lemma waits_enable: "waits (enable_view x v) (k(x := Armed j)) p \<Longrightarrow> waits v k p"
  by (auto simp: waits_def enable_view_def split: prod.splits if_splits)

lemma pop_token_simps [simp]:
  "pop_token (Popped b) = 1" "pop_token (Draining b) = 0" "pop_token Checking = 0" "pop_token ArmedItem = 0"
  "pop_token ParkedItem = 0" "pop_token Exited = 0"
  by (simp_all add: pop_token_def)

lemma space_idle:
  assumes "space_inv N s" "qs_space t = qs_space s" "qs_caller t = qs_caller s" "qs_closer t = qs_closer s"
    "pop_token (qs_worker t) = pop_token (qs_worker s)" "qs_chan t = qs_chan s"
  shows "space_inv N t"
  using assms by (simp add: space_inv_def slots_ok_def)

lemma space_caller:
  assumes "space_inv N s" "qs_space t = qs_space s" "qs_caller t = (qs_caller s)(p := d)"
    "qs_worker t = qs_worker s" "qs_closer t = qs_closer s"
    "holds_future (qs_caller s p) = holds_future d" "\<And>j. d \<noteq> Parked j"
    "ic_closed (qs_chan t) = ic_closed (qs_chan s)" "ic_capacity (qs_chan t) = ic_capacity (qs_chan s)"
    "length (ic_q (qs_chan s)) + (if in_loop (qs_caller s p) then 1 else 0) \<le> length (ic_q (qs_chan t))"
  shows "space_inv N t"
proof -
  have "in_loop (qs_caller s p) \<or> \<not> is_armed (qs_caller s p)" by (cases "qs_caller s p") auto
  then have "slots_ok (n_view N (qs_space s)) ((qs_caller s)(p := d)) (qs_worker s) (qs_chan t)"
    using assms by (intro slots_upd [where c = "qs_chan s"]) (auto simp: space_inv_def space_ok_def)
  then show ?thesis using assms by (auto simp: space_inv_def intro!: space_ok_upd dest!: waits_upd [rotated])
qed

lemma space_step:
  assumes "notify_laws N" "queue_step N s t" "history_inv cap ov s" "closing_inv s" "space_inv N s"
  shows "space_inv N t"
  using assms(2-5)
proof (induction rule: queue_step.induct)
  case (send_block s p j)
  then show ?case
    by (auto simp: space_inv_def notify_lawsD [OF assms(1)] intro: space_ok_enable slots_enable dest!: waits_enable)
next
  case (send_plain s p j)
  show ?case by (rule space_caller [OF send_plain(4), where p = p]) (use send_plain in auto)
next
  case (offer_ok s p j c)
  show ?case by (rule space_caller [OF offer_ok(5), where p = p]) (use offer_ok in \<open>auto simp: offer_cases\<close>)
next
  case (offer_full s p j c)
  then have "slots_ok v k wk (qs_chan s)" for v k wk by (auto simp: slots_ok_def offer_cases)
  moreover have "qs_closer s = NotClosing" using offer_full by (simp add: closing_inv_def offer_cases)
  ultimately show ?case using offer_full by (auto simp: space_inv_def offer_cases intro!: space_ok_upd)
next
  case (offer_closed s p j c)
  then have "slots_ok v k wk (qs_chan s)" for v k wk by (auto simp: slots_ok_def offer_cases)
  with offer_closed show ?case
    by (auto simp: space_inv_def offer_cases notify_lawsD [OF assms(1)] intro!: space_ok_gone space_ok_one
        dest!: waits_one waits_gone waits_upd [rotated])
next
  case (wake_rearm s p j)
  then have "p \<in> fst ` set (fst (snd (n_view N (qs_space s))))" by simp
  with wake_rearm show ?case
    by (auto simp: space_inv_def notify_lawsD [OF assms(1)] intro: space_ok_rearm slots_rearm
        dest!: waits_enable waits_gone)
next
  case (pushed_notify s p)
  show ?case by (rule space_caller [OF pushed_notify(4), where p = p]) (use pushed_notify in auto)
next
  case (returning_drop s p)
  let ?v = "n_view N (qs_space s)"
  let ?v' = "if (p, True) \<in> set (fst (snd ?v)) then one_view (gone_view p ?v) else gone_view p ?v"
  have "slots_ok ?v' ((qs_caller s)(p := Finished True)) (qs_worker s) (qs_chan s)"
    by (rule slots_drop [where v = ?v]) (use returning_drop in \<open>auto simp: space_inv_def space_ok_def\<close>)
  moreover have "space_ok ?v' ((qs_caller s)(p := Finished True))"
    by (rule space_ok_drop [where v = ?v]) (use returning_drop in \<open>auto simp: space_inv_def\<close>)
  moreover have "\<not> waits ?v' ((qs_caller s)(p := Finished True)) q" if "qs_closer s = ClosingDone" for q
  proof
    assume "waits ?v' ((qs_caller s)(p := Finished True)) q"
    then have "waits ?v' (qs_caller s) q" by (rule waits_upd [rotated]) simp
    then have "waits ?v (qs_caller s) q" by (rule waits_drop)
    then show False using that returning_drop(4) by (simp add: space_inv_def)
  qed
  ultimately show ?case by (simp add: space_inv_def notify_lawsD [OF assms(1)])
next
  case (plain_ok s p j c)
  note e = try_enqueue_ok [OF plain_ok(2)]
  have "0 < ic_capacity (qs_chan s)" using plain_ok by (simp add: history_inv_def)
  then show ?case by (intro space_caller [OF plain_ok(5), where p = p]) (use plain_ok(1) e(2,3,8) in auto)
next
  case (plain_refused s p j r c)
  show ?case by (rule space_caller [OF plain_refused(6), where p = p])
      (use plain_refused(1) try_enqueue_refused [OF plain_refused(2,3)] in auto)
next
  case (plain_notify s p)
  show ?case by (rule space_caller [OF plain_notify(4), where p = p]) (use plain_notify in auto)
next
  case (pop_some s b j c)
  have "slots_ok (n_view N (qs_space s)) (qs_caller s) (Popped b) c"
    by (rule slots_chan [where wk = "qs_worker s" and c = "qs_chan s"])
      (use pop_some in \<open>auto simp: space_inv_def pop_cases\<close>)
  with pop_some show ?case by (simp add: space_inv_def)
next
  case (pop_notify s b)
  have "slots_ok (one_view (n_view N (qs_space s))) (qs_caller s) (Draining b) (qs_chan s)"
    by (rule slots_one [where wk = "qs_worker s"]) (use pop_notify in \<open>auto simp: space_inv_def space_ok_def\<close>)
  with pop_notify show ?case
    by (auto simp: space_inv_def notify_lawsD [OF assms(1)] intro: space_ok_one dest!: waits_one)
next
  case (close_space s)
  then have "slots_ok v k wk (qs_chan s)" for v k wk by (auto simp: slots_ok_def closing_inv_def)
  with close_space show ?case
    by (auto simp: space_inv_def notify_lawsD [OF assms(1)] waits_all intro: space_ok_all)
next
  case (close_flag s)
  then show ?case by (auto simp: space_inv_def slots_ok_def set_closed_def)
next
  case (close_item s)
  then show ?case by (auto simp: space_inv_def)
qed (erule space_idle; auto simp: pop_cases)+

lemma space_reachable: "queue_reachable N cap ov s \<Longrightarrow> notify_laws N \<Longrightarrow> space_inv N s"
proof (induction rule: queue_reachable.induct)
  case init
  then show ?case by (simp add: space_inv_def space_ok_def slots_ok_def waits_def ids_def queue_init_def notify_lawsD)
qed (auto intro: space_step history_reachable closing_reachable)

subsection \<open>Claims\<close>

text \<open>C34. In every interleaving the queue never exceeds its capacity, jobs leave it in the
  order they were accepted, and a job leaves without the worker only under the evicting policy, which
  counts it.\<close>

theorem queue_fifo:
  assumes "queue_reachable N cap ov s"
  shows "depth (qs_chan s) \<le> max cap 1 \<and> qs_accepted s = map snd (qs_out s) @ ic_q (qs_chan s) \<and>
    (ov \<noteq> DropOldest \<longrightarrow> list_all fst (qs_out s)) \<and>
    ic_dropped (qs_chan s) = length (filter (\<lambda>x. \<not> fst x) (qs_out s)) mod 2 ^ 64"
  using history_reachable [OF assms] by (auto simp: history_inv_def depth_def)


text \<open>A state in which nobody can move on: every caller is outside a call or parked and not woken, the
  worker is parked and not woken or has exited, and no close is under way.\<close>

definition stalled :: "('n, 'z) notify_ops_scheme \<Rightarrow> 'n queue_sys \<Rightarrow> bool" where
  "stalled N s \<longleftrightarrow>
     (\<forall>p. qs_caller s p = Idle \<or> (\<exists>b. qs_caller s p = Finished b) \<or>
        (\<exists>j. qs_caller s p = Parked j) \<and> p \<notin> set (notified N (qs_space s))) \<and>
     (qs_worker s = ParkedItem \<and> worker_id \<notin> set (notified N (qs_item s)) \<or> qs_worker s = Exited) \<and>
     qs_closer s \<in> {NotClosing, ClosingDone}"

lemma stalled_caller:
  assumes "stalled N s"
  shows "\<not> is_armed (qs_caller s p)" "qs_caller s p \<noteq> Pushed" "qs_caller s p \<noteq> PlainPushed"
    "holds_future (qs_caller s p) \<Longrightarrow> p \<notin> set (notified N (qs_space s))"
proof -
  consider "qs_caller s p = Idle" | b where "qs_caller s p = Finished b"
    | j where "qs_caller s p = Parked j" "p \<notin> set (notified N (qs_space s))"
    using assms unfolding stalled_def by blast
  then show "\<not> is_armed (qs_caller s p)" "qs_caller s p \<noteq> Pushed" "qs_caller s p \<noteq> PlainPushed"
    "holds_future (qs_caller s p) \<Longrightarrow> p \<notin> set (notified N (qs_space s))"
    by (cases; simp)+
qed

lemma stalled_credit:
  assumes "stalled N s" "waits (n_view N (qs_space s)) (qs_caller s) p" "space_ok (n_view N (qs_space s)) (qs_caller s)"
  shows "credit (qs_caller s) p (n_view N (qs_space s)) = 0"
proof -
  have "\<not> is_armed (qs_caller s x)" for x by (rule stalled_caller [OF assms(1)])
  moreover have "fst (snd (n_view N (qs_space s))) = []"
  proof (rule ccontr)
    assume "fst (snd (n_view N (qs_space s))) \<noteq> []"
    then obtain x where x: "x \<in> set (notified N (qs_space s))"
      by (cases "fst (snd (n_view N (qs_space s)))") auto
    then have "holds_future (qs_caller s x)" using assms(3) by (auto simp: space_ok_def ids_def)
    with x stalled_caller(4) [OF assms(1)] show False by blast
  qed
  ultimately show ?thesis by (simp add: credit_def tokens_def armed_behind_def)
qed

text \<open>C32. No wake-up is lost: a state in which nobody can move on has an empty
  queue and no caller parked, so everything accepted has left the queue and no call hangs.\<close>

theorem queue_no_lost_wakeup:
  assumes "notify_laws N" "queue_reachable N cap ov s" "stalled N s"
  shows "ic_q (qs_chan s) = [] \<and> (\<forall>p j. qs_caller s p \<noteq> Parked j)"
proof -
  note h = history_reachable [OF assms(2)] and c = closing_reachable [OF assms(2)]
    and i = item_reachable [OF assms(2,1)] and sp = space_reachable [OF assms(2,1)]
  have np: "\<not> pushing (qs_caller s)" using stalled_caller [OF assms(3)] by (auto simp: pushing_def)
  have q: "ic_q (qs_chan s) = [] \<and> (qs_worker s = ParkedItem \<longrightarrow> qs_closer s = NotClosing)"
  proof (cases "qs_worker s = Exited")
    case True
    then show ?thesis using c by (simp add: closing_inv_def)
  next
    case False
    then have w: "qs_worker s = ParkedItem" "worker_id \<notin> set (notified N (qs_item s))" using assms(3) by (auto simp: stalled_def)
    then show ?thesis using i np assms(3) by (auto simp: item_inv_def item_ok_def stalled_def)
  qed
  have "\<not> waits (n_view N (qs_space s)) (qs_caller s) p" for p
  proof
    assume w: "waits (n_view N (qs_space s)) (qs_caller s) p"
    have "qs_closer s \<noteq> ClosingDone" using sp w by (auto simp: space_inv_def)
    then have "\<not> ic_closed (qs_chan s)" using assms(3) c by (auto simp: stalled_def closing_inv_def)
    moreover have "pop_token (qs_worker s) = 0" using assms(3) by (auto simp: stalled_def)
    ultimately have "ic_capacity (qs_chan s) = 0"
      using sp w q stalled_credit [OF assms(3) w] by (auto simp: space_inv_def slots_ok_def)
    then show False using h by (simp add: history_inv_def)
  qed
  moreover have "waits (n_view N (qs_space s)) (qs_caller s) p" if "qs_caller s p = Parked j" for p j
  proof -
    have "p \<in> set (ids (n_view N (qs_space s)))" using sp that by (simp add: space_inv_def space_ok_def)
    moreover have "p \<notin> set (notified N (qs_space s))" using stalled_caller(4) [OF assms(3), of p] that by simp
    ultimately show ?thesis using that by (auto simp: waits_def ids_def)
  qed
  ultimately show ?thesis using q by blast
qed

subsection \<open>Witnesses\<close>

text \<open>A \<open>Notify\<close> that is its own view.\<close>

definition plain_notify_ops :: "notify_view notify_ops" where
  "plain_notify_ops =
     \<lparr>n_new = ([], [], False), n_enable = enable_view, n_one = one_view, n_waiters = all_view, n_finish = gone_view,
      n_drop = (\<lambda>p v. if (p, True) \<in> set (fst (snd v)) then one_view (gone_view p v) else gone_view p v),
      n_view = (\<lambda>v. v)\<rparr>"

lemma plain_notify_laws: "notify_laws plain_notify_ops"
  by (simp add: notify_laws_def plain_notify_ops_def)

definition w_job :: ingest_job where
  "w_job = JLogs [1] []"

definition w_sent :: "notify_view queue_sys" where
  "w_sent = (queue_init plain_notify_ops 1 Block)
     \<lparr>qs_caller := (\<lambda>p. Idle)(1 := Plain w_job, 1 := PlainPushed),
      qs_chan := (channel_new 1 Block)\<lparr>ic_q := [w_job]\<rparr>, qs_accepted := [w_job], qs_out := []\<rparr>"

lemma w_sent_reachable: "queue_reachable plain_notify_ops 1 Block w_sent"
proof -
  let ?s0 = "queue_init plain_notify_ops 1 Block"
  let ?s1 = "set_caller 1 (Plain w_job) ?s0"
  have "queue_reachable plain_notify_ops 1 Block ?s1"
    by (rule queue_reachable.step [OF queue_reachable.init send_plain]) (simp add: queue_init_def)
  moreover have "queue_step plain_notify_ops ?s1 (set_caller 1 PlainPushed (?s1\<lparr>qs_chan := (qs_chan ?s1)\<lparr>ic_q := [w_job]\<rparr>,
      qs_accepted := qs_accepted ?s1 @ [w_job], qs_out := qs_out ?s1 @ evictions (qs_chan ?s1)\<rparr>))"
    by (rule plain_ok) (simp_all add: try_enqueue_def offer_def queue_init_def channel_new_def)
  moreover have "set_caller 1 PlainPushed (?s1\<lparr>qs_chan := (qs_chan ?s1)\<lparr>ic_q := [w_job]\<rparr>,
      qs_accepted := qs_accepted ?s1 @ [w_job], qs_out := qs_out ?s1 @ evictions (qs_chan ?s1)\<rparr>) = w_sent"
    by (simp add: w_sent_def queue_init_def channel_new_def evictions_def)
  ultimately show ?thesis using queue_reachable.step by metis
qed

theorem queue_fifo_witness:
  "depth (qs_chan w_sent) \<le> 1 \<and> qs_accepted w_sent = map snd (qs_out w_sent) @ ic_q (qs_chan w_sent)"
  using queue_fifo [OF w_sent_reachable] by simp

definition w_idle :: "notify_view queue_sys" where
  "w_idle = (queue_init plain_notify_ops 1 Block)\<lparr>qs_worker := ParkedItem, qs_item := ([worker_id], [], False)\<rparr>"

lemma w_idle_reachable: "queue_reachable plain_notify_ops 1 Block w_idle"
proof -
  let ?s0 = "queue_init plain_notify_ops 1 Block"
  let ?s1 = "?s0\<lparr>qs_worker := Checking\<rparr>"
  let ?s2 = "?s1\<lparr>qs_worker := ArmedItem, qs_item := n_enable plain_notify_ops worker_id (qs_item ?s1)\<rparr>"
  have "queue_step plain_notify_ops ?s0 (?s0\<lparr>qs_chan := qs_chan ?s0, qs_worker := (if False then Exited else Checking)\<rparr>)"
    by (rule pop_none) (simp_all add: queue_init_def channel_new_def chan_pop_def)
  then have 1: "queue_reachable plain_notify_ops 1 Block ?s1"
    using queue_reachable.step [OF queue_reachable.init] by simp
  have 2: "queue_reachable plain_notify_ops 1 Block ?s2"
    by (rule queue_reachable.step [OF 1 check_open]) (simp_all add: queue_init_def channel_new_def)
  have "queue_reachable plain_notify_ops 1 Block (?s2\<lparr>qs_worker := ParkedItem\<rparr>)"
    by (rule queue_reachable.step [OF 2 wait_park]) (simp_all add: queue_init_def channel_new_def)
  moreover have "?s2\<lparr>qs_worker := ParkedItem\<rparr> = w_idle"
    by (simp add: w_idle_def queue_init_def plain_notify_ops_def enable_view_def)
  ultimately show ?thesis by simp
qed




theorem queue_no_lost_wakeup_witness:
  "ic_q (qs_chan w_idle) = [] \<and> (\<forall>p j. qs_caller w_idle p \<noteq> Parked j)"
proof (rule queue_no_lost_wakeup [OF plain_notify_laws w_idle_reachable])
  show "stalled plain_notify_ops w_idle"
    by (simp add: stalled_def w_idle_def queue_init_def plain_notify_ops_def)
qed

end
