(* ===== verification/Civil_Date.thy ===== *)
theory Civil_Date
  imports Core_Types "HOL-Library.Signed_Division" "HOL-Library.Product_Lexorder"
begin

text \<open>
  The day partition of a segment: \<open>civil_from_days\<close> and \<open>utc_date_string\<close> of
  \<open>crates/imbh-storage/src/lib.rs\<close>, against the Gregorian calendar given by its leap-year rule,
  the lengths of its months and the successor of a date.
\<close>

subsection \<open>The code\<close>

text \<open>Rust's \<open>/\<close> on \<open>i64\<close> rounds toward zero (\<open>sdiv\<close>), \<open>div_euclid\<close> by a
  positive number rounds down (\<open>div\<close>). No intermediate value leaves the range of \<open>i64\<close> for
  the days of an \<open>i64\<close> of nanoseconds, which lie between -106752 and 106751.\<close>

definition civil_from_days :: "int \<Rightarrow> int \<times> int \<times> int" where
  "civil_from_days z0 =
    (let z = z0 + 719468;
         era = (if 0 \<le> z then z else z - 146096) sdiv 146097;
         doe = z - era * 146097;
         yoe = (doe - doe sdiv 1460 + doe sdiv 36524 - doe sdiv 146096) sdiv 365;
         y = yoe + era * 400;
         doy = doe - (365 * yoe + yoe sdiv 4 - yoe sdiv 100);
         mp = (5 * doy + 2) sdiv 153;
         d = doy - (153 * mp + 2) sdiv 5 + 1;
         m = (if mp < 10 then mp + 3 else mp - 9)
     in (if m \<le> 2 then y + 1 else y, m, d))"

text \<open>\<open>{:04}\<close> on a signed number counts the sign in the width.\<close>

definition show_pad_int :: "nat \<Rightarrow> int \<Rightarrow> string" where
  "show_pad_int w i =
     (if i < 0 then CHR ''-'' # show_pad 10 (w - 1) (nat (- i)) else show_pad 10 w (nat i))"

definition NANOS_PER_DAY :: int where
  "NANOS_PER_DAY = 86400000000000"

definition utc_date_string :: "int \<Rightarrow> string" where
  "utc_date_string unix_nanos =
    (let days = unix_nanos div NANOS_PER_DAY
     in case civil_from_days days of
          (y, m, d) \<Rightarrow> show_pad_int 4 y @ ''-'' @ show_pad 10 2 (nat m) @ ''-'' @ show_pad 10 2 (nat d))"

text \<open>\<open>day_of_path\<close>: the second component of a relative path, empty when there is none.\<close>

definition day_of_path :: "string \<Rightarrow> string" where
  "day_of_path rel = (case split_on (CHR ''/'') rel of a # b # r \<Rightarrow> b | _ \<Rightarrow> [])"

text \<open>The relative path \<open>write_segment_parquet\<close> gives a segment: the table, the day of its first
  row, the clock in nanoseconds and the engine's sequence number.\<close>

definition segment_rel_path :: "string \<Rightarrow> int \<Rightarrow> nat \<Rightarrow> nat \<Rightarrow> string" where
  "segment_rel_path tbl min_time now sq =
     tbl @ ''/'' @ utc_date_string min_time @ ''/'' @ show_pad 10 20 now @ ''-'' @ show_pad 10 6 sq @ ''.parquet''"

subsection \<open>The calendar\<close>

definition leap_year :: "int \<Rightarrow> bool" where
  "leap_year y \<longleftrightarrow> y mod 4 = 0 \<and> (y mod 100 \<noteq> 0 \<or> y mod 400 = 0)"

definition month_length :: "int \<Rightarrow> int \<Rightarrow> int" where
  "month_length y m =
     (if m = 2 then if leap_year y then 29 else 28 else if m \<in> {4, 6, 9, 11} then 30 else 31)"

definition valid_date :: "int \<times> int \<times> int \<Rightarrow> bool" where
  "valid_date c = (case c of (y, m, d) \<Rightarrow> 1 \<le> m \<and> m \<le> 12 \<and> 1 \<le> d \<and> d \<le> month_length y m)"

definition next_date :: "int \<times> int \<times> int \<Rightarrow> int \<times> int \<times> int" where
  "next_date c =
    (case c of (y, m, d) \<Rightarrow>
       if d < month_length y m then (y, m, d + 1)
       else if m < 12 then (y, m + 1, 1) else (y + 1, 1, 1))"

subsection \<open>A year from March to February\<close>

text \<open>\<open>years_before y\<close> counts the days before the year \<open>y\<close> of a 400-year era, its years
  starting in March; \<open>month_of\<close> and \<open>day_of\<close> split a day of such a year.\<close>

definition years_before :: "int \<Rightarrow> int" where
  "years_before y = 365 * y + y div 4 - y div 100 + y div 400"

definition year_of :: "int \<Rightarrow> int" where
  "year_of doe = (doe - doe div 1460 + doe div 36524 - doe div 146096) div 365"

definition month_of :: "int \<Rightarrow> int" where
  "month_of doy = (let mp = (5 * doy + 2) div 153 in if mp < 10 then mp + 3 else mp - 9)"

definition day_of :: "int \<Rightarrow> int" where
  "day_of doy = (let mp = (5 * doy + 2) div 153 in doy - (153 * mp + 2) div 5 + 1)"

definition year_leap :: "int \<Rightarrow> bool" where
  "year_leap y \<longleftrightarrow> (y + 1) mod 4 = 0 \<and> ((y + 1) mod 100 \<noteq> 0 \<or> y = 399)"

definition date_at :: "int \<Rightarrow> int \<Rightarrow> int \<Rightarrow> int \<times> int \<times> int" where
  "date_at era y doy =
     (y + 400 * era + (if month_of doy \<le> 2 then 1 else 0), month_of doy, day_of doy)"

lemma sdiv_div: "0 \<le> a \<Longrightarrow> 0 < b \<Longrightarrow> a sdiv b = a div (b :: int)"
  by (simp add: signed_divide_int_def sgn_if)

text \<open>The era is the floor of the quotient.\<close>

lemma era_div: "(if 0 \<le> z then z else z - 146096) sdiv 146097 = z div (146097 :: int)"
proof (cases "0 \<le> z")
  case True
  then show ?thesis by (simp add: sdiv_div)
next
  case False
  then have "\<bar>z - 146096\<bar> = 146096 - z" by simp
  with False have "(z - 146096) sdiv 146097 = - ((146096 - z) div 146097)"
    by (simp add: signed_divide_int_def sgn_if)
  also have "\<dots> = z div 146097" by linarith
  finally show ?thesis using False by simp
qed

lemma year_bounds_check:
  "list_all (\<lambda>y. year_of (years_before y) = y \<and> year_of (years_before (y + 1) - 1) = y \<and>
     years_before (y + 1) - years_before y = (if year_leap y then 366 else 365)) [0..399]"
  by code_simp

lemma month_check:
  "list_all (\<lambda>i. 1 \<le> month_of i \<and> month_of i \<le> 12 \<and> 1 \<le> day_of i \<and>
     (month_of i = 2 \<longrightarrow> 337 \<le> i \<and> day_of i = i - 336) \<and>
     (i < 364 \<longrightarrow>
        (if day_of i < month_length 1 (month_of i)
         then month_of (i + 1) = month_of i \<and> day_of (i + 1) = day_of i + 1
         else day_of i = month_length 1 (month_of i) \<and> day_of (i + 1) = 1 \<and>
           month_of (i + 1) = (if month_of i = 12 then 1 else month_of i + 1)))) [0..365]"
  by code_simp

lemma month_ends: "month_of 0 = 3" "day_of 0 = 1" "month_of 364 = 2" "day_of 364 = 28" "month_of 365 = 2" "day_of 365 = 29"
  by code_simp+

text \<open>\<open>year_of\<close> is monotone, so its values at the first and the last day of a year give every
  day of the year.\<close>

lemma year_of_step: "0 \<le> a \<Longrightarrow> a < 146096 \<Longrightarrow> year_of a \<le> year_of (a + 1)"
proof -
  assume a: "0 \<le> a" "a < 146096"
  have "a - a div 1460 + a div 36524 - a div 146096 \<le>
      (a + 1) - (a + 1) div 1460 + (a + 1) div 36524 - (a + 1) div 146096"
  proof (cases "(a + 1) div 146096 = a div 146096")
    case True
    moreover have "(a + 1) div 1460 \<le> a div 1460 + 1" "a div 36524 \<le> (a + 1) div 36524" by linarith+
    ultimately show ?thesis by linarith
  next
    case False
    then have "\<not> a + 1 < 146096" using a div_pos_pos_trivial [of a 146096] div_pos_pos_trivial [of "a + 1" 146096] by auto
    with a have "a = 146095" by simp
    then show ?thesis by simp
  qed
  then show ?thesis unfolding year_of_def by (rule zdiv_mono1) simp
qed

lemma year_of_mono: "0 \<le> a \<Longrightarrow> a \<le> b \<Longrightarrow> b \<le> 146096 \<Longrightarrow> year_of a \<le> year_of b"
proof (induction "nat (b - a)" arbitrary: b)
  case (Suc n)
  then have "year_of a \<le> year_of (b - 1)" by (intro Suc.hyps(1)) auto
  moreover have "year_of (b - 1) \<le> year_of b" using year_of_step [of "b - 1"] Suc by simp
  ultimately show ?case by simp
qed auto

lemma years_before_mono: "a \<le> b \<Longrightarrow> years_before a \<le> years_before b"
proof -
  assume "a \<le> b"
  then have "a div 4 \<le> b div 4" "a div 400 \<le> b div 400" "365 * a - a div 100 \<le> 365 * b - b div 100"
    by (simp_all add: zdiv_mono1)
  then show ?thesis by (simp add: years_before_def)
qed

lemma era_year:
  assumes "0 \<le> y" "y \<le> 399"
  shows "year_of (years_before y) = y" "year_of (years_before (y + 1) - 1) = y"
    "years_before (y + 1) - years_before y = (if year_leap y then 366 else 365)"
  using year_bounds_check assms by (auto simp: list_all_iff)

lemma year_of_iff:
  assumes y: "0 \<le> y" "y \<le> 399" and d: "years_before y \<le> doe" "doe < years_before (y + 1)"
  shows "year_of doe = y"
proof -
  have "0 \<le> years_before y" using years_before_mono [OF y(1)] by (simp add: years_before_def)
  moreover have "years_before (y + 1) \<le> 146097"
    using years_before_mono [of "y + 1" 400] y by (simp add: years_before_def)
  ultimately show ?thesis
    using year_of_mono [of "years_before y" doe] year_of_mono [of doe "years_before (y + 1) - 1"]
      era_year(1,2) [OF y] d by simp
qed

lemma year_exists:
  assumes "0 \<le> doe" "doe < 146097"
  shows "\<exists>y. 0 \<le> y \<and> y \<le> 399 \<and> years_before y \<le> doe \<and> doe < years_before (y + 1)"
proof -
  have "\<exists>k. doe < years_before (int k)"
    using assms by (intro exI [of _ 400]) (simp add: years_before_def)
  define k where "k = (LEAST k. doe < years_before (int k))"
  have k: "doe < years_before (int k)" unfolding k_def by (rule LeastI_ex) fact
  have le: "k \<le> 400" unfolding k_def
    by (rule Least_le) (use assms in \<open>simp add: years_before_def\<close>)
  have "k \<noteq> 0" using k assms by (auto simp: years_before_def intro!: Nat.gr0I)
  then obtain j where j: "k = Suc j" by (cases k) auto
  then have "\<not> doe < years_before (int j)" using not_less_Least [of j "\<lambda>k. doe < years_before (int k)"] k_def by simp
  with k le j show ?thesis by (intro exI [of _ "int j"]) (simp add: add.commute)
qed

lemma month_facts:
  assumes "0 \<le> i" "i \<le> 365"
  shows "1 \<le> month_of i" "month_of i \<le> 12" "1 \<le> day_of i"
    "month_of i = 2 \<Longrightarrow> 337 \<le> i \<and> day_of i = i - 336"
    "i < 364 \<Longrightarrow> day_of i < month_length 1 (month_of i) \<Longrightarrow>
       month_of (i + 1) = month_of i \<and> day_of (i + 1) = day_of i + 1"
    "i < 364 \<Longrightarrow> \<not> day_of i < month_length 1 (month_of i) \<Longrightarrow>
       day_of i = month_length 1 (month_of i) \<and> day_of (i + 1) = 1 \<and>
       month_of (i + 1) = (if month_of i = 12 then 1 else month_of i + 1)"
  using month_check assms by (auto simp: list_all_iff split: if_splits)

subsection \<open>The code against the calendar\<close>

text \<open>The era, the year and the day of a day number, and the date the code gives it.\<close>

definition date_split :: "int \<Rightarrow> int \<Rightarrow> int \<Rightarrow> int \<Rightarrow> bool" where
  "date_split z era y doy \<longleftrightarrow>
     z + 719468 = 146097 * era + years_before y + doy \<and> 0 \<le> y \<and> y \<le> 399 \<and> 0 \<le> doy \<and>
     doy < (if year_leap y then 366 else 365)"

lemma date_split_exists: "\<exists>era y doy. date_split z era y doy"
proof -
  let ?x = "z + 719468"
  have "0 \<le> ?x mod 146097" "?x mod 146097 < 146097" by simp_all
  from year_exists [OF this] obtain y where y: "0 \<le> y" "y \<le> 399"
    and b: "years_before y \<le> ?x mod 146097" "?x mod 146097 < years_before (y + 1)" by blast
  have "?x = 146097 * (?x div 146097) + years_before y + (?x mod 146097 - years_before y)" by simp
  with y b era_year(3) [OF y] show ?thesis
    by (intro exI [of _ "?x div 146097"] exI [of _ y] exI [of _ "?x mod 146097 - years_before y"])
       (auto simp: date_split_def)
qed

lemma date_split_civil:
  assumes sp: "date_split z era y doy"
  shows "civil_from_days z = date_at era y doy"
proof -
  let ?doe = "years_before y + doy"
  have y: "0 \<le> y" "y \<le> 399" and d: "0 \<le> doy" "?doe < years_before (y + 1)"
    using sp era_year(3) [of y] by (auto simp: date_split_def)
  have nn: "0 \<le> years_before y" using years_before_mono [OF y(1)] by (simp add: years_before_def)
  have lt: "?doe < 146097" using d years_before_mono [of "y + 1" 400] y by (simp add: years_before_def)
  have x: "z + 719468 = ?doe + era * 146097" using sp by (simp add: date_split_def algebra_simps)
  have era: "(z + 719468) div 146097 = era" using x nn lt d by (simp add: div_pos_pos_trivial)
  have doe: "z + 719468 - era * 146097 = ?doe" using x by simp
  have le: "?doe div 1460 \<le> ?doe" using nn d by (intro order_trans [OF zdiv_mono2 [of ?doe 1 1460]]) simp_all
  have yoe: "(?doe - ?doe sdiv 1460 + ?doe sdiv 36524 - ?doe sdiv 146096) sdiv 365 = y"
  proof -
    have "?doe div 146096 \<le> ?doe div 36524" using nn d by (simp add: zdiv_mono2)
    with le nn d have "0 \<le> ?doe - ?doe div 1460 + ?doe div 36524 - ?doe div 146096" by linarith
    then show ?thesis
      using year_of_iff [OF y _ d(2)] nn d by (simp add: sdiv_div year_of_def)
  qed
  have doy: "?doe - (365 * y + y sdiv 4 - y sdiv 100) = doy"
    using y by (simp add: sdiv_div years_before_def div_pos_pos_trivial)
  have mp: "(5 * doy + 2) sdiv 153 = (5 * doy + 2) div 153" using d by (simp add: sdiv_div)
  have nmp: "0 \<le> (5 * doy + 2) div 153" using d by (simp add: pos_imp_zdiv_nonneg_iff)
  show ?thesis
    unfolding civil_from_days_def Let_def era_div era doe yoe doy mp
    using nmp by (simp add: date_at_def month_of_def day_of_def Let_def sdiv_div algebra_simps)
qed

lemma leap_era: "0 \<le> y \<Longrightarrow> y \<le> 399 \<Longrightarrow> leap_year (y + 400 * era + 1) = year_leap y"
proof -
  assume y: "0 \<le> y" "y \<le> 399"
  have m: "(y + 400 * era + 1) mod 4 = (y + 1) mod 4" "(y + 400 * era + 1) mod 100 = (y + 1) mod 100"
    "(y + 400 * era + 1) mod 400 = (y + 1) mod 400"
    by (simp_all add: mod_add_cong mod_eq_dvd_iff)
  have "(y + 1) mod 400 = 0 \<longleftrightarrow> y = 399" using y by (cases "y = 399") (simp_all add: mod_pos_pos_trivial)
  then show ?thesis by (simp add: leap_year_def year_leap_def m)
qed

lemma month_length_cong: "m \<noteq> 2 \<Longrightarrow> month_length y m = month_length 1 m"
  by (simp add: month_length_def)

lemma month_length_1_Feb: "month_length 1 2 = 28"
  by (simp add: month_length_def leap_year_def)

lemma date_at_valid:
  assumes sp: "date_split z era y doy"
  shows "valid_date (date_at era y doy)"
proof -
  have d: "0 \<le> doy" "doy \<le> 365" "doy = 365 \<Longrightarrow> year_leap y" and y: "0 \<le> y" "y \<le> 399"
    using sp by (auto simp: date_split_def split: if_splits)
  note mf = month_facts [OF d(1,2)]
  show ?thesis
  proof (cases "month_of doy = 2")
    case True
    have "doy \<le> (if year_leap y then 365 else 364)" using d by (cases "doy = 365") auto
    then show ?thesis using True mf(3,4) leap_era [OF y, of era]
      by (auto simp: valid_date_def date_at_def month_length_def split: if_splits)
  next
    case False
    have "doy \<noteq> 364" "doy \<noteq> 365" using False month_ends by auto
    then have "doy < 364" using d by simp
    then have "day_of doy \<le> month_length 1 (month_of doy)" using mf(6) by linarith
    moreover obtain l where "month_length y' (month_of doy) = l" for y'
      using month_length_cong [OF False] by blast
    ultimately show ?thesis using mf(1-3) by (simp add: valid_date_def date_at_def)
  qed
qed

lemma date_at_next:
  assumes sp: "date_split z era y doy" and last: "doy + 1 < (if year_leap y then 366 else 365)"
  shows "next_date (date_at era y doy) = date_at era y (doy + 1)"
proof -
  have d: "0 \<le> doy" "doy \<le> 364" "doy = 364 \<Longrightarrow> year_leap y" and y: "0 \<le> y" "y \<le> 399"
    using sp last by (auto simp: date_split_def split: if_splits)
  show ?thesis
  proof (cases "doy = 364")
    case True
    then show ?thesis using d leap_era [OF y, of era] month_ends
      by (simp add: next_date_def date_at_def month_length_def)
  next
    case False
    then have lt: "doy < 364" using d by simp
    note mf = month_facts [OF d(1)]
    have d': "doy \<le> 365" using d by simp
    show ?thesis
    proof (cases "month_of doy = 2")
      case True
      then have day: "day_of doy < 28" using mf(4) [OF d'] lt by simp
      then have "month_of (doy + 1) = 2 \<and> day_of (doy + 1) = day_of doy + 1"
        using mf(5) [OF d' lt] True by (simp add: month_length_1_Feb)
      with True day show ?thesis by (simp add: next_date_def date_at_def month_length_def)
    next
      case m: False
      obtain l where ml: "month_length y' (month_of doy) = l" for y'
        using month_length_cong [OF m] by blast
      show ?thesis
      proof (cases "day_of doy < month_length 1 (month_of doy)")
        case True
        with mf(5) [OF d' lt] show ?thesis by (simp add: next_date_def date_at_def ml)
      next
        case False
        note e = mf(6) [OF d' lt False]
        have le: "month_of doy \<le> 2 \<longleftrightarrow> month_of doy + 1 \<le> 2" using m by auto
        show ?thesis
        proof (cases "month_of doy = 12")
          case True
          have "month_length y' 12 = l" for y' using ml [of y'] True by simp
          with e True show ?thesis by (simp add: next_date_def date_at_def)
        next
          case not12: False
          then have "month_of doy < 12" using mf(2) [OF d'] by simp
          with e False not12 le show ?thesis by (simp add: next_date_def date_at_def ml)
        qed
      qed
    qed
  qed
qed

lemma date_split_next:
  assumes sp: "date_split z era y doy"
  shows "if doy + 1 < (if year_leap y then 366 else 365) then date_split (z + 1) era y (doy + 1)
    else if y < 399 then date_split (z + 1) era (y + 1) 0 else date_split (z + 1) (era + 1) 0 0"
proof -
  have y: "0 \<le> y" "y \<le> 399" using sp by (auto simp: date_split_def)
  have "years_before 400 = 146097" "years_before 0 = 0" by (simp_all add: years_before_def)
  then show ?thesis using sp era_year(3) [OF y] by (cases "y = 399") (auto simp: date_split_def)
qed

lemma date_at_new_year:
  assumes sp: "date_split z era y doy" and last: "\<not> doy + 1 < (if year_leap y then 366 else 365)"
  shows "next_date (date_at era y doy) = (y + 400 * era + 1, 3, 1)"
proof -
  have y: "0 \<le> y" "y \<le> 399" and d: "doy = (if year_leap y then 365 else 364)"
    using sp last by (auto simp: date_split_def split: if_splits)
  then show ?thesis using leap_era [OF y, of era] month_ends
    by (simp add: next_date_def date_at_def month_length_def)
qed

lemma civil_next: "civil_from_days (z + 1) = next_date (civil_from_days z)"
proof -
  obtain era y doy where sp: "date_split z era y doy" using date_split_exists by blast
  note nx = date_split_next [OF sp]
  show ?thesis
  proof (cases "doy + 1 < (if year_leap y then 366 else 365)")
    case True
    with nx have "date_split (z + 1) era y (doy + 1)" by simp
    then show ?thesis
      by (simp add: date_split_civil [OF sp] date_at_next [OF sp True] date_split_civil)
  next
    case False
    then consider "date_split (z + 1) era (y + 1) 0" | "y = 399" "date_split (z + 1) (era + 1) 0 0"
      using nx sp by (auto simp: date_split_def split: if_splits)
    then have "civil_from_days (z + 1) = (y + 400 * era + 1, 3, 1)"
    proof cases
      case 1
      from date_split_civil [OF this] show ?thesis by (simp add: date_at_def month_ends)
    next
      case 2
      from date_split_civil [OF this(2)] 2(1) show ?thesis by (simp add: date_at_def month_ends)
    qed
    then show ?thesis by (simp only: date_split_civil [OF sp] date_at_new_year [OF sp False])
  qed
qed

lemma civil_valid: "valid_date (civil_from_days z)"
  using date_split_exists [of z] date_at_valid date_split_civil by metis

subsection \<open>Partitions\<close>

text \<open>A later day has a later date, so the date names the day.\<close>

lemma next_date_less: "valid_date c \<Longrightarrow> c < next_date c"
  by (auto simp: valid_date_def next_date_def split: prod.splits)

lemma civil_strict_mono: "a < b \<Longrightarrow> civil_from_days a < civil_from_days b"
proof (induction "nat (b - a)" arbitrary: b)
  case (Suc n)
  have step: "civil_from_days (b - 1) < civil_from_days b"
    using civil_next [of "b - 1"] next_date_less [OF civil_valid, of "b - 1"] by simp
  show ?case
  proof (cases "a = b - 1")
    case False
    with Suc have "civil_from_days a < civil_from_days (b - 1)" by (intro Suc.hyps(1)) auto
    with step show ?thesis by (rule less_trans [rotated])
  qed (use step in simp)
qed simp

lemma civil_inject [simp]: "civil_from_days a = civil_from_days b \<longleftrightarrow> a = b"
  using civil_strict_mono [of a b] civil_strict_mono [of b a] by (metis less_irrefl linorder_less_linear)

lemma i64_day: "i64_ok t \<Longrightarrow> - 106752 \<le> t div NANOS_PER_DAY \<and> t div NANOS_PER_DAY \<le> 106751"
  unfolding i64_ok_def i64_min_def i64_max_def NANOS_PER_DAY_def by auto

lemma civil_mono: "a \<le> b \<Longrightarrow> civil_from_days a \<le> civil_from_days b"
  using civil_strict_mono [of a b] by (cases "a = b") auto

lemma civil_year:
  assumes "i64_ok t" "civil_from_days (t div NANOS_PER_DAY) = (y, m, d)"
  shows "1677 \<le> y" "y \<le> 2262"
proof -
  have "civil_from_days (- 106752) = (1677, 9, 21)" "civil_from_days 106751 = (2262, 4, 11)"
    by code_simp+
  then show "1677 \<le> y" "y \<le> 2262"
    using i64_day [OF assms(1)] civil_mono [of "- 106752" "t div NANOS_PER_DAY"]
      civil_mono [of "t div NANOS_PER_DAY" 106751] assms(2) by auto
qed

lemma show_pad_inject [simp]:
  "2 \<le> b \<Longrightarrow> b \<le> 16 \<Longrightarrow> show_pad b w i = show_pad b w' j \<longleftrightarrow> i = j \<and> show_pad b w i = show_pad b w' i"
  by (metis option.inject radix_parse_pad)

lemma show_pad_no: "c \<notin> set digit_chars \<Longrightarrow> c \<notin> set (show_pad b w n)"
  using show_pad_chars by blast

lemma date_chars: "CHR ''-'' \<notin> set digit_chars" "CHR ''/'' \<notin> set digit_chars"
  by (simp_all add: digit_chars_def)

lemma utc_date_string_split:
  assumes "i64_ok t" "civil_from_days (t div NANOS_PER_DAY) = (y, m, d)"
  shows "split_on (CHR ''-'') (utc_date_string t) =
      [show_pad 10 4 (nat y), show_pad 10 2 (nat m), show_pad 10 2 (nat d)]"
proof -
  have "utc_date_string t =
      show_pad 10 4 (nat y) @ CHR ''-'' # show_pad 10 2 (nat m) @ CHR ''-'' # show_pad 10 2 (nat d)"
    using civil_year [OF assms] assms(2) by (simp add: utc_date_string_def show_pad_int_def)
  then show ?thesis by (simp add: show_pad_no date_chars)
qed

lemma utc_date_string_inject:
  assumes "i64_ok s" "i64_ok t"
  shows "utc_date_string s = utc_date_string t \<longleftrightarrow> s div NANOS_PER_DAY = t div NANOS_PER_DAY"
proof
  assume eq: "utc_date_string s = utc_date_string t"
  obtain y m d y' m' d' where c: "civil_from_days (s div NANOS_PER_DAY) = (y, m, d)"
    "civil_from_days (t div NANOS_PER_DAY) = (y', m', d')" by (metis prod_cases3)
  have "nat y = nat y'" "nat m = nat m'" "nat d = nat d'"
    using utc_date_string_split [OF assms(1) c(1)] utc_date_string_split [OF assms(2) c(2)] eq by auto
  moreover have "0 \<le> y" "0 \<le> y'" using civil_year [OF assms(1) c(1)] civil_year [OF assms(2) c(2)] by auto
  moreover have "0 \<le> m" "0 \<le> m'" "0 \<le> d" "0 \<le> d'"
    using civil_valid [of "s div NANOS_PER_DAY"] civil_valid [of "t div NANOS_PER_DAY"] c
    by (auto simp: valid_date_def)
  ultimately show "s div NANOS_PER_DAY = t div NANOS_PER_DAY"
    using c by (metis civil_inject eq_nat_nat_iff)
qed (simp add: utc_date_string_def)

lemma utc_date_string_chars: "CHR ''/'' \<notin> set (utc_date_string t)"
  by (auto simp: utc_date_string_def show_pad_int_def Let_def show_pad_no date_chars split: prod.splits)

lemma table_as_str_no_slash: "CHR ''/'' \<notin> set (table_as_str t)"
  by (cases t) simp_all

lemma day_of_segment_path: "day_of_path (segment_rel_path (table_as_str t) mt now sq) = utc_date_string mt"
proof -
  have "split_on (CHR ''/'') (segment_rel_path (table_as_str t) mt now sq) =
      table_as_str t # utc_date_string mt # [show_pad 10 20 now @ ''-'' @ show_pad 10 6 sq @ ''.parquet'']"
    unfolding segment_rel_path_def
    using utc_date_string_chars [of mt] table_as_str_no_slash [of t] show_pad_no [OF date_chars(2)]
    by (simp add: split_on_append)
  then show ?thesis by (simp add: day_of_path_def)
qed

text \<open>C40: \<open>civil_from_days\<close> is the Gregorian calendar: day 0 is 1 January 1970, every
  day number gets a valid date, the next day number the date that follows it in the calendar, and no
  two day numbers share a date.\<close>

theorem civil_calendar:
  "civil_from_days 0 = (1970, 1, 1) \<and> valid_date (civil_from_days z) \<and>
   civil_from_days (z + 1) = next_date (civil_from_days z) \<and>
   (civil_from_days z = civil_from_days z' \<longleftrightarrow> z = z')"
proof -
  have "civil_from_days 0 = (1970, 1, 1)" by code_simp
  then show ?thesis by (simp add: civil_valid civil_next)
qed

text \<open>The day partition read back from the path of a segment is the date of its first
  row, and two segments are in the same partition exactly when their first rows are on the same UTC
  day, for every timestamp an \<open>i64\<close> of nanoseconds can hold, before 1970 too.\<close>

theorem day_partition:
  assumes "i64_ok a" "i64_ok b"
  shows "day_of_path (segment_rel_path (table_as_str t) a now sq) = utc_date_string a \<and>
    (day_of_path (segment_rel_path (table_as_str t) a now sq) =
       day_of_path (segment_rel_path (table_as_str t') b now' sq') \<longleftrightarrow>
     a div 86400000000000 = b div 86400000000000)"
  using utc_date_string_inject [OF assms] by (simp add: day_of_segment_path NANOS_PER_DAY_def)

theorem day_partition_witness:
  "day_of_path (segment_rel_path ''logs'' (- 1) 5 0) = ''1969-12-31'' \<and>
   day_of_path (segment_rel_path ''logs'' (- 1) 5 0) \<noteq> day_of_path (segment_rel_path ''spans'' 0 5 1)"
proof -
  have ok: "i64_ok (- 1)" "i64_ok 0" by (simp_all add: i64_ok_def i64_min_def i64_max_def)
  have "utc_date_string (- 1) = ''1969-12-31''" by code_simp
  then show ?thesis using day_partition [OF ok, of TLogs 5 0 TSpans 5 1] by auto
qed

end
