(* ===== verification/Storage_Buffer.thy ===== *)
theory Storage_Buffer
  imports Ingest_Queue Wal Pending Civil_Date
begin

text \<open>
  The in-memory half of the storage engine (\<open>crates/imbh-storage/src/lib.rs\<close>): the columnar
  buffers with their byte account, the routing of rows to tables, the segment lists, the batches an
  in-flight seal has taken, and the snapshot a query reads. An Arrow \<open>RecordBatch\<close> is the rows
  it was built from and the promoted keys in effect then; whether Arrow accepts a batch is a
  parameter.
\<close>

subsection \<open>Rows and batches\<close>

datatype row =
    LogRow log_row
  | SpanRow span_row
  | ScalarRow scalar_metric_row
  | HistogramRow histogram_row
  | ExpHistogramRow exp_histogram_row
  | SummaryRow summary_row

fun approx_bytes :: "row \<Rightarrow> nat" where
  "approx_bytes (LogRow r) = lr_approx_bytes r"
| "approx_bytes (SpanRow r) = sr_approx_bytes r"
| "approx_bytes (ScalarRow r) = sm_approx_bytes r"
| "approx_bytes (HistogramRow r) = hr_approx_bytes r"
| "approx_bytes (ExpHistogramRow r) = er_approx_bytes r"
| "approx_bytes (SummaryRow r) = su_approx_bytes r"

text \<open>The column a table is sorted by: \<open>start_time\<close> for spans, \<open>time\<close> for the others.\<close>

fun row_time :: "row \<Rightarrow> int" where
  "row_time (LogRow r) = lr_time_unix_nano r"
| "row_time (SpanRow r) = sr_start_time_unix_nano r"
| "row_time (ScalarRow r) = sm_time_unix_nano r"
| "row_time (HistogramRow r) = hr_time_unix_nano r"
| "row_time (ExpHistogramRow r) = er_time_unix_nano r"
| "row_time (SummaryRow r) = su_time_unix_nano r"

record record_batch =
  rb_keys :: "string list"
  rb_rows :: "row list"

text \<open>What the engine calls of Arrow, Parquet and the index builder: whether a batch of these rows is
  accepted, concatenating and sorting batches, whether a Zstandard level is legal, what an
  \<open>ArrowWriter\<close> puts in its file when it is made, when it is given the batch and when it is
  closed, reading a file back, and building an index directory; and the clock as it reads when the
  segment of a sequence number is named.\<close>

datatype compression = CompressionNone | Lz4 | Zstd int

record arrow_env =
  accepts :: "string list \<Rightarrow> row list \<Rightarrow> bool"
  merge :: "record_batch list \<Rightarrow> record_batch option"
  zstd_ok :: "int \<Rightarrow> bool"
  pq_chunks :: "compression \<Rightarrow> string list \<Rightarrow> record_batch \<Rightarrow> bytes \<times> bytes \<times> bytes"
  pq_read :: "bytes \<Rightarrow> record_batch list option"
  sidecar :: "string \<Rightarrow> row list \<Rightarrow> world \<Rightarrow> (world, unit) outcome"
  clk :: "nat \<Rightarrow> nat"

definition arrow_str :: string where
  "arrow_str = ''Arrow failure''"

text \<open>\<open>rows_to_batch\<close> and its five siblings: the columns of the rows, then those of the promoted
  keys.\<close>

definition rows_to_batch ::
  "arrow_env \<Rightarrow> string \<Rightarrow> row list \<Rightarrow> string list \<Rightarrow> error + record_batch" where
  "rows_to_batch A what rows promote =
     (if accepts A promote rows then Inr \<lparr>rb_keys = promote, rb_rows = rows\<rparr>
      else Inl (build_batch_err what arrow_str))"

subsection \<open>The state behind the lock\<close>

record sealing_batches =
  sb_logs :: "record_batch list"
  sb_spans :: "record_batch list"
  sb_metrics :: "table \<rightharpoonup> record_batch list"
  sb_histogram :: "record_batch list"
  sb_exp_histogram :: "record_batch list"
  sb_summary :: "record_batch list"

record inner =
  buffer :: "record_batch list"
  segments :: "segment_ref list"
  spans_buffer :: "record_batch list"
  spans_segments :: "segment_ref list"
  metric_buffers :: "table \<rightharpoonup> record_batch list"
  metric_segments :: "table \<rightharpoonup> segment_ref list"
  histogram_buffer :: "record_batch list"
  exp_histogram_buffer :: "record_batch list"
  summary_buffer :: "record_batch list"
  buffer_bytes :: nat
  watermark :: nat
  buffer_max_lsn :: nat
  next_lsn :: nat
  pending_replay :: "wal_record list"
  last_append :: "nat option"
  sealing :: "(nat \<times> sealing_batches) list"
  next_seal_gen :: nat

definition inner_default :: inner where
  "inner_default =
     \<lparr>buffer = [], segments = [], spans_buffer = [], spans_segments = [], metric_buffers = Map.empty,
      metric_segments = Map.empty, histogram_buffer = [], exp_histogram_buffer = [], summary_buffer = [],
      buffer_bytes = 0, watermark = 0, buffer_max_lsn = 0, next_lsn = 0, pending_replay = [],
      last_append = None, sealing = [], next_seal_gen = 0\<rparr>"

text \<open>\<open>entry(t).or_default()\<close>, and the values of a \<open>BTreeMap<Table, _>\<close> in key order.\<close>

definition or_default :: "('k \<rightharpoonup> 'v list) \<Rightarrow> 'k \<Rightarrow> 'v list" where
  "or_default m k = (case m k of None \<Rightarrow> [] | Some xs \<Rightarrow> xs)"

definition entries :: "(table \<rightharpoonup> 'v) \<Rightarrow> (table \<times> 'v) list" where
  "entries m = List.map_filter (\<lambda>t. map_option (Pair t) (m t)) table_ALL"

subsection \<open>Pushing rows\<close>

definition charge :: "row list \<Rightarrow> inner \<Rightarrow> inner" where
  "charge rows inn = inn\<lparr>buffer_bytes := buffer_bytes inn + sum_list (map approx_bytes rows)\<rparr>"

text \<open>The common body of the five single-table pushes; \<open>put\<close> appends the batch to the table's
  buffer. The bytes are charged before the rows are encoded.\<close>

definition push_rows ::
  "arrow_env \<Rightarrow> string \<Rightarrow> (record_batch \<Rightarrow> inner \<Rightarrow> inner) \<Rightarrow> row list \<Rightarrow> string list \<Rightarrow> inner \<Rightarrow>
     (inner, unit) outcome" where
  "push_rows A what put rows promote inn =
     (if rows = [] then (Inr (), inn)
      else
        let inn = charge rows inn in
        case rows_to_batch A what rows promote of
          Inl e \<Rightarrow> (Inl e, inn)
        | Inr batch \<Rightarrow> (Inr (), put batch inn))"

definition push_log_batch ::
  "arrow_env \<Rightarrow> log_row list \<Rightarrow> string list \<Rightarrow> inner \<Rightarrow> (inner, unit) outcome" where
  "push_log_batch A rows = push_rows A ''logs'' (\<lambda>b inn. inn\<lparr>buffer := buffer inn @ [b]\<rparr>) (map LogRow rows)"

definition push_span_batch ::
  "arrow_env \<Rightarrow> span_row list \<Rightarrow> string list \<Rightarrow> inner \<Rightarrow> (inner, unit) outcome" where
  "push_span_batch A rows =
     push_rows A ''spans'' (\<lambda>b inn. inn\<lparr>spans_buffer := spans_buffer inn @ [b]\<rparr>) (map SpanRow rows)"

definition push_histogram_batch ::
  "arrow_env \<Rightarrow> histogram_row list \<Rightarrow> string list \<Rightarrow> inner \<Rightarrow> (inner, unit) outcome" where
  "push_histogram_batch A rows =
     push_rows A ''histogram'' (\<lambda>b inn. inn\<lparr>histogram_buffer := histogram_buffer inn @ [b]\<rparr>)
       (map HistogramRow rows)"

definition push_exp_histogram_batch ::
  "arrow_env \<Rightarrow> exp_histogram_row list \<Rightarrow> string list \<Rightarrow> inner \<Rightarrow> (inner, unit) outcome" where
  "push_exp_histogram_batch A rows =
     push_rows A ''exp-histogram'' (\<lambda>b inn. inn\<lparr>exp_histogram_buffer := exp_histogram_buffer inn @ [b]\<rparr>)
       (map ExpHistogramRow rows)"

definition push_summary_batch ::
  "arrow_env \<Rightarrow> summary_row list \<Rightarrow> string list \<Rightarrow> inner \<Rightarrow> (inner, unit) outcome" where
  "push_summary_batch A rows =
     push_rows A ''summary'' (\<lambda>b inn. inn\<lparr>summary_buffer := summary_buffer inn @ [b]\<rparr>) (map SummaryRow rows)"

text \<open>\<open>push_scalar_metric_batches\<close>: rows grouped by their table, each group encoded in table
  order.\<close>

definition by_table :: "scalar_metric_row list \<Rightarrow> (table \<times> scalar_metric_row list) list" where
  "by_table rows =
     filter (\<lambda>(t, g). g \<noteq> []) (map (\<lambda>t. (t, filter (\<lambda>r. sm_table r = t) rows)) table_ALL)"

fun push_groups ::
  "arrow_env \<Rightarrow> (table \<times> scalar_metric_row list) list \<Rightarrow> string list \<Rightarrow> inner \<Rightarrow>
     (inner, unit) outcome" where
  "push_groups A [] promote inn = (Inr (), inn)"
| "push_groups A ((t, g) # gs) promote inn =
     (case rows_to_batch A ''scalar-metric'' (map ScalarRow g) promote of
        Inl e \<Rightarrow> (Inl e, inn)
      | Inr b \<Rightarrow>
          push_groups A gs promote
            (inn\<lparr>metric_buffers := (metric_buffers inn)(t \<mapsto> or_default (metric_buffers inn) t @ [b])\<rparr>))"

definition push_scalar_metric_batches ::
  "arrow_env \<Rightarrow> scalar_metric_row list \<Rightarrow> string list \<Rightarrow> inner \<Rightarrow> (inner, unit) outcome" where
  "push_scalar_metric_batches A rows promote inn =
     push_groups A (by_table rows) promote (charge (map ScalarRow rows) inn)"

subsection \<open>Reading the buffers\<close>

definition buffered_rows :: "record_batch list \<Rightarrow> nat" where
  "buffered_rows bs = sum_list (map (\<lambda>b. length (rb_rows b)) bs)"

record flush_gauges =
  fg_buffer_bytes :: nat
  fg_buffer_rows :: nat
  fg_idle_for :: nat

text \<open>\<open>opened_at\<close> is when the handle opened and \<open>now\<close> the clock of the call.\<close>

definition flush_gauges :: "nat \<Rightarrow> nat \<Rightarrow> inner \<Rightarrow> flush_gauges" where
  "flush_gauges opened_at now inn =
     \<lparr>fg_buffer_bytes = buffer_bytes inn,
      fg_buffer_rows = buffered_rows (buffer inn) + buffered_rows (spans_buffer inn) +
        buffered_rows (histogram_buffer inn) + buffered_rows (exp_histogram_buffer inn) +
        buffered_rows (summary_buffer inn) + sum_list (map (\<lambda>(t, bs). buffered_rows bs) (entries (metric_buffers inn))),
      fg_idle_for = now - (case last_append inn of None \<Rightarrow> opened_at | Some t \<Rightarrow> t)\<rparr>"

definition SCALAR_METRIC_TABLES :: "table list" where
  "SCALAR_METRIC_TABLES = [TMetricsGauge, TMetricsSum]"

text \<open>\<open>query_snapshot\<close>: each table's batches, the live ones first, then those of every in-flight
  seal by generation, and the segment lists. \<open>concat_buffer\<close> is Arrow's concatenation, left to
  the reader of the snapshot.\<close>

record query_snapshot =
  qs_logs_buffer :: "record_batch list"
  qs_logs_segments :: "segment_ref list"
  qs_spans_buffer :: "record_batch list"
  qs_spans_segments :: "segment_ref list"
  qs_metric_buffers :: "table \<rightharpoonup> record_batch list"
  qs_histogram_buffer :: "record_batch list"
  qs_exp_histogram_buffer :: "record_batch list"
  qs_summary_buffer :: "record_batch list"
  qs_metric_segments :: "table \<rightharpoonup> segment_ref list"

definition unioned :: "inner \<Rightarrow> record_batch list \<Rightarrow> (sealing_batches \<Rightarrow> record_batch list) \<Rightarrow> record_batch list" where
  "unioned inn live pick = live @ concat (map (\<lambda>(g, sb). pick sb) (sealing inn))"

definition query_snapshot :: "inner \<Rightarrow> query_snapshot" where
  "query_snapshot inn =
     \<lparr>qs_logs_buffer = unioned inn (buffer inn) sb_logs, qs_logs_segments = segments inn,
      qs_spans_buffer = unioned inn (spans_buffer inn) sb_spans, qs_spans_segments = spans_segments inn,
      qs_metric_buffers = (\<lambda>t. if t \<in> set SCALAR_METRIC_TABLES
        then Some (unioned inn (or_default (metric_buffers inn) t) (\<lambda>sb. or_default (sb_metrics sb) t)) else None),
      qs_histogram_buffer = unioned inn (histogram_buffer inn) sb_histogram,
      qs_exp_histogram_buffer = unioned inn (exp_histogram_buffer inn) sb_exp_histogram,
      qs_summary_buffer = unioned inn (summary_buffer inn) sb_summary,
      qs_metric_segments = metric_segments inn\<rparr>"

subsection \<open>Taking and restoring batches\<close>

text \<open>The first critical section of \<open>seal\<close>: nothing when every buffer is empty; otherwise the
  buffers are moved out, staged under a new generation, and the watermark of the seal is the highest
  buffered sequence number.\<close>

record taken =
  tk_batches :: sealing_batches
  tk_bytes :: nat
  tk_watermark :: nat
  tk_gen :: nat

definition buffers_empty :: "inner \<Rightarrow> bool" where
  "buffers_empty inn \<longleftrightarrow>
     buffer inn = [] \<and> spans_buffer inn = [] \<and> list_all (\<lambda>(t, bs). bs = []) (entries (metric_buffers inn)) \<and>
     histogram_buffer inn = [] \<and> exp_histogram_buffer inn = [] \<and> summary_buffer inn = []"

definition seal_take :: "inner \<Rightarrow> taken option \<times> inner" where
  "seal_take inn =
     (if buffers_empty inn then (None, inn)
      else
        let sb = \<lparr>sb_logs = buffer inn, sb_spans = spans_buffer inn, sb_metrics = metric_buffers inn,
                  sb_histogram = histogram_buffer inn, sb_exp_histogram = exp_histogram_buffer inn,
                  sb_summary = summary_buffer inn\<rparr>;
            gen = next_seal_gen inn
        in (Some \<lparr>tk_batches = sb, tk_bytes = buffer_bytes inn, tk_watermark = buffer_max_lsn inn, tk_gen = gen\<rparr>,
            inn\<lparr>buffer_bytes := 0, buffer := [], spans_buffer := [], metric_buffers := Map.empty,
                histogram_buffer := [], exp_histogram_buffer := [], summary_buffer := [],
                next_seal_gen := gen + 1, sealing := AList.update gen sb (sealing inn)\<rparr>))"

definition prepend_front :: "'a list \<Rightarrow> 'a list \<Rightarrow> 'a list" where
  "prepend_front buf restored = restored @ buf"

text \<open>The error path of \<open>seal\<close>: every taken batch goes back in front of what arrived meanwhile.\<close>

definition restore_metrics :: "(table \<rightharpoonup> record_batch list) \<Rightarrow> (table \<rightharpoonup> record_batch list) \<Rightarrow> (table \<rightharpoonup> record_batch list)" where
  "restore_metrics taken_m m =
     (\<lambda>t. case taken_m t of None \<Rightarrow> m t | Some bs \<Rightarrow> Some (prepend_front (or_default m t) bs))"

definition seal_restore :: "taken \<Rightarrow> inner \<Rightarrow> inner" where
  "seal_restore tk inn =
     (let sb = tk_batches tk in
      inn\<lparr>buffer := prepend_front (buffer inn) (sb_logs sb),
          spans_buffer := prepend_front (spans_buffer inn) (sb_spans sb),
          metric_buffers := restore_metrics (sb_metrics sb) (metric_buffers inn),
          histogram_buffer := prepend_front (histogram_buffer inn) (sb_histogram sb),
          exp_histogram_buffer := prepend_front (exp_histogram_buffer inn) (sb_exp_histogram sb),
          summary_buffer := prepend_front (summary_buffer inn) (sb_summary sb),
          buffer_bytes := buffer_bytes inn + tk_bytes tk,
          sealing := AList.delete (tk_gen tk) (sealing inn)\<rparr>)"

text \<open>The last critical section of \<open>seal\<close>, up to the manifest: the new segments join the lists
  and the staged batches leave together.\<close>

type_synonym written = "segment_ref option \<times> segment_ref option \<times> (table \<times> segment_ref) list"

definition push_metric_seg :: "table \<times> segment_ref \<Rightarrow> (table \<rightharpoonup> segment_ref list) \<Rightarrow> (table \<rightharpoonup> segment_ref list)" where
  "push_metric_seg x m = (case x of (t, s) \<Rightarrow> m(t \<mapsto> or_default m t @ [s]))"

definition opt_list :: "'a option \<Rightarrow> 'a list" where
  "opt_list x = (case x of None \<Rightarrow> [] | Some a \<Rightarrow> [a])"

definition seal_register :: "taken \<Rightarrow> written \<Rightarrow> inner \<Rightarrow> inner" where
  "seal_register tk out inn =
     (case out of (logs_seg, spans_seg, metric_segs) \<Rightarrow>
       inn\<lparr>segments := segments inn @ opt_list logs_seg,
           spans_segments := spans_segments inn @ opt_list spans_seg,
           metric_segments := fold push_metric_seg metric_segs (metric_segments inn),
           sealing := AList.delete (tk_gen tk) (sealing inn),
           watermark := tk_watermark tk\<rparr>)"

definition seal_result :: "written \<Rightarrow> segment_ref option" where
  "seal_result out =
     (case out of (logs_seg, spans_seg, metric_segs) \<Rightarrow>
        case logs_seg of Some s \<Rightarrow> Some s | None \<Rightarrow>
        case spans_seg of Some s \<Rightarrow> Some s | None \<Rightarrow>
        case metric_segs of [] \<Rightarrow> None | (t, s) # r \<Rightarrow> Some s)"

definition manifest_view :: "inner \<Rightarrow> manifest" where
  "manifest_view inn =
     \<lparr>m_logs = segments inn, m_spans = spans_segments inn, m_metrics = metric_segments inn,
      m_watermark = watermark inn\<rparr>"

end
