(* ===== verification/Storage_Engine.thy ===== *)
theory Storage_Engine
  imports Storage_Buffer
begin

text \<open>
  The storage engine of \<open>crates/imbh-storage/src/lib.rs\<close> on its directory: live ingest through
  the write-ahead log, group commit, replay, the writing of segments, \<open>seal\<close> with its three
  critical sections, the promoted-key barrier, opening for writing and for reading, and the
  consistent disk snapshot of a reader.
\<close>

subsection \<open>The engine\<close>

text \<open>\<open>st_dir\<close> says whether there is a directory; an in-memory engine has none, and no log and no
  manifest writer.\<close>

record storage =
  st_dir :: bool
  st_compression :: compression
  st_wal_mode :: wal_mode
  st_retention :: retention
  promote :: "string list"
  seal_threshold_bytes :: nat
  opened_at :: nat
  st_seq :: nat
  durable_lsn :: nat
  st_wal :: "wal option"
  st_manifest :: "manifest_writer option"
  read_only :: bool
  st_inner :: inner

type_synonym engine = "storage \<times> world"

text \<open>Running an operation of the log or of the manifest writer, each behind its own lock.\<close>

definition with_wal :: "wal \<Rightarrow> (wal_state \<Rightarrow> (wal_state, 'a) outcome) \<Rightarrow> engine \<Rightarrow> (engine, 'a) outcome" where
  "with_wal l f e =
     (case f (l, snd e) of (res, l', w) \<Rightarrow> (res, (fst e)\<lparr>st_wal := Some l'\<rparr>, w))"

definition with_manifest ::
  "manifest_writer \<Rightarrow> (mw_state \<Rightarrow> (mw_state, 'a) outcome) \<Rightarrow> engine \<Rightarrow> (engine, 'a) outcome" where
  "with_manifest mw f e =
     (case f (mw, snd e) of (res, mw', w) \<Rightarrow> (res, (fst e)\<lparr>st_manifest := Some mw'\<rparr>, w))"

definition upd_inner :: "(inner \<Rightarrow> inner) \<Rightarrow> engine \<Rightarrow> engine" where
  "upd_inner f e = ((fst e)\<lparr>st_inner := f (st_inner (fst e))\<rparr>, snd e)"

text \<open>A push on the buffers of the engine.\<close>

definition push_inner :: "(inner \<Rightarrow> (inner, 'a) outcome) \<Rightarrow> engine \<Rightarrow> (engine, 'a) outcome" where
  "push_inner f e =
     (case f (st_inner (fst e)) of (res, inn) \<Rightarrow> (res, (fst e)\<lparr>st_inner := inn\<rparr>, snd e))"

definition fetch_max :: "nat \<Rightarrow> engine \<Rightarrow> engine" where
  "fetch_max l e = ((fst e)\<lparr>durable_lsn := max (durable_lsn (fst e)) l\<rparr>, snd e)"

subsection \<open>Ingest\<close>

text \<open>\<open>wal_append_assign\<close>: the sequence number is used up even when the append fails; the
  highest buffered one and the idle clock move only after it succeeded.\<close>

definition wal_append_assign ::
  "hash \<Rightarrow> nat \<Rightarrow> byte \<Rightarrow> bytes \<Rightarrow> bool \<Rightarrow> engine \<Rightarrow> (engine, nat \<times> bool) outcome" where
  "wal_append_assign h now sig raw sync_now e =
     (let lsn = next_lsn (st_inner (fst e));
          e = upd_inner (\<lambda>inn. inn\<lparr>next_lsn := lsn + 1\<rparr>) e;
          finish = (\<lambda>durable e. (Inr (lsn, durable),
             upd_inner (\<lambda>inn. inn\<lparr>buffer_max_lsn := lsn, last_append := Some now\<rparr>) e))
      in case st_wal (fst e) of
           None \<Rightarrow> finish False e
         | Some l \<Rightarrow>
             and_then id (with_wal l (wal_append h lsn sig raw) e) (\<lambda>_ e.
               if sync_now \<and> st_wal_mode (fst e) = WalAlways
               then and_then id (with_wal (the (st_wal (fst e))) wal_sync e) (\<lambda>_ e. finish True (fetch_max lsn e))
               else finish False e))"

definition storage_ingest ::
  "arrow_env \<Rightarrow> hash \<Rightarrow> nat \<Rightarrow> byte \<Rightarrow> bytes \<Rightarrow> log_row list \<Rightarrow> bool \<Rightarrow> engine \<Rightarrow> (engine, nat \<times> bool) outcome" where
  "storage_ingest A h now sig raw rows sync_now e =
     (if read_only (fst e) then (Inl read_only_err, e)
      else
        and_then id (wal_append_assign h now sig raw sync_now e) (\<lambda>r e.
        and_then id (push_inner (push_log_batch A rows (promote (fst e))) e) (\<lambda>_ e. (Inr r, e))))"

definition ingest_traces ::
  "arrow_env \<Rightarrow> hash \<Rightarrow> nat \<Rightarrow> bytes \<Rightarrow> span_row list \<Rightarrow> bool \<Rightarrow> engine \<Rightarrow> (engine, nat \<times> bool) outcome" where
  "ingest_traces A h now raw rows sync_now e =
     (if read_only (fst e) then (Inl read_only_err, e)
      else
        and_then id (wal_append_assign h now SIGNAL_TRACES raw sync_now e) (\<lambda>r e.
        and_then id (push_inner (push_span_batch A rows (promote (fst e))) e) (\<lambda>_ e. (Inr r, e))))"

definition push_metrics ::
  "arrow_env \<Rightarrow> scalar_metric_row list \<Rightarrow> histogram_row list \<Rightarrow> exp_histogram_row list \<Rightarrow> summary_row list \<Rightarrow>
     string list \<Rightarrow> inner \<Rightarrow> (inner, unit) outcome" where
  "push_metrics A rows hs es ss keys inn =
     and_then id (push_scalar_metric_batches A rows keys inn) (\<lambda>_ inn.
     and_then id (push_histogram_batch A hs keys inn) (\<lambda>_ inn.
     and_then id (push_exp_histogram_batch A es keys inn) (\<lambda>_ inn.
       push_summary_batch A ss keys inn)))"

definition ingest_metrics ::
  "arrow_env \<Rightarrow> hash \<Rightarrow> nat \<Rightarrow> bytes \<Rightarrow> scalar_metric_row list \<Rightarrow> histogram_row list \<Rightarrow> exp_histogram_row list \<Rightarrow>
     summary_row list \<Rightarrow> bool \<Rightarrow> engine \<Rightarrow> (engine, nat \<times> bool) outcome" where
  "ingest_metrics A h now raw rows hs es ss sync_now e =
     (if read_only (fst e) then (Inl read_only_err, e)
      else
        and_then id (wal_append_assign h now SIGNAL_METRICS raw sync_now e) (\<lambda>r e.
        and_then id (push_inner (push_metrics A rows hs es ss (promote (fst e))) e) (\<lambda>_ e. (Inr r, e))))"

text \<open>\<open>process_ingest_job\<close> of \<open>crates/imbh/src/lib.rs\<close>, with the \<open>sync_now\<close> of its
  caller: the worker passes false and the inline paths true.\<close>

definition process_ingest_job ::
  "arrow_env \<Rightarrow> hash \<Rightarrow> nat \<Rightarrow> bool \<Rightarrow> ingest_job \<Rightarrow> engine \<Rightarrow> (engine, nat \<times> bool) outcome" where
  "process_ingest_job A h now sync_now j e =
     (case j of
        JLogs raw rows \<Rightarrow> storage_ingest A h now SIGNAL_LOGS raw rows sync_now e
      | JTraces raw rows \<Rightarrow> ingest_traces A h now raw rows sync_now e
      | JMetrics raw rows hs es ss \<Rightarrow> ingest_metrics A h now raw rows hs es ss sync_now e)"

text \<open>\<open>sync_wal\<close> and \<open>group_commit\<close>: what is advertised is read before the flush.\<close>

definition sync_wal :: "engine \<Rightarrow> (engine, unit) outcome" where
  "sync_wal e =
     (case st_wal (fst e) of
        None \<Rightarrow> (Inr (), e)
      | Some l \<Rightarrow>
          let mx = buffer_max_lsn (st_inner (fst e))
          in and_then id (with_wal l wal_sync e) (\<lambda>_ e. (Inr (), fetch_max mx e)))"

definition group_commit :: "engine \<Rightarrow> (engine, unit) outcome" where
  "group_commit e = (if st_wal_mode (fst e) = WalAlways then sync_wal e else (Inr (), e))"

definition durable_through :: "storage \<Rightarrow> nat option" where
  "durable_through s = (if durable_lsn s = 0 then None else Some (durable_lsn s))"

subsection \<open>Replay\<close>

text \<open>\<open>replay\<close> and its siblings: the rows go to the buffer and the sequence numbers advance. The
  encoding does not fail (\<open>expect\<close>): a panic is the value \<open>None\<close>.\<close>

definition replay_with :: "(string list \<Rightarrow> inner \<Rightarrow> (inner, unit) outcome) \<Rightarrow> nat \<Rightarrow> engine \<Rightarrow> engine option" where
  "replay_with push l e =
     (case push (promote (fst e)) (st_inner (fst e)) of
        (Inl err, inn) \<Rightarrow> None
      | (Inr u, inn) \<Rightarrow>
          Some ((fst e)\<lparr>st_inner := inn\<lparr>buffer_max_lsn := max (buffer_max_lsn inn) l,
                                       next_lsn := max (next_lsn inn) (l + 1)\<rparr>\<rparr>, snd e))"

definition storage_replay :: "arrow_env \<Rightarrow> nat \<Rightarrow> log_row list \<Rightarrow> engine \<Rightarrow> engine option" where
  "storage_replay A l rows = replay_with (push_log_batch A rows) l"

definition replay_traces :: "arrow_env \<Rightarrow> nat \<Rightarrow> span_row list \<Rightarrow> engine \<Rightarrow> engine option" where
  "replay_traces A l rows = replay_with (push_span_batch A rows) l"

definition replay_metrics :: "arrow_env \<Rightarrow> nat \<Rightarrow> scalar_metric_row list \<Rightarrow> engine \<Rightarrow> engine option" where
  "replay_metrics A l rows = replay_with (push_scalar_metric_batches A rows) l"

definition replay_histograms :: "arrow_env \<Rightarrow> nat \<Rightarrow> histogram_row list \<Rightarrow> engine \<Rightarrow> engine option" where
  "replay_histograms A l rows = replay_with (push_histogram_batch A rows) l"

definition replay_exp_histograms :: "arrow_env \<Rightarrow> nat \<Rightarrow> exp_histogram_row list \<Rightarrow> engine \<Rightarrow> engine option" where
  "replay_exp_histograms A l rows = replay_with (push_exp_histogram_batch A rows) l"

definition replay_summaries :: "arrow_env \<Rightarrow> nat \<Rightarrow> summary_row list \<Rightarrow> engine \<Rightarrow> engine option" where
  "replay_summaries A l rows = replay_with (push_summary_batch A rows) l"

definition take_pending_replay :: "engine \<Rightarrow> wal_record list \<times> engine" where
  "take_pending_replay e =
     (pending_replay (st_inner (fst e)), upd_inner (\<lambda>inn. inn\<lparr>pending_replay := []\<rparr>) e)"

subsection \<open>Paths\<close>

text \<open>\<open>Path::extension\<close> and \<open>Path::with_extension\<close>: what follows the last dot of the file
  name, unless the name starts with it.\<close>

definition file_name :: "string \<Rightarrow> string" where
  "file_name p = last (split_on (CHR ''/'') p)"

definition split_ext :: "string \<Rightarrow> string \<times> string option" where
  "split_ext p =
     (let n = file_name p;
          ext = rev (takeWhile (\<lambda>c. c \<noteq> CHR ''.'') (rev n));
          stem = butlast (rev (dropWhile (\<lambda>c. c \<noteq> CHR ''.'') (rev n)))
      in if CHR ''.'' \<in> set n \<and> stem \<noteq> [] then (take (length p - length n) p @ stem, Some ext) else (p, None))"

definition extension :: "string \<Rightarrow> string" where
  "extension p = (case snd (split_ext p) of None \<Rightarrow> [] | Some e \<Rightarrow> e)"

definition with_extension :: "string \<Rightarrow> string \<Rightarrow> string" where
  "with_extension p e = fst (split_ext p) @ ''.'' @ e"

definition parent_dir :: "string \<Rightarrow> string" where
  "parent_dir p = take (length p - length (file_name p) - 1) p"

subsection \<open>Writing a segment\<close>

text \<open>\<open>sync_all\<close> on a directory below the root makes the entries in it durable.\<close>

definition fs_sync_subdir :: "string \<Rightarrow> world \<Rightarrow> bool \<times> world" where
  "fs_sync_subdir d w =
     (case next_fault w of
        Some k \<Rightarrow> (False, tick w)
      | None \<Rightarrow>
          (True, (tick w)\<lparr>files := map (\<lambda>(p, f). (p, if parent_dir p = d then f\<lparr>linked := True\<rparr> else f)) (files w)\<rparr>))"

definition zstd_level :: "arrow_env \<Rightarrow> compression \<Rightarrow> world \<Rightarrow> (world, unit) outcome" where
  "zstd_level A cmp w =
     (case cmp of
        Zstd level \<Rightarrow> (if zstd_ok A level then Inr () else Inl (invalid_zstd_level level arrow_str), w)
      | _ \<Rightarrow> (Inr (), w))"

definition write_parquet ::
  "arrow_env \<Rightarrow> record_batch \<Rightarrow> string \<Rightarrow> compression \<Rightarrow> string list \<Rightarrow> world \<Rightarrow> (world, unit) outcome" where
  "write_parquet A batch path cmp bloom w =
     (case pq_chunks A cmp bloom batch of (start, body, footer) \<Rightarrow>
      and_then id (zstd_level A cmp w) (\<lambda>_ w.
      and_then id (io_try (storage_io None io_str) (fs_create path w)) (\<lambda>_ w.
      and_then id (io_try (parquet_err ParquetWriter io_str) (fs_write_all path start w)) (\<lambda>_ w.
      and_then id (io_try (parquet_err ParquetWrite io_str) (fs_write_all path body w)) (\<lambda>_ w.
      and_then id (io_try (parquet_err ParquetClose io_str) (fs_write_all path footer w)) (\<lambda>_ w.
        io_try (parquet_err ParquetFsync io_str) (fs_sync path w)))))))"

definition bloom_columns :: "string \<Rightarrow> string list" where
  "bloom_columns t = (if t = table_as_str TSpans then [''trace_id'', ''span_id''] else [])"

text \<open>\<open>write_segment_parquet\<close>; the sequence number is used up whatever happens.\<close>

definition segment_path :: "arrow_env \<Rightarrow> string \<Rightarrow> int \<Rightarrow> nat \<Rightarrow> string" where
  "segment_path A t min_time sq = segment_rel_path t min_time (clk A sq) sq"

definition write_segment_parquet ::
  "arrow_env \<Rightarrow> string \<Rightarrow> int \<Rightarrow> record_batch \<Rightarrow> engine \<Rightarrow> (engine, string) outcome" where
  "write_segment_parquet A t min_time batch e =
     (let sq = st_seq (fst e);
          s = (fst e)\<lparr>st_seq := wadd_u64 sq 1\<rparr>;
          path = segment_path A t min_time sq;
          tmp = with_extension path ''tmp''
      in and_then (Pair s) (io_try (storage_io None io_str) (fs_create_dir_all (snd e))) (\<lambda>_ w.
         and_then (Pair s) (write_parquet A batch tmp (st_compression s) (bloom_columns t) w) (\<lambda>_ w.
         and_then (Pair s) (io_try (storage_io None io_str) (fs_rename tmp path w)) (\<lambda>_ w.
         and_then (Pair s) (io_try (storage_io (Some (parent_dir path)) io_str) (fs_sync_subdir (parent_dir path) w)) (\<lambda>_ w.
           (Inr path, s, w))))))"

text \<open>\<open>concat_and_sort\<close>: Arrow's concatenation, sort and gather in one parameter; any of them may
  fail.\<close>

definition concat_and_sort :: "arrow_env \<Rightarrow> record_batch list \<Rightarrow> error + record_batch" where
  "concat_and_sort A bs = ok_or (storage_ctx ''concat segments'' arrow_str) (merge A bs)"

definition time_bounds :: "record_batch \<Rightarrow> int \<times> int" where
  "time_bounds b =
     (if rb_rows b = [] then (0, 0) else (row_time (hd (rb_rows b)), row_time (last (rb_rows b))))"

text \<open>The bounds of a spans segment: the first start, and the latest
  \<open>start.saturating_add(duration as i64)\<close>.\<close>

fun span_end :: "row \<Rightarrow> int" where
  "span_end (SpanRow r) = sat_i64 (sr_start_time_unix_nano r + as_i64 (int (sr_duration_ns r)))"
| "span_end r = row_time r"

definition spans_bounds :: "record_batch \<Rightarrow> int \<times> int" where
  "spans_bounds b =
     (if rb_rows b = [] then (0, 0)
      else (row_time (hd (rb_rows b)), Max (set (map span_end (rb_rows b)))))"

definition segment_of :: "string \<Rightarrow> int \<times> int \<Rightarrow> record_batch \<Rightarrow> segment_ref" where
  "segment_of path bounds b =
     \<lparr>relative_path = path, min_time_unix_nano = fst bounds, max_time_unix_nano = snd bounds,
      seg_rows = length (rb_rows b)\<rparr>"

definition write_metric_segment :: "arrow_env \<Rightarrow> table \<Rightarrow> record_batch \<Rightarrow> engine \<Rightarrow> (engine, segment_ref) outcome" where
  "write_metric_segment A t b e =
     (let bounds = time_bounds b
      in and_then id (write_segment_parquet A (table_as_str t) (fst bounds) b e) (\<lambda>path e.
           (Inr (segment_of path bounds b), e)))"

text \<open>The logs and spans segments get an index directory beside the file; building it is the
  parameter \<open>sidecar\<close> (without the \<open>search\<close> feature it does nothing).\<close>

definition build_sidecar :: "arrow_env \<Rightarrow> string \<Rightarrow> record_batch \<Rightarrow> engine \<Rightarrow> (engine, unit) outcome" where
  "build_sidecar A path b e =
     (case sidecar A (with_extension path ''tidx'') (rb_rows b) (snd e) of (res, w) \<Rightarrow> (res, fst e, w))"

definition write_logs_segment :: "arrow_env \<Rightarrow> record_batch \<Rightarrow> engine \<Rightarrow> (engine, segment_ref) outcome" where
  "write_logs_segment A b e =
     (let bounds = time_bounds b
      in and_then id (write_segment_parquet A ''logs'' (fst bounds) b e) (\<lambda>path e.
         and_then id (build_sidecar A path b e) (\<lambda>_ e. (Inr (segment_of path bounds b), e))))"

definition write_spans_segment :: "arrow_env \<Rightarrow> record_batch \<Rightarrow> engine \<Rightarrow> (engine, segment_ref) outcome" where
  "write_spans_segment A b e =
     (let bounds = spans_bounds b
      in and_then id (write_segment_parquet A ''spans'' (fst bounds) b e) (\<lambda>path e.
         and_then id (build_sidecar A path b e) (\<lambda>_ e. (Inr (segment_of path bounds b), e))))"

subsection \<open>Seal\<close>

text \<open>One table's part of the off-lock write: nothing for an empty list, else one segment of the
  merged batches.\<close>

definition write_table ::
  "arrow_env \<Rightarrow> (record_batch \<Rightarrow> engine \<Rightarrow> (engine, segment_ref) outcome) \<Rightarrow> record_batch list \<Rightarrow> engine \<Rightarrow>
     (engine, segment_ref option) outcome" where
  "write_table A wr bs e =
     (if bs = [] then (Inr None, e)
      else
        case concat_and_sort A bs of
          Inl err \<Rightarrow> (Inl err, e)
        | Inr b \<Rightarrow> and_then id (wr b e) (\<lambda>s e. (Inr (Some s), e)))"

fun write_metric_tables ::
  "arrow_env \<Rightarrow> (table \<times> record_batch list) list \<Rightarrow> engine \<Rightarrow> (engine, (table \<times> segment_ref) list) outcome" where
  "write_metric_tables A [] e = (Inr [], e)"
| "write_metric_tables A ((t, bs) # r) e =
     and_then id (write_table A (write_metric_segment A t) bs e) (\<lambda>s e.
     and_then id (write_metric_tables A r e) (\<lambda>out e. (Inr (map (Pair t) (opt_list s) @ out), e)))"

definition seal_write :: "arrow_env \<Rightarrow> taken \<Rightarrow> engine \<Rightarrow> (engine, written) outcome" where
  "seal_write A tk e =
     (let sb = tk_batches tk in
      and_then id (write_table A (write_logs_segment A) (sb_logs sb) e) (\<lambda>logs_seg e.
      and_then id (write_table A (write_spans_segment A) (sb_spans sb) e) (\<lambda>spans_seg e.
      and_then id
        (write_metric_tables A (entries (sb_metrics sb) @
           [(TMetricsHistogram, sb_histogram sb), (TMetricsExpHistogram, sb_exp_histogram sb),
            (TMetricsSummary, sb_summary sb)]) e) (\<lambda>metric_segs e.
        (Inr (logs_seg, spans_seg, metric_segs), e)))))"

definition persist_manifest :: "mhash \<Rightarrow> engine \<Rightarrow> (engine, unit) outcome" where
  "persist_manifest mh e =
     (case st_manifest (fst e) of
        None \<Rightarrow> (Inr (), e)
      | Some mw \<Rightarrow> with_manifest mw (persist mh (manifest_view (st_inner (fst e)))) e)"

text \<open>The last critical section, and the reclaim after it, which holds only the lock of the log.\<close>

definition seal_commit :: "mhash \<Rightarrow> taken \<Rightarrow> written \<Rightarrow> engine \<Rightarrow> (engine, unit) outcome" where
  "seal_commit mh tk out e =
     and_then id (persist_manifest mh (upd_inner (seal_register tk out) e)) (\<lambda>_ e.
       (Inr (), fetch_max (tk_watermark tk) e))"

definition seal_reclaim :: "taken \<Rightarrow> engine \<Rightarrow> (engine, unit) outcome" where
  "seal_reclaim tk e =
     (case st_wal (fst e) of
        None \<Rightarrow> (Inr (), e)
      | Some l \<Rightarrow> with_wal l (wal_reclaim (tk_watermark tk)) e)"

definition seal :: "arrow_env \<Rightarrow> mhash \<Rightarrow> engine \<Rightarrow> (engine, segment_ref option) outcome" where
  "seal A mh e =
     (if \<not> st_dir (fst e) then (Inr None, e)
      else
        case seal_take (st_inner (fst e)) of
          (None, inn) \<Rightarrow> (Inr None, e)
        | (Some tk, inn) \<Rightarrow>
            (case seal_write A tk ((fst e)\<lparr>st_inner := inn\<rparr>, snd e) of
               (Inl err, e) \<Rightarrow> (Inl err, upd_inner (seal_restore tk) e)
             | (Inr out, e) \<Rightarrow>
                 and_then id (seal_commit mh tk out e) (\<lambda>_ e.
                 and_then id (seal_reclaim tk e) (\<lambda>_ e. (Inr (seal_result out), e)))))"

definition seal_if_full :: "arrow_env \<Rightarrow> mhash \<Rightarrow> engine \<Rightarrow> (engine, segment_ref option) outcome" where
  "seal_if_full A mh e =
     (if seal_threshold_bytes (fst e) \<le> buffer_bytes (st_inner (fst e)) then seal A mh e else (Inr None, e))"

subsection \<open>Changing the promoted keys\<close>

definition persist_promote :: "engine \<Rightarrow> (engine, unit) outcome" where
  "persist_promote e =
     (if \<not> st_dir (fst e) then (Inr (), e)
      else
        case write_db_info_at (st_wal_mode (fst e)) (promote (fst e)) (st_retention (fst e)) (snd e) of
          (True, w) \<Rightarrow> (Inr (), fst e, w)
        | (False, w) \<Rightarrow> (Inl (open_ctx ''persist promoted key set'' io_str), fst e, w))"

definition ATTEMPTS :: nat where "ATTEMPTS = 8"

fun promote_tries :: "nat \<Rightarrow> arrow_env \<Rightarrow> mhash \<Rightarrow> string list \<Rightarrow> engine \<Rightarrow> (engine, unit) outcome" where
  "promote_tries 0 A mh keys e =
     (Inl (storage_msg ''set_promote: the ingest buffer refilled on every attempt; retry when ingest is quieter''), e)"
| "promote_tries (Suc n) A mh keys e =
     and_then id (seal A mh e) (\<lambda>_ e.
       if buffers_empty (st_inner (fst e)) then persist_promote ((fst e)\<lparr>promote := keys\<rparr>, snd e)
       else promote_tries n A mh keys e)"

definition set_promote :: "arrow_env \<Rightarrow> mhash \<Rightarrow> string list \<Rightarrow> engine \<Rightarrow> (engine, unit) outcome" where
  "set_promote A mh keys e =
     (if read_only (fst e) then (Inl read_only_err, e)
      else if promote (fst e) = keys then (Inr (), e)
      else promote_tries ATTEMPTS A mh keys e)"

subsection \<open>Opening\<close>

definition DEFAULT_SEAL_BYTES :: nat where "DEFAULT_SEAL_BYTES = 8 * 2 ^ 20"

definition seal_threshold :: "nat \<Rightarrow> nat" where
  "seal_threshold budget = max (budget div 4) DEFAULT_SEAL_BYTES"

datatype lock_result = LockTaken | LockBusy | LockFailed

definition LOCK_FILE :: string where "LOCK_FILE = ''writer.lock''"

definition acquire_writer_lock :: "lock_result \<Rightarrow> world \<Rightarrow> (world, unit) outcome" where
  "acquire_writer_lock lk w =
     and_then id (io_try (open_ctx ''open writer.lock'' io_str) (fs_open_append LOCK_FILE w)) (\<lambda>_ w.
       (case lk of
          LockTaken \<Rightarrow> Inr ()
        | LockBusy \<Rightarrow> Inl (lock_held LOCK_FILE)
        | LockFailed \<Rightarrow> Inl (open_ctx ''lock writer.lock'' io_str), w))"

text \<open>\<open>cleanup_orphans\<close> over the files of the directory tree. A file inside a directory whose
  extension is \<open>tidx\<close> belongs to that index directory and is removed with it.\<close>

definition manifest_segments :: "manifest \<Rightarrow> segment_ref list" where
  "manifest_segments m = m_logs m @ m_spans m @ concat (map snd (entries (m_metrics m)))"

fun join_path :: "string list \<Rightarrow> string" where
  "join_path [] = []"
| "join_path [c] = c"
| "join_path (c # cs) = c @ ''/'' @ join_path cs"

fun tidx_root :: "string list \<Rightarrow> string list \<Rightarrow> string option" where
  "tidx_root pre [] = None"
| "tidx_root pre [c] = None"
| "tidx_root pre (c # cs) =
     (if extension c = ''tidx'' then Some (join_path (pre @ [c])) else tidx_root (pre @ [c]) cs)"

definition orphan :: "string set \<Rightarrow> string option \<Rightarrow> string \<Rightarrow> bool" where
  "orphan referenced active p =
     (case tidx_root [] (split_on (CHR ''/'') p) of
        Some root \<Rightarrow> root \<notin> referenced
      | None \<Rightarrow>
          if extension p = ''parquet'' then p \<notin> referenced
          else if extension p = ''tmp'' \<or> extension p = ''compact'' then True
          else CHR ''/'' \<notin> set p \<and> strip_prefix ''MANIFEST-'' p \<noteq> None \<and> active \<noteq> Some p)"

definition seg_files :: "segment_ref \<Rightarrow> string set" where
  "seg_files s = {relative_path s, with_extension (relative_path s) ''tidx''}"

definition referenced_files :: "mhash \<Rightarrow> manifest \<Rightarrow> world \<Rightarrow> string set" where
  "referenced_files mh m w =
     \<Union> (seg_files ` set (manifest_segments m)) \<union>
     \<Union> (set (map (\<lambda>r. case r of Inl p \<Rightarrow> {} | Inr (p, rec) \<Rightarrow> seg_files (pr_output rec)) (pending_list mh w)))"

definition remove_quietly :: "string \<Rightarrow> world \<Rightarrow> world" where
  "remove_quietly p w = snd (fs_remove p w)"

definition cleanup_orphans :: "mhash \<Rightarrow> manifest \<Rightarrow> nat option \<Rightarrow> world \<Rightarrow> world" where
  "cleanup_orphans mh m active w =
     (let keep = referenced_files mh m w
      in fold remove_quietly (filter (orphan keep (map_option manifest_name active)) (fs_names w)) w)"

definition storage_open ::
  "arrow_env \<Rightarrow> hash \<Rightarrow> mhash \<Rightarrow> lock_result \<Rightarrow> nat \<Rightarrow> compression \<Rightarrow> wal_mode \<Rightarrow> retention \<Rightarrow> nat \<Rightarrow> world \<Rightarrow>
     (world, storage) outcome" where
  "storage_open A h mh lk now cmp mode ret budget w =
     and_then id (io_try (storage_io None io_str) (fs_create_dir_all w)) (\<lambda>_ w.
     and_then id (acquire_writer_lock lk w) (\<lambda>_ w.
     let w = write_db_info mode w in
     and_then id (manifest_open mh w) (\<lambda>(m, mw) w.
     let wm = m_watermark m;
         w = cleanup_orphans mh m (active_num mw) w
     in case read_all_frames h w of
          Inl err \<Rightarrow> (Inl err, w)
        | Inr recs \<Rightarrow>
            and_then id (wal_open h w) (\<lambda>l w.
              (Inr \<lparr>st_dir = True, st_compression = cmp, st_wal_mode = mode, st_retention = ret,
                    promote = [], seal_threshold_bytes = seal_threshold budget, opened_at = now,
                    st_seq = 0, durable_lsn = wm, st_wal = Some l, st_manifest = Some mw,
                    read_only = False,
                    st_inner = inner_default\<lparr>segments := m_logs m, spans_segments := m_spans m,
                      metric_segments := m_metrics m, watermark := wm, buffer_max_lsn := wm,
                      next_lsn := max wm (max_lsn recs) + 1,
                      pending_replay := filter (\<lambda>r. lsn r > wm) recs\<rparr>\<rparr>, w)))))"

definition storage_in_memory :: "nat \<Rightarrow> compression \<Rightarrow> nat \<Rightarrow> storage" where
  "storage_in_memory now cmp budget =
     \<lparr>st_dir = False, st_compression = cmp, st_wal_mode = WalOff, st_retention = retention_none,
      promote = [], seal_threshold_bytes = seal_threshold budget, opened_at = now, st_seq = 0,
      durable_lsn = 0, st_wal = None, st_manifest = None, read_only = False,
      st_inner = inner_default\<lparr>next_lsn := 1\<rparr>\<rparr>"

definition storage_open_read_only :: "mhash \<Rightarrow> nat \<Rightarrow> compression \<Rightarrow> nat \<Rightarrow> world \<Rightarrow> error + storage" where
  "storage_open_read_only mh now cmp budget w =
     (if \<not> dir_ok w then Inl (open_ctx ''open read-only'' ''database directory does not exist'')
      else
        bind_err (manifest_read mh w) (\<lambda>m.
          let wm = m_watermark m in
          Inr \<lparr>st_dir = True, st_compression = cmp, st_wal_mode = WalOff, st_retention = retention_none,
               promote = [], seal_threshold_bytes = seal_threshold budget, opened_at = now, st_seq = 0,
               durable_lsn = wm, st_wal = None, st_manifest = None, read_only = True,
               st_inner = inner_default\<lparr>watermark := wm, buffer_max_lsn := wm, next_lsn := wm + 1\<rparr>\<rparr>))"

definition with_promote :: "string list \<Rightarrow> storage \<Rightarrow> storage" where
  "with_promote keys s = s\<lparr>promote := keys\<rparr>"

subsection \<open>The disk snapshot of a reader\<close>

record disk_snapshot =
  ds_watermark :: nat
  ds_logs_segments :: "segment_ref list"
  ds_spans_segments :: "segment_ref list"
  ds_metric_segments :: "table \<rightharpoonup> segment_ref list"
  ds_pending :: "wal_record list"

definition SNAPSHOT_RECHECK_TRIES :: nat where "SNAPSHOT_RECHECK_TRIES = 8"

text \<open>The reader runs beside the writer: \<open>obs k\<close> is the directory as its \<open>k\<close>-th look finds
  it. Looks alternate between the manifest and the log.\<close>

fun snapshot_tries ::
  "nat \<Rightarrow> hash \<Rightarrow> mhash \<Rightarrow> (nat \<Rightarrow> world) \<Rightarrow> nat \<Rightarrow> manifest \<Rightarrow> wal_tail_cursor \<Rightarrow>
     (wal_tail_cursor, disk_snapshot) outcome" where
  "snapshot_tries 0 h mh obs k m c =
     (Inl (storage_msg ''read_disk_snapshot: manifest watermark did not stabilize (writer sealing continuously)''), c)"
| "snapshot_tries (Suc n) h mh obs k m c =
     and_then id (cursor_advance h (obs k) c) (\<lambda>_ c.
       case manifest_read mh (obs (k + 1)) of
         Inl err \<Rightarrow> (Inl err, c)
       | Inr recheck \<Rightarrow>
           if m_watermark recheck = m_watermark m then
             let wm = m_watermark m;
                 c = prune_sealed wm c
             in (Inr \<lparr>ds_watermark = wm, ds_logs_segments = m_logs m, ds_spans_segments = m_spans m,
                      ds_metric_segments = m_metrics m,
                      ds_pending = filter (\<lambda>r. lsn r > wm) (cur_frames c)\<rparr>, c)
           else snapshot_tries n h mh obs (k + 2) recheck c)"

definition read_disk_snapshot_incremental ::
  "hash \<Rightarrow> mhash \<Rightarrow> (nat \<Rightarrow> world) \<Rightarrow> wal_tail_cursor \<Rightarrow> (wal_tail_cursor, disk_snapshot) outcome" where
  "read_disk_snapshot_incremental h mh obs c =
     (case manifest_read mh (obs 0) of
        Inl err \<Rightarrow> (Inl err, c)
      | Inr m \<Rightarrow> snapshot_tries SNAPSHOT_RECHECK_TRIES h mh obs 1 m c)"

definition read_disk_snapshot :: "hash \<Rightarrow> mhash \<Rightarrow> (nat \<Rightarrow> world) \<Rightarrow> error + disk_snapshot" where
  "read_disk_snapshot h mh obs = fst (read_disk_snapshot_incremental h mh obs fresh_cursor)"

end
