(* ===== verification/Storage_Frame.thy ===== *)
theory Storage_Frame
  imports Storage_Engine Wal_Store Manifest_Writer
begin

text \<open>
  Which files an operation may change. The log, the manifest and the segments live in one directory
  tree under disjoint names, so each keeps its invariant while the others work.
\<close>

definition touches :: "string set \<Rightarrow> world \<Rightarrow> world \<Rightarrow> bool" where
  "touches S w w' \<longleftrightarrow> dir_ok w' = dir_ok w \<and> (distinct (fs_names w) \<longrightarrow> distinct (fs_names w')) \<and>
     (\<forall>p. p \<notin> S \<longrightarrow> fs_read w' p = fs_read w p)"

lemma touches_refl [simp]: "touches S w w"
  by (simp add: touches_def)

lemma touches_trans: "touches S w1 w2 \<Longrightarrow> touches S w2 w3 \<Longrightarrow> touches S w1 w3"
  by (simp add: touches_def)

lemma touches_mono: "touches S w w' \<Longrightarrow> S \<subseteq> T \<Longrightarrow> touches T w w'"
  by (auto simp: touches_def)

lemma touches_read: "touches S w w' \<Longrightarrow> p \<notin> S \<Longrightarrow> fs_read w' p = fs_read w p"
  by (simp add: touches_def)

lemma same_bytes_touches: "same_bytes w w' \<Longrightarrow> touches S w w'"
  by (simp add: touches_def same_bytes_def)

lemma touches_put: "p \<in> S \<Longrightarrow> touches S w (put_file p f w)"
  by (auto simp: touches_def)

lemma touches_del: "p \<in> S \<Longrightarrow> touches S w (del_file p w)"
  by (auto simp: touches_def distinct_removeAll)

lemma touches_tick [simp]: "touches S w (tick w)"
  by (simp add: touches_def)

lemma touches_append: "p \<in> S \<Longrightarrow> touches S w (append_bytes p bs w)"
  by (auto simp: touches_def)

text \<open>The primitives.\<close>

lemma touches_after_tick: "touches S (tick w) w' \<Longrightarrow> touches S w w'"
  by (rule touches_trans [OF touches_tick])

lemmas touches_one = touches_after_tick [OF touches_put] touches_after_tick [OF touches_del]
  touches_after_tick [OF touches_append]

lemma fs_write_all_touches: "p \<in> S \<Longrightarrow> touches S w (snd (fs_write_all p bs w))"
  by (auto simp: fs_write_all_def touches_one split: option.splits)

lemma fs_open_append_touches: "p \<in> S \<Longrightarrow> touches S w (snd (fs_open_append p w))"
  by (auto simp: fs_open_append_def touches_one split: option.splits)

lemma fs_create_touches: "p \<in> S \<Longrightarrow> touches S w (snd (fs_create p w))"
  by (auto simp: fs_create_def touches_one split: option.splits)

lemma fs_remove_touches: "p \<in> S \<Longrightarrow> touches S w (snd (fs_remove p w))"
  by (auto simp: fs_remove_def touches_one split: option.splits)

lemma fs_rename_touches: "p \<in> S \<Longrightarrow> q \<in> S \<Longrightarrow> touches S w (snd (fs_rename p q w))"
  by (auto simp: fs_rename_def intro: touches_after_tick touches_trans [OF touches_del touches_put] split: option.splits)

lemma fs_sync_touches: "touches S w (snd (fs_sync p w))"
  by (rule same_bytes_touches [OF fs_sync_bytes])

lemma fs_sync_dir_touches: "touches S w (snd (fs_sync_dir w))"
  by (rule same_bytes_touches [OF fs_sync_dir_bytes])

lemma fs_sync_subdir_bytes: "same_bytes w (snd (fs_sync_subdir d w))"
proof -
  let ?g = "\<lambda>p f. if parent_dir p = d then f\<lparr>linked := True\<rparr> else f"
  have m: "map_of (map (\<lambda>(p, f). (p, ?g p f)) xs) q = map_option (?g q) (map_of xs q)" for xs :: "(string \<times> fnode) list" and q
    by (induction xs) auto
  have "fs_read (w'\<lparr>files := map (\<lambda>(p, f). (p, ?g p f)) (files w)\<rparr>) q = fs_read w q" for q w'
    by (auto simp: fs_read_def m split: option.splits)
  then show ?thesis
    by (auto simp: fs_sync_subdir_def same_bytes_def fs_names_def comp_def split_def split: option.splits)
qed

lemma fs_sync_subdir_touches: "touches S w (snd (fs_sync_subdir d w))"
  by (rule same_bytes_touches [OF fs_sync_subdir_bytes])

lemma fs_create_dir_touches: "touches S w (snd (fs_create_dir_all w))"
  by (simp add: fs_create_dir_all_def)

lemma fs_open_existing_touches: "touches S w (snd (fs_open_existing p w))"
  by (simp add: fs_open_existing_def)

lemmas fs_touches = fs_write_all_touches fs_open_append_touches fs_create_touches fs_remove_touches
  fs_rename_touches fs_sync_touches fs_sync_dir_touches fs_sync_subdir_touches fs_create_dir_touches
  fs_open_existing_touches

lemma io_try_snd [simp]: "snd (io_try e r) = snd r"
  by (simp add: io_try_def)

text \<open>Through \<open>?\<close>, for a state that is the directory or has it as its second part.\<close>

lemma touches_bind:
  "touches S w (snd r) \<Longrightarrow> (\<And>a s. r = (Inr a, s) \<Longrightarrow> touches S s (snd (f a s))) \<Longrightarrow>
     touches S w (snd (and_then id r f))"
  by (cases r, cases "fst r") (auto intro: touches_trans)

lemma touches_bind_up:
  "touches S w (snd r) \<Longrightarrow> (\<And>a s. r = (Inr a, s) \<Longrightarrow> touches S s (snd (snd (f a s)))) \<Longrightarrow>
     touches S w (snd (snd (and_then (Pair self) r f)))"
  by (cases r, cases "fst r") (auto intro: touches_trans)

lemma touches_bind_snd:
  "touches S w (snd (snd r)) \<Longrightarrow> (\<And>a s. r = (Inr a, s) \<Longrightarrow> touches S (snd s) (snd (snd (f a s)))) \<Longrightarrow>
     touches S w (snd (snd (and_then id r f)))"
  by (cases r, cases "fst r") (auto intro: touches_trans)

lemmas touches_binds = touches_bind touches_bind_up touches_bind_snd

subsection \<open>The log\<close>

definition wal_names :: "string set" where
  "wal_names = {p. parse_segment_seq p \<noteq> None}"

lemma segment_name_wal: "q \<le> u64_max \<Longrightarrow> segment_name q \<in> wal_names"
  by (simp add: wal_names_def parse_segment_name)

lemma wal_log_touches:
  assumes log: "wal_log h w cl sq rs t" and t: "touches S w w'" and d: "S \<inter> wal_names = {}"
  shows "wal_log h w' cl sq rs t"
proof -
  have same: "fs_read w' (segment_name q) = fs_read w (segment_name q)" if "q \<le> u64_max" for q
    using touches_read [OF t] d segment_name_wal [OF that] by blast
  have sq: "sq \<le> u64_max" using log by (simp add: wal_log_def)
  have only: "only_segments w (set (map fst cl @ [sq]))" using log by (simp add: wal_log_def)
  have in_names: "p \<in> set (fs_names w') \<longleftrightarrow> p \<in> set (fs_names w)" if "p \<in> wal_names" for p
  proof -
    have "p \<notin> S" using that d by blast
    then show ?thesis using touches_read [OF t] by (simp add: fs_exists_names [symmetric] fs_exists_read)
  qed
  have "only_segments w' (set (map fst cl @ [sq]))"
    using only in_names t unfolding only_segments_def
    by (auto simp: touches_def wal_names_def)
  moreover have "segs_at h w' cl = segs_at h w cl"
    by (rule segs_at_cong) (use same wal_log_seqs [OF log] in force)
  ultimately show ?thesis using log same [OF sq] by (simp add: wal_log_def)
qed

lemma wal_holds_touches:
  "wal_holds h n (self, w) recs \<Longrightarrow> touches S w w' \<Longrightarrow> S \<inter> wal_names = {} \<Longrightarrow> wal_holds h n (self, w') recs"
  by (auto simp: wal_holds_def wal_rep_def intro: wal_log_touches)

lemma disk_holds_touches:
  "disk_holds h w recs \<Longrightarrow> touches S w w' \<Longrightarrow> S \<inter> wal_names = {} \<Longrightarrow> disk_holds h w' recs"
  unfolding disk_holds_def using wal_log_touches by metis

lemma wal_rotate_touches:
  assumes "wfile self \<in> wal_names"
  shows "touches wal_names w (snd (snd (wal_rotate (self, w))))"
proof -
  have le: "wadd_u64 (seq self) (Suc 0) \<le> u64_max" by (simp add: wadd_u64_def u64_max_def)
  show ?thesis
    unfolding wal_rotate_def
    by (auto simp: Let_def open_append_file_def fsync_dir_def
        intro!: touches_binds fs_touches segment_name_wal le)
qed

lemma wal_append_touches:
  assumes "wfile self \<in> wal_names"
  shows "touches wal_names w (snd (snd (wal_append h l s p (self, w))))"
  unfolding wal_append_def
  by (auto simp: Let_def intro!: touches_binds fs_touches wal_rotate_touches assms)

lemma wal_sync_touches: "touches S w (snd (snd (wal_sync (self, w))))"
  unfolding wal_sync_def by (auto intro!: touches_binds fs_touches)

lemma reclaim_loop_touches:
  "\<forall>(q, m) \<in> set cl. q \<le> u64_max \<Longrightarrow> touches wal_names w (snd (reclaim_loop wm cl w))"
proof (induction cl arbitrary: w)
  case (Cons c cl)
  obtain q m where c: "c = (q, m)" by (cases c)
  have "touches wal_names w (snd (remove_if_exists (segment_name q) w))"
    using Cons.prems c fs_remove_touches [OF segment_name_wal, of q w]
    by (auto simp: remove_if_exists_def split: prod.splits sum.splits io_error.splits)
  with Cons c show ?case by (auto intro!: touches_binds)
qed simp

lemma wal_reclaim_touches:
  assumes "wal_rep h (self, w) cl rs" "seq self < u64_max"
  shows "touches wal_names w (snd (snd (wal_reclaim wm (self, w))))"
proof -
  have wf: "wfile self \<in> wal_names" using assms by (simp add: wal_rep_def segment_name_wal)
  have "\<forall>(q, m) \<in> set (closed self'). q \<le> u64_max"
    if "wal_rotate (self, w) = (Inr (), self', w')" for self' w'
  proof -
    have "wal_rep h (self', w') (cl @ [(seq self, rs)]) []" using rotate_cases [OF assms that] by simp
    from wal_rep_ne(3) [OF this] show ?thesis by force
  qed
  then show ?thesis
    unfolding wal_reclaim_def
    by (auto intro!: touches_binds wal_rotate_touches wf reclaim_loop_touches)
qed

subsection \<open>The manifest\<close>

definition manifest_names :: "string set" where
  "manifest_names = {CURRENT_FILE, CURRENT_TMP, LEGACY_FILE} \<union> range manifest_name"

lemma manifest_names_in [simp]:
  "CURRENT_FILE \<in> manifest_names" "CURRENT_TMP \<in> manifest_names" "LEGACY_FILE \<in> manifest_names"
  "manifest_name n \<in> manifest_names"
  by (auto simp: manifest_names_def)

lemma write_manifest_file_touches: "p \<in> S \<Longrightarrow> touches S w (snd (write_manifest_file p bs w))"
  unfolding write_manifest_file_def by (auto simp: Let_def intro!: touches_binds fs_touches)

lemma write_current_touches: "touches manifest_names w (snd (write_current n w))"
  unfolding write_current_def storage_fsync_dir_def
  by (auto simp: Let_def intro!: touches_binds fs_touches)

lemma write_checkpoint_touches: "touches manifest_names w (snd (snd (write_checkpoint h s n (self, w))))"
  unfolding write_checkpoint_def
  by (auto simp: Let_def intro!: touches_binds fs_touches write_manifest_file_touches write_current_touches)

lemma append_frame_touches: "touches manifest_names w (snd (snd (append_frame bs (self, w))))"
  unfolding append_frame_def by (auto simp: Let_def intro!: touches_binds fs_touches)

lemma persist_touches: "touches manifest_names w (snd (snd (persist h view (self, w))))"
  unfolding persist_def
  by (auto simp: Let_def intro!: touches_binds write_checkpoint_touches append_frame_touches)

lemma mw_inv_touches:
  assumes "mw_inv h k (self, w)" "touches S w w'" "S \<inter> manifest_names = {}"
  shows "mw_inv h k (self, w')"
proof -
  have "fs_read w' p = fs_read w p" if "p \<in> manifest_names" for p
    using that assms(3) touches_read [OF assms(2), of p] by blast
  then have "fs_read w' CURRENT_FILE = fs_read w CURRENT_FILE" "fs_read w' LEGACY_FILE = fs_read w LEGACY_FILE"
    "log_clean h w' n es = log_clean h w n es" for n es
    by (simp_all add: log_clean_def)
  then show ?thesis using assms(1) unfolding mw_inv_def prod.case by metis
qed

lemma shows_state_touches:
  assumes "shows_state h w m" "touches S w w'" "S \<inter> manifest_names = {}"
  shows "shows_state h w' m"
proof -
  have same: "fs_read w' p = fs_read w p" if "p \<in> manifest_names" for p
    using that assms(3) touches_read [OF assms(2), of p] by blast
  then have eqs: "read_current w' = read_current w" "\<And>n. replay h w' n = replay h w n"
    "fs_exists w' LEGACY_FILE = fs_exists w LEGACY_FILE" "load_legacy w' LEGACY_FILE = load_legacy w LEGACY_FILE"
    by (simp_all add: read_current_def fs_read_to_string_def replay_def fs_exists_read load_legacy_def)
  have "read_tries n h w' = read_tries n h w" for n by (induction n) (simp_all only: read_tries.simps eqs)
  with assms(1) show ?thesis by (simp add: shows_state_def manifest_read_def)
qed

subsection \<open>The segments\<close>

text \<open>The paths below the directories of the tables.\<close>

definition seg_names :: "string set" where
  "seg_names = {p. \<exists>t. prefix (table_as_str t @ ''/'') p}"

lemma table_hd: "hd (table_as_str t) \<in> {CHR ''l'', CHR ''s'', CHR ''m''}" "table_as_str t \<noteq> []"
  by (cases t; simp)+

lemma seg_names_hd: "p \<in> seg_names \<Longrightarrow> p \<noteq> [] \<and> hd p \<in> {CHR ''l'', CHR ''s'', CHR ''m''}"
proof -
  assume "p \<in> seg_names"
  then obtain t z where "p = table_as_str t @ ''/'' @ z" by (auto simp: seg_names_def prefix_def)
  with table_hd [of t] show ?thesis by simp
qed

lemma wal_names_hd: "p \<in> wal_names \<Longrightarrow> hd p = CHR ''w''"
  by (auto simp: wal_names_def parse_segment_seq_def strip_prefix_def prefix_def split: option.splits if_splits)

lemma manifest_names_hd: "p \<in> manifest_names \<Longrightarrow> hd p \<in> {CHR ''C'', CHR ''M''}"
  by (auto simp: manifest_names_def CURRENT_FILE_def CURRENT_TMP_def LEGACY_FILE_def manifest_name_def)

lemma wal_manifest_disjoint: "wal_names \<inter> manifest_names = {}" "manifest_names \<inter> wal_names = {}"
  using wal_names_hd manifest_names_hd by fastforce+

lemma seg_disjoint: "seg_names \<inter> wal_names = {}" "wal_names \<inter> seg_names = {}"
  "seg_names \<inter> manifest_names = {}" "manifest_names \<inter> seg_names = {}"
  using seg_names_hd wal_names_hd manifest_names_hd by fastforce+

end
