(* ===== verification/Storage_Views.thy ===== *)
theory Storage_Views
  imports Storage_Frame
begin

text \<open>
  The engine table by table: what a push adds to the buffer of each table, what a seal takes, writes,
  registers or puts back, and what the files of the registered segments hold.
\<close>

subsection \<open>One list per table\<close>

definition brows :: "record_batch list \<Rightarrow> row list" where
  "brows bs = concat (map rb_rows bs)"

lemma brows_simps [simp]: "brows [] = []" "brows (b # bs) = rb_rows b @ brows bs" "brows (as @ bs) = brows as @ brows bs"
  by (simp_all add: brows_def)

fun buffer_of :: "inner \<Rightarrow> table \<Rightarrow> record_batch list" where
  "buffer_of inn TLogs = buffer inn"
| "buffer_of inn TSpans = spans_buffer inn"
| "buffer_of inn TMetricsGauge = or_default (metric_buffers inn) TMetricsGauge"
| "buffer_of inn TMetricsSum = or_default (metric_buffers inn) TMetricsSum"
| "buffer_of inn TMetricsHistogram = histogram_buffer inn"
| "buffer_of inn TMetricsExpHistogram = exp_histogram_buffer inn"
| "buffer_of inn TMetricsSummary = summary_buffer inn"

fun staged_of :: "sealing_batches \<Rightarrow> table \<Rightarrow> record_batch list" where
  "staged_of sb TLogs = sb_logs sb"
| "staged_of sb TSpans = sb_spans sb"
| "staged_of sb TMetricsGauge = or_default (sb_metrics sb) TMetricsGauge"
| "staged_of sb TMetricsSum = or_default (sb_metrics sb) TMetricsSum"
| "staged_of sb TMetricsHistogram = sb_histogram sb"
| "staged_of sb TMetricsExpHistogram = sb_exp_histogram sb"
| "staged_of sb TMetricsSummary = sb_summary sb"

abbreviation segs_of :: "inner \<Rightarrow> table \<Rightarrow> segment_ref list" where
  "segs_of inn t \<equiv> list_of (manifest_view inn) t"

text \<open>The scalar buffers hold the two scalar tables only, as the decoder routes every scalar point to
  one of them.\<close>

definition scalar_only :: "(table \<rightharpoonup> 'v list) \<Rightarrow> bool" where
  "scalar_only m \<longleftrightarrow> (\<forall>t. t \<notin> set SCALAR_METRIC_TABLES \<longrightarrow> m t = None)"

text \<open>What a query reads of a table: its batches, and its segments.\<close>

fun snapshot_batches :: "query_snapshot \<Rightarrow> table \<Rightarrow> record_batch list" where
  "snapshot_batches q TLogs = qs_logs_buffer q"
| "snapshot_batches q TSpans = qs_spans_buffer q"
| "snapshot_batches q TMetricsGauge = or_default (qs_metric_buffers q) TMetricsGauge"
| "snapshot_batches q TMetricsSum = or_default (qs_metric_buffers q) TMetricsSum"
| "snapshot_batches q TMetricsHistogram = qs_histogram_buffer q"
| "snapshot_batches q TMetricsExpHistogram = qs_exp_histogram_buffer q"
| "snapshot_batches q TMetricsSummary = qs_summary_buffer q"

fun snapshot_segments :: "query_snapshot \<Rightarrow> table \<Rightarrow> segment_ref list" where
  "snapshot_segments q TLogs = qs_logs_segments q"
| "snapshot_segments q TSpans = qs_spans_segments q"
| "snapshot_segments q t = or_default (qs_metric_segments q) t"

lemma snapshot_batches_eq:
  "snapshot_batches (query_snapshot inn) t =
     buffer_of inn t @ concat (map (\<lambda>(g, sb). staged_of sb t) (sealing inn))"
  by (cases t) (simp_all add: query_snapshot_def unioned_def or_default_def SCALAR_METRIC_TABLES_def)

lemma snapshot_segments_eq: "snapshot_segments (query_snapshot inn) t = segs_of inn t"
  by (cases t) (simp_all add: query_snapshot_def manifest_view_def list_of_def or_default_def split: option.splits)

subsection \<open>What a job brings\<close>

fun job_rows :: "ingest_job \<Rightarrow> table \<Rightarrow> row list" where
  "job_rows (JLogs raw rows) t = (if t = TLogs then map LogRow rows else [])"
| "job_rows (JTraces raw rows) t = (if t = TSpans then map SpanRow rows else [])"
| "job_rows (JMetrics raw rows hs es ss) t =
     (case t of
        TMetricsGauge \<Rightarrow> map ScalarRow (filter (\<lambda>r. sm_table r = t) rows)
      | TMetricsSum \<Rightarrow> map ScalarRow (filter (\<lambda>r. sm_table r = t) rows)
      | TMetricsHistogram \<Rightarrow> map HistogramRow hs
      | TMetricsExpHistogram \<Rightarrow> map ExpHistogramRow es
      | TMetricsSummary \<Rightarrow> map SummaryRow ss
      | _ \<Rightarrow> [])"

fun job_raw :: "ingest_job \<Rightarrow> bytes" where
  "job_raw (JLogs raw rows) = raw"
| "job_raw (JTraces raw rows) = raw"
| "job_raw (JMetrics raw rows hs es ss) = raw"

fun job_signal :: "ingest_job \<Rightarrow> byte" where
  "job_signal (JLogs raw rows) = SIGNAL_LOGS"
| "job_signal (JTraces raw rows) = SIGNAL_TRACES"
| "job_signal (JMetrics raw rows hs es ss) = SIGNAL_METRICS"

fun job_scalars :: "ingest_job \<Rightarrow> scalar_metric_row list" where
  "job_scalars (JMetrics raw rows hs es ss) = rows"
| "job_scalars j = []"

text \<open>The jobs a decoder makes: scalar points belong to a scalar table, and timestamps are
  \<open>i64\<close>.\<close>

definition job_ok :: "ingest_job \<Rightarrow> bool" where
  "job_ok j \<longleftrightarrow> (\<forall>r \<in> set (job_scalars j). sm_table r \<in> set SCALAR_METRIC_TABLES) \<and>
     (\<forall>t. \<forall>r \<in> set (job_rows j t). i64_ok (row_time r)) \<and> length (job_raw j) \<le> u32_max"

subsection \<open>Pushes\<close>

definition same_frame :: "inner \<Rightarrow> inner \<Rightarrow> bool" where
  "same_frame inn inn' \<longleftrightarrow>
     segments inn' = segments inn \<and> spans_segments inn' = spans_segments inn \<and>
     metric_segments inn' = metric_segments inn \<and> watermark inn' = watermark inn \<and>
     buffer_max_lsn inn' = buffer_max_lsn inn \<and> next_lsn inn' = next_lsn inn \<and>
     pending_replay inn' = pending_replay inn \<and> sealing inn' = sealing inn \<and>
     next_seal_gen inn' = next_seal_gen inn \<and> last_append inn' = last_append inn"

lemma same_frame_view: "same_frame inn inn' \<Longrightarrow> manifest_view inn' = manifest_view inn"
  by (simp add: same_frame_def manifest_view_def)

text \<open>\<open>pushed k f\<close>: each table got batches of the keys \<open>k\<close>, none of them empty, with the rows
  \<open>f\<close>, and the byte account grew by their estimate.\<close>

definition pushed :: "string list \<Rightarrow> (table \<Rightarrow> row list) \<Rightarrow> inner \<Rightarrow> inner \<Rightarrow> bool" where
  "pushed k f inn inn' \<longleftrightarrow> same_frame inn inn' \<and>
     (scalar_only (metric_buffers inn) \<longrightarrow> scalar_only (metric_buffers inn')) \<and>
     buffer_bytes inn' = buffer_bytes inn + sum_list (map (\<lambda>t. sum_list (map approx_bytes (f t))) table_ALL) \<and>
     (\<forall>t. \<exists>bs. buffer_of inn' t = buffer_of inn t @ bs \<and> brows bs = f t \<and>
        (\<forall>b \<in> set bs. rb_keys b = k \<and> rb_rows b \<noteq> []))"

lemma pushed_trans:
  assumes "pushed k f inn1 inn2" "pushed k g inn2 inn3"
  shows "pushed k (\<lambda>t. f t @ g t) inn1 inn3"
proof -
  have "\<exists>bs. buffer_of inn3 t = buffer_of inn1 t @ bs \<and> brows bs = f t @ g t \<and>
      (\<forall>b \<in> set bs. rb_keys b = k \<and> rb_rows b \<noteq> [])" for t
  proof -
    obtain as bs where "buffer_of inn2 t = buffer_of inn1 t @ as" "brows as = f t"
      "\<forall>b \<in> set as. rb_keys b = k \<and> rb_rows b \<noteq> []"
      "buffer_of inn3 t = buffer_of inn2 t @ bs" "brows bs = g t"
      "\<forall>b \<in> set bs. rb_keys b = k \<and> rb_rows b \<noteq> []"
      using assms unfolding pushed_def by metis
    then show ?thesis by (intro exI [of _ "as @ bs"]) auto
  qed
  then show ?thesis using assms by (auto simp: pushed_def same_frame_def sum_list_addf)
qed

lemma pushed_cong: "pushed k f inn inn' \<Longrightarrow> (\<And>t. f t = g t) \<Longrightarrow> pushed k g inn inn'"
  by (simp add: pushed_def)

lemma pushed_refl [simp]: "pushed k (\<lambda>t. []) inn inn"
  by (auto simp: pushed_def same_frame_def)

lemma sum_tables: "sum_list (map (\<lambda>t. F (if t = u then x else [])) table_ALL) = F x + 6 * F []"
  for F :: "'a list \<Rightarrow> nat"
  by (cases u) (simp_all add: table_ALL_def)

lemma push_rows_pushed:
  assumes acc: "\<forall>k rs. accepts A k rs"
    and put: "\<And>b inn t. buffer_of (put b inn) t = buffer_of inn t @ (if t = u then [b] else [])"
      "\<And>b inn. same_frame inn (put b inn)" "\<And>b inn. metric_buffers (put b inn) = metric_buffers inn"
      "\<And>b inn. buffer_bytes (put b inn) = buffer_bytes inn"
  shows "\<exists>inn'. push_rows A what put rows k inn = (Inr (), inn') \<and> pushed k (\<lambda>t. if t = u then rows else []) inn inn'"
proof (cases "rows = []")
  case True
  then show ?thesis using pushed_cong [OF pushed_refl, of _ k inn] by (simp add: push_rows_def)
next
  case False
  let ?b = "\<lparr>rb_keys = k, rb_rows = rows\<rparr>"
  have b: "buffer_of (charge rows inn) t = buffer_of inn t" for t by (cases t) (simp_all add: charge_def)
  have f: "same_frame inn (put ?b (charge rows inn))"
    using put(2) [of "charge rows inn" ?b] by (simp add: same_frame_def charge_def)
  have "buffer_bytes (put ?b (charge rows inn)) =
      buffer_bytes inn + sum_list (map (\<lambda>t. sum_list (map approx_bytes (if t = u then rows else []))) table_ALL)"
    using sum_tables [of "\<lambda>x. sum_list (map approx_bytes x)" u rows] by (simp add: put charge_def)
  then have "pushed k (\<lambda>t. if t = u then rows else []) inn (put ?b (charge rows inn))"
    using f False unfolding pushed_def by (auto simp: put b) (simp add: charge_def)
  then show ?thesis using False acc by (simp add: push_rows_def rows_to_batch_def Let_def)
qed

lemma push_log_pushed:
  "\<forall>k rs. accepts A k rs \<Longrightarrow>
     \<exists>inn'. push_log_batch A rows k inn = (Inr (), inn') \<and> pushed k (job_rows (JLogs raw rows)) inn inn'"
proof -
  assume acc: "\<forall>k rs. accepts A k rs"
  have "\<exists>inn'. push_log_batch A rows k inn = (Inr (), inn') \<and>
      pushed k (\<lambda>t. if t = TLogs then map LogRow rows else []) inn inn'"
    unfolding push_log_batch_def
  proof (rule push_rows_pushed [OF acc])
    fix b inn t show "buffer_of (inn\<lparr>buffer := buffer inn @ [b]\<rparr>) t = buffer_of inn t @ (if t = TLogs then [b] else [])"
      by (cases t) simp_all
  qed (simp_all add: same_frame_def)
  moreover have "job_rows (JLogs raw rows) = (\<lambda>t. if t = TLogs then map LogRow rows else [])" by (rule ext) simp
  ultimately show ?thesis by simp
qed

lemma push_span_pushed:
  "\<forall>k rs. accepts A k rs \<Longrightarrow>
     \<exists>inn'. push_span_batch A rows k inn = (Inr (), inn') \<and> pushed k (job_rows (JTraces raw rows)) inn inn'"
proof -
  assume acc: "\<forall>k rs. accepts A k rs"
  have "\<exists>inn'. push_span_batch A rows k inn = (Inr (), inn') \<and>
      pushed k (\<lambda>t. if t = TSpans then map SpanRow rows else []) inn inn'"
    unfolding push_span_batch_def
  proof (rule push_rows_pushed [OF acc])
    fix b inn t show "buffer_of (inn\<lparr>spans_buffer := spans_buffer inn @ [b]\<rparr>) t = buffer_of inn t @ (if t = TSpans then [b] else [])"
      by (cases t) simp_all
  qed (simp_all add: same_frame_def)
  moreover have "job_rows (JTraces raw rows) = (\<lambda>t. if t = TSpans then map SpanRow rows else [])" by (rule ext) simp
  ultimately show ?thesis by simp
qed

lemma push_histogram_pushed:
  "\<forall>k rs. accepts A k rs \<Longrightarrow> \<exists>inn'. push_histogram_batch A rows k inn = (Inr (), inn') \<and>
     pushed k (\<lambda>t. if t = TMetricsHistogram then map HistogramRow rows else []) inn inn'"
  unfolding push_histogram_batch_def
proof (rule push_rows_pushed)
  fix b inn t show "buffer_of (inn\<lparr>histogram_buffer := histogram_buffer inn @ [b]\<rparr>) t =
      buffer_of inn t @ (if t = TMetricsHistogram then [b] else [])"
    by (cases t) simp_all
qed (simp_all add: same_frame_def)

lemma push_exp_histogram_pushed:
  "\<forall>k rs. accepts A k rs \<Longrightarrow> \<exists>inn'. push_exp_histogram_batch A rows k inn = (Inr (), inn') \<and>
     pushed k (\<lambda>t. if t = TMetricsExpHistogram then map ExpHistogramRow rows else []) inn inn'"
  unfolding push_exp_histogram_batch_def
proof (rule push_rows_pushed)
  fix b inn t show "buffer_of (inn\<lparr>exp_histogram_buffer := exp_histogram_buffer inn @ [b]\<rparr>) t =
      buffer_of inn t @ (if t = TMetricsExpHistogram then [b] else [])"
    by (cases t) simp_all
qed (simp_all add: same_frame_def)

lemma push_summary_pushed:
  "\<forall>k rs. accepts A k rs \<Longrightarrow> \<exists>inn'. push_summary_batch A rows k inn = (Inr (), inn') \<and>
     pushed k (\<lambda>t. if t = TMetricsSummary then map SummaryRow rows else []) inn inn'"
  unfolding push_summary_batch_def
proof (rule push_rows_pushed)
  fix b inn t show "buffer_of (inn\<lparr>summary_buffer := summary_buffer inn @ [b]\<rparr>) t =
      buffer_of inn t @ (if t = TMetricsSummary then [b] else [])"
    by (cases t) simp_all
qed (simp_all add: same_frame_def)

text \<open>The scalar points: the groups are the two scalar tables.\<close>

lemma by_table_scalar:
  assumes "\<forall>r \<in> set rows. sm_table r \<in> set SCALAR_METRIC_TABLES"
  shows "by_table rows =
    (let g = filter (\<lambda>r. sm_table r = TMetricsGauge) rows; s = filter (\<lambda>r. sm_table r = TMetricsSum) rows
     in (if g = [] then [] else [(TMetricsGauge, g)]) @ (if s = [] then [] else [(TMetricsSum, s)]))"
proof -
  have "filter (\<lambda>r. sm_table r = t) rows = []" if "t \<notin> set SCALAR_METRIC_TABLES" for t
    using assms that by (auto simp: filter_empty_conv)
  then have "filter (\<lambda>r. sm_table r = t) rows = []"
    if "t \<in> {TLogs, TSpans, TMetricsHistogram, TMetricsExpHistogram, TMetricsSummary}" for t
    using that by (auto simp: SCALAR_METRIC_TABLES_def)
  then show ?thesis by (simp add: by_table_def table_ALL_def Let_def)
qed

definition push_scalar :: "table \<Rightarrow> record_batch \<Rightarrow> inner \<Rightarrow> inner" where
  "push_scalar u b inn = inn\<lparr>metric_buffers := (metric_buffers inn)(u \<mapsto> or_default (metric_buffers inn) u @ [b])\<rparr>"

lemma push_scalar_facts:
  assumes "u \<in> set SCALAR_METRIC_TABLES"
  shows "buffer_of (push_scalar u b inn) t = buffer_of inn t @ (if t = u then [b] else [])"
    "same_frame inn (push_scalar u b inn)" "buffer_bytes (push_scalar u b inn) = buffer_bytes inn"
    "scalar_only (metric_buffers inn) \<Longrightarrow> scalar_only (metric_buffers (push_scalar u b inn))"
proof -
  show "buffer_of (push_scalar u b inn) t = buffer_of inn t @ (if t = u then [b] else [])"
    using assms by (cases t) (auto simp: push_scalar_def SCALAR_METRIC_TABLES_def or_default_def)
qed (use assms in \<open>auto simp: push_scalar_def same_frame_def scalar_only_def\<close>)

lemma push_scalar_metric_pushed:
  assumes acc: "\<forall>k rs. accepts A k rs" and ok: "\<forall>r \<in> set rows. sm_table r \<in> set SCALAR_METRIC_TABLES"
  shows "\<exists>inn'. push_scalar_metric_batches A rows k inn = (Inr (), inn') \<and>
    pushed k (job_rows (JMetrics raw rows [] [] [])) inn inn'"
proof -
  let ?g = "filter (\<lambda>r. sm_table r = TMetricsGauge) rows" and ?s = "filter (\<lambda>r. sm_table r = TMetricsSum) rows"
  let ?b = "\<lambda>g. \<lparr>rb_keys = k, rb_rows = map ScalarRow g\<rparr>"
  let ?put = "\<lambda>u g inn. if g = [] then inn else push_scalar u (?b g) inn"
  let ?i1 = "charge (map ScalarRow rows) inn"
  let ?i2 = "?put TMetricsGauge ?g ?i1" and ?i3 = "?put TMetricsSum ?s (?put TMetricsGauge ?g ?i1)"
  have run: "push_scalar_metric_batches A rows k inn = (Inr (), ?i3)"
    using acc by (simp add: push_scalar_metric_batches_def by_table_scalar [OF ok] Let_def rows_to_batch_def push_scalar_def)
  have sum: "sum_list (map sm_approx_bytes rows) = sum_list (map sm_approx_bytes ?g) + sum_list (map sm_approx_bytes ?s)"
    using ok by (induction rows) (auto simp: SCALAR_METRIC_TABLES_def)
  have sc: "TMetricsGauge \<in> set SCALAR_METRIC_TABLES" "TMetricsSum \<in> set SCALAR_METRIC_TABLES"
    by (simp_all add: SCALAR_METRIC_TABLES_def)
  have b: "buffer_of ?i1 t = buffer_of inn t" for t by (cases t) (simp_all add: charge_def)
  have buf: "buffer_of ?i3 t = buffer_of inn t @ (if t = TMetricsGauge \<and> ?g \<noteq> [] then [?b ?g] else []) @
      (if t = TMetricsSum \<and> ?s \<noteq> [] then [?b ?s] else [])" for t
    by (simp add: push_scalar_facts(1) [OF sc(1)] push_scalar_facts(1) [OF sc(2)] b del: buffer_of.simps)
  have fr: "same_frame inn ?i3"
    using push_scalar_facts(2) [OF sc(1)] push_scalar_facts(2) [OF sc(2)] by (simp add: same_frame_def charge_def)
  have by_put: "buffer_bytes (?put u g inn) = buffer_bytes inn" if "u \<in> set SCALAR_METRIC_TABLES" for u g inn
    using push_scalar_facts(3) [OF that] by simp
  have bytes: "buffer_bytes ?i3 = buffer_bytes inn + sum_list (map sm_approx_bytes rows)"
    by (simp only: by_put sc) (simp add: charge_def comp_def)
  have so: "scalar_only (metric_buffers inn) \<Longrightarrow> scalar_only (metric_buffers ?i3)"
    using push_scalar_facts(4) [OF sc(1), of ?i1] push_scalar_facts(4) [OF sc(2), of ?i1]
      push_scalar_facts(4) [OF sc(2), of "push_scalar TMetricsGauge (?b ?g) ?i1"] by (simp add: charge_def)
  have rows: "job_rows (JMetrics raw rows [] [] []) t =
      (if t = TMetricsGauge then map ScalarRow ?g else if t = TMetricsSum then map ScalarRow ?s else [])" for t
    by (cases t) simp_all
  have "\<exists>bs. buffer_of ?i3 t = buffer_of inn t @ bs \<and> brows bs = job_rows (JMetrics raw rows [] [] []) t \<and>
      (\<forall>b \<in> set bs. rb_keys b = k \<and> rb_rows b \<noteq> [])" for t
    unfolding buf rows by (intro exI conjI) (rule refl, auto)
  moreover have "sum_list (map (\<lambda>t. sum_list (map approx_bytes (job_rows (JMetrics raw rows [] [] []) t))) table_ALL) =
      sum_list (map sm_approx_bytes rows)"
    by (simp add: sum table_ALL_def comp_def)
  ultimately have "pushed k (job_rows (JMetrics raw rows [] [] [])) inn ?i3"
    unfolding pushed_def using fr so bytes by metis
  with run show ?thesis by blast
qed

lemma push_metrics_pushed:
  assumes acc: "\<forall>k rs. accepts A k rs" and ok: "\<forall>r \<in> set rows. sm_table r \<in> set SCALAR_METRIC_TABLES"
  shows "\<exists>inn'. push_metrics A rows hs es ss k inn = (Inr (), inn') \<and>
    pushed k (job_rows (JMetrics raw rows hs es ss)) inn inn'"
proof -
  obtain i1 where i1: "push_scalar_metric_batches A rows k inn = (Inr (), i1)"
    "pushed k (job_rows (JMetrics raw rows [] [] [])) inn i1"
    using push_scalar_metric_pushed [OF acc ok] by blast
  obtain i2 where i2: "push_histogram_batch A hs k i1 = (Inr (), i2)"
    "pushed k (\<lambda>t. if t = TMetricsHistogram then map HistogramRow hs else []) i1 i2"
    using push_histogram_pushed [OF acc] by blast
  obtain i3 where i3: "push_exp_histogram_batch A es k i2 = (Inr (), i3)"
    "pushed k (\<lambda>t. if t = TMetricsExpHistogram then map ExpHistogramRow es else []) i2 i3"
    using push_exp_histogram_pushed [OF acc] by blast
  obtain i4 where i4: "push_summary_batch A ss k i3 = (Inr (), i4)"
    "pushed k (\<lambda>t. if t = TMetricsSummary then map SummaryRow ss else []) i3 i4"
    using push_summary_pushed [OF acc] by blast
  have "pushed k (job_rows (JMetrics raw rows hs es ss)) inn i4"
    by (rule pushed_cong [OF pushed_trans [OF pushed_trans [OF pushed_trans [OF i1(2) i2(2)] i3(2)] i4(2)]])
       (auto split: table.split)
  with i1(1) i2(1) i3(1) i4(1) show ?thesis by (simp add: push_metrics_def)
qed

subsection \<open>Ingest\<close>

definition same_store :: "storage \<Rightarrow> storage \<Rightarrow> bool" where
  "same_store s s' \<longleftrightarrow> st_dir s' = st_dir s \<and> st_compression s' = st_compression s \<and>
     st_wal_mode s' = st_wal_mode s \<and> promote s' = promote s \<and> st_seq s' = st_seq s \<and>
     st_manifest s' = st_manifest s \<and> read_only s' = read_only s"

lemma wal_sync_shape: "\<exists>r w'. wal_sync (self, w) = (r, self, w') \<and> same_bytes w w'"
proof -
  let ?r = "io_try (wal_err WalFsync io_str) (fs_sync (wfile self) w)"
  have "same_bytes w (snd ?r)" by (simp add: fs_sync_bytes)
  then show ?thesis by (cases ?r; cases "fst ?r") (auto simp: wal_sync_def)
qed

definition accepted_inner :: "nat \<Rightarrow> inner \<Rightarrow> inner" where
  "accepted_inner now inn =
     inn\<lparr>next_lsn := next_lsn inn + 1, buffer_max_lsn := next_lsn inn, last_append := Some now\<rparr>"

text \<open>Assigning a sequence number and logging the body: what is left on success and on failure.\<close>

lemma wal_append_assign_cases:
  assumes "st_wal s = Some l" "wal_append_assign h now sig raw sync (s, w) = (res, s', w')"
  obtains r1 l1 w1 where "wal_append h (next_lsn (st_inner s)) sig raw (l, w) = (r1, l1, w1)"
    "same_bytes w1 w'" "same_store s s'" "st_wal s' = Some l1"
    "\<And>a. res = Inr a \<Longrightarrow> r1 = Inr () \<and> fst a = next_lsn (st_inner s) \<and> st_inner s' = accepted_inner now (st_inner s)"
proof -
  let ?L = "next_lsn (st_inner s)"
  obtain r1 l1 w1 where a: "wal_append h ?L sig raw (l, w) = (r1, l1, w1)"
    by (cases "wal_append h ?L sig raw (l, w)") auto
  obtain r2 w2 where sy: "wal_sync (l1, w1) = (r2, l1, w2)" "same_bytes w1 w2"
    using wal_sync_shape by blast
  note unf = wal_append_assign_def Let_def upd_inner_def with_wal_def fetch_max_def
  show thesis
  proof (cases r1)
    case (Inl e)
    with assms a have "res = Inl e" "w' = w1" "same_store s s'" "st_wal s' = Some l1"
      by (auto simp: unf same_store_def)
    with a Inl show thesis by (intro that [OF a]) auto
  next
    case (Inr u)
    show thesis
    proof (cases "sync \<and> st_wal_mode s = WalAlways")
      case False
      with assms a Inr have "res = Inr (?L, False)" "w' = w1" "same_store s s'" "st_wal s' = Some l1"
        "st_inner s' = accepted_inner now (st_inner s)"
        by (auto simp: unf same_store_def accepted_inner_def split: if_splits)
      with a Inr show thesis by (intro that [OF a]) auto
    next
      case True
      show thesis
      proof (cases r2)
        case (Inl e)
        with True assms a sy Inr have "res = Inl e" "w' = w2" "same_store s s'" "st_wal s' = Some l1"
          by (auto simp: unf same_store_def)
        with a sy show thesis by (intro that [OF a]) auto
      next
        case (Inr v)
        with True assms a sy \<open>r1 = Inr u\<close> have "res = Inr (?L, True)" "w' = w2" "same_store s s'" "st_wal s' = Some l1"
          "st_inner s' = accepted_inner now (st_inner s)"
          by (auto simp: unf same_store_def accepted_inner_def)
        with a sy \<open>r1 = Inr u\<close> show thesis by (intro that [OF a]) auto
      qed
    qed
  qed
qed

text \<open>The push of a job.\<close>

definition push_job :: "arrow_env \<Rightarrow> ingest_job \<Rightarrow> string list \<Rightarrow> inner \<Rightarrow> (inner, unit) outcome" where
  "push_job A j =
     (case j of
        JLogs raw rows \<Rightarrow> push_log_batch A rows
      | JTraces raw rows \<Rightarrow> push_span_batch A rows
      | JMetrics raw rows hs es ss \<Rightarrow> push_metrics A rows hs es ss)"

lemma process_ingest_job_eq:
  "process_ingest_job A h now sync j e =
     (if read_only (fst e) then (Inl read_only_err, e)
      else
        and_then id (wal_append_assign h now (job_signal j) (job_raw j) sync e) (\<lambda>r e.
        and_then id (push_inner (push_job A j (promote (fst e))) e) (\<lambda>_ e. (Inr r, e))))"
  by (cases j) (simp_all add: process_ingest_job_def storage_ingest_def ingest_traces_def ingest_metrics_def push_job_def)

lemma push_job_pushed:
  assumes "\<forall>k rs. accepts A k rs" "job_ok j"
  shows "\<exists>inn'. push_job A j k inn = (Inr (), inn') \<and> pushed k (job_rows j) inn inn'"
proof (cases j)
  case (JLogs raw rows)
  then show ?thesis using push_log_pushed [OF assms(1)] by (simp add: push_job_def)
next
  case (JTraces raw rows)
  then show ?thesis using push_span_pushed [OF assms(1)] by (simp add: push_job_def)
next
  case (JMetrics raw rows hs es ss)
  then show ?thesis using push_metrics_pushed [OF assms(1)] assms(2) by (simp add: push_job_def job_ok_def)
qed

lemma process_job_cases:
  assumes acc: "\<forall>k rs. accepts A k rs" and j: "job_ok j" and ro: "\<not> read_only s" and l: "st_wal s = Some l"
    and run: "process_ingest_job A h now sync j (s, w) = (res, s', w')"
  obtains r1 l1 w1 where
    "wal_append h (next_lsn (st_inner s)) (job_signal j) (job_raw j) (l, w) = (r1, l1, w1)"
    "same_bytes w1 w'" "same_store s s'" "st_wal s' = Some l1"
    "\<And>a. res = Inr a \<Longrightarrow> r1 = Inr () \<and> fst a = next_lsn (st_inner s) \<and>
       pushed (promote s) (job_rows j) (accepted_inner now (st_inner s)) (st_inner s')"
proof -
  obtain res0 s0 w0 where wa: "wal_append_assign h now (job_signal j) (job_raw j) sync (s, w) = (res0, s0, w0)"
    by (cases "wal_append_assign h now (job_signal j) (job_raw j) sync (s, w)") auto
  show thesis
  proof (rule wal_append_assign_cases [OF l wa])
    fix r1 l1 w1
    assume a: "wal_append h (next_lsn (st_inner s)) (job_signal j) (job_raw j) (l, w) = (r1, l1, w1)"
      "same_bytes w1 w0" "same_store s s0" "st_wal s0 = Some l1"
      and ok: "\<And>a. res0 = Inr a \<Longrightarrow> r1 = Inr () \<and> fst a = next_lsn (st_inner s) \<and> st_inner s0 = accepted_inner now (st_inner s)"
    show thesis
    proof (cases res0)
      case (Inl e)
      with run wa ro have "res = Inl e" "s' = s0" "w' = w0" by (auto simp: process_ingest_job_eq)
      with a show thesis by (intro that [OF a(1)]) auto
    next
      case (Inr r)
      obtain inn' where p: "push_job A j (promote s0) (st_inner s0) = (Inr (), inn')"
        "pushed (promote s0) (job_rows j) (st_inner s0) inn'"
        using push_job_pushed [OF acc j] by blast
      then have "res = Inr r" "s' = s0\<lparr>st_inner := inn'\<rparr>" "w' = w0"
        using run wa ro Inr by (auto simp: process_ingest_job_eq push_inner_def)
      with a ok [OF Inr] p show thesis by (intro that [OF a(1)]) (auto simp: same_store_def)
    qed
  qed
qed

end
