(* ===== verification/Storage_Write.thy ===== *)
theory Storage_Write
  imports Storage_Views "HOL-Library.Multiset"
begin

text \<open>
  Writing segments: the names are fresh, the file of a segment reads back as the rows that were
  merged into it, and nothing else of the directory changes.
\<close>

subsection \<open>What the engine relies on\<close>

text \<open>Arrow builds a batch of any rows of one schema; concatenating batches of one schema, sorting by
  time and gathering gives the same rows in time order; a Parquet file reads back as the rows it was
  written from, in order; and the index builder stays inside its directory.\<close>

definition arrow_laws :: "arrow_env \<Rightarrow> bool" where
  "arrow_laws A \<longleftrightarrow>
     (\<forall>k rs. accepts A k rs) \<and>
     (\<forall>bs k b. bs \<noteq> [] \<and> (\<forall>x \<in> set bs. rb_keys x = k) \<and> merge A bs = Some b \<longrightarrow>
        rb_keys b = k \<and> mset (rb_rows b) = mset (brows bs) \<and> sorted (map row_time (rb_rows b))) \<and>
     (\<forall>c bl b. \<exists>bs. pq_read A (case pq_chunks A c bl b of (x, y, z) \<Rightarrow> x @ y @ z) = Some bs \<and>
        brows bs = rb_rows b) \<and>
     (\<forall>p rows w. touches {q. prefix (p @ ''/'') q} w (snd (sidecar A p rows w)))"

text \<open>The rows a segment's file holds.\<close>

definition seg_content :: "arrow_env \<Rightarrow> world \<Rightarrow> segment_ref \<Rightarrow> row list option" where
  "seg_content A w s =
     (case fs_read w (relative_path s) of
        Inl e \<Rightarrow> None
      | Inr bs \<Rightarrow> map_option brows (pq_read A bs))"

definition seg_readable :: "arrow_env \<Rightarrow> world \<Rightarrow> segment_ref \<Rightarrow> bool" where
  "seg_readable A w s \<longleftrightarrow> seg_content A w s \<noteq> None"

definition seg_data :: "arrow_env \<Rightarrow> world \<Rightarrow> segment_ref list \<Rightarrow> row multiset" where
  "seg_data A w ss = (\<Sum>s \<leftarrow> ss. mset (the (seg_content A w s)))"

lemma seg_data_simps [simp]:
  "seg_data A w [] = {#}" "seg_data A w (s # ss) = mset (the (seg_content A w s)) + seg_data A w ss"
  "seg_data A w (ss @ ss') = seg_data A w ss + seg_data A w ss'"
  by (simp_all add: seg_data_def)

lemma seg_content_touches:
  "touches S w w' \<Longrightarrow> relative_path s \<notin> S \<Longrightarrow> seg_content A w' s = seg_content A w s"
  by (simp add: seg_content_def touches_read)

lemma seg_data_touches:
  assumes "touches S w w'" "\<forall>s \<in> set ss. relative_path s \<notin> S"
  shows "seg_data A w' ss = seg_data A w ss" "(\<forall>s \<in> set ss. seg_readable A w' s) = (\<forall>s \<in> set ss. seg_readable A w s)"
proof -
  have "seg_content A w' s = seg_content A w s" if "s \<in> set ss" for s
    using that assms seg_content_touches by blast
  then show "seg_data A w' ss = seg_data A w ss" "(\<forall>s \<in> set ss. seg_readable A w' s) = (\<forall>s \<in> set ss. seg_readable A w s)"
    unfolding seg_data_def seg_readable_def by (auto intro!: arg_cong [where f = sum_list] map_cong)
qed

subsection \<open>Paths\<close>

definition segment_base :: "string \<Rightarrow> int \<Rightarrow> nat \<Rightarrow> nat \<Rightarrow> string" where
  "segment_base t mt now sq = t @ ''/'' @ utc_date_string mt @ ''/'' @ show_pad 10 20 now @ ''-'' @ show_pad 10 6 sq"

lemma segment_rel_path_base: "segment_rel_path t mt now sq = segment_base t mt now sq @ ''.parquet''"
  by (simp add: segment_rel_path_def segment_base_def)

lemma dot_chars: "CHR ''.'' \<notin> set digit_chars"
  by (simp add: digit_chars_def)

lemma segment_file_name:
  "file_name (segment_rel_path (table_as_str t) mt now sq) = show_pad 10 20 now @ ''-'' @ show_pad 10 6 sq @ ''.parquet''"
proof -
  have "split_on (CHR ''/'') (segment_rel_path (table_as_str t) mt now sq) =
      table_as_str t # utc_date_string mt # [show_pad 10 20 now @ ''-'' @ show_pad 10 6 sq @ ''.parquet'']"
    unfolding segment_rel_path_def
    using utc_date_string_chars [of mt] table_as_str_no_slash [of t] show_pad_no [OF date_chars(2)]
    by (simp add: split_on_append)
  then show ?thesis by (simp add: file_name_def)
qed

lemma segment_with_extension:
  "with_extension (segment_rel_path (table_as_str t) mt now sq) x = segment_base (table_as_str t) mt now sq @ ''.'' @ x"
proof -
  let ?s = "show_pad 10 20 now @ ''-'' @ show_pad 10 6 sq"
  let ?p = "segment_rel_path (table_as_str t) mt now sq"
  have n: "file_name ?p = ?s @ ''.parquet''" by (simp add: segment_file_name)
  have r: "rev (?s @ ''.parquet'') = ''teuqrap'' @ CHR ''.'' # rev ?s" by simp
  have dw: "dropWhile (\<lambda>c. c \<noteq> CHR ''.'') (rev (?s @ ''.parquet'')) = CHR ''.'' # rev ?s"
    unfolding r by (simp add: dropWhile_append)
  have stem: "butlast (rev (dropWhile (\<lambda>c. c \<noteq> CHR ''.'') (rev (?s @ ''.parquet'')))) = ?s"
    unfolding dw by (simp only: rev.simps rev_rev_ident butlast_snoc)
  have pre: "take (length ?p - length (?s @ ''.parquet'')) ?p = table_as_str t @ ''/'' @ utc_date_string mt @ ''/''"
    by (simp add: segment_rel_path_def)
  have "fst (split_ext ?p) = segment_base (table_as_str t) mt now sq"
    unfolding split_ext_def Let_def n stem pre by (simp add: segment_base_def)
  then show ?thesis by (simp add: with_extension_def)
qed

lemma segment_path_inject:
  assumes "segment_rel_path (table_as_str t) mt now sq = segment_rel_path (table_as_str t') mt' now' sq'"
  shows "sq = sq'"
proof -
  let ?n = "\<lambda>now sq. show_pad 10 20 now @ ''-'' @ show_pad 10 6 sq"
  have "?n now sq @ ''.parquet'' = ?n now' sq' @ ''.parquet''"
    using arg_cong [OF assms, of file_name] by (simp add: segment_file_name)
  then have "split_on (CHR ''-'') (?n now sq) = split_on (CHR ''-'') (?n now' sq')" by simp
  then have "show_pad 10 6 sq = show_pad 10 6 sq'" by (simp add: show_pad_no date_chars)
  then show ?thesis by simp
qed

abbreviation slashes :: "string \<Rightarrow> nat" where
  "slashes s \<equiv> count_list s (CHR ''/'')"

lemma slashes_base: "slashes (segment_base (table_as_str t) mt now sq) = 2"
  using utc_date_string_chars [of mt] table_as_str_no_slash [of t] show_pad_no [OF date_chars(2)]
  by (simp add: segment_base_def count_list_append count_notin)

lemma segment_in_names:
  "segment_base (table_as_str t) mt now sq @ x \<in> seg_names"
proof -
  have "prefix (table_as_str t @ ''/'') (segment_base (table_as_str t) mt now sq @ x)"
    by (simp add: segment_base_def prefix_def)
  then show ?thesis by (auto simp: seg_names_def)
qed

text \<open>What writing the segment of a sequence number may change: its file, its temporary file and its
  index directory.\<close>

definition seg_area :: "arrow_env \<Rightarrow> table \<Rightarrow> int \<Rightarrow> nat \<Rightarrow> string set" where
  "seg_area A t mt sq =
     (let base = segment_base (table_as_str t) mt (clk A sq) sq
      in {base @ ''.parquet'', base @ ''.tmp''} \<union> {q. prefix (base @ ''.tidx/'') q})"

lemma seg_area_names: "seg_area A t mt sq \<subseteq> seg_names"
  using segment_in_names by (auto simp: seg_area_def Let_def prefix_def)

lemma seg_area_other:
  assumes "segment_path A (table_as_str t') mt' sq' \<in> seg_area A t mt sq"
  shows "sq' = sq"
proof -
  let ?p = "segment_path A (table_as_str t') mt' sq'"
  let ?base = "segment_base (table_as_str t) mt (clk A sq) sq"
  have sl: "slashes ?p = 2" using slashes_base by (simp add: segment_path_def segment_rel_path_base)
  have "?p \<noteq> ?base @ ''.tmp''"
  proof
    assume "?p = ?base @ ''.tmp''"
    then have "last ?p = CHR ''p''" by simp
    then show False by (simp add: segment_path_def segment_rel_path_base)
  qed
  moreover have "\<not> prefix (?base @ ''.tidx/'') ?p"
  proof
    assume "prefix (?base @ ''.tidx/'') ?p"
    then obtain z where "?p = ?base @ ''.tidx/'' @ z" by (auto simp: prefix_def)
    then have "slashes ?p \<ge> 3" using slashes_base [of t mt "clk A sq" sq] by (simp add: count_list_append)
    with sl show False by simp
  qed
  ultimately have "?p = segment_rel_path (table_as_str t) mt (clk A sq) sq"
    using assms by (auto simp: seg_area_def Let_def segment_rel_path_base)
  then show ?thesis using segment_path_inject by (simp add: segment_path_def)
qed

subsection \<open>The writers\<close>

lemma zstd_level_world: "snd (zstd_level A c w) = w"
  by (auto simp: zstd_level_def split: compression.splits)

lemma write_parquet_touches: "p \<in> S \<Longrightarrow> touches S w (snd (write_parquet A b p c bl w))"
  unfolding write_parquet_def
  by (auto simp: zstd_level_world intro!: touches_binds fs_touches split: prod.split)

lemma io_try_pair: "io_try e r = (Inr u, w') \<longleftrightarrow> fst r \<and> snd r = w'"
  by (simp add: io_try_Inr)

lemma write_parquet_ok:
  assumes "write_parquet A b p c bl w = (Inr (), w')"
  shows "fs_read w' p = Inr (case pq_chunks A c bl b of (x, y, z) \<Rightarrow> x @ y @ z)"
proof -
  obtain x y z where ch: "pq_chunks A c bl b = (x, y, z)" by (metis prod_cases3)
  from assms obtain w0 w1 w2 w3 w4 where
    w1: "fst (fs_create p w0)" "snd (fs_create p w0) = w1"
    and w2: "fst (fs_write_all p x w1)" "snd (fs_write_all p x w1) = w2"
    and w3: "fst (fs_write_all p y w2)" "snd (fs_write_all p y w2) = w3"
    and w4: "fst (fs_write_all p z w3)" "snd (fs_write_all p z w3) = w4"
    and w5: "snd (fs_sync p w4) = w'"
    by (auto simp: write_parquet_def ch and_then_Inr io_try_pair)
  have "fs_read w1 p = Inr []" using fs_create_read(2) [OF w1(1)] w1(2) by simp
  then have "fs_read w2 p = Inr x" using fs_write_all_read(2) [OF w2(1)] w2(2) by simp
  then have "fs_read w3 p = Inr (x @ y)" using fs_write_all_read(2) [OF w3(1)] w3(2) by simp
  then have "fs_read w4 p = Inr (x @ y @ z)" using fs_write_all_read(2) [OF w4(1)] w4(2) by simp
  then show ?thesis using w5 ch by (simp add: fs_sync_read [of p w4 p, symmetric])
qed

definition bump_seq :: "storage \<Rightarrow> storage" where
  "bump_seq s = s\<lparr>st_seq := wadd_u64 (st_seq s) 1\<rparr>"

lemma write_segment_parquet_cases:
  assumes "write_segment_parquet A (table_as_str t) mt b (s, w) = (res, s', w')"
  shows "s' = bump_seq s" "touches (seg_area A t mt (st_seq s)) w w'"
    "\<And>p. res = Inr p \<Longrightarrow> p = segment_path A (table_as_str t) mt (st_seq s) \<and>
       fs_read w' p = Inr (case pq_chunks A (st_compression s) (bloom_columns (table_as_str t)) b of (x, y, z) \<Rightarrow> x @ y @ z)"
proof -
  let ?p = "segment_path A (table_as_str t) mt (st_seq s)"
  let ?t = "with_extension ?p ''tmp''"
  have p: "?p = segment_base (table_as_str t) mt (clk A (st_seq s)) (st_seq s) @ ''.parquet''"
    and tm: "?t = segment_base (table_as_str t) mt (clk A (st_seq s)) (st_seq s) @ ''.tmp''"
    by (simp_all add: segment_path_def segment_rel_path_base segment_with_extension)
      (simp add: segment_rel_path_base [symmetric] segment_with_extension)
  have in_area: "?p \<in> seg_area A t mt (st_seq s)" "?t \<in> seg_area A t mt (st_seq s)"
    unfolding tm unfolding p by (simp_all add: seg_area_def Let_def)
  have ne: "?t \<noteq> ?p" unfolding tm unfolding p by simp
  show "s' = bump_seq s"
    using assms by (auto simp: write_segment_parquet_def Let_def bump_seq_def and_then_def split: prod.splits sum.splits)
  have "touches (seg_area A t mt (st_seq s)) w (snd (snd (write_segment_parquet A (table_as_str t) mt b (s, w))))"
    unfolding write_segment_parquet_def
    by (auto simp: Let_def intro!: touches_binds fs_touches write_parquet_touches in_area)
  then show "touches (seg_area A t mt (st_seq s)) w w'" using assms by simp
  fix q assume "res = Inr q"
  with assms obtain w1 w2 w3 where q: "q = ?p"
    and w1: "write_parquet A b ?t (st_compression s) (bloom_columns (table_as_str t)) w1 = (Inr (), w2)"
    and w2: "fst (fs_rename ?t ?p w2)" "snd (fs_rename ?t ?p w2) = w3"
    and w3: "snd (fs_sync_subdir (parent_dir ?p) w3) = w'"
    by (auto simp: write_segment_parquet_def Let_def and_then_Inr io_try_pair)
  have "fs_read w' ?p = fs_read w3 ?p"
    using w3 fs_sync_subdir_bytes [of w3 "parent_dir ?p"] by (simp add: same_bytes_def)
  also have "\<dots> = fs_read w2 ?t" using fs_rename_read(2) [OF w2(1) ne] w2(2) by simp
  also have "\<dots> = Inr (case pq_chunks A (st_compression s) (bloom_columns (table_as_str t)) b of (x, y, z) \<Rightarrow> x @ y @ z)"
    by (rule write_parquet_ok [OF w1])
  finally show "q = ?p \<and> fs_read w' q = Inr (case pq_chunks A (st_compression s) (bloom_columns (table_as_str t)) b of
      (x, y, z) \<Rightarrow> x @ y @ z)" using q by simp
qed

text \<open>A table writer: it uses up one sequence number, changes only the area of that number, and on
  success its segment holds the batch.\<close>

definition writes_segment ::
  "arrow_env \<Rightarrow> table \<Rightarrow> (record_batch \<Rightarrow> engine \<Rightarrow> (engine, segment_ref) outcome) \<Rightarrow> bool" where
  "writes_segment A t wr \<longleftrightarrow> (\<forall>b s w res s' w'. wr b (s, w) = (res, s', w') \<longrightarrow>
     s' = bump_seq s \<and> (\<exists>mt. touches (seg_area A t mt (st_seq s)) w w' \<and>
       (\<forall>sg. res = Inr sg \<longrightarrow> relative_path sg = segment_path A (table_as_str t) mt (st_seq s) \<and>
          seg_content A w' sg = Some (rb_rows b) \<and> seg_rows sg = length (rb_rows b) \<and>
          ((\<forall>r \<in> set (rb_rows b). i64_ok (row_time r)) \<longrightarrow>
             i64_ok (min_time_unix_nano sg) \<and> i64_ok (max_time_unix_nano sg)))))"

lemma writes_segmentD:
  "writes_segment A t wr \<Longrightarrow> wr b (s, w) = (res, s', w') \<Longrightarrow>
     \<exists>mt. touches (seg_area A t mt (st_seq s)) w w' \<and>
       (\<forall>sg. res = Inr sg \<longrightarrow> relative_path sg = segment_path A (table_as_str t) mt (st_seq s) \<and>
          seg_content A w' sg = Some (rb_rows b) \<and> seg_rows sg = length (rb_rows b) \<and>
          ((\<forall>r \<in> set (rb_rows b). i64_ok (row_time r)) \<longrightarrow>
             i64_ok (min_time_unix_nano sg) \<and> i64_ok (max_time_unix_nano sg)))"
  unfolding writes_segment_def by (rule conjunct2, elim allE, erule mp)

lemma time_bounds_ok:
  "\<forall>r \<in> set (rb_rows b). i64_ok (row_time r) \<Longrightarrow> i64_ok (fst (time_bounds b)) \<and> i64_ok (snd (time_bounds b))"
  by (auto simp: time_bounds_def i64_ok_def i64_min_def i64_max_def)

lemma span_end_ok: "i64_ok (row_time r) \<Longrightarrow> i64_ok (span_end r)"
  by (cases r) simp_all

lemma spans_bounds_ok:
  assumes "\<forall>r \<in> set (rb_rows b). i64_ok (row_time r)"
  shows "i64_ok (fst (spans_bounds b)) \<and> i64_ok (snd (spans_bounds b))"
proof (cases "rb_rows b = []")
  case True
  then show ?thesis by (simp add: spans_bounds_def i64_ok_def i64_min_def i64_max_def)
next
  case False
  then have "Max (span_end ` set (rb_rows b)) \<in> span_end ` set (rb_rows b)" by (intro Max_in) auto
  then obtain r where "r \<in> set (rb_rows b)" "Max (span_end ` set (rb_rows b)) = span_end r" by blast
  with assms False show ?thesis by (simp add: spans_bounds_def span_end_ok)
qed

lemma seg_content_of:
  assumes "arrow_laws A" "fs_read w p = Inr (case pq_chunks A c bl b of (x, y, z) \<Rightarrow> x @ y @ z)"
  shows "seg_content A w (segment_of p bounds b) = Some (rb_rows b)"
  using assms by (auto simp: arrow_laws_def seg_content_def segment_of_def)

text \<open>The three writers differ in the bounds and in what follows the file: \<open>post\<close> is nothing or the
  index.\<close>

definition write_seg_with ::
  "arrow_env \<Rightarrow> table \<Rightarrow> (record_batch \<Rightarrow> int \<times> int) \<Rightarrow> (string \<Rightarrow> record_batch \<Rightarrow> engine \<Rightarrow> (engine, unit) outcome) \<Rightarrow>
     record_batch \<Rightarrow> engine \<Rightarrow> (engine, segment_ref) outcome" where
  "write_seg_with A t bd post b e =
     and_then id (write_segment_parquet A (table_as_str t) (fst (bd b)) b e) (\<lambda>path e.
     and_then id (post path b e) (\<lambda>_ e. (Inr (segment_of path (bd b) b), e)))"

lemma write_seg_with_eqs:
  "write_metric_segment A t = write_seg_with A t time_bounds (\<lambda>p b e. (Inr (), e))"
  "write_logs_segment A = write_seg_with A TLogs time_bounds (build_sidecar A)"
  "write_spans_segment A = write_seg_with A TSpans spans_bounds (build_sidecar A)"
  by (auto simp: write_metric_segment_def write_logs_segment_def write_spans_segment_def write_seg_with_def Let_def fun_eq_iff)

lemma build_sidecar_cases:
  assumes "arrow_laws A"
  shows "\<exists>r w'. build_sidecar A (segment_path A (table_as_str t) mt sq) b (s, w) = (r, s, w') \<and>
    touches (seg_area A t mt sq - {segment_path A (table_as_str t) mt sq}) w w'"
proof -
  let ?base = "segment_base (table_as_str t) mt (clk A sq) sq"
  have x: "with_extension (segment_path A (table_as_str t) mt sq) ''tidx'' = ?base @ ''.tidx''"
    by (simp add: segment_path_def segment_with_extension)
  have "touches {q. prefix ((?base @ ''.tidx'') @ ''/'') q} w (snd (sidecar A (?base @ ''.tidx'') rows w))" for rows
    using assms unfolding arrow_laws_def by blast
  then have "touches {q. prefix (?base @ ''.tidx/'') q} w (snd (sidecar A (?base @ ''.tidx'') rows w))" for rows
    by simp
  moreover have "{q. prefix (?base @ ''.tidx/'') q} \<subseteq> seg_area A t mt sq - {segment_path A (table_as_str t) mt sq}"
    by (auto simp: seg_area_def Let_def segment_path_def segment_rel_path_base)
  ultimately have "touches (seg_area A t mt sq - {segment_path A (table_as_str t) mt sq}) w
      (snd (sidecar A (?base @ ''.tidx'') rows w))" for rows
    by (blast intro: touches_mono)
  then show ?thesis by (auto simp: build_sidecar_def x split: prod.split) (metis snd_conv)
qed

lemma write_seg_with_writes:
  assumes laws: "arrow_laws A"
    and bd: "\<And>b. \<forall>r \<in> set (rb_rows b). i64_ok (row_time r) \<Longrightarrow> i64_ok (fst (bd b)) \<and> i64_ok (snd (bd b))"
    and post: "\<And>mt sq b s w. \<exists>r w'. post (segment_path A (table_as_str t) mt sq) b (s, w) = (r, s, w') \<and>
      touches (seg_area A t mt sq - {segment_path A (table_as_str t) mt sq}) w w'"
  shows "writes_segment A t (write_seg_with A t bd post)"
  unfolding writes_segment_def
proof (intro allI impI)
  fix b s w res s' w' assume run: "write_seg_with A t bd post b (s, w) = (res, s', w')"
  let ?mt = "fst (bd b)"
  let ?p = "segment_path A (table_as_str t) ?mt (st_seq s)"
  obtain r1 s1 w1 where p: "write_segment_parquet A (table_as_str t) ?mt b (s, w) = (r1, s1, w1)"
    by (cases "write_segment_parquet A (table_as_str t) ?mt b (s, w)") auto
  note c = write_segment_parquet_cases [OF p]
  obtain r2 w2 where p2: "post ?p b (s1, w1) = (r2, s1, w2)" and t2: "touches (seg_area A t ?mt (st_seq s) - {?p}) w1 w2"
    using post by blast
  have t12: "touches (seg_area A t ?mt (st_seq s)) w w2"
    by (rule touches_trans [OF c(2) touches_mono [OF t2]]) auto
  have fin: "s' = bump_seq s \<and> (w' = w1 \<or> w' = w2)"
    using run p p2 c(1) c(3) by (cases r1; cases r2) (auto simp: write_seg_with_def)
  have ok: "w' = w2 \<and> sg = segment_of ?p (bd b) b \<and> r1 = Inr ?p" if "res = Inr sg" for sg
    using run p p2 c(3) that by (cases r1; cases r2) (auto simp: write_seg_with_def)
  have "touches (seg_area A t ?mt (st_seq s)) w w'" using fin c(2) t12 by auto
  moreover have "relative_path sg = ?p \<and> seg_content A w' sg = Some (rb_rows b) \<and> seg_rows sg = length (rb_rows b) \<and>
      ((\<forall>r \<in> set (rb_rows b). i64_ok (row_time r)) \<longrightarrow> i64_ok (min_time_unix_nano sg) \<and> i64_ok (max_time_unix_nano sg))"
    if r: "res = Inr sg" for sg
  proof -
    note o = ok [OF r]
    have "seg_content A w1 (segment_of ?p (bd b) b) = Some (rb_rows b)"
      using seg_content_of [OF laws] c(3) [of ?p] o by blast
    moreover have "seg_content A w2 (segment_of ?p (bd b) b) = seg_content A w1 (segment_of ?p (bd b) b)"
      by (rule seg_content_touches [OF t2]) (simp add: segment_of_def)
    ultimately show ?thesis using o bd [of b] by (auto simp: segment_of_def)
  qed
  ultimately show "s' = bump_seq s \<and> (\<exists>mt. touches (seg_area A t mt (st_seq s)) w w' \<and>
       (\<forall>sg. res = Inr sg \<longrightarrow> relative_path sg = segment_path A (table_as_str t) mt (st_seq s) \<and>
          seg_content A w' sg = Some (rb_rows b) \<and> seg_rows sg = length (rb_rows b) \<and>
          ((\<forall>r \<in> set (rb_rows b). i64_ok (row_time r)) \<longrightarrow>
             i64_ok (min_time_unix_nano sg) \<and> i64_ok (max_time_unix_nano sg))))"
    using fin by blast
qed

lemma segment_writers:
  assumes "arrow_laws A"
  shows "writes_segment A t (write_metric_segment A t)" "writes_segment A TLogs (write_logs_segment A)"
    "writes_segment A TSpans (write_spans_segment A)"
  unfolding write_seg_with_eqs
  by (rule write_seg_with_writes [OF assms time_bounds_ok], assumption, simp)
     (rule write_seg_with_writes [OF assms _ build_sidecar_cases [OF assms]], rule time_bounds_ok spans_bounds_ok, assumption)+

subsection \<open>Writing several tables\<close>

definition seg_range :: "arrow_env \<Rightarrow> nat \<Rightarrow> nat \<Rightarrow> string set" where
  "seg_range A k0 k1 = {p. \<exists>t mt q. k0 \<le> q \<and> q < k1 \<and> p \<in> seg_area A t mt q}"

lemma seg_range_names: "seg_range A k0 k1 \<subseteq> seg_names"
  using seg_area_names by (fastforce simp: seg_range_def)

lemma seg_range_mono: "k0' \<le> k0 \<Longrightarrow> k1 \<le> k1' \<Longrightarrow> seg_range A k0 k1 \<subseteq> seg_range A k0' k1'"
  unfolding seg_range_def by (auto intro: order_trans less_le_trans)

text \<open>A path that belongs to a sequence number in a range, and one that no number from \<open>k\<close> on can
  give.\<close>

definition path_in :: "arrow_env \<Rightarrow> nat \<Rightarrow> nat \<Rightarrow> table \<times> segment_ref \<Rightarrow> bool" where
  "path_in A k0 k1 x \<longleftrightarrow> (\<exists>mt q. k0 \<le> q \<and> q < k1 \<and> relative_path (snd x) = segment_path A (table_as_str (fst x)) mt q)"

definition path_old :: "arrow_env \<Rightarrow> nat \<Rightarrow> string \<Rightarrow> bool" where
  "path_old A k p \<longleftrightarrow> (\<forall>k'. p \<notin> seg_range A k k')"

lemma path_in_old: "path_in A k0 k1 x \<Longrightarrow> path_old A k1 (relative_path (snd x))"
  using seg_area_other unfolding path_in_def path_old_def seg_range_def by fastforce

lemma path_old_mono: "path_old A k p \<Longrightarrow> k \<le> k' \<Longrightarrow> path_old A k' p"
  using seg_range_mono [of k k'] unfolding path_old_def by blast

lemma path_in_mono: "path_in A k0 k1 x \<Longrightarrow> k0' \<le> k0 \<Longrightarrow> k1 \<le> k1' \<Longrightarrow> path_in A k0' k1' x"
  unfolding path_in_def by (meson order_trans less_le_trans)

lemma path_in_names: "path_in A k0 k1 x \<Longrightarrow> relative_path (snd x) \<in> seg_names"
  using segment_in_names by (auto simp: path_in_def segment_path_def segment_rel_path_base)

lemma path_in_range: "path_in A k0 k1 x \<Longrightarrow> relative_path (snd x) \<in> seg_range A k0 k1"
  unfolding path_in_def seg_range_def seg_area_def Let_def segment_path_def segment_rel_path_base by blast

definition outs_of :: "table \<Rightarrow> (table \<times> 'a) list \<Rightarrow> 'a list" where
  "outs_of t xs = map snd (filter (\<lambda>x. fst x = t) xs)"

lemma outs_of_simps [simp]:
  "outs_of t [] = []" "outs_of t (x # xs) = (if fst x = t then snd x # outs_of t xs else outs_of t xs)"
  "outs_of t (xs @ ys) = outs_of t xs @ outs_of t ys"
  by (simp_all add: outs_of_def)

definition batches_ok :: "string list \<Rightarrow> record_batch list \<Rightarrow> bool" where
  "batches_ok k bs \<longleftrightarrow> (\<forall>b \<in> set bs. rb_keys b = k \<and> (\<forall>r \<in> set (rb_rows b). i64_ok (row_time r)))"

definition items_ok :: "string list \<Rightarrow> (table \<times> record_batch list) list \<Rightarrow> bool" where
  "items_ok k items \<longleftrightarrow> (\<forall>x \<in> set items. batches_ok k (snd x))"

lemma items_ok_simps [simp]:
  "items_ok k []" "items_ok k (x # xs) \<longleftrightarrow> batches_ok k (snd x) \<and> items_ok k xs"
  "items_ok k (xs @ ys) \<longleftrightarrow> items_ok k xs \<and> items_ok k ys"
  by (auto simp: items_ok_def)

definition wrote ::
  "arrow_env \<Rightarrow> engine \<Rightarrow> engine \<Rightarrow> (table \<times> record_batch list) list \<Rightarrow> (table \<times> segment_ref) list \<Rightarrow> bool" where
  "wrote A e e' items outs \<longleftrightarrow>
     (\<exists>q. fst e' = (fst e)\<lparr>st_seq := q\<rparr> \<and> st_seq (fst e) \<le> q \<and> q \<le> st_seq (fst e) + length items \<and>
        touches (seg_range A (st_seq (fst e)) q) (snd e) (snd e') \<and>
        (\<forall>x \<in> set outs. path_in A (st_seq (fst e)) q x) \<and> distinct (map (relative_path \<circ> snd) outs)) \<and>
     (\<forall>x \<in> set outs. seg_readable A (snd e') (snd x) \<and> i64_ok (min_time_unix_nano (snd x)) \<and>
        i64_ok (max_time_unix_nano (snd x)) \<and>
        seg_rows (snd x) = length (the (seg_content A (snd e') (snd x)))) \<and>
     (\<forall>t. seg_data A (snd e') (outs_of t outs) = mset (brows (concat (outs_of t items))))"

text \<open>What a failure leaves.\<close>

definition scratched :: "arrow_env \<Rightarrow> engine \<Rightarrow> engine \<Rightarrow> nat \<Rightarrow> bool" where
  "scratched A e e' n \<longleftrightarrow>
     (\<exists>q. fst e' = (fst e)\<lparr>st_seq := q\<rparr> \<and> st_seq (fst e) \<le> q \<and> q \<le> st_seq (fst e) + n \<and>
        touches (seg_range A (st_seq (fst e)) q) (snd e) (snd e'))"

lemma wrote_scratched: "wrote A e e' items outs \<Longrightarrow> scratched A e e' (length items)"
  by (auto simp: wrote_def scratched_def)

lemma scratched_refl [simp]: "scratched A e e n"
proof -
  have "fst e = (fst e)\<lparr>st_seq := st_seq (fst e)\<rparr>" by simp
  then show ?thesis unfolding scratched_def by (metis le_add1 order_refl touches_refl)
qed

lemma scratched_trans:
  assumes "scratched A e e' m" "scratched A e' e'' n"
  shows "scratched A e e'' (m + n)"
proof -
  from assms obtain q q' where q: "fst e' = (fst e)\<lparr>st_seq := q\<rparr>" "st_seq (fst e) \<le> q" "q \<le> st_seq (fst e) + m"
    "touches (seg_range A (st_seq (fst e)) q) (snd e) (snd e')"
    "fst e'' = (fst e')\<lparr>st_seq := q'\<rparr>" "st_seq (fst e') \<le> q'" "q' \<le> st_seq (fst e') + n"
    "touches (seg_range A (st_seq (fst e')) q') (snd e') (snd e'')"
    by (auto simp: scratched_def)
  have "touches (seg_range A (st_seq (fst e)) q') (snd e) (snd e'')"
    by (rule touches_trans [OF touches_mono [OF q(4) seg_range_mono] touches_mono [OF q(8) seg_range_mono]])
       (use q in simp_all)
  then show ?thesis using q unfolding scratched_def by (intro exI [of _ q']) auto
qed

lemma path_in_outs: "x \<in> set (outs_of t outs) \<Longrightarrow> \<exists>y \<in> set outs. x = snd y"
  by (auto simp: outs_of_def)

lemma wrote_trans:
  assumes a: "wrote A e e' items outs" and b: "wrote A e' e'' items' outs'"
  shows "wrote A e e'' (items @ items') (outs @ outs')"
proof -
  from a obtain q where q: "fst e' = (fst e)\<lparr>st_seq := q\<rparr>" "st_seq (fst e) \<le> q" "q \<le> st_seq (fst e) + length items"
    "touches (seg_range A (st_seq (fst e)) q) (snd e) (snd e')"
    "\<forall>x \<in> set outs. path_in A (st_seq (fst e)) q x" "distinct (map (relative_path \<circ> snd) outs)"
    by (auto simp: wrote_def)
  from b obtain q' where q': "fst e'' = (fst e')\<lparr>st_seq := q'\<rparr>" "st_seq (fst e') \<le> q'" "q' \<le> st_seq (fst e') + length items'"
    "touches (seg_range A (st_seq (fst e')) q') (snd e') (snd e'')"
    "\<forall>x \<in> set outs'. path_in A (st_seq (fst e')) q' x" "distinct (map (relative_path \<circ> snd) outs')"
    by (auto simp: wrote_def)
  have k: "st_seq (fst e') = q" using q by simp
  have old: "relative_path (snd x) \<notin> seg_range A q q'" if "x \<in> set outs" for x
    using path_in_old q(5) that unfolding path_old_def by blast
  have keep: "seg_content A (snd e'') (snd x) = seg_content A (snd e') (snd x)" if "x \<in> set outs" for x
    using seg_content_touches [OF q'(4)] old [OF that] k by simp
  have data: "seg_data A (snd e'') (outs_of t outs) = seg_data A (snd e') (outs_of t outs)" for t
    by (rule seg_data_touches [OF q'(4)]) (use old k path_in_outs in fastforce)
  have "touches (seg_range A (st_seq (fst e)) q') (snd e) (snd e'')"
    by (rule touches_trans [OF touches_mono [OF q(4) seg_range_mono] touches_mono [OF q'(4) seg_range_mono]])
       (use q q' k in simp_all)
  moreover have "distinct (map (relative_path \<circ> snd) (outs @ outs'))"
    using q(6) q'(6) q'(5) old k path_in_range by (fastforce simp: image_iff)
  moreover have "\<forall>x \<in> set (outs @ outs'). path_in A (st_seq (fst e)) q' x"
    using q q' k path_in_mono by (metis (no_types, lifting) Un_iff order_refl set_append)
  moreover have "fst e'' = (fst e)\<lparr>st_seq := q'\<rparr>" "st_seq (fst e) \<le> q'" "q' \<le> st_seq (fst e) + length (items @ items')"
    using q q' by auto
  moreover have "\<forall>x \<in> set (outs @ outs'). seg_readable A (snd e'') (snd x) \<and> i64_ok (min_time_unix_nano (snd x)) \<and>
        i64_ok (max_time_unix_nano (snd x)) \<and> seg_rows (snd x) = length (the (seg_content A (snd e'') (snd x)))"
    using a b keep by (auto simp: wrote_def seg_readable_def)
  moreover have "seg_data A (snd e'') (outs_of t (outs @ outs')) = mset (brows (concat (outs_of t (items @ items'))))" for t
    using a b data [of t] by (simp add: wrote_def)
  ultimately show ?thesis unfolding wrote_def by blast
qed

lemma wrote_Nil: "concat (map snd items) = [] \<Longrightarrow> wrote A e e items []"
proof -
  assume e: "concat (map snd items) = []"
  have "brows (concat (outs_of t items)) = []" for t using e by (auto simp: outs_of_def brows_def)
  moreover have "fst e = (fst e)\<lparr>st_seq := st_seq (fst e)\<rparr>" by simp
  ultimately show ?thesis unfolding wrote_def
    by (intro conjI exI [of _ "st_seq (fst e)"]) auto
qed

lemma write_table_cases:
  assumes laws: "arrow_laws A" and wr: "writes_segment A t wr" and ok: "batches_ok k bs"
    and room: "st_seq (fst e) < u64_max" and run: "write_table A wr bs e = (res, e')"
  shows "scratched A e e' 1" "\<And>x. res = Inr x \<Longrightarrow> wrote A e e' [(t, bs)] (map (Pair t) (opt_list x))"
proof -
  obtain s w s' w' where e: "e = (s, w)" "e' = (s', w')" by (cases e, cases e')
  have "scratched A e e' 1 \<and> (\<forall>x. res = Inr x \<longrightarrow> wrote A e e' [(t, bs)] (map (Pair t) (opt_list x)))"
  proof (cases "bs = []")
    case True
    with run have "res = Inr None" "e' = e" by (auto simp: write_table_def)
    with True show ?thesis by (auto simp: opt_list_def intro!: wrote_Nil)
  next
    case False
    show ?thesis
    proof (cases "merge A bs")
      case None
      with run False have "e' = e" "\<exists>err. res = Inl err" by (auto simp: write_table_def concat_and_sort_def)
      then show ?thesis by auto
    next
      case (Some b)
      have m: "mset (rb_rows b) = mset (brows bs)"
      proof -
        have "\<forall>x \<in> set bs. rb_keys x = k" using ok by (simp add: batches_ok_def)
        then show ?thesis using laws False Some unfolding arrow_laws_def by blast
      qed
      have ts: "\<forall>r \<in> set (rb_rows b). i64_ok (row_time r)"
        using ok mset_eq_setD [OF m] by (auto simp: batches_ok_def brows_def)
      obtain r1 s1 w1 where w1: "wr b (s, w) = (r1, s1, w1)" by (cases "wr b (s, w)") auto
      have fin: "s' = s1" "w' = w1" "res = (case r1 of Inl err \<Rightarrow> Inl err | Inr sg \<Rightarrow> Inr (Some sg))"
        using run False Some w1 e by (cases r1; auto simp: write_table_def concat_and_sort_def)+
      have s1: "s1 = s\<lparr>st_seq := Suc (st_seq s)\<rparr>"
      proof -
        have "s1 = bump_seq s" using wr w1 unfolding writes_segment_def by blast
        then show ?thesis using room e by (simp add: bump_seq_def)
      qed
      obtain mt where t1: "touches (seg_area A t mt (st_seq s)) w w1"
        and sg: "\<And>sg. r1 = Inr sg \<Longrightarrow> relative_path sg = segment_path A (table_as_str t) mt (st_seq s) \<and>
          seg_content A w1 sg = Some (rb_rows b) \<and> seg_rows sg = length (rb_rows b) \<and>
          i64_ok (min_time_unix_nano sg) \<and> i64_ok (max_time_unix_nano sg)"
        using writes_segmentD [OF wr w1] ts by metis
      have "seg_area A t mt (st_seq s) \<subseteq> seg_range A (st_seq s) (Suc (st_seq s))"
        unfolding seg_range_def by blast
      then have t2: "touches (seg_range A (st_seq s) (Suc (st_seq s))) w w1" by (rule touches_mono [OF t1])
      have sc: "scratched A e e' 1"
        unfolding scratched_def by (intro exI [of _ "Suc (st_seq s)"]) (use e fin s1 t2 in auto)
      have "wrote A e e' [(t, bs)] (map (Pair t) (opt_list x))" if "res = Inr x" for x
      proof -
        obtain sg0 where x: "x = Some sg0" "r1 = Inr sg0" using fin(3) \<open>res = Inr x\<close> by (auto split: sum.splits)
        note f = sg [OF x(2)]
        have "path_in A (st_seq s) (Suc (st_seq s)) (t, sg0)" using f by (auto simp: path_in_def)
        with f m show ?thesis unfolding wrote_def
          by (intro conjI exI [of _ "Suc (st_seq s)"])
             (use e fin s1 t2 x in \<open>auto simp: opt_list_def seg_readable_def\<close>)
      qed
      with sc show ?thesis by blast
    qed
  qed
  then show "scratched A e e' 1" "\<And>x. res = Inr x \<Longrightarrow> wrote A e e' [(t, bs)] (map (Pair t) (opt_list x))" by blast+
qed

lemma write_metric_tables_cases:
  assumes laws: "arrow_laws A"
  shows "items_ok k items \<Longrightarrow> st_seq (fst e) + length items \<le> u64_max \<Longrightarrow>
    write_metric_tables A items e = (res, e') \<Longrightarrow>
    scratched A e e' (length items) \<and> (\<forall>outs. res = Inr outs \<longrightarrow> wrote A e e' items outs)"
proof (induction items arbitrary: e e' res)
  case Nil
  then show ?case by (auto intro: wrote_Nil)
next
  case (Cons x items)
  obtain t bs where x: "x = (t, bs)" by (cases x)
  obtain r1 e1 where w1: "write_table A (write_metric_segment A t) bs e = (r1, e1)"
    by (cases "write_table A (write_metric_segment A t) bs e")
  have ok: "batches_ok k bs" "items_ok k items" "st_seq (fst e) < u64_max"
    using Cons.prems(1,2) x by auto
  note c = write_table_cases [OF laws segment_writers(1) [OF laws] ok(1,3) w1]
  show ?case
  proof (cases r1)
    case (Inl err)
    with Cons.prems(3) w1 x have "e' = e1" "res = Inl err" by auto
    moreover have "scratched A e e1 (length (x # items))"
      using c(1) by (auto simp: scratched_def)
    ultimately show ?thesis by simp
  next
    case (Inr sg)
    note wt = c(2) [OF Inr]
    obtain r2 e2 where w2: "write_metric_tables A items e1 = (r2, e2)" by (cases "write_metric_tables A items e1")
    have room: "st_seq (fst e1) + length items \<le> u64_max"
      using wt Cons.prems(2) by (auto simp: wrote_def)
    note ih = Cons.IH [OF ok(2) room w2]
    have fin: "e' = e2" "res = (case r2 of Inl err \<Rightarrow> Inl err | Inr out \<Rightarrow> Inr (map (Pair t) (opt_list sg) @ out))"
      using Cons.prems(3) x w1 w2 Inr by (cases r2; auto)+
    have "scratched A e e' (1 + length items)"
      using scratched_trans [OF c(1)] ih fin by simp
    moreover have "wrote A e e' (x # items) outs" if "res = Inr outs" for outs
      using fin that ih wrote_trans [OF wt] x by (auto split: sum.splits)
    ultimately show ?thesis by simp
  qed
qed

text \<open>The tables of a seal in the order they are written, and the segments of its result.\<close>

definition seal_items :: "sealing_batches \<Rightarrow> (table \<times> record_batch list) list" where
  "seal_items sb = [(TLogs, sb_logs sb), (TSpans, sb_spans sb)] @ entries (sb_metrics sb) @
     [(TMetricsHistogram, sb_histogram sb), (TMetricsExpHistogram, sb_exp_histogram sb),
      (TMetricsSummary, sb_summary sb)]"

definition written_segs :: "written \<Rightarrow> (table \<times> segment_ref) list" where
  "written_segs out = (case out of (l, s, ms) \<Rightarrow> map (Pair TLogs) (opt_list l) @ map (Pair TSpans) (opt_list s) @ ms)"

lemma entries_length: "length (entries m) \<le> 7"
proof -
  have "length (entries m) \<le> length table_ALL" by (simp add: entries_def map_filter_def)
  then show ?thesis by (simp add: table_ALL_def)
qed

lemma entries_outs: "outs_of t (entries m) = opt_list (m t)"
  by (cases t; cases "m TLogs"; cases "m TSpans"; cases "m TMetricsGauge"; cases "m TMetricsSum"; cases "m TMetricsHistogram";
      cases "m TMetricsExpHistogram"; cases "m TMetricsSummary")
     (simp_all add: entries_def table_ALL_def List.map_filter_def opt_list_def)

lemma seal_items_outs:
  assumes "scalar_only (sb_metrics sb)"
  shows "concat (outs_of t (seal_items sb)) = staged_of sb t"
proof -
  have "sb_metrics sb u = None" if "u \<noteq> TMetricsGauge" "u \<noteq> TMetricsSum" for u
    using assms that by (simp add: scalar_only_def SCALAR_METRIC_TABLES_def)
  then show ?thesis
    by (cases t) (simp_all add: seal_items_def entries_outs opt_list_def or_default_def split: option.splits)
qed

lemma seal_items_length: "length (seal_items sb) \<le> 12"
  using entries_length [of "sb_metrics sb"] by (simp add: seal_items_def)

lemma seal_write_cases:
  assumes laws: "arrow_laws A" and ok: "items_ok k (seal_items (tk_batches tk))"
    and room: "st_seq (fst e) + 12 \<le> u64_max" and run: "seal_write A tk e = (res, e')"
  shows "scratched A e e' 12" "\<And>out. res = Inr out \<Longrightarrow> wrote A e e' (seal_items (tk_batches tk)) (written_segs out)"
proof -
  let ?sb = "tk_batches tk"
  let ?m = "entries (sb_metrics ?sb) @ [(TMetricsHistogram, sb_histogram ?sb),
    (TMetricsExpHistogram, sb_exp_histogram ?sb), (TMetricsSummary, sb_summary ?sb)]"
  have items: "seal_items ?sb = [(TLogs, sb_logs ?sb)] @ [(TSpans, sb_spans ?sb)] @ ?m" by (simp add: seal_items_def)
  have oks: "batches_ok k (sb_logs ?sb)" "batches_ok k (sb_spans ?sb)" "items_ok k ?m"
    using ok unfolding items by simp_all
  have lm: "length ?m \<le> 10" using entries_length [of "sb_metrics ?sb"] by simp
  obtain r1 e1 where w1: "write_table A (write_logs_segment A) (sb_logs ?sb) e = (r1, e1)"
    by (cases "write_table A (write_logs_segment A) (sb_logs ?sb) e")
  obtain r2 e2 where w2: "write_table A (write_spans_segment A) (sb_spans ?sb) e1 = (r2, e2)"
    by (cases "write_table A (write_spans_segment A) (sb_spans ?sb) e1")
  obtain r3 e3 where w3: "write_metric_tables A ?m e2 = (r3, e3)" by (cases "write_metric_tables A ?m e2")
  note c1 = write_table_cases [OF laws segment_writers(2) [OF laws] oks(1) _ w1]
  have room1: "st_seq (fst e) < u64_max" using room by simp
  have s1: "st_seq (fst e1) \<le> st_seq (fst e) + 1" using c1(1) [OF room1] by (auto simp: scratched_def)
  then have room2: "st_seq (fst e1) < u64_max" using room by simp
  note c2 = write_table_cases [OF laws segment_writers(3) [OF laws] oks(2) room2 w2]
  have "st_seq (fst e2) \<le> st_seq (fst e1) + 1" using c2(1) by (auto simp: scratched_def)
  then have room3: "st_seq (fst e2) + length ?m \<le> u64_max" using s1 room lm by simp
  note c3 = write_metric_tables_cases [OF laws oks(3) room3 w3]
  have weak: "scratched A e e'' 12" if "scratched A e e'' n" "n \<le> 12" for e'' n
    using that by (fastforce simp: scratched_def)
  have sc: "scratched A e e1 12" "scratched A e e2 12" "scratched A e e3 12"
    using weak [OF c1(1) [OF room1]] weak [OF scratched_trans [OF c1(1) [OF room1] c2(1)]]
      weak [OF scratched_trans [OF scratched_trans [OF c1(1) [OF room1] c2(1)] conjunct1 [OF c3]]] lm by simp_all
  have fin: "e' = (if isl r1 then e1 else if isl r2 then e2 else e3)"
    using run w1 w2 w3 by (cases r1; cases r2; cases r3) (auto simp: seal_write_def Let_def)
  then show "scratched A e e' 12" using sc by auto
  fix out assume "res = Inr out"
  then obtain l s ms where r: "r1 = Inr l" "r2 = Inr s" "r3 = Inr ms" "out = (l, s, ms)"
    using run w1 w2 w3 by (cases r1; cases r2; cases r3) (auto simp: seal_write_def Let_def)
  then have "wrote A e e3 (seal_items ?sb) (map (Pair TLogs) (opt_list l) @ map (Pair TSpans) (opt_list s) @ ms)"
    unfolding items using wrote_trans [OF c1(2) [OF room1 r(1)] wrote_trans [OF c2(2) [OF r(2)]]] c3 by simp
  then show "wrote A e e' (seal_items ?sb) (written_segs out)" using fin r by (simp add: written_segs_def)
qed

subsection \<open>The critical sections of a seal\<close>

lemma entries_empty: "list_all (\<lambda>(t, bs). bs = []) (entries m) \<longleftrightarrow> (\<forall>t. or_default m t = [])"
proof -
  have "x \<in> set (entries m) \<longleftrightarrow> m (fst x) = Some (snd x)" for x
    by (cases x) (force simp: entries_def map_filter_def)
  then show ?thesis by (auto simp: list_all_iff or_default_def split: option.splits)
qed

lemma buffers_empty_iff: "scalar_only (metric_buffers inn) \<Longrightarrow> buffers_empty inn \<longleftrightarrow> (\<forall>t. buffer_of inn t = [])"
proof -
  assume "scalar_only (metric_buffers inn)"
  then have "or_default (metric_buffers inn) u = []" if "u \<noteq> TMetricsGauge" "u \<noteq> TMetricsSum" for u
    using that by (simp add: scalar_only_def SCALAR_METRIC_TABLES_def or_default_def)
  then have m: "(\<forall>t. or_default (metric_buffers inn) t = []) \<longleftrightarrow>
      or_default (metric_buffers inn) TMetricsGauge = [] \<and> or_default (metric_buffers inn) TMetricsSum = []" by metis
  have "(\<forall>t. buffer_of inn t = []) \<longleftrightarrow> list_all (\<lambda>t. buffer_of inn t = []) table_ALL"
    unfolding list_all_iff using table_ALL_all by blast
  then show ?thesis by (simp add: buffers_empty_def entries_empty m) (auto simp: table_ALL_def)
qed

lemma seal_take_facts:
  assumes "seal_take inn = (Some tk, inn')"
  shows "staged_of (tk_batches tk) t = buffer_of inn t" "buffer_of inn' t = []"
    "sealing inn' = AList.update (next_seal_gen inn) (tk_batches tk) (sealing inn)"
    "tk_gen tk = next_seal_gen inn" "next_seal_gen inn' = next_seal_gen inn + 1"
    "tk_watermark tk = buffer_max_lsn inn" "manifest_view inn' = manifest_view inn"
    "watermark inn' = watermark inn" "buffer_max_lsn inn' = buffer_max_lsn inn" "next_lsn inn' = next_lsn inn"
    "sb_metrics (tk_batches tk) = metric_buffers inn" "metric_buffers inn' = Map.empty"
    "tk_bytes tk = buffer_bytes inn" "buffer_bytes inn' = 0"
proof -
  show "staged_of (tk_batches tk) t = buffer_of inn t" "buffer_of inn' t = []"
    using assms by (cases t; auto simp: seal_take_def Let_def or_default_def split: if_splits)+
qed (use assms in \<open>auto simp: seal_take_def Let_def manifest_view_def split: if_splits\<close>)

lemma seal_restore_facts:
  "buffer_of (seal_restore tk inn) t = staged_of (tk_batches tk) t @ buffer_of inn t"
  "sealing (seal_restore tk inn) = AList.delete (tk_gen tk) (sealing inn)"
  "manifest_view (seal_restore tk inn) = manifest_view inn" "watermark (seal_restore tk inn) = watermark inn"
  "buffer_max_lsn (seal_restore tk inn) = buffer_max_lsn inn" "next_lsn (seal_restore tk inn) = next_lsn inn"
  "next_seal_gen (seal_restore tk inn) = next_seal_gen inn"
  "scalar_only (sb_metrics (tk_batches tk)) \<Longrightarrow> scalar_only (metric_buffers inn) \<Longrightarrow>
     scalar_only (metric_buffers (seal_restore tk inn))"
proof -
  show "buffer_of (seal_restore tk inn) t = staged_of (tk_batches tk) t @ buffer_of inn t"
    by (cases t) (auto simp: seal_restore_def Let_def prepend_front_def restore_metrics_def or_default_def split: option.splits)
qed (auto simp: seal_restore_def Let_def manifest_view_def scalar_only_def restore_metrics_def)

lemma fold_push_metric_seg:
  "or_default (fold push_metric_seg xs m) t = or_default m t @ outs_of t xs"
  by (induction xs arbitrary: m) (auto simp: push_metric_seg_def or_default_def split: prod.splits)

lemma seal_register_facts:
  assumes "\<forall>x \<in> set (snd (snd out)). fst x \<noteq> TLogs \<and> fst x \<noteq> TSpans"
  shows "segs_of (seal_register tk out inn) t = segs_of inn t @ outs_of t (written_segs out)"
    "buffer_of (seal_register tk out inn) t = buffer_of inn t"
    "metric_buffers (seal_register tk out inn) = metric_buffers inn"
    "sealing (seal_register tk out inn) = AList.delete (tk_gen tk) (sealing inn)"
    "watermark (seal_register tk out inn) = tk_watermark tk"
    "buffer_max_lsn (seal_register tk out inn) = buffer_max_lsn inn" "next_lsn (seal_register tk out inn) = next_lsn inn"
    "next_seal_gen (seal_register tk out inn) = next_seal_gen inn"
proof -
  obtain l s ms where out: "out = (l, s, ms)" by (metis prod_cases3)
  have no: "outs_of TLogs ms = []" "outs_of TSpans ms = []" using assms out by (auto simp: outs_of_def filter_empty_conv)
  have o: "outs_of u (map (Pair v) xs) = (if u = v then xs else [])" for u v and xs :: "segment_ref list"
    by (induction xs) auto
  have seg: "segs_of inn u = or_default (metric_segments inn) u" if "u \<noteq> TLogs" "u \<noteq> TSpans" for u inn
    using that by (cases u) (simp_all add: list_of_def manifest_view_def or_default_def split: option.splits)
  show "segs_of (seal_register tk out inn) t = segs_of inn t @ outs_of t (written_segs out)"
  proof (cases "t = TLogs \<or> t = TSpans")
    case True
    then show ?thesis using no out by (auto simp: seal_register_def written_segs_def list_of_def manifest_view_def o)
  next
    case False
    then have "segs_of (seal_register tk out inn) t = or_default (metric_segments inn) t @ outs_of t ms"
      using seg [of t "seal_register tk out inn"] out by (simp add: seal_register_def fold_push_metric_seg)
    then show ?thesis using False seg [of t inn] out by (simp add: written_segs_def o)
  qed
  show "buffer_of (seal_register tk out inn) t = buffer_of inn t"
    by (cases t) (auto simp: seal_register_def split: prod.splits)
qed (auto simp: seal_register_def split: prod.splits)

end
