(* ===== verification/Storage_System.thy ===== *)
theory Storage_System
  imports Storage_Write
begin

text \<open>
  The engine with its threads. Any number of callers ingest; sealers take the buffers, write segments
  outside the lock, register them or put the batches back, and reclaim the log. A step is a critical
  section or an off-lock write, whose files no other thread touches. An error of the log or of the
  manifest ends the run, so the directory it leaves is also the one a crash at that operation leaves;
  a failed segment write does not, as the engine recovers from it.
\<close>

subsection \<open>Steps\<close>

datatype phase = Idle | Taken taken | Failed taken | Written taken written | Committed taken

record sys =
  sy_engine :: engine
  sy_sealer :: "nat \<Rightarrow> phase"
  sy_jobs :: "(nat \<times> ingest_job) list"
  sy_doubt :: "(nat \<times> ingest_job) option"
  sy_dead :: bool

definition set_phase :: "nat \<Rightarrow> phase \<Rightarrow> engine \<Rightarrow> sys \<Rightarrow> sys" where
  "set_phase i ph e s = s\<lparr>sy_engine := e, sy_sealer := (sy_sealer s)(i := ph)\<rparr>"

definition crash :: "engine \<Rightarrow> sys \<Rightarrow> sys" where
  "crash e s = s\<lparr>sy_engine := e, sy_dead := True\<rparr>"

inductive engine_step :: "arrow_env \<Rightarrow> hash \<Rightarrow> mhash \<Rightarrow> nat set \<Rightarrow> sys \<Rightarrow> sys \<Rightarrow> bool"
  for A h mh I where
  ingest_ok: "\<not> sy_dead s \<Longrightarrow> job_ok j \<Longrightarrow>
     process_ingest_job A h now sync j (sy_engine s) = (Inr (l, d), e') \<Longrightarrow>
     engine_step A h mh I s (s\<lparr>sy_engine := e', sy_jobs := sy_jobs s @ [(l, j)]\<rparr>)"
| ingest_err: "\<not> sy_dead s \<Longrightarrow> job_ok j \<Longrightarrow>
     process_ingest_job A h now sync j (sy_engine s) = (Inl err, e') \<Longrightarrow>
     engine_step A h mh I s (crash e' (s\<lparr>sy_doubt := Some (next_lsn (st_inner (fst (sy_engine s))), j)\<rparr>))"
| commit_log: "\<not> sy_dead s \<Longrightarrow> sync_wal (sy_engine s) = (r, e') \<Longrightarrow>
     engine_step A h mh I s (s\<lparr>sy_engine := e'\<rparr>)"
| take: "\<not> sy_dead s \<Longrightarrow> i \<in> I \<Longrightarrow> sy_sealer s i = Idle \<Longrightarrow> st_dir (fst (sy_engine s)) \<Longrightarrow>
     seal_take (st_inner (fst (sy_engine s))) = (Some tk, inn') \<Longrightarrow>
     engine_step A h mh I s (set_phase i (Taken tk) (upd_inner (\<lambda>_. inn') (sy_engine s)) s)"
| write_ok: "\<not> sy_dead s \<Longrightarrow> i \<in> I \<Longrightarrow> sy_sealer s i = Taken tk \<Longrightarrow>
     seal_write A tk (sy_engine s) = (Inr out, e') \<Longrightarrow> engine_step A h mh I s (set_phase i (Written tk out) e' s)"
| write_err: "\<not> sy_dead s \<Longrightarrow> i \<in> I \<Longrightarrow> sy_sealer s i = Taken tk \<Longrightarrow>
     seal_write A tk (sy_engine s) = (Inl err, e') \<Longrightarrow> engine_step A h mh I s (set_phase i (Failed tk) e' s)"
| restore: "\<not> sy_dead s \<Longrightarrow> i \<in> I \<Longrightarrow> sy_sealer s i = Failed tk \<Longrightarrow>
     engine_step A h mh I s (set_phase i Idle (upd_inner (seal_restore tk) (sy_engine s)) s)"
| register_ok: "\<not> sy_dead s \<Longrightarrow> i \<in> I \<Longrightarrow> sy_sealer s i = Written tk out \<Longrightarrow>
     seal_commit mh tk out (sy_engine s) = (Inr (), e') \<Longrightarrow> engine_step A h mh I s (set_phase i (Committed tk) e' s)"
| register_err: "\<not> sy_dead s \<Longrightarrow> i \<in> I \<Longrightarrow> sy_sealer s i = Written tk out \<Longrightarrow>
     seal_commit mh tk out (sy_engine s) = (Inl err, e') \<Longrightarrow> engine_step A h mh I s (crash e' s)"
| reclaim_ok: "\<not> sy_dead s \<Longrightarrow> i \<in> I \<Longrightarrow> sy_sealer s i = Committed tk \<Longrightarrow>
     seal_reclaim tk (sy_engine s) = (Inr (), e') \<Longrightarrow> engine_step A h mh I s (set_phase i Idle e' s)"
| reclaim_err: "\<not> sy_dead s \<Longrightarrow> i \<in> I \<Longrightarrow> sy_sealer s i = Committed tk \<Longrightarrow>
     seal_reclaim tk (sy_engine s) = (Inl err, e') \<Longrightarrow> engine_step A h mh I s (crash e' s)"

text \<open>No 64-bit counter is about to overflow, and the manifest fits the length field of a frame.\<close>

definition representable :: "sys \<Rightarrow> bool" where
  "representable s \<longleftrightarrow>
     (case sy_engine s of (st, w) \<Rightarrow>
        next_lsn (st_inner st) < u64_max \<and> st_seq st + 12 \<le> u64_max \<and>
        (case st_wal st of None \<Rightarrow> True | Some l \<Rightarrow> seq l < u64_max) \<and>
        (case st_manifest st of None \<Rightarrow> True | Some mw \<Rightarrow> current_num mw < u64_max) \<and>
        fits (manifest_view (st_inner st)) \<and>
        (\<forall>t. \<forall>x \<in> set (segs_of (st_inner st) t). seg_rows x \<le> u64_max))"

inductive engine_run :: "arrow_env \<Rightarrow> hash \<Rightarrow> mhash \<Rightarrow> nat set \<Rightarrow> sys \<Rightarrow> sys \<Rightarrow> bool"
  for A h mh I s where
  run_refl: "representable s \<Longrightarrow> engine_run A h mh I s s"
| run_step: "engine_run A h mh I s s' \<Longrightarrow> engine_step A h mh I s' s'' \<Longrightarrow> representable s'' \<Longrightarrow> engine_run A h mh I s s''"

inductive_cases engine_step_cases: "engine_step A h mh I s s'"

subsection \<open>The rows of a history\<close>

definition rec_of :: "nat \<times> ingest_job \<Rightarrow> wal_record" where
  "rec_of x = \<lparr>lsn = fst x, sig_tag = job_signal (snd x), payload = job_raw (snd x)\<rparr>"

lemma lsn_rec_of [simp]: "lsn (rec_of x) = fst x"
  by (simp add: rec_of_def)

definition hist_rows :: "(nat \<times> ingest_job) list \<Rightarrow> table \<Rightarrow> (nat \<Rightarrow> bool) \<Rightarrow> row list" where
  "hist_rows H t P = concat (map (\<lambda>x. job_rows (snd x) t) (filter (\<lambda>x. P (fst x)) H))"

lemma hist_rows_simps [simp]:
  "hist_rows [] t P = []" "hist_rows (x # H) t P = (if P (fst x) then job_rows (snd x) t else []) @ hist_rows H t P"
  "hist_rows (H @ H') t P = hist_rows H t P @ hist_rows H' t P"
  by (simp_all add: hist_rows_def)

lemma hist_rows_none: "\<forall>x \<in> set H. \<not> P (fst x) \<Longrightarrow> hist_rows H t P = []"
  by (induction H) auto

lemma hist_rows_cong: "(\<And>x. x \<in> set H \<Longrightarrow> P (fst x) = Q (fst x)) \<Longrightarrow> hist_rows H t P = hist_rows H t Q"
  by (induction H) auto

lemma hist_rows_split:
  "a \<le> b \<Longrightarrow> mset (hist_rows H t (\<lambda>l. l \<le> b)) =
     mset (hist_rows H t (\<lambda>l. l \<le> a)) + mset (hist_rows H t (\<lambda>l. a < l \<and> l \<le> b))"
  by (induction H) auto

text \<open>In a history ordered by sequence number the rows of two adjacent ranges follow each other.\<close>

lemma hist_rows_join:
  assumes "sorted_wrt (<) (map fst H)" "a \<le> b"
  shows "hist_rows H t (\<lambda>l. a < l \<and> l \<le> b) @ hist_rows H t (\<lambda>l. b < l) = hist_rows H t (\<lambda>l. a < l)"
  using assms
proof (induction H)
  case (Cons x H)
  show ?case
  proof (cases "b < fst x")
    case True
    then have "\<forall>y \<in> set H. \<not> (a < fst y \<and> fst y \<le> b)" using Cons.prems by fastforce
    with True Cons show ?thesis by (simp add: hist_rows_none)
  qed (use Cons in auto)
qed simp

subsection \<open>The invariant\<close>

definition lsn_part :: "storage \<Rightarrow> (nat \<times> ingest_job) list \<Rightarrow> bool" where
  "lsn_part st H \<longleftrightarrow>
     (let inn = st_inner st in
      sorted_wrt (<) (map fst H) \<and> (\<forall>x \<in> set H. fst x \<le> buffer_max_lsn inn \<and> job_ok (snd x)) \<and>
      buffer_max_lsn inn < next_lsn inn \<and> watermark inn \<le> buffer_max_lsn inn \<and> st_dir st \<and> \<not> read_only st)"

definition wal_part :: "hash \<Rightarrow> storage \<Rightarrow> world \<Rightarrow> (nat \<times> ingest_job) list \<Rightarrow> bool" where
  "wal_part h st w H \<longleftrightarrow>
     (\<exists>l recs. st_wal st = Some l \<and> wal_holds h 0 (l, w) recs \<and>
        live (watermark (st_inner st)) recs = live (watermark (st_inner st)) (map rec_of H) \<and>
        (\<forall>r \<in> set recs. lsn r < next_lsn (st_inner st)))"

definition man_part :: "mhash \<Rightarrow> storage \<Rightarrow> world \<Rightarrow> bool" where
  "man_part mh st w \<longleftrightarrow>
     (\<exists>mw. st_manifest st = Some mw \<and> mw_inv mh 0 (mw, w) \<and>
        same_state (last_state mw) (manifest_view (st_inner st)) \<and> metrics_ok (manifest_view (st_inner st)))"

definition seg_fine :: "arrow_env \<Rightarrow> storage \<Rightarrow> world \<Rightarrow> segment_ref \<Rightarrow> bool" where
  "seg_fine A st w x \<longleftrightarrow> seg_readable A w x \<and> path_ok (relative_path x) \<and> i64_ok (min_time_unix_nano x) \<and>
     i64_ok (max_time_unix_nano x) \<and> path_old A (st_seq st) (relative_path x) \<and> relative_path x \<in> seg_names"

definition seg_part :: "arrow_env \<Rightarrow> storage \<Rightarrow> world \<Rightarrow> (nat \<times> ingest_job) list \<Rightarrow> bool" where
  "seg_part A st w H \<longleftrightarrow>
     (\<forall>t. (\<forall>x \<in> set (segs_of (st_inner st) t). seg_fine A st w x) \<and>
        seg_data A w (segs_of (st_inner st) t) = mset (hist_rows H t (\<lambda>l. l \<le> watermark (st_inner st))))"

definition buf_part :: "storage \<Rightarrow> (nat \<times> ingest_job) list \<Rightarrow> nat \<Rightarrow> bool" where
  "buf_part st H lo \<longleftrightarrow> scalar_only (metric_buffers (st_inner st)) \<and>
     (\<forall>t. batches_ok (promote st) (buffer_of (st_inner st) t) \<and>
        brows (buffer_of (st_inner st) t) = hist_rows H t (\<lambda>l. lo < l))"

definition tk_part :: "storage \<Rightarrow> (nat \<times> ingest_job) list \<Rightarrow> taken \<Rightarrow> bool" where
  "tk_part st H tk \<longleftrightarrow>
     (let inn = st_inner st; sb = tk_batches tk in
      sealing inn = [(tk_gen tk, sb)] \<and> watermark inn \<le> tk_watermark tk \<and> tk_watermark tk \<le> buffer_max_lsn inn \<and>
      scalar_only (sb_metrics sb) \<and>
      (\<forall>t. batches_ok (promote st) (staged_of sb t) \<and>
         brows (staged_of sb t) = hist_rows H t (\<lambda>l. watermark inn < l \<and> l \<le> tk_watermark tk)))"

definition out_part :: "arrow_env \<Rightarrow> storage \<Rightarrow> world \<Rightarrow> taken \<Rightarrow> written \<Rightarrow> bool" where
  "out_part A st w tk out \<longleftrightarrow>
     (\<forall>x \<in> set (snd (snd out)). fst x \<noteq> TLogs \<and> fst x \<noteq> TSpans) \<and>
     (\<forall>x \<in> set (written_segs out). seg_fine A st w (snd x) \<and>
        (\<forall>t. \<forall>y \<in> set (segs_of (st_inner st) t). relative_path y \<noteq> relative_path (snd x))) \<and>
     (\<forall>t. seg_data A w (outs_of t (written_segs out)) = mset (brows (staged_of (tk_batches tk) t)))"

definition phase_part :: "arrow_env \<Rightarrow> storage \<Rightarrow> world \<Rightarrow> (nat \<times> ingest_job) list \<Rightarrow> phase \<Rightarrow> bool" where
  "phase_part A st w H ph =
     (case ph of
        Idle \<Rightarrow> sealing (st_inner st) = [] \<and> buf_part st H (watermark (st_inner st))
      | Committed tk \<Rightarrow> sealing (st_inner st) = [] \<and> tk_watermark tk = watermark (st_inner st) \<and>
          buf_part st H (watermark (st_inner st))
      | Taken tk \<Rightarrow> tk_part st H tk \<and> buf_part st H (tk_watermark tk)
      | Failed tk \<Rightarrow> tk_part st H tk \<and> buf_part st H (tk_watermark tk)
      | Written tk out \<Rightarrow> tk_part st H tk \<and> buf_part st H (tk_watermark tk) \<and> out_part A st w tk out)"

definition alive :: "arrow_env \<Rightarrow> hash \<Rightarrow> mhash \<Rightarrow> storage \<Rightarrow> world \<Rightarrow> (nat \<times> ingest_job) list \<Rightarrow> phase \<Rightarrow> bool" where
  "alive A h mh st w H ph \<longleftrightarrow>
     lsn_part st H \<and> wal_part h st w H \<and> man_part mh st w \<and> seg_part A st w H \<and> phase_part A st w H ph"

text \<open>What the directory holds: a manifest and a log that together have the rows of the history.\<close>

definition disk_ok :: "arrow_env \<Rightarrow> hash \<Rightarrow> mhash \<Rightarrow> world \<Rightarrow> (nat \<times> ingest_job) list \<Rightarrow> bool" where
  "disk_ok A h mh w H \<longleftrightarrow>
     (\<exists>m recs. manifest_read mh w = Inr m \<and> disk_holds h w recs \<and>
        live (m_watermark m) recs = live (m_watermark m) (map rec_of H) \<and>
        (\<forall>t. (\<forall>x \<in> set (list_of m t). seg_readable A w x) \<and>
           seg_data A w (list_of m t) = mset (hist_rows H t (\<lambda>l. l \<le> m_watermark m))))"

definition sys_inv :: "arrow_env \<Rightarrow> hash \<Rightarrow> mhash \<Rightarrow> nat \<Rightarrow> sys \<Rightarrow> bool" where
  "sys_inv A h mh i s \<longleftrightarrow>
     (case sy_engine s of (st, w) \<Rightarrow>
        if sy_dead s
        then disk_ok A h mh w (sy_jobs s) \<or> (\<exists>d. sy_doubt s = Some d \<and> disk_ok A h mh w (sy_jobs s @ [d]))
        else alive A h mh st w (sy_jobs s) (sy_sealer s i))"

lemma disk_okI:
  assumes "shows_state mh w m" "disk_holds h w recs" "live (m_watermark m) recs = live (m_watermark m) (map rec_of H)"
    and "\<And>t. (\<forall>x \<in> set (list_of m t). seg_readable A w x) \<and>
      seg_data A w (list_of m t) = mset (hist_rows H t (\<lambda>l. l \<le> m_watermark m))"
  shows "disk_ok A h mh w H"
  using assms unfolding disk_ok_def shows_state_def same_state_def by metis

lemma view_watermark [simp]: "m_watermark (manifest_view inn) = watermark inn"
  by (simp add: manifest_view_def)

lemma seg_part_disk:
  "seg_part A st w H \<Longrightarrow> (\<forall>x \<in> set (segs_of (st_inner st) t). seg_readable A w x) \<and>
     seg_data A w (segs_of (st_inner st) t) = mset (hist_rows H t (\<lambda>l. l \<le> watermark (st_inner st)))"
  by (auto simp: seg_part_def seg_fine_def)

lemma man_part_shows: "man_part mh st w \<Longrightarrow> shows_state mh w (manifest_view (st_inner st))"
  using mw_inv_shows same_state_trans by (fastforce simp: man_part_def shows_state_def)

lemma alive_disk: "alive A h mh st w H ph \<Longrightarrow> disk_ok A h mh w H"
proof -
  assume a: "alive A h mh st w H ph"
  then obtain l recs where r: "wal_holds h 0 (l, w) recs"
    "live (watermark (st_inner st)) recs = live (watermark (st_inner st)) (map rec_of H)"
    by (auto simp: alive_def wal_part_def)
  show ?thesis
  proof (rule disk_okI)
    show "shows_state mh w (manifest_view (st_inner st))" using a by (simp add: alive_def man_part_shows)
    show "disk_holds h w recs" using wal_holds_disk [OF r(1)] .
    show "live (m_watermark (manifest_view (st_inner st))) recs = live (m_watermark (manifest_view (st_inner st))) (map rec_of H)"
      using r(2) by simp
    show "(\<forall>x \<in> set (segs_of (st_inner st) t). seg_readable A w x) \<and>
        seg_data A w (segs_of (st_inner st) t) = mset (hist_rows H t (\<lambda>l. l \<le> m_watermark (manifest_view (st_inner st))))" for t
      using seg_part_disk [of A st w H t] a unfolding alive_def view_watermark by blast
  qed
qed

subsection \<open>Parts that other files do not disturb\<close>

lemma seg_fine_touches:
  "touches S w w' \<Longrightarrow> S \<inter> seg_names = {} \<Longrightarrow> seg_fine A st w x \<Longrightarrow> seg_fine A st w' x"
proof -
  assume t: "touches S w w'" "S \<inter> seg_names = {}" and f: "seg_fine A st w x"
  then have "relative_path x \<notin> S" by (auto simp: seg_fine_def)
  from seg_content_touches [OF t(1) this] f show ?thesis by (simp add: seg_fine_def seg_readable_def)
qed

lemma seg_data_keep:
  assumes "touches S w w'" "S \<inter> seg_names = {}" "\<forall>x \<in> set xs. seg_fine A st w x"
  shows "seg_data A w' xs = seg_data A w xs"
  by (rule seg_data_touches [OF assms(1)]) (use assms in \<open>auto simp: seg_fine_def\<close>)

lemma seg_part_touches:
  assumes "touches S w w'" "S \<inter> seg_names = {}" "seg_part A st w H"
  shows "seg_part A st w' H"
  using assms(3) seg_data_keep [OF assms(1,2)] seg_fine_touches [OF assms(1,2)] unfolding seg_part_def by metis

lemma out_part_touches:
  assumes "touches S w w'" "S \<inter> seg_names = {}" "out_part A st w tk out"
  shows "out_part A st w' tk out"
proof -
  have "seg_data A w' (outs_of t (written_segs out)) = seg_data A w (outs_of t (written_segs out))" for t
    by (rule seg_data_keep [OF assms(1,2), of _ A st]) (use assms(3) path_in_outs in \<open>fastforce simp: out_part_def\<close>)
  then show ?thesis using assms(3) seg_fine_touches [OF assms(1,2)] by (simp add: out_part_def)
qed

lemma man_part_touches: "touches S w w' \<Longrightarrow> S \<inter> manifest_names = {} \<Longrightarrow> man_part mh st w \<Longrightarrow> man_part mh st w'"
  using mw_inv_touches by (fastforce simp: man_part_def)

lemma wal_part_touches: "touches S w w' \<Longrightarrow> S \<inter> wal_names = {} \<Longrightarrow> wal_part h st w H \<Longrightarrow> wal_part h st w' H"
  using wal_holds_touches by (fastforce simp: wal_part_def)

lemma same_bytes_disjoint: "same_bytes w w' \<Longrightarrow> touches {} w w'"
  by (rule same_bytes_touches)

lemma wal_holds_increasing: "wal_holds h n (l, w) recs \<Longrightarrow> increasing None recs"
  by (auto simp: wal_holds_def wal_rep_def wal_log_def)

lemma wal_holds_room: "wal_holds h 0 (l, w) recs \<Longrightarrow> seq l < u64_max \<Longrightarrow> wal_holds h (Suc 0) (l, w) recs"
  by (simp add: wal_holds_def)

lemma mw_inv_room: "mw_inv h 0 (mw, w) \<Longrightarrow> current_num mw < u64_max \<Longrightarrow> mw_inv h (Suc 0) (mw, w)"
  unfolding mw_inv_def prod.case by (auto simp del: map_map split: if_splits)

lemma wal_file_name: "wal_holds h n (l, w) recs \<Longrightarrow> wfile l \<in> wal_names"
  using segment_name_wal [of "seq l"] by (auto simp: wal_holds_def wal_rep_def)

subsection \<open>Ingest keeps it\<close>

lemma pushed_frame:
  assumes "pushed k f (accepted_inner now inn) inn'"
  shows "watermark inn' = watermark inn" "manifest_view inn' = manifest_view inn" "sealing inn' = sealing inn"
    "next_lsn inn' = next_lsn inn + 1" "buffer_max_lsn inn' = next_lsn inn"
    "scalar_only (metric_buffers inn) \<Longrightarrow> scalar_only (metric_buffers inn')"
    "\<exists>bs. buffer_of inn' t = buffer_of inn t @ bs \<and> brows bs = f t \<and> (\<forall>b \<in> set bs. rb_keys b = k)"
proof -
  have b: "buffer_of (accepted_inner now inn) t = buffer_of inn t" by (cases t) (simp_all add: accepted_inner_def)
  show "\<exists>bs. buffer_of inn' t = buffer_of inn t @ bs \<and> brows bs = f t \<and> (\<forall>b \<in> set bs. rb_keys b = k)"
    using assms b unfolding pushed_def by metis
qed (use assms in \<open>auto simp: pushed_def same_frame_def accepted_inner_def manifest_view_def\<close>)

lemma batches_ok_append [simp]: "batches_ok k (as @ bs) \<longleftrightarrow> batches_ok k as \<and> batches_ok k bs"
  by (auto simp: batches_ok_def)

lemma buf_part_ingest:
  assumes buf: "buf_part st H lo" and lt: "lo < L" and p: "pushed (promote st) (job_rows j) (accepted_inner now (st_inner st)) (st_inner st')"
    and pr: "promote st' = promote st" and j: "job_ok j"
  shows "buf_part st' (H @ [(L, j)]) lo"
  unfolding buf_part_def
proof (intro conjI allI)
  show "scalar_only (metric_buffers (st_inner st'))" using pushed_frame(6) [OF p] buf by (simp add: buf_part_def)
  fix t
  obtain bs where bs: "buffer_of (st_inner st') t = buffer_of (st_inner st) t @ bs" "brows bs = job_rows j t"
    "\<forall>b \<in> set bs. rb_keys b = promote st" using pushed_frame(7) [OF p] by blast
  have "r \<in> set (job_rows j t)" if "b \<in> set bs" "r \<in> set (rb_rows b)" for b r
    unfolding bs(2) [symmetric] brows_def using that by auto
  then have "batches_ok (promote st) bs"
    using bs(3) j unfolding batches_ok_def job_ok_def by blast
  then show "batches_ok (promote st') (buffer_of (st_inner st') t)"
    using buf bs(1) pr by (simp add: buf_part_def)
  show "brows (buffer_of (st_inner st') t) = hist_rows (H @ [(L, j)]) t (\<lambda>l. lo < l)"
    using buf bs lt by (simp add: buf_part_def)
qed

lemma tk_part_ingest:
  assumes tk: "tk_part st H tk" and lsn: "lsn_part st H" and L: "L = next_lsn (st_inner st)"
    and p: "pushed (promote st) (job_rows j) (accepted_inner now (st_inner st)) (st_inner st')" and pr: "promote st' = promote st"
  shows "tk_part st' (H @ [(L, j)]) tk"
proof -
  have "\<not> L \<le> tk_watermark tk" using tk lsn L by (simp add: tk_part_def lsn_part_def Let_def)
  then show ?thesis
    using tk pr lsn L by (simp add: tk_part_def pushed_frame(1,3,5) [OF p] lsn_part_def Let_def)
qed

lemma phase_part_ingest:
  assumes ph: "phase_part A st w H ph" and lsn: "lsn_part st H" and L: "L = next_lsn (st_inner st)" and j: "job_ok j"
    and p: "pushed (promote st) (job_rows j) (accepted_inner now (st_inner st)) (st_inner st')"
    and same: "same_store st st'" and t: "touches wal_names w w'"
  shows "phase_part A st' w' (H @ [(L, j)]) ph"
proof -
  have pr: "promote st' = promote st" using same by (simp add: same_store_def)
  have b1: "buf_part st' (H @ [(L, j)]) lo" if "buf_part st H lo" "lo \<le> buffer_max_lsn (st_inner st)" for lo
    by (rule buf_part_ingest [OF that(1) _ p pr j]) (use that(2) lsn L in \<open>simp add: lsn_part_def Let_def\<close>)
  have t1: "tk_part st' (H @ [(L, j)]) tk" "tk_watermark tk \<le> buffer_max_lsn (st_inner st)" if "tk_part st H tk" for tk
    using tk_part_ingest [OF that lsn L p pr] that by (simp_all add: tk_part_def Let_def)
  have o: "out_part A st' w' tk out" if "out_part A st w tk out" for tk out
  proof -
    from out_part_touches [OF t seg_disjoint(2) that] show ?thesis
      using same by (simp add: out_part_def seg_fine_def pushed_frame(2) [OF p] same_store_def)
  qed
  have wm: "watermark (st_inner st) \<le> buffer_max_lsn (st_inner st)" using lsn by (simp add: lsn_part_def Let_def)
  show ?thesis
    using ph b1 t1 o wm by (auto simp: phase_part_def pushed_frame(1,3) [OF p] split: phase.splits)
qed

lemma alive_ingest:
  assumes laws: "arrow_laws A" and al: "alive A h mh st w H ph" and rp: "next_lsn (st_inner st) < u64_max"
      "\<And>l. st_wal st = Some l \<Longrightarrow> seq l < u64_max"
    and j: "job_ok j" and run: "process_ingest_job A h now sync j (st, w) = (res, st', w')"
  shows "disk_ok A h mh w' H \<or> disk_ok A h mh w' (H @ [(next_lsn (st_inner st), j)])"
    and "\<And>l d. res = Inr (l, d) \<Longrightarrow> alive A h mh st' w' (H @ [(l, j)]) ph"
proof -
  let ?L = "next_lsn (st_inner st)" and ?wm = "watermark (st_inner st)"
  let ?r = "rec_of (?L, j)"
  have lsn: "lsn_part st H" and wal: "wal_part h st w H" and man: "man_part mh st w" and seg: "seg_part A st w H"
    and ph: "phase_part A st w H ph" using al by (simp_all add: alive_def)
  obtain l recs where l: "st_wal st = Some l" and hold: "wal_holds h 0 (l, w) recs"
    and lv: "live ?wm recs = live ?wm (map rec_of H)" and bnd: "\<forall>r \<in> set recs. lsn r < ?L"
    using wal by (auto simp: wal_part_def)
  have acc: "\<forall>k rs. accepts A k rs" using laws by (simp add: arrow_laws_def)
  have ro: "\<not> read_only st" using lsn by (simp add: lsn_part_def Let_def)
  have hold1: "wal_holds h (Suc 0) (l, w) recs" by (rule wal_holds_room [OF hold rp(2) [OF l]])
  have rok: "rec_ok ?r" using j rp(1) by (simp add: rec_ok_def rec_of_def job_ok_def)
  have inc: "increasing None (recs @ [?r])"
    using wal_holds_increasing [OF hold] bnd by (auto simp: increasing_iff sorted_wrt_append)
  have wmL: "?wm < ?L" using lsn by (simp add: lsn_part_def Let_def)
  show "disk_ok A h mh w' H \<or> disk_ok A h mh w' (H @ [(?L, j)])"
    "\<And>l d. res = Inr (l, d) \<Longrightarrow> alive A h mh st' w' (H @ [(l, j)]) ph"
  proof (atomize (full), rule process_job_cases [OF acc j ro l run], goal_cases)
    case (1 r1 l1 w1)
    have app: "wal_append h (lsn ?r) (sig_tag ?r) (payload ?r) (l, w) = (r1, l1, w1)"
      using 1(1) by (simp add: rec_of_def)
    note ac = append_cases [OF hold1 rok inc app]
    have t1: "touches wal_names w w1"
      using wal_append_touches [OF wal_file_name [OF hold], of w h ?L "job_signal j" "job_raw j"] 1(1) by simp
    have t: "touches wal_names w w'" by (rule touches_trans [OF t1 same_bytes_touches [OF 1(2)]])
    have seg': "seg_part A st w' H" by (rule seg_part_touches [OF t seg_disjoint(2) seg])
    have man': "man_part mh st w'" by (rule man_part_touches [OF t wal_manifest_disjoint(1) man])
    have d: "disk_ok A h mh w' H'" if "disk_holds h w1 recs'" "live ?wm recs' = live ?wm (map rec_of H')"
      "\<And>t. hist_rows H' t (\<lambda>l. l \<le> ?wm) = hist_rows H t (\<lambda>l. l \<le> ?wm)" for H' recs'
    proof (rule disk_okI [OF man_part_shows [OF man']])
      show "disk_holds h w' recs'" using disk_holds_touches [OF that(1) same_bytes_disjoint [OF 1(2)]] by simp
    qed (use that seg_part_disk [OF seg'] in \<open>simp_all\<close>)
    have "disk_ok A h mh w' H \<or> disk_ok A h mh w' (H @ [(?L, j)])"
      using ac d [of recs H] d [of "recs @ [?r]" "H @ [(?L, j)]"] lv wmL by auto
    moreover have "alive A h mh st' w' (H @ [(l', j)]) ph" if ok: "res = Inr (l', dd)" for l' dd
    proof -
      have l': "l' = ?L" "r1 = Inr ()" and p: "pushed (promote st) (job_rows j) (accepted_inner now (st_inner st)) (st_inner st')"
        using 1(5) [OF ok] by auto
      note fr = pushed_frame [OF p]
      have "lsn_part st' (H @ [(?L, j)])"
        using lsn 1(3) j by (auto simp: lsn_part_def Let_def fr same_store_def sorted_wrt_append)
      moreover have "wal_part h st' w' (H @ [(?L, j)])"
      proof -
        have "wal_holds h 0 (l1, w1) (recs @ [?r])" using ac l' by simp
        from wal_holds_touches [OF this same_bytes_disjoint [OF 1(2)]] have "wal_holds h 0 (l1, w') (recs @ [?r])" by simp
        then show ?thesis
          using 1(4) lv bnd wmL unfolding wal_part_def
          by (intro exI [of _ l1] exI [of _ "recs @ [?r]"]) (auto simp: fr)
      qed
      moreover have "man_part mh st' w'" using man' 1(3) by (simp add: man_part_def fr same_store_def)
      moreover have "seg_part A st' w' (H @ [(?L, j)])"
        using seg' 1(3) wmL by (simp add: seg_part_def seg_fine_def fr same_store_def)
      moreover have "phase_part A st' w' (H @ [(?L, j)]) ph"
        by (rule phase_part_ingest [OF ph lsn refl j p 1(3) t])
      ultimately show ?thesis using l' by (simp add: alive_def)
    qed
    ultimately show ?case by blast
  qed
qed

end
