(* ===== verification/Storage_Steps.thy ===== *)
theory Storage_Steps
  imports Storage_System
begin

text \<open>
  The steps of the sealers and of the group commit keep the invariant of the engine, and an operation
  that fails leaves a directory with the rows of the history.
\<close>

subsection \<open>Writing beside the other files\<close>

lemma seg_range_disjoint: "seg_range A k0 k1 \<inter> wal_names = {}" "seg_range A k0 k1 \<inter> manifest_names = {}"
  using seg_range_names [of A k0 k1] seg_disjoint by blast+

lemma seg_fine_range:
  assumes f: "seg_fine A st w x" and t: "touches (seg_range A (st_seq st) q) w w'" and q: "st_seq st \<le> q"
  shows "seg_fine A (st\<lparr>st_seq := q\<rparr>) w' x" "seg_content A w' x = seg_content A w x"
proof -
  have "relative_path x \<notin> seg_range A (st_seq st) q" using f by (simp add: seg_fine_def path_old_def)
  then show c: "seg_content A w' x = seg_content A w x" by (rule seg_content_touches [OF t])
  show "seg_fine A (st\<lparr>st_seq := q\<rparr>) w' x"
    using f c path_old_mono [OF _ q] by (simp add: seg_fine_def seg_readable_def)
qed

lemma seg_part_range:
  assumes s: "seg_part A st w H" and t: "touches (seg_range A (st_seq st) q) w w'" and q: "st_seq st \<le> q"
  shows "seg_part A (st\<lparr>st_seq := q\<rparr>) w' H"
proof -
  have "seg_data A w' (segs_of (st_inner st) u) = seg_data A w (segs_of (st_inner st) u)" for u
    by (rule seg_data_touches [OF t]) (use s in \<open>auto simp: seg_part_def seg_fine_def path_old_def\<close>)
  then show ?thesis using s seg_fine_range(1) [OF _ t q] by (simp add: seg_part_def)
qed

lemma same_frame_simps:
  "lsn_part (st\<lparr>st_seq := q\<rparr>) H = lsn_part st H" "buf_part (st\<lparr>st_seq := q\<rparr>) H lo = buf_part st H lo"
  "tk_part (st\<lparr>st_seq := q\<rparr>) H tk = tk_part st H tk"
  "wal_part h (st\<lparr>st_seq := q\<rparr>) w H = wal_part h st w H" "man_part mh (st\<lparr>st_seq := q\<rparr>) w = man_part mh st w"
  by (simp_all add: lsn_part_def buf_part_def tk_part_def wal_part_def man_part_def)

lemma alive_scratched:
  assumes al: "alive A h mh st w H (Taken tk)" and sc: "scratched A (st, w) (st', w') n"
  obtains q where "st' = st\<lparr>st_seq := q\<rparr>" "lsn_part st' H" "wal_part h st' w' H" "man_part mh st' w'"
    "seg_part A st' w' H" "tk_part st' H tk" "buf_part st' H (tk_watermark tk)"
proof -
  obtain q where q: "st' = st\<lparr>st_seq := q\<rparr>" "st_seq st \<le> q" "touches (seg_range A (st_seq st) q) w w'"
    using sc by (auto simp: scratched_def)
  have parts: "lsn_part st H" "wal_part h st w H" "man_part mh st w" "seg_part A st w H" "tk_part st H tk"
    "buf_part st H (tk_watermark tk)"
    using al unfolding alive_def phase_part_def by simp_all
  show thesis
  proof (rule that [OF q(1)])
    show "lsn_part st' H" "tk_part st' H tk" "buf_part st' H (tk_watermark tk)"
      unfolding q(1) same_frame_simps by fact+
    show "wal_part h st' w' H" unfolding q(1) same_frame_simps
      by (rule wal_part_touches [OF q(3) seg_range_disjoint(1) parts(2)])
    show "man_part mh st' w'" unfolding q(1) same_frame_simps
      by (rule man_part_touches [OF q(3) seg_range_disjoint(2) parts(3)])
    show "seg_part A st' w' H" unfolding q(1) by (rule seg_part_range [OF parts(4) q(3,2)])
  qed
qed

subsection \<open>The names of new segments\<close>

definition plain_char :: "char \<Rightarrow> bool" where
  "plain_char c \<longleftrightarrow> (of_char c :: nat) \<le> 127 \<and> c \<noteq> tab \<and> c \<noteq> nl \<and> c \<noteq> cr"

lemma plain_path_ok: "list_all plain_char p \<Longrightarrow> path_ok p"
  unfolding path_ok_def by (intro conjI utf8_string_ascii) (auto simp: list_all_iff plain_char_def)

lemma plain_show: "list_all plain_char (show_pad b n k)"
  using show_pad_chars digit_chars_props by (fastforce simp: list_all_iff plain_char_def)

lemma plain_table: "list_all plain_char (table_as_str t)"
  using table_chars by (auto simp: list_all_iff plain_char_def)

lemma segment_path_ok: "path_ok (segment_path A (table_as_str t) mt q)"
proof (rule plain_path_ok)
  have "list_all plain_char (show_pad_int n i)" for n i
    by (simp add: show_pad_int_def plain_show) (simp add: plain_char_def)
  then have "list_all plain_char (utc_date_string mt)"
    by (simp add: utc_date_string_def Let_def plain_show split: prod.splits) (simp add: plain_char_def)
  then show "list_all plain_char (segment_path A (table_as_str t) mt q)"
    by (simp add: segment_path_def segment_rel_path_def plain_show plain_table) (simp add: plain_char_def)
qed

lemma path_in_ok: "path_in A k0 k1 x \<Longrightarrow> path_ok (relative_path (snd x))"
  using segment_path_ok by (auto simp: path_in_def)

lemma wrote_out_part:
  assumes laws: "arrow_laws A" and w: "wrote A (st, w) (st', w') (seal_items (tk_batches tk)) (written_segs out)"
    and tk: "tk_part st H tk" and seg: "seg_part A st w H"
    and ms: "\<forall>x \<in> set (snd (snd out)). fst x \<noteq> TLogs \<and> fst x \<noteq> TSpans"
  shows "out_part A st' w' tk out" "distinct (map (relative_path \<circ> snd) (written_segs out))"
    "\<forall>x \<in> set (written_segs out). seg_rows (snd x) = length (the (seg_content A w' (snd x)))"
proof -
  obtain q where q: "st' = st\<lparr>st_seq := q\<rparr>" "st_seq st \<le> q"
    "\<forall>x \<in> set (written_segs out). path_in A (st_seq st) q x"
    and d: "distinct (map (relative_path \<circ> snd) (written_segs out))"
    using w by (auto simp: wrote_def)
  show "distinct (map (relative_path \<circ> snd) (written_segs out))" by (rule d)
  show "\<forall>x \<in> set (written_segs out). seg_rows (snd x) = length (the (seg_content A w' (snd x)))"
    using w by (simp add: wrote_def)
  have sc: "scalar_only (sb_metrics (tk_batches tk))" using tk by (simp add: tk_part_def Let_def)
  show "out_part A st' w' tk out"
    unfolding out_part_def
  proof (rule conjI [OF ms], intro conjI ballI allI)
    fix x assume x: "x \<in> set (written_segs out)"
    then have pin: "path_in A (st_seq st) q x" using q(3) by blast
    show "seg_fine A st' w' (snd x)"
      using w x path_in_ok [OF pin] path_in_old [OF pin] path_in_names [OF pin]
      by (simp add: wrote_def seg_fine_def q(1))
    fix t y assume "y \<in> set (segs_of (st_inner st') t)"
    then have "path_old A (st_seq st) (relative_path y)" using seg q(1) by (auto simp: seg_part_def seg_fine_def)
    then show "relative_path y \<noteq> relative_path (snd x)"
      using path_in_range [OF pin] by (auto simp: path_old_def)
  next
    fix t
    show "seg_data A w' (outs_of t (written_segs out)) = mset (brows (staged_of (tk_batches tk) t))"
      using w by (simp add: wrote_def seal_items_outs [OF sc])
  qed
qed

lemma metric_tables_outs:
  "write_metric_tables A items e = (Inr outs, e') \<Longrightarrow> x \<in> set outs \<Longrightarrow> fst x \<in> fst ` set items"
proof (induction items arbitrary: e outs)
  case (Cons i items)
  obtain t bs where i: "i = (t, bs)" by (cases i)
  obtain r1 e1 where w1: "write_table A (write_metric_segment A t) bs e = (r1, e1)"
    by (cases "write_table A (write_metric_segment A t) bs e")
  obtain r2 e2 where w2: "write_metric_tables A items e1 = (r2, e2)" by (cases "write_metric_tables A items e1")
  obtain s o2 where o: "r2 = Inr o2" "outs = map (Pair t) (opt_list s) @ o2" "e2 = e'"
    using Cons.prems(1) i w1 w2 by (cases r1; cases r2) auto
  show ?case
  proof (cases "x \<in> set o2")
    case True
    then show ?thesis using Cons.IH [of e1 o2] w2 o by simp
  next
    case False
    then show ?thesis using o(2) Cons.prems(2) i by auto
  qed
qed simp

lemma entries_in: "y \<in> set (entries m) \<longleftrightarrow> m (fst y) = Some (snd y)"
  by (cases y) (force simp: entries_def map_filter_def)

lemma seal_write_metric_outs:
  assumes run: "seal_write A tk e = (Inr out, e')" and sc: "scalar_only (sb_metrics (tk_batches tk))"
  shows "\<forall>x \<in> set (snd (snd out)). fst x \<noteq> TLogs \<and> fst x \<noteq> TSpans"
proof -
  let ?sb = "tk_batches tk"
  let ?m = "entries (sb_metrics ?sb) @ [(TMetricsHistogram, sb_histogram ?sb),
    (TMetricsExpHistogram, sb_exp_histogram ?sb), (TMetricsSummary, sb_summary ?sb)]"
  obtain r1 e1 where w1: "write_table A (write_logs_segment A) (sb_logs ?sb) e = (r1, e1)"
    by (cases "write_table A (write_logs_segment A) (sb_logs ?sb) e")
  obtain r2 e2 where w2: "write_table A (write_spans_segment A) (sb_spans ?sb) e1 = (r2, e2)"
    by (cases "write_table A (write_spans_segment A) (sb_spans ?sb) e1")
  obtain r3 e3 where w3: "write_metric_tables A ?m e2 = (r3, e3)" by (cases "write_metric_tables A ?m e2")
  obtain l s where "r1 = Inr l" "r2 = Inr s" "r3 = Inr (snd (snd out))"
    using run w1 w2 w3 by (cases r1; cases r2; cases r3) (auto simp: seal_write_def Let_def)
  then have w: "write_metric_tables A ?m e2 = (Inr (snd (snd out)), e3)" using w3 by simp
  have "fst x \<in> fst ` set ?m" if "x \<in> set (snd (snd out))" for x by (rule metric_tables_outs [OF w that])
  moreover have "t \<noteq> TLogs \<and> t \<noteq> TSpans" if "t \<in> fst ` set ?m" for t
  proof (cases "t \<in> fst ` set (entries (sb_metrics ?sb))")
    case True
    then obtain y where "y \<in> set (entries (sb_metrics ?sb))" "t = fst y" by blast
    with entries_in have "sb_metrics ?sb t = Some (snd y)" by metis
    then show ?thesis using sc by (auto simp: scalar_only_def SCALAR_METRIC_TABLES_def)
  next
    case False
    then show ?thesis using that by (simp add: image_Un) auto
  qed
  ultimately show ?thesis by blast
qed

lemma tk_items_ok:
  assumes tk: "tk_part st H tk"
  shows "items_ok (promote st) (seal_items (tk_batches tk))"
proof -
  let ?sb = "tk_batches tk"
  have sc: "scalar_only (sb_metrics ?sb)" and ok: "\<And>t. batches_ok (promote st) (staged_of ?sb t)"
    using tk by (simp_all add: tk_part_def Let_def)
  have "batches_ok (promote st) bs" if "(t, bs) \<in> set (seal_items ?sb)" for t bs
  proof -
    have "bs \<in> set (outs_of t (seal_items ?sb))" using that by (force simp: outs_of_def)
    then have "set bs \<subseteq> set (staged_of ?sb t)"
      using seal_items_outs [OF sc, of t] by (metis UN_upper set_concat)
    then show ?thesis using ok [of t] by (auto simp: batches_ok_def)
  qed
  then show ?thesis by (fastforce simp: items_ok_def)
qed

lemma alive_write:
  assumes laws: "arrow_laws A" and al: "alive A h mh st w H (Taken tk)" and room: "st_seq st + 12 \<le> u64_max"
    and run: "seal_write A tk (st, w) = (res, st', w')"
  shows "res = Inl err \<Longrightarrow> alive A h mh st' w' H (Failed tk)" "res = Inr out \<Longrightarrow> alive A h mh st' w' H (Written tk out)"
proof -
  have tk: "tk_part st H tk" and seg: "seg_part A st w H" using al unfolding alive_def phase_part_def by simp_all
  have sc: "scalar_only (sb_metrics (tk_batches tk))" using tk by (simp add: tk_part_def Let_def)
  have rm: "st_seq (fst (st, w)) + 12 \<le> u64_max" using room by simp
  note c = seal_write_cases [OF laws tk_items_ok [OF tk] rm run]
  obtain q where k: "st' = st\<lparr>st_seq := q\<rparr>" "lsn_part st' H" "wal_part h st' w' H" "man_part mh st' w'"
    "seg_part A st' w' H" "tk_part st' H tk" "buf_part st' H (tk_watermark tk)"
    by (rule alive_scratched [OF al c(1)])
  show "alive A h mh st' w' H (Failed tk)" using k unfolding alive_def phase_part_def by simp
  assume r: "res = Inr out"
  have "out_part A st' w' tk out"
    by (rule wrote_out_part(1) [OF laws c(2) [OF r] tk seg seal_write_metric_outs [OF _ sc]]) (use run r in simp)
  then show "alive A h mh st' w' H (Written tk out)" using k unfolding alive_def phase_part_def by simp
qed

subsection \<open>Critical sections in memory\<close>

lemma upd_inner_pair: "upd_inner f (st, w) = (st\<lparr>st_inner := f (st_inner st)\<rparr>, w)"
  by (simp add: upd_inner_def)

text \<open>A change of the buffers alone leaves the log, the manifest and the segments.\<close>

lemma alive_buffers:
  assumes al: "alive A h mh st w H ph" and v: "manifest_view inn' = manifest_view (st_inner st)"
    "buffer_max_lsn inn' = buffer_max_lsn (st_inner st)" "next_lsn inn' = next_lsn (st_inner st)"
    and ph: "phase_part A (st\<lparr>st_inner := inn'\<rparr>) w H ph'"
  shows "alive A h mh (st\<lparr>st_inner := inn'\<rparr>) w H ph'"
proof -
  have wm: "watermark inn' = watermark (st_inner st)" using arg_cong [OF v(1), of m_watermark] by simp
  have parts: "lsn_part st H" "wal_part h st w H" "man_part mh st w" "seg_part A st w H"
    using al unfolding alive_def by simp_all
  have "lsn_part (st\<lparr>st_inner := inn'\<rparr>) H" using parts(1) v wm by (simp add: lsn_part_def Let_def)
  moreover have "wal_part h (st\<lparr>st_inner := inn'\<rparr>) w H" using parts(2) v wm by (simp add: wal_part_def)
  moreover have "man_part mh (st\<lparr>st_inner := inn'\<rparr>) w" using parts(3) v by (simp add: man_part_def)
  moreover have "seg_part A (st\<lparr>st_inner := inn'\<rparr>) w H" using parts(4) v wm by (simp add: seg_part_def seg_fine_def)
  ultimately show ?thesis using ph unfolding alive_def by blast
qed

lemma alive_take:
  assumes al: "alive A h mh st w H Idle" and run: "seal_take (st_inner st) = (Some tk, inn')"
  shows "alive A h mh (st\<lparr>st_inner := inn'\<rparr>) w H (Taken tk)"
proof (rule alive_buffers [OF al seal_take_facts(7) [OF run] seal_take_facts(9) [OF run] seal_take_facts(10) [OF run]])
  note f = seal_take_facts [OF run]
  have lsn: "lsn_part st H" and sl: "sealing (st_inner st) = []" and buf: "buf_part st H (watermark (st_inner st))"
    using al unfolding alive_def phase_part_def by simp_all
  let ?st = "st\<lparr>st_inner := inn'\<rparr>"
  have none: "hist_rows H t (\<lambda>l. buffer_max_lsn (st_inner st) < l) = []" for t
    using lsn by (intro hist_rows_none) (auto simp: lsn_part_def Let_def)
  have all: "hist_rows H t (\<lambda>l. watermark (st_inner st) < l \<and> l \<le> buffer_max_lsn (st_inner st)) =
      hist_rows H t (\<lambda>l. watermark (st_inner st) < l)" for t
    using lsn by (intro hist_rows_cong) (auto simp: lsn_part_def Let_def)
  have "tk_part ?st H tk"
    using lsn buf sl all by (simp add: tk_part_def buf_part_def lsn_part_def Let_def f)
  moreover have "buf_part ?st H (tk_watermark tk)"
    using none by (simp add: buf_part_def f scalar_only_def batches_ok_def brows_def)
  ultimately show "phase_part A ?st w H (Taken tk)" by (simp add: phase_part_def)
qed

lemma alive_restore:
  assumes al: "alive A h mh st w H (Failed tk)"
  shows "alive A h mh (st\<lparr>st_inner := seal_restore tk (st_inner st)\<rparr>) w H Idle"
proof (rule alive_buffers [OF al seal_restore_facts(3,5,6)])
  note f = seal_restore_facts(1-7)
  have lsn: "lsn_part st H" and tk: "tk_part st H tk" and buf: "buf_part st H (tk_watermark tk)"
    using al unfolding alive_def phase_part_def by simp_all
  let ?st = "st\<lparr>st_inner := seal_restore tk (st_inner st)\<rparr>"
  have sc: "scalar_only (metric_buffers (seal_restore tk (st_inner st)))"
    by (rule seal_restore_facts(8)) (use tk buf in \<open>simp_all add: tk_part_def buf_part_def Let_def\<close>)
  have ok: "batches_ok (promote st) (staged_of (tk_batches tk) t @ buffer_of (st_inner st) t)" for t
    using tk buf by (simp add: tk_part_def buf_part_def Let_def)
  have "brows (staged_of (tk_batches tk) t @ buffer_of (st_inner st) t) =
      hist_rows H t (\<lambda>l. watermark (st_inner st) < l)" for t
  proof -
    have "hist_rows H t (\<lambda>l. watermark (st_inner st) < l \<and> l \<le> tk_watermark tk) @ hist_rows H t (\<lambda>l. tk_watermark tk < l)
        = hist_rows H t (\<lambda>l. watermark (st_inner st) < l)"
      by (rule hist_rows_join) (use lsn tk in \<open>simp_all add: lsn_part_def tk_part_def Let_def\<close>)
    then show ?thesis using tk buf by (simp add: tk_part_def buf_part_def Let_def)
  qed
  then have "buf_part ?st H (watermark (st_inner st))" using sc ok unfolding buf_part_def by (simp add: f)
  moreover have "sealing (seal_restore tk (st_inner st)) = []" using tk by (simp add: f tk_part_def Let_def)
  ultimately show "phase_part A ?st w H Idle" by (simp add: phase_part_def f)
qed

subsection \<open>Registering the segments\<close>

lemma live_mono: "a \<le> b \<Longrightarrow> live a xs = live a ys \<Longrightarrow> live b xs = live b ys"
proof -
  assume "a \<le> b" "live a xs = live a ys"
  moreover have "live b zs = live b (live a zs)" for zs :: "wal_record list"
    using \<open>a \<le> b\<close> by (auto intro!: filter_cong)
  ultimately show ?thesis by metis
qed

lemma out_partD:
  assumes "out_part A st w tk out" "x \<in> set (written_segs out)"
  shows "seg_fine A st w (snd x)" "y \<in> set (segs_of (st_inner st) t) \<Longrightarrow> relative_path y \<noteq> relative_path (snd x)"
  using assms by (simp_all add: out_part_def)

lemma register_parts:
  assumes al: "alive A h mh st w H (Written tk out)"
  defines "st1 \<equiv> st\<lparr>st_inner := seal_register tk out (st_inner st)\<rparr>"
  shows "lsn_part st1 H" "wal_part h st1 w H" "seg_part A st1 w H"
    "sealing (st_inner st1) = []" "watermark (st_inner st1) = tk_watermark tk" "buf_part st1 H (tk_watermark tk)"
    "\<And>t. evolves (segs_of (st_inner st) t) (segs_of (st_inner st1) t)"
proof -
  have lsn: "lsn_part st H" and wal: "wal_part h st w H" and seg: "seg_part A st w H" and tk: "tk_part st H tk"
    and buf: "buf_part st H (tk_watermark tk)" and out: "out_part A st w tk out"
    using al unfolding alive_def phase_part_def by simp_all
  have ms: "\<forall>x \<in> set (snd (snd out)). fst x \<noteq> TLogs \<and> fst x \<noteq> TSpans" using out by (simp add: out_part_def)
  note f = seal_register_facts [OF ms]
  have wm: "watermark (st_inner st) \<le> tk_watermark tk" "tk_watermark tk \<le> buffer_max_lsn (st_inner st)"
    using tk by (simp_all add: tk_part_def Let_def)
  show "lsn_part st1 H" using lsn wm by (simp add: lsn_part_def Let_def st1_def f)
  obtain l recs where l: "st_wal st = Some l" "wal_holds h 0 (l, w) recs" "\<forall>r \<in> set recs. lsn r < next_lsn (st_inner st)"
    and lv: "live (watermark (st_inner st)) recs = live (watermark (st_inner st)) (map rec_of H)"
    using wal unfolding wal_part_def by blast
  show "wal_part h st1 w H"
    unfolding wal_part_def
    by (intro exI [of _ l] exI [of _ recs] conjI)
       (use l live_mono [OF wm(1) lv] in \<open>simp_all add: st1_def f\<close>)
  show "sealing (st_inner st1) = []" using tk by (simp add: st1_def f tk_part_def Let_def)
  show "watermark (st_inner st1) = tk_watermark tk" by (simp add: st1_def f)
  show "buf_part st1 H (tk_watermark tk)" using buf by (simp add: buf_part_def st1_def f)
  show "seg_part A st1 w H"
    unfolding seg_part_def
  proof (rule allI, rule conjI, rule ballI)
    fix t x assume "x \<in> set (segs_of (st_inner st1) t)"
    then have "x \<in> set (segs_of (st_inner st) t) \<or> x \<in> set (outs_of t (written_segs out))" by (simp add: st1_def f)
    then have "seg_fine A st w x"
    proof
      assume "x \<in> set (segs_of (st_inner st) t)"
      then show ?thesis using seg unfolding seg_part_def by blast
    next
      assume "x \<in> set (outs_of t (written_segs out))"
      from path_in_outs [OF this] obtain y where y: "y \<in> set (written_segs out)" "x = snd y" by blast
      show ?thesis unfolding y(2) by (rule out_partD(1) [OF out y(1)])
    qed
    then show "seg_fine A st1 w x" by (simp add: seg_fine_def st1_def)
  next
    fix t
    have d: "seg_data A w (segs_of (st_inner st) t) = mset (hist_rows H t (\<lambda>l. l \<le> watermark (st_inner st)))"
      "seg_data A w (outs_of t (written_segs out)) = mset (brows (staged_of (tk_batches tk) t))"
      "brows (staged_of (tk_batches tk) t) = hist_rows H t (\<lambda>l. watermark (st_inner st) < l \<and> l \<le> tk_watermark tk)"
      using seg out tk unfolding seg_part_def out_part_def tk_part_def Let_def by blast+
    have s: "segs_of (st_inner st1) t = segs_of (st_inner st) t @ outs_of t (written_segs out)"
      "watermark (st_inner st1) = tk_watermark tk" by (simp_all add: st1_def f)
    show "seg_data A w (segs_of (st_inner st1) t) = mset (hist_rows H t (\<lambda>l. l \<le> watermark (st_inner st1)))"
      unfolding s seg_data_simps d hist_rows_split [OF wm(1), of H t] ..
  qed
  fix t
  have "\<forall>s \<in> set (outs_of t (written_segs out)). relative_path s \<notin> paths (segs_of (st_inner st) t)"
  proof
    fix s assume "s \<in> set (outs_of t (written_segs out))"
    from path_in_outs [OF this] obtain y where y: "y \<in> set (written_segs out)" "s = snd y" by blast
    show "relative_path s \<notin> paths (segs_of (st_inner st) t)"
    proof
      assume "relative_path s \<in> paths (segs_of (st_inner st) t)"
      then obtain z where "relative_path s = relative_path z" "z \<in> set (segs_of (st_inner st) t)" by (rule imageE)
      then show False using out_partD(2) [OF out y(1)] y(2) by metis
    qed
  qed
  then show "evolves (segs_of (st_inner st) t) (segs_of (st_inner st1) t)"
    using f(1) [of tk "st_inner st" t] unfolding evolves_def st1_def
    by (intro exI [of _ "outs_of t (written_segs out)"]) (simp add: filter_id_conv)
qed

lemma subseq_in: "subseq xs ys \<Longrightarrow> x \<in> set xs \<Longrightarrow> x \<in> set ys"
  by (auto elim: list_emb_set)

lemma disk_parts:
  assumes v: "shows_state mh w (manifest_view (st_inner st))" and d: "disk_holds h w recs"
    and lv: "live (watermark (st_inner st)) recs = live (watermark (st_inner st)) (map rec_of H)"
    and seg: "seg_part A st w H"
  shows "disk_ok A h mh w H"
proof (rule disk_okI [OF v d])
  show "live (m_watermark (manifest_view (st_inner st))) recs = live (m_watermark (manifest_view (st_inner st))) (map rec_of H)"
    using lv by simp
  show "(\<forall>x \<in> set (segs_of (st_inner st) t). seg_readable A w x) \<and>
      seg_data A w (segs_of (st_inner st) t) = mset (hist_rows H t (\<lambda>l. l \<le> m_watermark (manifest_view (st_inner st))))" for t
    using seg_part_disk [OF seg, of t] unfolding view_watermark by blast
qed

lemma register_metrics_ok:
  assumes ms: "\<forall>x \<in> set (snd (snd out)). fst x \<noteq> TLogs \<and> fst x \<noteq> TSpans"
    and ok: "metrics_ok (manifest_view inn)"
  shows "metrics_ok (manifest_view (seal_register tk out inn))"
proof -
  have keep: "fold push_metric_seg xs m u = m u" if "\<forall>x \<in> set xs. fst x \<noteq> u" for xs u m
    using that by (induction xs arbitrary: m) (auto simp: push_metric_seg_def split: prod.splits)
  show ?thesis
    using ok ms keep by (auto simp: metrics_ok_def manifest_view_def seal_register_def split: prod.splits)
qed

lemma alive_register:
  assumes al: "alive A h mh st w H (Written tk out)"
    and room: "\<And>mw. st_manifest st = Some mw \<Longrightarrow> current_num mw < u64_max"
    and rep: "let inn = seal_register tk out (st_inner st) in fits (manifest_view inn) \<and> watermark inn \<le> u64_max \<and>
      (\<forall>t. \<forall>x \<in> set (segs_of inn t). seg_rows x \<le> u64_max)"
    and run: "seal_commit mh tk out (st, w) = (res, st', w')"
  shows "disk_ok A h mh w' H" "res = Inr () \<Longrightarrow> alive A h mh st' w' H (Committed tk)"
proof -
  let ?st1 = "st\<lparr>st_inner := seal_register tk out (st_inner st)\<rparr>"
  note rp = register_parts [OF al]
  have man: "man_part mh st w" using al unfolding alive_def by simp
  then obtain mw where mw: "st_manifest st = Some mw" "mw_inv mh 0 (mw, w)"
    and same: "same_state (last_state mw) (manifest_view (st_inner st))" and mok: "metrics_ok (manifest_view (st_inner st))"
    by (auto simp: man_part_def)
  let ?view = "manifest_view (st_inner ?st1)"
  obtain r mw' w2 where p: "persist mh ?view (mw, w) = (r, mw', w2)" by (metis prod_cases3)
  have inv: "mw_inv mh (Suc 0) (mw, w)" by (rule mw_inv_room [OF mw(2) room [OF mw(1)]])
  have ms: "\<forall>x \<in> set (snd (snd out)). fst x \<noteq> TLogs \<and> fst x \<noteq> TSpans"
    using al unfolding alive_def phase_part_def out_part_def by simp
  have mok': "metrics_ok ?view" using register_metrics_ok [OF ms mok] by simp
  have sok: "state_ok ?view"
    using mok' rep rp(3) by (auto simp: state_ok_def list_all_iff seg_ok_def seg_part_def seg_fine_def Let_def)
  have ev: "evolves (list_of (last_state mw) t) (list_of ?view t)" for t
    using rp(7) [of t] same by (simp add: same_state_def)
  have fit: "fits ?view" using rep by (simp add: Let_def)
  note pc = persist_cases [OF inv sok fit ev p]
  have t: "touches manifest_names w w2" using persist_touches [of w mh ?view mw] p by simp
  have w': "w' = w2" and res: "res = (case r of Inl e \<Rightarrow> Inl e | Inr u \<Rightarrow> Inr ())"
    and st': "r = Inr () \<Longrightarrow> st' = ?st1\<lparr>st_manifest := Some mw', durable_lsn := max (durable_lsn st) (tk_watermark tk)\<rparr>"
    using run p mw(1) unfolding seal_commit_def persist_manifest_def upd_inner_pair with_manifest_def fetch_max_def
    by (cases r; auto)+
  have dj: "manifest_names \<inter> seg_names = {}" "manifest_names \<inter> wal_names = {}"
    using seg_disjoint wal_manifest_disjoint by blast+
  have seg1: "seg_part A ?st1 w2 H" by (rule seg_part_touches [OF t dj(1) rp(3)])
  have seg0: "seg_part A st w2 H" by (rule seg_part_touches [OF t dj(1)]) (use al in \<open>simp add: alive_def\<close>)
  have wal1: "wal_part h ?st1 w2 H" by (rule wal_part_touches [OF t dj(2) rp(2)])
  have wal0: "wal_part h st w2 H" by (rule wal_part_touches [OF t dj(2)]) (use al in \<open>simp add: alive_def\<close>)
  have disk: "disk_ok A h mh w2 H"
    if v: "shows_state mh w2 (manifest_view (st_inner s))" and wal: "wal_part h s w2 H" and seg: "seg_part A s w2 H" for s
  proof -
    obtain l recs where l: "wal_holds h 0 (l, w2) recs"
      "live (watermark (st_inner s)) recs = live (watermark (st_inner s)) (map rec_of H)"
      using wal by (auto simp: wal_part_def)
    show ?thesis by (rule disk_parts [OF v wal_holds_disk [OF l(1)] l(2) seg])
  qed
  have "shows_state mh w2 (manifest_view (st_inner st)) \<or> shows_state mh w2 ?view"
    using pc same same_state_trans unfolding shows_state_def by metis
  then show "disk_ok A h mh w' H" using disk [OF _ wal0 seg0] disk [OF _ wal1 seg1] w' by blast
  assume ok: "res = Inr ()"
  then have r: "r = Inr ()" using res by (simp split: sum.splits)
  note s = st' [OF r]
  have "lsn_part st' H" using rp(1) by (simp add: s lsn_part_def)
  moreover have "wal_part h st' w' H" using wal1 by (simp add: s w' wal_part_def)
  moreover have "man_part mh st' w'" using pc r mok' by (simp add: s w' man_part_def)
  moreover have "seg_part A st' w' H" using seg1 by (simp add: s w' seg_part_def seg_fine_def)
  moreover have "phase_part A st' w' H (Committed tk)"
    using rp(4,5,6) by (simp add: s phase_part_def buf_part_def)
  ultimately show "alive A h mh st' w' H (Committed tk)" unfolding alive_def by blast
qed

lemma alive_reclaim:
  assumes al: "alive A h mh st w H (Committed tk)"
    and room: "\<And>l. st_wal st = Some l \<Longrightarrow> seq l < u64_max"
    and run: "seal_reclaim tk (st, w) = (res, st', w')"
  shows "disk_ok A h mh w' H" "res = Inr () \<Longrightarrow> alive A h mh st' w' H Idle"
proof -
  have lsn: "lsn_part st H" and wal: "wal_part h st w H" and man: "man_part mh st w" and seg: "seg_part A st w H"
    and wm: "tk_watermark tk = watermark (st_inner st)" and ph: "sealing (st_inner st) = []"
      "buf_part st H (watermark (st_inner st))"
    using al unfolding alive_def phase_part_def by simp_all
  obtain l recs where l: "st_wal st = Some l" and hold: "wal_holds h 0 (l, w) recs"
    and lv: "live (watermark (st_inner st)) recs = live (watermark (st_inner st)) (map rec_of H)"
    and bnd: "\<forall>r \<in> set recs. lsn r < next_lsn (st_inner st)"
    using wal unfolding wal_part_def by blast
  obtain r l' w2 where rc: "wal_reclaim (tk_watermark tk) (l, w) = (r, l', w2)" by (metis prod_cases3)
  obtain recs' where recs': "disk_holds h w2 recs'" "subseq recs' recs"
    "live (tk_watermark tk) recs' = live (tk_watermark tk) recs" "r = Inr () \<Longrightarrow> wal_holds h 0 (l', w2) recs'"
    using reclaim_cases [OF wal_holds_room [OF hold room [OF l]] rc] by blast
  have fin: "w' = w2" "res = r" "st' = st\<lparr>st_wal := Some l'\<rparr>"
    using run rc l by (auto simp: seal_reclaim_def with_wal_def)
  obtain cl rs where "wal_rep h (l, w) cl rs" using hold by (auto simp: wal_holds_def)
  from wal_reclaim_touches [OF this room [OF l], of "tk_watermark tk"] rc have t: "touches wal_names w w2" by simp
  have seg': "seg_part A st w2 H" by (rule seg_part_touches [OF t seg_disjoint(2) seg])
  have man': "man_part mh st w2" by (rule man_part_touches [OF t wal_manifest_disjoint(1) man])
  have lv': "live (watermark (st_inner st)) recs' = live (watermark (st_inner st)) (map rec_of H)"
    using recs'(3) lv wm by simp
  show "disk_ok A h mh w' H"
    unfolding fin by (rule disk_parts [OF man_part_shows [OF man'] recs'(1) lv' seg'])
  assume "res = Inr ()"
  then have w: "wal_holds h 0 (l', w2) recs'" using recs'(4) fin by simp
  have "lsn_part st' H" using lsn by (simp add: fin lsn_part_def)
  moreover have "wal_part h st' w' H"
    unfolding wal_part_def fin
    by (intro exI [of _ l'] exI [of _ recs'] conjI)
       (use w lv' bnd subseq_in [OF recs'(2)] in \<open>auto simp: subset_iff\<close>)
  moreover have "man_part mh st' w'" using man' by (simp add: fin man_part_def)
  moreover have "seg_part A st' w' H" using seg' by (simp add: fin seg_part_def seg_fine_def)
  moreover have "phase_part A st' w' H Idle" using ph by (simp add: fin phase_part_def buf_part_def)
  ultimately show "alive A h mh st' w' H Idle" unfolding alive_def by blast
qed

end
