(* ===== verification/Storage_Runs.thy ===== *)
theory Storage_Runs
  imports Storage_Steps Wal_Properties Pending_Properties
begin

text \<open>
  Runs of the engine: every reachable state keeps the invariant, from a new directory on. What the
  readers of the directory and the queries of the process see follows from it.
\<close>

lemma alive_sync:
  assumes al: "alive A h mh st w H ph" and run: "sync_wal (st, w) = (r, st', w')"
  shows "alive A h mh st' w' H ph"
proof -
  obtain l where l: "st_wal st = Some l" using al by (auto simp: alive_def wal_part_def)
  obtain r1 w1 where s: "wal_sync (l, w) = (r1, l, w1)" "same_bytes w w1" using wal_sync_shape by blast
  obtain d where st: "w' = w1" and d: "st' = st\<lparr>st_wal := Some l, durable_lsn := d\<rparr>"
  proof (cases r1)
    case (Inl e)
    then have "w' = w1" "st' = st\<lparr>st_wal := Some l, durable_lsn := durable_lsn st\<rparr>"
      using run l s by (auto simp: sync_wal_def with_wal_def Let_def)
    then show thesis by (rule that)
  next
    case (Inr u)
    then have "w' = w1"
      "st' = st\<lparr>st_wal := Some l, durable_lsn := max (durable_lsn st) (buffer_max_lsn (st_inner st))\<rparr>"
      using run l s by (simp_all add: sync_wal_def with_wal_def fetch_max_def Let_def)
    then show thesis by (rule that)
  qed
  have t: "touches {} w w1" by (rule same_bytes_disjoint [OF s(2)])
  have parts: "lsn_part st H" "wal_part h st w1 H" "man_part mh st w1" "seg_part A st w1 H"
    using al wal_part_touches [OF t] man_part_touches [OF t] seg_part_touches [OF t] unfolding alive_def by simp_all
  have ph: "phase_part A st w1 H ph"
    using al out_part_touches [OF t] unfolding alive_def phase_part_def by (cases ph) simp_all
  have "lsn_part st' H" "wal_part h st' w1 H" "man_part mh st' w1" "seg_part A st' w1 H"
    using parts l by (simp_all add: d lsn_part_def wal_part_def man_part_def seg_part_def seg_fine_def)
  moreover have "phase_part A st' w1 H ph"
    using ph by (cases ph) (simp_all add: d phase_part_def buf_part_def tk_part_def out_part_def seg_fine_def)
  ultimately show ?thesis unfolding alive_def st by blast
qed

lemma seal_commit_inner:
  assumes "seal_commit mh tk out (st, w) = (res, st', w')"
  shows "st_inner st' = seal_register tk out (st_inner st)"
proof (cases "st_manifest st")
  case None
  then show ?thesis
    using assms by (auto simp: seal_commit_def persist_manifest_def upd_inner_pair fetch_max_def)
next
  case (Some mw)
  obtain r mw' w2 where p: "persist mh (manifest_view (seal_register tk out (st_inner st))) (mw, w) = (r, mw', w2)"
    by (metis prod_cases3)
  show ?thesis
    using assms Some p
    by (cases r) (auto simp: seal_commit_def persist_manifest_def upd_inner_pair fetch_max_def with_manifest_def)
qed

lemma register_room:
  assumes al: "alive A h mh st w H (Written tk out)" and run: "seal_commit mh tk out (st, w) = (res, st', w')"
    and rep: "representable s'" "sy_engine s' = (st', w')" and n: "next_lsn (st_inner st) < u64_max"
  shows "let inn = seal_register tk out (st_inner st) in fits (manifest_view inn) \<and> watermark inn \<le> u64_max \<and>
      (\<forall>t. \<forall>x \<in> set (segs_of inn t). seg_rows x \<le> u64_max)"
proof -
  note i = seal_commit_inner [OF run]
  have "watermark (seal_register tk out (st_inner st)) = tk_watermark tk" using register_parts(5) [OF al] by simp
  moreover have "tk_watermark tk \<le> u64_max"
    using al n unfolding alive_def phase_part_def by (simp add: tk_part_def lsn_part_def Let_def)
  ultimately show ?thesis using rep unfolding representable_def by (simp add: i Let_def)
qed

lemma sys_inv_step:
  assumes laws: "arrow_laws A" and inv: "sys_inv A h mh i s" and rep: "representable s" "representable s'"
    and step: "engine_step A h mh {i} s s'"
  shows "sys_inv A h mh i s'"
proof -
  obtain st w where e: "sy_engine s = (st, w)" by (cases "sy_engine s")
  have r: "next_lsn (st_inner st) < u64_max" "st_seq st + 12 \<le> u64_max"
    "\<And>l. st_wal st = Some l \<Longrightarrow> seq l < u64_max" "\<And>mw. st_manifest st = Some mw \<Longrightarrow> current_num mw < u64_max"
    using rep(1) by (auto simp: representable_def e)
  have al: "alive A h mh st w (sy_jobs s) (sy_sealer s i)" if "\<not> sy_dead s" using inv that by (simp add: sys_inv_def e)
  show ?thesis
    using step
  proof cases
    case (ingest_ok j now sync l d e')
    obtain st' w' where e': "e' = (st', w')" by (cases e')
    have run: "process_ingest_job A h now sync j (st, w) = (Inr (l, d), st', w')" using ingest_ok e e' by simp
    show ?thesis
      using alive_ingest(2) [OF laws al r(1,3) ingest_ok(3) run refl] ingest_ok(1,2) e' by (simp add: sys_inv_def)
  next
    case (ingest_err j now sync err e')
    obtain st' w' where e': "e' = (st', w')" by (cases e')
    have run: "process_ingest_job A h now sync j (st, w) = (Inl err, st', w')" using ingest_err e e' by simp
    show ?thesis
      using alive_ingest(1) [OF laws al r(1,3) ingest_err(3) run] ingest_err(1,2) e e' by (simp add: sys_inv_def crash_def)
  next
    case (commit_log r e')
    obtain st' w' where e': "e' = (st', w')" by (cases e')
    show ?thesis using alive_sync [OF al, of r st' w'] commit_log e e' by (simp add: sys_inv_def)
  next
    case (take i' tk inn')
    show ?thesis using alive_take [of A h mh st w "sy_jobs s" tk inn'] al take e
      by (simp add: sys_inv_def set_phase_def upd_inner_def)
  next
    case (write_ok i' tk out e')
    obtain st' w' where e': "e' = (st', w')" by (cases e')
    show ?thesis using alive_write(2) [OF laws _ r(2), of h mh w "sy_jobs s" tk "Inr out" st' w' out] al write_ok e e'
      by (simp add: sys_inv_def set_phase_def)
  next
    case (write_err i' tk err e')
    obtain st' w' where e': "e' = (st', w')" by (cases e')
    show ?thesis using alive_write(1) [OF laws _ r(2), of h mh w "sy_jobs s" tk "Inl err" st' w' err] al write_err e e'
      by (simp add: sys_inv_def set_phase_def)
  next
    case (restore i' tk)
    show ?thesis using alive_restore [of A h mh st w "sy_jobs s" tk] al restore e
      by (simp add: sys_inv_def set_phase_def upd_inner_def)
  next
    case (register_ok i' tk out e')
    obtain st' w' where e': "e' = (st', w')" by (cases e')
    have run: "seal_commit mh tk out (st, w) = (Inr (), st', w')" using register_ok e e' by simp
    have al': "alive A h mh st w (sy_jobs s) (Written tk out)" using al register_ok by simp
    have rp: "representable s'" "sy_engine s' = (st', w')" using rep(2) register_ok e' by (simp_all add: set_phase_def)
    show ?thesis
      using alive_register(2) [OF al' r(4) register_room [OF al' run rp r(1)] run refl] register_ok e'
      by (simp add: sys_inv_def set_phase_def)
  next
    case (register_err i' tk out err e')
    obtain st' w' where e': "e' = (st', w')" by (cases e')
    have run: "seal_commit mh tk out (st, w) = (Inl err, st', w')" using register_err e e' by simp
    have al': "alive A h mh st w (sy_jobs s) (Written tk out)" using al register_err by simp
    have rp: "representable s'" "sy_engine s' = (st', w')" using rep(2) register_err e' by (simp_all add: crash_def)
    show ?thesis
      using alive_register(1) [OF al' r(4) register_room [OF al' run rp r(1)] run] register_err e'
      by (simp add: sys_inv_def crash_def)
  next
    case (reclaim_ok i' tk e')
    obtain st' w' where e': "e' = (st', w')" by (cases e')
    show ?thesis using alive_reclaim(2) [of A h mh st w "sy_jobs s" tk "Inr ()" st' w'] al r(3) reclaim_ok e e'
      by (simp add: sys_inv_def set_phase_def)
  next
    case (reclaim_err i' tk err e')
    obtain st' w' where e': "e' = (st', w')" by (cases e')
    show ?thesis using alive_reclaim(1) [of A h mh st w "sy_jobs s" tk "Inl err" st' w'] al r(3) reclaim_err e e'
      by (simp add: sys_inv_def crash_def)
  qed
qed

subsection \<open>A new directory\<close>

definition open_names :: "string set" where
  "open_names = {LOCK_FILE, INFO_FILE, INFO_FILE @ ''.tmp''}"

lemma write_db_info_touches: "touches open_names w (write_db_info m w)"
proof -
  have n: "INFO_FILE @ ''.tmp'' \<in> open_names" "INFO_FILE \<in> open_names" by (simp_all add: open_names_def)
  have "touches open_names w (snd (write_db_info_at m ks r w))" for ks r
    unfolding write_db_info_at_def fs_write_def Let_def
    using n fs_create_touches [of "INFO_FILE @ ''.tmp''" open_names w] fs_write_all_touches [OF n(1)]
      fs_rename_touches [OF n] fs_remove_touches [OF n(1)] touches_trans
    by (auto split: prod.splits if_splits bool.splits) (metis snd_conv touches_trans)+
  then show ?thesis by (simp add: write_db_info_def)
qed

lemma removes_touches: "set ps \<subseteq> S \<Longrightarrow> touches S w (fold remove_quietly ps w)"
proof (induction ps arbitrary: w)
  case (Cons p ps)
  then have "touches S w (remove_quietly p w)" by (simp add: remove_quietly_def fs_remove_touches)
  with Cons show ?case by (auto intro: touches_trans)
qed simp

lemma not_open_names: "segment_name q \<notin> open_names" "CURRENT_FILE \<notin> open_names" "LEGACY_FILE \<notin> open_names"
  by (auto simp: open_names_def segment_name_def CURRENT_FILE_def LEGACY_FILE_def LOCK_FILE_def INFO_FILE_def)

lemma open_names_no_segment: "p \<in> open_names \<Longrightarrow> parse_segment_seq p = None"
  by (auto simp: open_names_def parse_segment_seq_def strip_prefix_def prefix_def LOCK_FILE_def INFO_FILE_def)

lemma read_none: "fs_read w p = Inl NotFound \<longleftrightarrow> p \<notin> set (fs_names w)"
  using fs_exists_read [of w p] fs_exists_names [of w p] by blast

lemma open_names_only: "dir_ok w \<Longrightarrow> distinct (fs_names w) \<Longrightarrow> set (fs_names w) \<subseteq> open_names \<Longrightarrow> only_segments w {}"
  using open_names_no_segment by (auto simp: only_segments_def)

lemma read_all_nothing: "only_segments w {} \<Longrightarrow> read_all_frames h w = Inr []"
  using list_segments_sorted [of w "[]"] by (simp add: read_all_frames_def)

lemma wal_open_touches:
  assumes "only_segments w {}"
  shows "touches wal_names w (snd (wal_open h w))"
proof -
  have one: "segment_name 1 \<in> wal_names" by (rule segment_name_wal) (simp add: u64_max_def)
  let ?wa = "snd (fs_create_dir_all w)"
  have "only_segments ?wa {}" using assms by (simp add: only_segments_def fs_create_dir_all_def fs_names_def)
  from list_segments_sorted [of ?wa "[]"] this have ls: "list_segments ?wa = Inr []" by simp
  have "touches wal_names ?wa (snd (and_then id (open_append_file (segment_name 1) ?wa) (\<lambda>_ w.
           and_then id (fsync_dir w) (\<lambda>_ w. (Inr \<lparr>seq = 1, wfile = segment_name 1, current_bytes = 0, current_max_lsn = 0,
                   rotate_bytes = ROTATE_BYTES, closed = []\<rparr>, w)))))"
    using one by (intro touches_bind)
      (simp_all add: open_append_file_def fsync_dir_def fs_open_append_touches fs_sync_dir_touches)
  from touches_trans [OF fs_create_dir_touches this] show ?thesis
    by (simp add: wal_open_def open_with_rotate_def io_try_def ls fs_create_dir_touches)
qed

lemma opened_state:
  assumes new: "files w = []" "dir_ok w"
    and run: "storage_open A h mh lk now cmp mode ret budget w = (Inr st, w')"
  shows "alive A h mh st w' [] Idle \<and> (\<forall>t. segs_of (st_inner st) t = [])"
proof -
  define wa where "wa = snd (fs_create_dir_all w)"
  obtain rb wb where lock: "acquire_writer_lock lk wa = (rb, wb)" by (cases "acquire_writer_lock lk wa")
  define wc where "wc = write_db_info mode wb"
  have ta: "touches open_names w wa" by (simp add: wa_def fs_create_dir_touches)
  have lk: "LOCK_FILE \<in> open_names" by (simp add: open_names_def)
  have "touches open_names wa wb"
    using lock fs_open_append_touches [OF lk, of wa]
    by (cases "fst (fs_open_append LOCK_FILE wa)")
       (auto simp: acquire_writer_lock_def and_then_def io_try_def split: prod.splits sum.splits)
  then have tc: "touches open_names w wc"
    unfolding wc_def by (blast intro: touches_trans ta write_db_info_touches)
  have names: "set (fs_names wc) \<subseteq> open_names"
  proof
    fix p assume p: "p \<in> set (fs_names wc)"
    show "p \<in> open_names"
    proof (rule ccontr)
      assume "p \<notin> open_names"
      with touches_read [OF tc this] new have "fs_read wc p = Inl NotFound" by (simp add: read_none fs_names_def)
      then show False using p by (simp add: read_none)
    qed
  qed
  have wf: "dir_ok wc" "distinct (fs_names wc)" using tc new by (simp_all add: touches_def fs_names_def)
  have nf: "fs_read wc CURRENT_FILE = Inl NotFound" "fs_read wc LEGACY_FILE = Inl NotFound"
    using names not_open_names by (auto simp: read_none)
  have mo: "manifest_open mh wc = (Inr (manifest_default, fresh_writer), wc)"
    using nf by (simp add: manifest_open_def read_current_def fs_read_to_string_def fs_exists_read)
  define wd where "wd = cleanup_orphans mh manifest_default (active_num fresh_writer) wc"
  have td: "touches open_names wc wd"
    unfolding wd_def cleanup_orphans_def Let_def by (rule removes_touches) (use names in auto)
  have names': "set (fs_names wd) \<subseteq> open_names"
  proof
    fix p assume p: "p \<in> set (fs_names wd)"
    show "p \<in> open_names"
    proof (rule ccontr)
      assume n: "p \<notin> open_names"
      with names have "fs_read wc p = Inl NotFound" by (auto simp: read_none)
      then show False using touches_read [OF td n] p by (metis read_none)
    qed
  qed
  have wf': "dir_ok wd" "distinct (fs_names wd)" using td wf by (simp_all add: touches_def)
  have only: "only_segments wd {}" by (rule open_names_only [OF wf' names'])
  obtain r l we where wo: "wal_open h wd = (r, we)" by (cases "wal_open h wd")
  have wm: "m_watermark manifest_default = 0" by (simp add: manifest_default_def)
  obtain l where r: "r = Inr l" and fin: "w' = we" and
    st: "st_wal st = Some l" "st_manifest st = Some fresh_writer" "st_dir st" "\<not> read_only st"
      "st_inner st = inner_default\<lparr>segments := m_logs manifest_default, spans_segments := m_spans manifest_default,
         metric_segments := m_metrics manifest_default, watermark := 0, buffer_max_lsn := 0,
         next_lsn := max 0 (max_lsn []) + 1, pending_replay := []\<rparr>"
  proof -
    have ok: "rb = Inr ()" "fst (fs_create_dir_all w)"
      using run lock by (auto simp: storage_open_def and_then_def io_try_def wa_def split: if_splits sum.splits prod.splits)
    have sp: "io_try (storage_io None io_str) (fs_create_dir_all w) = (Inr (), wa)" using ok by (simp add: io_try_def wa_def)
    have e: "storage_open A h mh lk now cmp mode ret budget w =
        and_then id (r, we) (\<lambda>l w.
              (Inr \<lparr>st_dir = True, st_compression = cmp, st_wal_mode = mode, st_retention = ret,
                    promote = [], seal_threshold_bytes = seal_threshold budget, opened_at = now,
                    st_seq = 0, durable_lsn = 0, st_wal = Some l, st_manifest = Some fresh_writer,
                    read_only = False,
                    st_inner = inner_default\<lparr>segments := m_logs manifest_default, spans_segments := m_spans manifest_default,
                      metric_segments := m_metrics manifest_default, watermark := 0, buffer_max_lsn := 0,
                      next_lsn := max 0 (max_lsn []) + 1, pending_replay := []\<rparr>\<rparr>, w))"
      unfolding storage_open_def sp
      by (simp add: lock ok mo wc_def [symmetric] wd_def [symmetric] wm read_all_nothing [OF only] wo Let_def)
    show thesis
    proof (cases r)
      case (Inl err)
      with run e show thesis by simp
    next
      case (Inr l)
      with run e show thesis by (intro that [of l]) auto
    qed
  qed
  have hold: "wal_holds h 0 (l, we) []"
    using open_empty_holds [OF only, of h ROTATE_BYTES l we] wo r unfolding wal_open_def
    by (auto simp: wal_store_holds_def wal_holds_def)
  have max0: "max_lsn [] = 0" by (simp add: max_lsn_def)
  have inn: "watermark (st_inner st) = 0" "buffer_max_lsn (st_inner st) = 0" "next_lsn (st_inner st) = 1"
    "sealing (st_inner st) = []" "manifest_view (st_inner st) = manifest_default" "metric_buffers (st_inner st) = Map.empty"
    "buffer_of (st_inner st) t = []" for t
    by (simp_all add: st(5) inner_default_def manifest_view_def manifest_default_def max0)
       (cases t; simp add: or_default_def)
  have lo: "list_of manifest_default t = []" for t
    by (simp add: list_of_def manifest_default_def split: table.splits)
  have "lsn_part st []" using st by (simp add: lsn_part_def inn)
  moreover have "wal_part h st we []" using hold st(1) by (auto simp: wal_part_def inn)
  moreover have "man_part mh st we"
  proof -
    have t: "touches wal_names wd we" using wal_open_touches [OF only] wo by (metis snd_conv)
    have "fs_read we CURRENT_FILE = Inl NotFound" "fs_read we LEGACY_FILE = Inl NotFound"
      using touches_read [OF t] touches_read [OF td] nf not_open_names manifest_names_in wal_manifest_disjoint
      by (metis disjoint_iff)+
    moreover have "state_ok manifest_default" by (simp add: state_ok_def metrics_ok_def lo) (simp add: manifest_default_def)
    ultimately show ?thesis
      using st(2) by (simp add: man_part_def mw_inv_def fresh_writer_def inn metrics_ok_def) (simp add: manifest_default_def)
  qed
  moreover have "seg_part A st we []" by (simp add: seg_part_def inn lo)
  moreover have "phase_part A st we [] Idle"
    by (simp add: phase_part_def buf_part_def inn scalar_only_def batches_ok_def brows_def)
  ultimately show ?thesis unfolding alive_def fin by (simp add: inn lo)
qed

lemma opened_new:
  assumes "files w = []" "dir_ok w" "storage_open A h mh lk now cmp mode ret budget w = (Inr st, w')"
  shows "alive A h mh st w' [] Idle"
  using opened_state [OF assms] by blast

subsection \<open>What readers see\<close>

definition ds_segs :: "disk_snapshot \<Rightarrow> table \<Rightarrow> segment_ref list" where
  "ds_segs ds = list_of \<lparr>m_logs = ds_logs_segments ds, m_spans = ds_spans_segments ds,
     m_metrics = ds_metric_segments ds, m_watermark = ds_watermark ds\<rparr>"

text \<open>The rows of a table that the accepted jobs brought.\<close>

definition accepted_rows :: "(nat \<times> ingest_job) list \<Rightarrow> table \<Rightarrow> row multiset" where
  "accepted_rows H t = (\<Sum>x \<leftarrow> H. mset (job_rows (snd x) t))"

lemma hist_rows_accepted: "mset (hist_rows H t P) = accepted_rows (filter (\<lambda>x. P (fst x)) H) t"
  by (induction H) (simp_all add: accepted_rows_def)

lemma disk_reads:
  assumes "disk_ok A h mh w H"
  shows "\<exists>ds. read_disk_snapshot h mh (\<lambda>_. w) = Inr ds \<and>
     ds_pending ds = map rec_of (filter (\<lambda>x. ds_watermark ds < fst x) H) \<and>
     (\<forall>t. (\<forall>x \<in> set (ds_segs ds t). seg_readable A w x) \<and>
        seg_data A w (ds_segs ds t) = accepted_rows (filter (\<lambda>x. fst x \<le> ds_watermark ds) H) t)"
proof -
  obtain m recs where m: "manifest_read mh w = Inr m" and d: "disk_holds h w recs"
    and lv: "live (m_watermark m) recs = live (m_watermark m) (map rec_of H)"
    and sg: "\<forall>t. (\<forall>x \<in> set (list_of m t). seg_readable A w x) \<and>
      seg_data A w (list_of m t) = mset (hist_rows H t (\<lambda>l. l \<le> m_watermark m))"
    using assms unfolding disk_ok_def by blast
  obtain cl sq rs t where "wal_log h w cl sq rs t" "recs = log_recs cl @ rs" using d by (auto simp: disk_holds_def)
  then obtain c where c: "cursor_advance h w fresh_cursor = (Inr (), c)" "cur_frames c = recs"
    using cursor_first by metis
  let ?wm = "m_watermark m"
  let ?ds = "\<lparr>ds_watermark = ?wm, ds_logs_segments = m_logs m, ds_spans_segments = m_spans m,
    ds_metric_segments = m_metrics m, ds_pending = live ?wm recs\<rparr>"
  have "read_disk_snapshot h mh (\<lambda>_. w) = Inr ?ds"
    using m c by (simp add: read_disk_snapshot_def read_disk_snapshot_incremental_def SNAPSHOT_RECHECK_TRIES_def
        numeral_eq_Suc prune_sealed_def Let_def)
  moreover have "ds_pending ?ds = map rec_of (filter (\<lambda>x. ds_watermark ?ds < fst x) H)"
    using lv by (simp add: filter_map comp_def)
  moreover have "list_of \<lparr>m_logs = m_logs m, m_spans = m_spans m, m_metrics = m_metrics m, m_watermark = ?wm\<rparr> t = list_of m t" for t
    by (simp add: list_of_def split: table.splits)
  then have "ds_segs ?ds t = list_of m t" for t by (simp add: ds_segs_def)
  ultimately show ?thesis using sg hist_rows_accepted by (intro exI [of _ ?ds]) simp
qed

definition new_sys :: "engine \<Rightarrow> sys" where
  "new_sys e = \<lparr>sy_engine = e, sy_sealer = (\<lambda>_. Idle), sy_jobs = [], sy_doubt = None, sy_dead = False\<rparr>"

lemma run_representable: "engine_run A h mh I s s' \<Longrightarrow> representable s'"
  by (induction rule: engine_run.induct) auto

lemma sys_inv_run:
  assumes laws: "arrow_laws A" and run: "engine_run A h mh {i} s s'" and inv: "sys_inv A h mh i s"
  shows "sys_inv A h mh i s'"
  using run
proof induction
  case run_refl
  show ?case by (rule inv)
next
  case (run_step s' s'')
  then show ?case using sys_inv_step [OF laws _ run_representable] by blast
qed

lemma new_sys_inv: "alive A h mh st w [] Idle \<Longrightarrow> sys_inv A h mh i (new_sys (st, w))"
  by (simp add: sys_inv_def new_sys_def)

lemma accepted_split:
  "accepted_rows H t = mset (hist_rows H t (\<lambda>l. l \<le> a)) + mset (hist_rows H t (\<lambda>l. a < l))"
  by (induction H) (auto simp: accepted_rows_def)

lemma alive_rows:
  assumes al: "alive A h mh st w H ph"
  shows "mset (brows (buffer_of (st_inner st) t @ concat (map (\<lambda>(g, sb). staged_of sb t) (sealing (st_inner st))))) +
    seg_data A w (segs_of (st_inner st) t) = accepted_rows H t"
proof -
  let ?wm = "watermark (st_inner st)"
  have lsn: "lsn_part st H" and seg: "seg_part A st w H" and ph: "phase_part A st w H ph"
    using al unfolding alive_def by simp_all
  have s: "seg_data A w (segs_of (st_inner st) t) = mset (hist_rows H t (\<lambda>l. l \<le> ?wm))"
    using seg unfolding seg_part_def by blast
  have b: "mset (brows (buffer_of (st_inner st) t @ concat (map (\<lambda>(g, sb). staged_of sb t) (sealing (st_inner st))))) =
      mset (hist_rows H t (\<lambda>l. ?wm < l))"
  proof -
    have plain: ?thesis if "sealing (st_inner st) = []" "buf_part st H ?wm"
      using that by (simp add: buf_part_def)
    have staged: ?thesis if tk: "tk_part st H tk" and buf: "buf_part st H (tk_watermark tk)" for tk
    proof -
      have "hist_rows H t (\<lambda>l. ?wm < l \<and> l \<le> tk_watermark tk) @ hist_rows H t (\<lambda>l. tk_watermark tk < l) =
          hist_rows H t (\<lambda>l. ?wm < l)"
        by (rule hist_rows_join) (use lsn tk in \<open>simp_all add: lsn_part_def tk_part_def Let_def\<close>)
      then have "mset (hist_rows H t (\<lambda>l. ?wm < l)) = mset (hist_rows H t (\<lambda>l. ?wm < l \<and> l \<le> tk_watermark tk)) +
          mset (hist_rows H t (\<lambda>l. tk_watermark tk < l))" by (metis mset_append)
      then show ?thesis using tk buf by (simp add: tk_part_def buf_part_def Let_def)
    qed
    show ?thesis using ph plain staged unfolding phase_part_def by (cases ph) auto
  qed
  show ?thesis unfolding s b accepted_split [of H t ?wm] by (rule add.commute)
qed

end
