(* ===== verification/Storage_Example.thy ===== *)
theory Storage_Example
  imports Storage_Runs Manifest_Properties "HOL-Library.Countable"
begin

text \<open>
  An instance of what the engine calls of Arrow and Parquet, so that the properties of the engine
  can be applied: rows are countable, and a file is the code of its rows.
\<close>

subsection \<open>Rows are countable\<close>

instance table :: countable by countable_datatype

instance log_row_ext :: (countable) countable
proof (rule countable_classI [of "\<lambda>r. to_nat (lr_time_unix_nano r, lr_observed_time_unix_nano r, lr_service r, lr_severity_number r,
    lr_severity_text r, lr_body r, lr_attributes r, lr_resource r, lr_scope r, lr_trace_id r,
    lr_span_id r, lr_flags r, log_row.more r)"])
qed (simp add: log_row.equality)

instance span_row_ext :: (countable) countable
proof (rule countable_classI [of "\<lambda>r. to_nat (sr_trace_id r, sr_span_id r, sr_parent_span_id r, sr_name r, sr_kind r,
    sr_start_time_unix_nano r, sr_duration_ns r, sr_status_code r, sr_status_message r,
    sr_service r, sr_attributes r, sr_resource r, sr_scope r, sr_events r, sr_links r,
    sr_trace_state r, sr_flags r, span_row.more r)"])
qed (simp add: span_row.equality)

instance scalar_metric_row_ext :: (countable) countable
proof (rule countable_classI [of "\<lambda>r. to_nat (sm_table r, sm_time_unix_nano r, sm_start_time_unix_nano r, sm_metric r, sm_unit r,
    sm_service r, sm_attributes r, sm_resource r, sm_scope r, sm_flags r, sm_value r,
    sm_temporality r, sm_is_monotonic r, sm_exemplars r, scalar_metric_row.more r)"])
qed (simp add: scalar_metric_row.equality)

instance histogram_row_ext :: (countable) countable
proof (rule countable_classI [of "\<lambda>r. to_nat (hr_time_unix_nano r, hr_start_time_unix_nano r, hr_metric r, hr_unit r, hr_service r,
    hr_attributes r, hr_resource r, hr_scope r, hr_flags r, hr_count r, hr_sum r, hr_min r,
    hr_max r, hr_explicit_bounds r, hr_bucket_counts r, hr_temporality r, hr_exemplars r,
    histogram_row.more r)"])
qed (simp add: histogram_row.equality)

instance exp_histogram_row_ext :: (countable) countable
proof (rule countable_classI [of "\<lambda>r. to_nat (er_time_unix_nano r, er_start_time_unix_nano r, er_metric r, er_unit r, er_service r,
    er_attributes r, er_resource r, er_scope r, er_flags r, er_count r, er_sum r, er_min r,
    er_max r, er_scale r, er_zero_count r, er_zero_threshold r, er_positive_offset r,
    er_positive_counts r, er_negative_offset r, er_negative_counts r, er_temporality r,
    er_exemplars r, exp_histogram_row.more r)"])
qed (simp add: exp_histogram_row.equality)

instance summary_row_ext :: (countable) countable
proof (rule countable_classI [of "\<lambda>r. to_nat (su_time_unix_nano r, su_start_time_unix_nano r, su_metric r, su_unit r, su_service r,
    su_attributes r, su_resource r, su_scope r, su_flags r, su_count r, su_sum r, su_quantiles
    r, su_values r, summary_row.more r)"])
qed (simp add: summary_row.equality)

instance row :: countable by countable_datatype

subsection \<open>An instance of the environment\<close>

text \<open>The Parquet part is a parameter: two runs below do not depend on it.\<close>

definition example_env ::
  "(record_batch \<Rightarrow> bytes) \<Rightarrow> (bytes \<Rightarrow> record_batch list option) \<Rightarrow> arrow_env" where
  "example_env wr rd =
     \<lparr>accepts = (\<lambda>_ _. True),
      merge = (\<lambda>bs. case bs of [] \<Rightarrow> None
        | b # _ \<Rightarrow> Some \<lparr>rb_keys = rb_keys b, rb_rows = sort_key row_time (brows bs)\<rparr>),
      zstd_ok = (\<lambda>_. True), pq_chunks = (\<lambda>_ _ b. ([], wr b, [])), pq_read = rd,
      sidecar = (\<lambda>_ _ w. (Inr (), w)), clk = (\<lambda>_. 0)\<rparr>"

definition coded_env :: arrow_env where
  "coded_env = example_env (\<lambda>b. replicate (to_nat (rb_rows b)) 0)
     (\<lambda>bs. Some [\<lparr>rb_keys = [], rb_rows = from_nat (length bs)\<rparr>])"

lemma coded_laws: "arrow_laws coded_env"
proof -
  have m: "rb_keys b = k \<and> mset (rb_rows b) = mset (brows bs) \<and> sorted (map row_time (rb_rows b))"
    if "bs \<noteq> []" "\<forall>x \<in> set bs. rb_keys x = k" "merge coded_env bs = Some b" for bs k b
    using that by (cases bs) (auto simp: coded_env_def example_env_def)
  have p: "\<exists>bs. pq_read coded_env (case pq_chunks coded_env c bl b of (x, y, z) \<Rightarrow> x @ y @ z) = Some bs \<and>
      brows bs = rb_rows b" for c bl b
    by (simp add: coded_env_def example_env_def brows_def)
  show ?thesis
    unfolding arrow_laws_def
  proof (intro conjI allI impI p)
    show "accepts coded_env k rs" for k rs by (simp add: coded_env_def example_env_def)
    show "touches {q. prefix (q' @ ''/'') q} w (snd (sidecar coded_env q' rows w))" for q' rows w
      by (simp add: coded_env_def example_env_def)
  qed (use m in blast)+
qed

definition example_row :: "int \<Rightarrow> log_row" where
  "example_row t =
     \<lparr>lr_time_unix_nano = t, lr_observed_time_unix_nano = None, lr_service = None, lr_severity_number = 9,
      lr_severity_text = None, lr_body = ''m'', lr_attributes = [], lr_resource = [], lr_scope = [],
      lr_trace_id = None, lr_span_id = None, lr_flags = 0\<rparr>"

definition example_job :: "int \<Rightarrow> ingest_job" where
  "example_job t = JLogs [1] [example_row t]"

definition example_open :: "arrow_env \<Rightarrow> (world, storage) outcome" where
  "example_open A = storage_open A demo_hash m_hash LockTaken 0 CompressionNone WalAlways retention_none 0 demo_world"

definition example_start :: "arrow_env \<Rightarrow> engine" where
  "example_start A = (projr (fst (example_open A)), snd (example_open A))"

lemma example_opens: "example_open (example_env wr rd) = (Inr (fst (example_start (example_env wr rd))), snd (example_start (example_env wr rd)))"
proof -
  have "isl (fst (example_open (example_env wr rd))) = False" by code_simp
  then show ?thesis unfolding example_start_def by (metis fst_conv isl_def sum.collapse(2) prod.collapse snd_conv)
qed

subsection \<open>Two sealers\<close>

text \<open>Two callers seal at once: the second takes its batches, writes, registers and reclaims while the
  first is still writing.\<close>

definition tw_ingest :: "arrow_env \<Rightarrow> int \<Rightarrow> engine \<Rightarrow> (engine, nat \<times> bool) outcome" where
  "tw_ingest A t e = process_ingest_job A demo_hash 0 True (example_job t) e"

definition tw_take :: "engine \<Rightarrow> taken \<times> engine" where
  "tw_take e = (case seal_take (st_inner (fst e)) of (tk, inn) \<Rightarrow> (the tk, upd_inner (\<lambda>_. inn) e))"

definition tw_first :: "arrow_env \<Rightarrow> taken \<times> engine" where
  "tw_first A = tw_take (snd (tw_ingest A 5 (example_start A)))"

definition tw_second :: "arrow_env \<Rightarrow> taken \<times> engine" where
  "tw_second A = tw_take (snd (tw_ingest A 6 (snd (tw_first A))))"

definition tw_write :: "arrow_env \<Rightarrow> (engine, written) outcome" where
  "tw_write A = seal_write A (fst (tw_second A)) (snd (tw_second A))"

definition tw_register :: "arrow_env \<Rightarrow> (engine, unit) outcome" where
  "tw_register A = and_then id (tw_write A) (\<lambda>out e. seal_commit m_hash (fst (tw_second A)) out e)"

definition tw_reclaim :: "arrow_env \<Rightarrow> (engine, unit) outcome" where
  "tw_reclaim A = and_then id (tw_register A) (\<lambda>_ e. seal_reclaim (fst (tw_second A)) e)"

text \<open>What a reader finds after it: the sequence numbers of the pending frames and the numbers of rows
  of the log segments.\<close>

definition tw_seen :: "(engine, unit) outcome \<Rightarrow> (nat list \<times> nat list) option" where
  "tw_seen r =
     (case r of
        (Inl err, e) \<Rightarrow> None
      | (Inr u, e) \<Rightarrow>
          (case read_disk_snapshot demo_hash m_hash (\<lambda>_. snd e) of
             Inl err \<Rightarrow> None
           | Inr ds \<Rightarrow> Some (map lsn (ds_pending ds), map seg_rows (ds_logs_segments ds))))"

lemma tw_ingest_value:
  "fst (tw_ingest (example_env wr rd) 5 (example_start (example_env wr rd))) = Inr (1, True)"
  "fst (tw_ingest (example_env wr rd) 6 (snd (tw_first (example_env wr rd)))) = Inr (2, True)"
  by code_simp+

lemma tw_take_value:
  "fst (seal_take (st_inner (fst (snd (tw_ingest (example_env wr rd) 5 (example_start (example_env wr rd))))))) \<noteq> None"
  "fst (seal_take (st_inner (fst (snd (tw_ingest (example_env wr rd) 6 (snd (tw_first (example_env wr rd)))))))) \<noteq> None"
  "st_dir (fst (snd (tw_ingest (example_env wr rd) 5 (example_start (example_env wr rd)))))"
  "st_dir (fst (snd (tw_ingest (example_env wr rd) 6 (snd (tw_first (example_env wr rd))))))"
  by code_simp+

lemma tw_seen_value: "tw_seen (tw_reclaim (example_env wr rd)) = Some ([], [1])"
  by code_simp

lemma tw_seenE:
  assumes "tw_seen (tw_reclaim A) = Some ([], [1])"
  obtains out e5 e6 e7 ds where "seal_write A (fst (tw_second A)) (snd (tw_second A)) = (Inr out, e5)"
    "seal_commit m_hash (fst (tw_second A)) out e5 = (Inr (), e6)" "seal_reclaim (fst (tw_second A)) e6 = (Inr (), e7)"
    "read_disk_snapshot demo_hash m_hash (\<lambda>_. snd e7) = Inr ds" "ds_pending ds = []"
    "map seg_rows (ds_logs_segments ds) = [1]"
proof -
  obtain r3 e5 where w: "tw_write A = (r3, e5)" by (cases "tw_write A") auto
  obtain r4 e6 where r: "tw_register A = (r4, e6)" by (cases "tw_register A") auto
  obtain r5 e7 where c: "tw_reclaim A = (r5, e7)" by (cases "tw_reclaim A") auto
  obtain ds where "r5 = Inr ()" and ds: "read_disk_snapshot demo_hash m_hash (\<lambda>_. snd e7) = Inr ds" "ds_pending ds = []"
    "map seg_rows (ds_logs_segments ds) = [1]"
    using assms unfolding c tw_seen_def by (auto split: sum.splits)
  with c r have "r4 = Inr ()" "seal_reclaim (fst (tw_second A)) e6 = (Inr (), e7)"
    by (cases r4; simp add: tw_reclaim_def)+
  moreover from this r w obtain out where "r3 = Inr out" "seal_commit m_hash (fst (tw_second A)) out e5 = (Inr (), e6)"
    by (cases r3) (simp_all add: tw_register_def)
  ultimately show thesis using that ds w by (auto simp: tw_write_def)
qed

lemma tw_takeE:
  assumes "fst (seal_take (st_inner (fst e))) \<noteq> None"
  obtains inn where "seal_take (st_inner (fst e)) = (Some (fst (tw_take e)), inn)" "snd (tw_take e) = upd_inner (\<lambda>_. inn) e"
  using assms by (cases "seal_take (st_inner (fst e))") (auto simp: tw_take_def)

lemma example_job_ok: "i64_ok t \<Longrightarrow> job_ok (example_job t)"
  by (auto simp: job_ok_def example_job_def example_row_def u32_max_def split: table.splits)

end
