(* ===== verification/Storage_Properties.thy ===== *)
theory Storage_Properties
  imports Storage_Example
begin

text \<open>
  The properties of the storage engine: what a directory holds at every point of a run, whatever
  fails, and what a query of the running process sees.
\<close>


text \<open>C2. In every reachable state of the running engine, at every point of a seal
  in flight, a query of a table sees each row of the accepted jobs exactly once: in the live buffer,
  in the batches of the seal under way, or in the file of a registered segment.\<close>

theorem engine_query_rows:
  assumes "arrow_laws A" "files w = []" "dir_ok w"
    and "storage_open A h mh lk now cmp mode ret budget w = (Inr st, w0)"
    and "engine_run A h mh {i} (new_sys (st, w0)) s" "\<not> sy_dead s" "sy_engine s = (st', w')"
  shows "mset (brows (snapshot_batches (query_snapshot (st_inner st')) t)) +
      seg_data A w' (snapshot_segments (query_snapshot (st_inner st')) t) = accepted_rows (sy_jobs s) t"
    (is "?q = _")
proof -
  have inv: "sys_inv A h mh i s"
    by (rule sys_inv_run [OF assms(1,5) new_sys_inv [OF opened_new [OF assms(2-4)]]])
  let ?H = "sy_jobs s" and ?inn = "st_inner st'"
  have al: "alive A h mh st' w' ?H (sy_sealer s i)" using inv assms(6,7) by (simp add: sys_inv_def)
  show ?thesis using alive_rows [OF al] by (simp add: snapshot_batches_eq snapshot_segments_eq)
qed

subsection \<open>Two sealers\<close>

text \<open>C38. With two callers sealing at once, an accepted and durable row is
  lost by a crash: the second seal takes the higher sequence numbers, registers its segment with its
  watermark and reclaims the log, while the first has not registered its own. A reader of the
  directory then finds one of the two rows.\<close>

theorem engine_two_sealers_lose:
  "\<exists>s ds. (engine_step (example_env wr rd) demo_hash m_hash {0, 1})\<^sup>*\<^sup>* (new_sys (example_start (example_env wr rd))) s \<and>
     map fst (sy_jobs s) = [1, 2] \<and> map (\<lambda>x. length (job_rows (snd x) TLogs)) (sy_jobs s) = [1, 1] \<and>
     read_disk_snapshot demo_hash m_hash (\<lambda>_. snd (sy_engine s)) = Inr ds \<and>
     ds_pending ds = [] \<and> map seg_rows (ds_logs_segments ds) = [1]"
proof -
  let ?A = "example_env wr rd"
  let ?step = "engine_step ?A demo_hash m_hash {0, 1}"
  let ?e0 = "example_start ?A" and ?e1 = "snd (tw_ingest ?A 5 (example_start ?A))" and ?tk0 = "fst (tw_first ?A)"
    and ?e2 = "snd (tw_first ?A)" and ?e3 = "snd (tw_ingest ?A 6 (snd (tw_first ?A)))"
    and ?tk1 = "fst (tw_second ?A)" and ?e4 = "snd (tw_second ?A)"
  obtain out e5 e6 e7 ds where w: "seal_write ?A ?tk1 ?e4 = (Inr out, e5)" "seal_commit m_hash ?tk1 out e5 = (Inr (), e6)"
      "seal_reclaim ?tk1 e6 = (Inr (), e7)" "read_disk_snapshot demo_hash m_hash (\<lambda>_. snd e7) = Inr ds"
      "ds_pending ds = []" "map seg_rows (ds_logs_segments ds) = [1]"
    using tw_seen_value [of wr rd] by (rule tw_seenE)
  let ?s0 = "new_sys ?e0"
  let ?s1 = "?s0\<lparr>sy_engine := ?e1, sy_jobs := [(1, example_job 5)]\<rparr>"
  let ?s2 = "set_phase 0 (Taken ?tk0) ?e2 ?s1"
  let ?s3 = "?s2\<lparr>sy_engine := ?e3, sy_jobs := [(1, example_job 5), (2, example_job 6)]\<rparr>"
  let ?s4 = "set_phase 1 (Taken ?tk1) ?e4 ?s3"
  let ?s5 = "set_phase 1 (Written ?tk1 out) e5 ?s4"
  let ?s6 = "set_phase 1 (Committed ?tk1) e6 ?s5"
  let ?s7 = "set_phase 1 Idle e7 ?s6"
  note dir = tw_take_value(3,4) [of wr rd]
  obtain i1 where t1: "seal_take (st_inner (fst ?e1)) = (Some ?tk0, i1)" "?e2 = upd_inner (\<lambda>_. i1) ?e1"
    using tw_takeE [OF tw_take_value(1)] unfolding tw_first_def by metis
  obtain i2 where t2: "seal_take (st_inner (fst ?e3)) = (Some ?tk1, i2)" "?e4 = upd_inner (\<lambda>_. i2) ?e3"
    using tw_takeE [OF tw_take_value(2)] unfolding tw_second_def by metis
  have ok: "job_ok (example_job 5)" "job_ok (example_job 6)" by (simp_all add: example_job_ok i64_ok_def i64_min_def i64_max_def)
  have "?step ?s0 ?s1"
    using engine_step.ingest_ok [of ?s0 "example_job 5" ?A demo_hash 0 True 1 True ?e1 m_hash "{0, 1}"] tw_ingest_value(1) ok(1)
    by (simp add: new_sys_def tw_ingest_def prod_eq_iff)
  moreover have "?step ?s1 ?s2"
    using engine_step.take [of ?s1 0 "{0, 1}" ?tk0 i1 ?A demo_hash m_hash] t1 dir by (simp add: new_sys_def)
  moreover have "?step ?s2 ?s3"
    using engine_step.ingest_ok [of ?s2 "example_job 6" ?A demo_hash 0 True 2 True ?e3 m_hash "{0, 1}"] tw_ingest_value(2) ok(2)
    by (simp add: new_sys_def set_phase_def tw_ingest_def prod_eq_iff)
  moreover have "?step ?s3 ?s4"
    using engine_step.take [of ?s3 1 "{0, 1}" ?tk1 i2 ?A demo_hash m_hash] t2 dir by (simp add: new_sys_def set_phase_def)
  moreover have "?step ?s4 ?s5"
    using engine_step.write_ok [of ?s4 1 "{0, 1}" ?tk1 ?A out e5 demo_hash m_hash] w(1) by (simp add: set_phase_def new_sys_def)
  moreover have "?step ?s5 ?s6"
    using engine_step.register_ok [of ?s5 1 "{0, 1}" ?tk1 out m_hash e6 ?A demo_hash] w(2) by (simp add: set_phase_def new_sys_def)
  moreover have "?step ?s6 ?s7"
    using engine_step.reclaim_ok [of ?s6 1 "{0, 1}" ?tk1 e7 ?A demo_hash m_hash] w(3) by (simp add: set_phase_def new_sys_def)
  ultimately have "?step\<^sup>*\<^sup>* ?s0 ?s7" by (meson rtranclp.rtrancl_into_rtrancl rtranclp.rtrancl_refl)
  then show ?thesis
    by (intro exI [of _ ?s7] exI [of _ ds]) (use w in \<open>simp add: set_phase_def new_sys_def example_job_def\<close>)
qed

subsection \<open>Instances\<close>

abbreviation one_in :: "arrow_env \<Rightarrow> engine" where
  "one_in A \<equiv> snd (tw_ingest A 5 (example_start A))"

definition no_overflow :: "engine \<Rightarrow> bool" where
  "no_overflow e \<longleftrightarrow> next_lsn (st_inner (fst e)) < u64_max \<and> st_seq (fst e) + 12 \<le> u64_max \<and>
     (case st_wal (fst e) of None \<Rightarrow> True | Some l \<Rightarrow> seq l < u64_max) \<and>
     (case st_manifest (fst e) of None \<Rightarrow> True | Some mw \<Rightarrow> current_num mw < u64_max) \<and>
     fits (manifest_view (st_inner (fst e))) \<and> list_all (\<lambda>t. length (segs_of (st_inner (fst e)) t) = 0) table_ALL"

lemma representable_check:
  assumes "no_overflow (sy_engine s)"
  shows "representable s"
proof -
  have "segs_of (st_inner (fst (sy_engine s))) t = []" for t
    using assms table_ALL_all by (auto simp: no_overflow_def list_all_iff)
  with assms show ?thesis by (auto simp: representable_def no_overflow_def split: prod.splits)
qed

lemma example_representable:
  "representable (new_sys (example_start (example_env wr rd)))"
  "representable ((new_sys (example_start (example_env wr rd)))\<lparr>sy_engine := one_in (example_env wr rd), sy_jobs := J\<rparr>)"
proof -
  have n: "no_overflow (example_start (example_env wr rd))" "no_overflow (one_in (example_env wr rd))"
    by code_simp+
  show "representable (new_sys (example_start (example_env wr rd)))"
    "representable ((new_sys (example_start (example_env wr rd)))\<lparr>sy_engine := one_in (example_env wr rd), sy_jobs := J\<rparr>)"
    using n by (auto intro!: representable_check simp: new_sys_def)
qed

lemma example_run:
  "engine_run coded_env demo_hash m_hash {0} (new_sys (example_start coded_env))
     ((new_sys (example_start coded_env))\<lparr>sy_engine := one_in coded_env, sy_jobs := [(1, example_job 5)]\<rparr>)"
  (is "engine_run _ _ _ _ ?s0 ?s1")
proof (rule run_step [OF run_refl])
  show "representable ?s0" "representable ?s1"
    unfolding coded_env_def by (rule example_representable)+
  have "job_ok (example_job 5)" by (simp add: example_job_ok i64_ok_def i64_min_def i64_max_def)
  moreover have "tw_ingest coded_env 5 (example_start coded_env) = (Inr (1, True), one_in coded_env)"
    unfolding coded_env_def by (rule prod_eqI) (simp_all add: tw_ingest_value(1))
  ultimately show "engine_step coded_env demo_hash m_hash {0} ?s0 ?s1"
    using engine_step.ingest_ok [of ?s0 "example_job 5" coded_env demo_hash 0 True 1 True "one_in coded_env" m_hash "{0}"]
    by (simp add: new_sys_def tw_ingest_def)
qed

lemma example_opened:
  "storage_open coded_env demo_hash m_hash LockTaken 0 CompressionNone WalAlways retention_none 0 demo_world =
     (Inr (fst (example_start coded_env)), snd (example_start coded_env))"
  using example_opens unfolding coded_env_def example_open_def .

lemma example_world: "files demo_world = []" "dir_ok demo_world"
  by (simp_all add: demo_world_def)


theorem engine_query_rows_witness:
  "mset (brows (snapshot_batches (query_snapshot (st_inner (fst (one_in coded_env)))) TLogs)) +
      seg_data coded_env (snd (one_in coded_env)) (snapshot_segments (query_snapshot (st_inner (fst (one_in coded_env)))) TLogs) =
    {#LogRow (example_row 5)#}"
proof -
  have run: "engine_run coded_env demo_hash m_hash {0} (new_sys (fst (example_start coded_env), snd (example_start coded_env)))
     ((new_sys (example_start coded_env))\<lparr>sy_engine := one_in coded_env, sy_jobs := [(1, example_job 5)]\<rparr>)"
    using example_run by simp
  show ?thesis
    using engine_query_rows [OF coded_laws example_world example_opened run, of "fst (one_in coded_env)" "snd (one_in coded_env)" TLogs]
    by (simp add: new_sys_def accepted_rows_def example_job_def)
qed

end
