(* ===== verification/Storage_Promote.thy ===== *)
theory Storage_Promote
  imports Storage_Properties
begin

text \<open>
  Changing the promoted keys of a running engine, and the time bounds of a spans segment.
\<close>

subsection \<open>A seal empties the buffers\<close>

abbreviation inner_of :: "('e + 'a) \<times> engine \<Rightarrow> inner" where
  "inner_of r \<equiv> st_inner (fst (snd r))"

lemma inner_bind:
  "inner_of r = st_inner (fst e) \<Longrightarrow> (\<And>a s. inner_of (f a s) = st_inner (fst s)) \<Longrightarrow>
     inner_of (and_then id r f) = st_inner (fst e)"
  by (cases r, cases "fst r") auto

lemma inner_bind_pair:
  "(\<And>a w. inner_of (f a w) = st_inner s) \<Longrightarrow> inner_of (and_then (Pair s) r f) = st_inner s"
  by (cases r, cases "fst r") auto

lemma write_segment_inner: "inner_of (write_segment_parquet A t mt b e) = st_inner (fst e)"
proof -
  have bind: "inner_of (and_then (Pair s) r f) = st_inner (fst e)"
    if "\<And>a w. inner_of (f a w) = st_inner s" "st_inner s = st_inner (fst e)"
    for s and r :: "(world, unit) outcome" and f :: "unit \<Rightarrow> world \<Rightarrow> (engine, string) outcome"
    using inner_bind_pair [of f s r] that by simp
  then show ?thesis unfolding write_segment_parquet_def Let_def
    by (intro bind inner_bind_pair) simp_all
qed

lemma build_sidecar_inner: "inner_of (build_sidecar A p b e) = st_inner (fst e)"
  by (simp add: build_sidecar_def split: prod.splits)

lemma segment_writers_inner:
  "inner_of (write_metric_segment A t b e) = st_inner (fst e)"
  "inner_of (write_logs_segment A b e) = st_inner (fst e)"
  "inner_of (write_spans_segment A b e) = st_inner (fst e)"
  unfolding write_metric_segment_def write_logs_segment_def write_spans_segment_def Let_def
  by (intro inner_bind write_segment_inner build_sidecar_inner; simp)+

lemma write_table_inner:
  "(\<And>b e. inner_of (wr b e) = st_inner (fst e)) \<Longrightarrow> inner_of (write_table A wr bs e) = st_inner (fst e)"
  unfolding write_table_def by (cases "concat_and_sort A bs"; cases "bs = []") (simp_all add: inner_bind)

lemma metric_tables_inner: "inner_of (write_metric_tables A items e) = st_inner (fst e)"
proof (induction items arbitrary: e)
  case (Cons i items)
  obtain t bs where "i = (t, bs)" by (cases i)
  then show ?case
    by (simp, intro inner_bind write_table_inner segment_writers_inner) (auto simp: Cons.IH)
qed simp

lemma seal_write_inner: "inner_of (seal_write A tk e) = st_inner (fst e)"
  unfolding seal_write_def Let_def
  by (intro inner_bind write_table_inner segment_writers_inner metric_tables_inner) simp_all

lemma seal_reclaim_inner: "inner_of (seal_reclaim tk e) = st_inner (fst e)"
  by (simp add: seal_reclaim_def with_wal_def split: option.splits prod.splits)

lemma buffers_empty_register: "buffers_empty (seal_register tk out inn) = buffers_empty inn"
  by (simp add: buffers_empty_def seal_register_def split: prod.splits)

lemma buffers_empty_take: "seal_take inn = (Some tk, inn') \<Longrightarrow> buffers_empty inn'"
  by (auto simp: seal_take_def Let_def buffers_empty_def entries_def List.map_filter_def split: if_splits)

lemma seal_ok_empty:
  assumes dir: "st_dir (fst e)" and run: "seal A mh e = (Inr x, e')"
  shows "buffers_empty (st_inner (fst e'))"
proof -
  obtain s w where e: "e = (s, w)" by (cases e)
  obtain t inn where tk: "seal_take (st_inner s) = (t, inn)" by (cases "seal_take (st_inner s)")
  show ?thesis
  proof (cases t)
    case None
    then have "buffers_empty (st_inner s)" using tk by (auto simp: seal_take_def Let_def split: if_splits)
    then show ?thesis using run dir e tk None by (auto simp: seal_def)
  next
    case (Some tk')
    then have be: "buffers_empty inn" using buffers_empty_take tk by simp
    obtain r1 e1 where w: "seal_write A tk' (s\<lparr>st_inner := inn\<rparr>, w) = (r1, e1)" by (metis prod.exhaust)
    then have i1: "st_inner (fst e1) = inn" using seal_write_inner [of A tk' "(s\<lparr>st_inner := inn\<rparr>, w)"] by simp
    obtain out where r1: "r1 = Inr out" using run dir e tk Some w by (cases r1) (auto simp: seal_def)
    obtain r2 e2 where c: "seal_commit mh tk' out e1 = (r2, e2)" by (metis prod.exhaust)
    obtain r3 e3 where rc: "seal_reclaim tk' e2 = (r3, e3)" by (metis prod.exhaust)
    have "e' = e3" using run dir e tk Some w r1 c rc by (cases r2; cases r3) (auto simp: seal_def)
    moreover have "st_inner (fst e3) = st_inner (fst e2)" using seal_reclaim_inner [of tk' e2] rc by simp
    moreover have "st_inner (fst e2) = seal_register tk' out inn"
      using seal_commit_inner [of mh tk' out "fst e1" "snd e1" r2 "fst e2" "snd e2"] c i1 by simp
    ultimately show ?thesis using be by (simp add: buffers_empty_register)
  qed
qed

text \<open>C39. Changing the promoted keys while nothing else ingests: a reader handle is
  refused and an unchanged set costs nothing; with a directory one seal is enough, its error is
  passed on and otherwise the set is swapped and made durable, so the retries never run; without a
  directory the change succeeds exactly when nothing is buffered, and otherwise all attempts fail
  with the error about busy ingest, as a seal in memory is a no-op.\<close>

theorem set_promote_outcome:
  "set_promote A mh keys e =
     (if read_only (fst e) then (Inl read_only_err, e)
      else if promote (fst e) = keys then (Inr (), e)
      else if st_dir (fst e) then
        and_then id (seal A mh e) (\<lambda>_ e. persist_promote ((fst e)\<lparr>promote := keys\<rparr>, snd e))
      else if buffers_empty (st_inner (fst e)) then (Inr (), (fst e)\<lparr>promote := keys\<rparr>, snd e)
      else (Inl (storage_msg ''set_promote: the ingest buffer refilled on every attempt; retry when ingest is quieter''), e))"
proof -
  have mem: "promote_tries n A mh keys e = (if n > 0 \<and> buffers_empty (st_inner (fst e)) then (Inr (), (fst e)\<lparr>promote := keys\<rparr>, snd e)
      else (Inl (storage_msg ''set_promote: the ingest buffer refilled on every attempt; retry when ingest is quieter''), e))"
    if "\<not> st_dir (fst e)" for n
    using that by (induction n) (simp_all add: seal_def persist_promote_def)
  have dir: "promote_tries (Suc n) A mh keys e =
      and_then id (seal A mh e) (\<lambda>_ e. persist_promote ((fst e)\<lparr>promote := keys\<rparr>, snd e))"
    if "st_dir (fst e)" for n
  proof -
    obtain r e' where s: "seal A mh e = (r, e')" by (metis prod.exhaust)
    then show ?thesis using seal_ok_empty [OF that] by (cases r) simp_all
  qed
  show ?thesis
    using mem [of ATTEMPTS] dir [of 7] by (simp add: set_promote_def ATTEMPTS_def numeral_eq_Suc)
qed

subsection \<open>The bounds of a spans segment\<close>

text \<open>A duration of \<open>2\<^sup>63\<close> nanoseconds or more turns negative in the cast, so the segment's latest time
  is before its first.\<close>

definition long_span :: span_row where
  "long_span =
     \<lparr>sr_trace_id = [], sr_span_id = [], sr_parent_span_id = None, sr_name = [], sr_kind = [],
      sr_start_time_unix_nano = 10, sr_duration_ns = 2 ^ 64 - 5, sr_status_code = [],
      sr_status_message = None, sr_service = None, sr_attributes = [], sr_resource = [], sr_scope = [],
      sr_events = None, sr_links = None, sr_trace_state = None, sr_flags = 0\<rparr>"

lemma span_bounds_wrap: "spans_bounds \<lparr>rb_keys = [], rb_rows = [SpanRow long_span]\<rparr> = (10, 5)"
  by code_simp

end
