(* ===== verification/Lgtm_Common.thy ===== *)
theory Lgtm_Common
  imports Rows Core_Error "HOL-Library.List_Lexorder" "HOL-Library.Char_ord"
begin

text \<open>
  What the three query languages of \<open>crates/imbh-lgtm\<close> share (\<open>model/common.rs\<close>): errors,
  fetch bounds, evaluation instants, limits and label sets; and the comparison of IEEE doubles, which
  the evaluators use on attribute values.
\<close>

subsection \<open>Errors and limits\<close>

datatype semantic_error =
    InvalidRange
  | LimitExceeded string
  | Incompatible string
  | Malformed string
  | SourceError string
  | DuplicateTimestamp string

definition semantic_error_str :: "semantic_error \<Rightarrow> string" where
  "semantic_error_str e =
     (case e of
        InvalidRange \<Rightarrow> ''invalid evaluation range''
      | LimitExceeded what \<Rightarrow> what @ '' limit exceeded''
      | Incompatible what \<Rightarrow> ''incompatible semantics: '' @ what
      | Malformed what \<Rightarrow> ''malformed semantic input: '' @ what
      | SourceError what \<Rightarrow> ''semantic data source error: '' @ what
      | DuplicateTimestamp what \<Rightarrow> what)"

text \<open>The \<open>?\<close> operator on a result of the evaluators.\<close>

definition bind_sem :: "semantic_error + 'a \<Rightarrow> ('a \<Rightarrow> semantic_error + 'b) \<Rightarrow> semantic_error + 'b" where
  "bind_sem r f = (case r of Inl e \<Rightarrow> Inl e | Inr a \<Rightarrow> f a)"

lemma bind_sem_simps [simp]:
  "bind_sem (Inl e) f = Inl e"
  "bind_sem (Inr a) f = f a"
  by (simp_all add: bind_sem_def)

lemma bind_sem_Inr: "bind_sem r f = Inr b \<longleftrightarrow> (\<exists>a. r = Inr a \<and> f a = Inr b)"
  by (auto simp: bind_sem_def split: sum.splits)

record fetch_bounds =
  fb_start_ns :: int
  fb_end_ns :: int

definition fetch_bounds_new :: "int \<Rightarrow> int \<Rightarrow> semantic_error + fetch_bounds" where
  "fetch_bounds_new start_ns end_ns =
     (if end_ns < start_ns then Inl InvalidRange else Inr \<lparr>fb_start_ns = start_ns, fb_end_ns = end_ns\<rparr>)"

definition fb_contains :: "fetch_bounds \<Rightarrow> int \<Rightarrow> bool" where
  "fb_contains b t \<longleftrightarrow> t \<ge> fb_start_ns b \<and> t \<le> fb_end_ns b"

record eval_limits =
  max_evaluation_points :: nat
  max_series :: nat
  max_samples :: nat
  max_spans :: nat
  max_traces :: nat
  max_recursion :: nat

definition eval_limits_default :: eval_limits where
  "eval_limits_default =
     \<lparr>max_evaluation_points = 11000, max_series = 10000, max_samples = 1000000, max_spans = 100000,
      max_traces = 10000, max_recursion = 128\<rparr>"

record eval_range =
  er_start_ns :: int
  er_end_ns :: int
  er_step_ns :: nat
  er_lookback_ns :: nat

definition eval_range_instant :: "int \<Rightarrow> eval_range" where
  "eval_range_instant at =
     \<lparr>er_start_ns = at, er_end_ns = at, er_step_ns = 1, er_lookback_ns = 300000000000\<rparr>"

text \<open>The loop of \<open>EvalRange::instants\<close>: it stops at the end of the range, when the saturating step
  no longer moves, or with an error at the limit of points.\<close>

function instants_loop :: "eval_range \<Rightarrow> eval_limits \<Rightarrow> int \<Rightarrow> int list \<Rightarrow> semantic_error + int list" where
  "instants_loop r limits at out =
     (if length out \<ge> max_evaluation_points limits then Inl (LimitExceeded ''evaluation points'')
      else
        let out = out @ [at] in
        if at = er_end_ns r then Inr out
        else
          let nxt = sat_i64 (at + min (int (er_step_ns r)) i64_max)
          in if nxt \<le> at \<or> nxt > er_end_ns r then Inr out else instants_loop r limits nxt out)"
  by pat_completeness auto
termination
  by (relation "measure (\<lambda>(r, limits, at, out). max_evaluation_points limits - length out)") auto

declare instants_loop.simps [simp del]

definition instants :: "eval_range \<Rightarrow> eval_limits \<Rightarrow> semantic_error + int list" where
  "instants r limits =
     (if er_end_ns r < er_start_ns r \<or> er_step_ns r = 0 then Inl InvalidRange
      else instants_loop r limits (er_start_ns r) [])"

subsection \<open>Label sets\<close>

text \<open>A sorted list of unique names with their values; building one keeps the last value of a name.\<close>

type_synonym label_set = "(string \<times> string) list"

fun label_insert :: "string \<Rightarrow> string \<Rightarrow> label_set \<Rightarrow> label_set" where
  "label_insert k v [] = [(k, v)]"
| "label_insert k v ((k', v') # r) =
     (if k < k' then (k, v) # (k', v') # r
      else if k = k' then (k, v) # r
      else (k', v') # label_insert k v r)"

definition label_set_new :: "(string \<times> string) list \<Rightarrow> label_set" where
  "label_set_new xs = fold (\<lambda>(k, v). label_insert k v) xs []"

definition label_get :: "label_set \<Rightarrow> string \<Rightarrow> string option" where
  "label_get ls name = map_of ls name"

definition label_by :: "label_set \<Rightarrow> string list \<Rightarrow> label_set" where
  "label_by ls names = filter (\<lambda>(k, v). k \<noteq> ''__name__'' \<and> list_ex (\<lambda>n. n = k) names) ls"

definition label_without :: "label_set \<Rightarrow> string list \<Rightarrow> label_set" where
  "label_without ls names = filter (\<lambda>(k, v). k \<noteq> ''__name__'' \<and> \<not> list_ex (\<lambda>n. n = k) names) ls"

subsection \<open>Doubles\<close>

text \<open>The number a bit pattern stands for, a finite one as \<open>m * 2\<^sup>e\<close>; \<open>partial_cmp\<close>; and \<open>as f64\<close>
  of a 64-bit integer, rounded to nearest, ties to even.\<close>

datatype ordering = OLess | OEqual | OGreater

datatype fnum = NaN | Inf bool | Fin int int

definition f64_num :: "f64 \<Rightarrow> fnum" where
  "f64_num w =
     (let n = unat w; neg = (n div 2 ^ 63) mod 2 = 1; ex = (n div 2 ^ 52) mod 2 ^ 11; man = n mod 2 ^ 52;
          sgn = (if neg then -1 else 1 :: int)
      in if ex = 2047 then (if man = 0 then Inf neg else NaN)
         else if ex = 0 then Fin (sgn * int man) (- 1074)
         else Fin (sgn * int (2 ^ 52 + man)) (int ex - 1075))"

definition int_cmp :: "int \<Rightarrow> int \<Rightarrow> ordering" where
  "int_cmp a b = (if a < b then OLess else if a = b then OEqual else OGreater)"

fun fcmp :: "fnum \<Rightarrow> fnum \<Rightarrow> ordering option" where
  "fcmp NaN y = None"
| "fcmp x NaN = None"
| "fcmp (Inf s) (Inf t) = Some (int_cmp (if s then -1 else 1) (if t then -1 else 1))"
| "fcmp (Inf s) (Fin m e) = Some (if s then OLess else OGreater)"
| "fcmp (Fin m e) (Inf s) = Some (if s then OGreater else OLess)"
| "fcmp (Fin m e) (Fin n f) =
     (let k = min e f in Some (int_cmp (m * 2 ^ nat (e - k)) (n * 2 ^ nat (f - k))))"

fun excess :: "nat \<Rightarrow> nat" where
  "excess n = (if n < 2 ^ 53 then 0 else Suc (excess (n div 2)))"

declare excess.simps [simp del]

definition f64_of_i64 :: "int \<Rightarrow> fnum" where
  "f64_of_i64 i =
     (let a = nat \<bar>i\<bar>; k = excess a; q = a div 2 ^ k; r = a mod 2 ^ k;
          q = (if k > 0 \<and> (2 * r > 2 ^ k \<or> (2 * r = 2 ^ k \<and> odd q)) then q + 1 else q)
      in Fin (sgn i * int q) (int k))"

lemma f64_of_i64_exact: "\<bar>i\<bar> < 2 ^ 53 \<Longrightarrow> f64_of_i64 i = Fin i 0"
  by (simp add: f64_of_i64_def excess.simps [of "nat \<bar>i\<bar>"] Let_def nat_less_iff mult_sgn_abs)

lemma excess_bound: "2 ^ 53 \<le> n \<Longrightarrow> excess n > 0 \<and> 2 ^ 52 \<le> n div 2 ^ excess n"
proof (induction n rule: excess.induct)
  case (1 n)
  have e: "excess n = Suc (excess (n div 2))" using 1(2) by (simp add: excess.simps [of n])
  show ?case
  proof (cases "2 ^ 53 \<le> n div 2")
    case True
    then show ?thesis using 1 e by (simp add: div_mult2_eq [symmetric] mult.commute)
  next
    case False
    then have "excess (n div 2) = 0" by (simp add: excess.simps [of "n div 2"])
    then show ?thesis using e 1(2) by simp
  qed
qed

lemma f64_of_i64_big:
  assumes "2 ^ 53 \<le> \<bar>i\<bar>"
  obtains q k where "f64_of_i64 i = Fin (sgn i * int q) (int k)" "2 ^ 53 \<le> q * 2 ^ k"
proof -
  let ?a = "nat \<bar>i\<bar>"
  have b: "excess ?a > 0" "2 ^ 52 \<le> ?a div 2 ^ excess ?a" using excess_bound [of ?a] assms by (simp_all add: nat_le_iff le_nat_iff)
  have "\<exists>q. f64_of_i64 i = Fin (sgn i * int q) (int (excess ?a)) \<and> ?a div 2 ^ excess ?a \<le> q"
    unfolding f64_of_i64_def Let_def by (rule exI, rule conjI, rule refl) simp
  then obtain q where q: "f64_of_i64 i = Fin (sgn i * int q) (int (excess ?a))" "?a div 2 ^ excess ?a \<le> q" by blast
  have "(2 :: nat) ^ 53 \<le> 2 ^ 52 * 2 ^ excess ?a" using b(1) by (cases "excess ?a") simp_all
  also have "\<dots> \<le> q * 2 ^ excess ?a" using b(2) q(2) by simp
  finally show thesis using that q(1) by blast
qed

text \<open>A bound within the exact range is compared with a rounded integer as with the integer.\<close>

lemma fcmp_round:
  assumes v: "\<bar>v\<bar> < 2 ^ 53"
  shows "a = v \<Longrightarrow> fcmp (f64_of_i64 a) (Fin v 0) = Some OEqual"
    "v < a \<Longrightarrow> fcmp (f64_of_i64 a) (Fin v 0) = Some OGreater"
    "a < v \<Longrightarrow> fcmp (f64_of_i64 a) (Fin v 0) = Some OLess"
proof -
  show "a = v \<Longrightarrow> fcmp (f64_of_i64 a) (Fin v 0) = Some OEqual"
    using v by (simp add: f64_of_i64_exact int_cmp_def Let_def)
  have big: "fcmp (f64_of_i64 a) (Fin v 0) = Some (if a > 0 then OGreater else OLess)" if "2 ^ 53 \<le> \<bar>a\<bar>"
  proof -
    obtain q k where q: "f64_of_i64 a = Fin (sgn a * int q) (int k)" "2 ^ 53 \<le> q * 2 ^ k"
      using f64_of_i64_big \<open>2 ^ 53 \<le> \<bar>a\<bar>\<close> by blast
    have "(2 :: int) ^ 53 \<le> int (q * 2 ^ k)" using q(2) by (metis of_nat_le_iff of_nat_numeral of_nat_power)
    then have b: "(2 :: int) ^ 53 \<le> int q * 2 ^ k" by simp
    show ?thesis
    proof (cases "a > 0")
      case True
      then show ?thesis using q(1) b v by (simp add: int_cmp_def Let_def) linarith
    next
      case False
      then have "sgn a = -1" using that by (simp add: sgn_if)
      then show ?thesis using q(1) b v False by (simp add: int_cmp_def Let_def) linarith
    qed
  qed
  show "v < a \<Longrightarrow> fcmp (f64_of_i64 a) (Fin v 0) = Some OGreater"
    using big v by (cases "2 ^ 53 \<le> \<bar>a\<bar>") (auto simp: f64_of_i64_exact int_cmp_def Let_def)
  show "a < v \<Longrightarrow> fcmp (f64_of_i64 a) (Fin v 0) = Some OLess"
    using big v by (cases "2 ^ 53 \<le> \<bar>a\<bar>") (auto simp: f64_of_i64_exact int_cmp_def Let_def)
qed

end
