(* ===== verification/Traceql.thy ===== *)
theory Traceql
  imports Lgtm_Common
begin

text \<open>
  The TraceQL evaluator of \<open>crates/imbh-lgtm/src/model/traceql.rs\<close>: typed attribute values and
  their comparison, predicates on a span, spanset expressions with structural operators, and the
  filter lifted out of an expression to narrow the candidate traces. Matching a regular expression is
  the parameter \<open>re\<close>: \<open>None\<close> for a pattern that does not compile.
\<close>

subsection \<open>Values\<close>

datatype sem_value =
    SNil
  | SBoolean bool
  | SInteger int
  | SFloat f64
  | SString string
  | SDurationNs nat
  | SBytes bytes
  | SArray "sem_value list"

type_synonym typed_attributes = "string \<rightharpoonup> sem_value"

datatype attribute_scope = ScopeSpan | ScopeResource | ScopeInstrumentation | ScopeEvent | ScopeLink

datatype compare_op = CEq | CNe | CGt | CGe | CLt | CLe | CRegex | CNotRegex

datatype intrinsic =
    SpanName | SpanDuration | SpanStatus | SpanStatusMessage | SpanKind | SpanChildCount
  | IntrinsicSpanId | IntrinsicTraceId | TraceDuration | TraceRootService | TraceRootName

type_synonym span_id = bytes

record sem_span =
  ss_span_id :: span_id
  ss_parent_span_id :: "span_id option"
  ss_name :: string
  ss_status :: string
  ss_status_message :: "string option"
  ss_kind :: string
  ss_service :: "string option"
  ss_start_time_ns :: int
  ss_duration_ns :: nat
  ss_attributes :: typed_attributes
  ss_resource :: typed_attributes
  ss_instrumentation :: typed_attributes
  ss_events :: "typed_attributes list"
  ss_links :: "typed_attributes list"

record sem_trace =
  tr_trace_id :: bytes
  tr_spans :: "sem_span list"
  tr_root_service :: "string option"
  tr_root_name :: "string option"
  tr_start_time_ns :: int
  tr_duration_ns :: nat

subsection \<open>Expressions\<close>

datatype span_predicate =
    PAll
  | PAnd "span_predicate list"
  | PNameEq string
  | PStatusEq string
  | PKindEq string
  | PDuration compare_op nat
  | PSpanAttrEq string string
  | PIntrinsic intrinsic compare_op sem_value
  | PResourceAttrEq string string
  | PAttribute attribute_scope string compare_op sem_value

datatype structural_op =
    SChild | SParent | SDescendant | SAncestor | SSibling
  | SNotChild | SNotParent | SNotDescendant | SNotAncestor | SNotSibling

datatype spanset_expr =
    ESelect span_predicate
  | EAnd spanset_expr spanset_expr
  | EOr spanset_expr spanset_expr
  | EStructural spanset_expr structural_op spanset_expr bool
  | ECountAtLeast spanset_expr nat
  | ECount spanset_expr compare_op nat

subsection \<open>Comparing values\<close>

text \<open>The derived \<open>PartialEq\<close>: doubles by IEEE equality.\<close>

definition feq :: "fnum \<Rightarrow> fnum \<Rightarrow> bool" where
  "feq x y \<longleftrightarrow> fcmp x y = Some OEqual"

fun sv_eq :: "sem_value \<Rightarrow> sem_value \<Rightarrow> bool" and sv_eqs :: "sem_value list \<Rightarrow> sem_value list \<Rightarrow> bool" where
  "sv_eq SNil SNil = True"
| "sv_eq (SBoolean a) (SBoolean b) = (a = b)"
| "sv_eq (SInteger a) (SInteger b) = (a = b)"
| "sv_eq (SFloat a) (SFloat b) = feq (f64_num a) (f64_num b)"
| "sv_eq (SString a) (SString b) = (a = b)"
| "sv_eq (SDurationNs a) (SDurationNs b) = (a = b)"
| "sv_eq (SBytes a) (SBytes b) = (a = b)"
| "sv_eq (SArray xs) (SArray ys) = sv_eqs xs ys"
| "sv_eq _ _ = False"
| "sv_eqs [] [] = True"
| "sv_eqs (x # xs) (y # ys) = (sv_eq x y \<and> sv_eqs xs ys)"
| "sv_eqs _ _ = False"

definition str_cmp :: "string \<Rightarrow> string \<Rightarrow> ordering" where
  "str_cmp a b = (if a < b then OLess else if a = b then OEqual else OGreater)"

fun semantic_partial_cmp :: "sem_value option \<Rightarrow> sem_value \<Rightarrow> ordering option" where
  "semantic_partial_cmp (Some (SInteger l)) (SInteger r) = Some (int_cmp l r)"
| "semantic_partial_cmp (Some (SInteger l)) (SFloat r) = fcmp (f64_of_i64 l) (f64_num r)"
| "semantic_partial_cmp (Some (SFloat l)) (SInteger r) = fcmp (f64_num l) (f64_of_i64 r)"
| "semantic_partial_cmp (Some (SFloat l)) (SFloat r) = fcmp (f64_num l) (f64_num r)"
| "semantic_partial_cmp (Some (SString l)) (SString r) = Some (str_cmp l r)"
| "semantic_partial_cmp (Some (SDurationNs l)) (SDurationNs r) = Some (int_cmp (int l) (int r))"
| "semantic_partial_cmp _ _ = None"

fun values_equal :: "sem_value option \<Rightarrow> sem_value \<Rightarrow> bool" where
  "values_equal None SNil = True"
| "values_equal (Some SNil) SNil = True"
| "values_equal (Some (SInteger l)) (SFloat r) = feq (f64_of_i64 l) (f64_num r)"
| "values_equal (Some (SFloat l)) (SInteger r) = feq (f64_num l) (f64_of_i64 r)"
| "values_equal (Some a) e = sv_eq a e"
| "values_equal None _ = False"

definition ordered :: "compare_op \<Rightarrow> ordering option \<Rightarrow> bool" where
  "ordered op c =
     (case (op, c) of
        (CGt, Some OGreater) \<Rightarrow> True
      | (CGe, Some OGreater) \<Rightarrow> True
      | (CGe, Some OEqual) \<Rightarrow> True
      | (CLt, Some OLess) \<Rightarrow> True
      | (CLe, Some OLess) \<Rightarrow> True
      | (CLe, Some OEqual) \<Rightarrow> True
      | _ \<Rightarrow> False)"

type_synonym regex = "string \<Rightarrow> string \<Rightarrow> bool option"

text \<open>\<open>compare_value\<close> for an attribute that is not an array. The pattern is anchored.\<close>

definition compare_scalar :: "regex \<Rightarrow> sem_value option \<Rightarrow> compare_op \<Rightarrow> sem_value \<Rightarrow> semantic_error + bool" where
  "compare_scalar re actual op expected =
     (if actual = None \<and> expected \<noteq> SNil then Inr False
      else if op = CRegex \<or> op = CNotRegex then
        (case (actual, expected) of
           (Some (SString a), SString pattern) \<Rightarrow>
             (case re (''^(?:'' @ pattern @ '')$'') a of
                None \<Rightarrow> Inl (Malformed ''invalid TraceQL regex'')
              | Some matched \<Rightarrow> Inr (if op = CRegex then matched else \<not> matched))
         | _ \<Rightarrow> Inr False)
      else if op = CEq then Inr (values_equal actual expected)
      else if op = CNe then Inr (\<not> values_equal actual expected)
      else Inr (ordered op (semantic_partial_cmp actual expected)))"

definition element_op :: "compare_op \<Rightarrow> compare_op \<times> bool" where
  "element_op op = (case op of CNe \<Rightarrow> (CEq, True) | CNotRegex \<Rightarrow> (CRegex, True) | _ \<Rightarrow> (op, False))"

fun compare_some :: "regex \<Rightarrow> sem_value \<Rightarrow> compare_op \<Rightarrow> sem_value \<Rightarrow> semantic_error + bool"
  and compare_any :: "regex \<Rightarrow> sem_value list \<Rightarrow> compare_op \<Rightarrow> sem_value \<Rightarrow> semantic_error + bool" where
  "compare_some re (SArray vs) op expected =
     (case compare_any re vs (fst (element_op op)) expected of
        Inl e \<Rightarrow> Inl e
      | Inr any \<Rightarrow> Inr (if snd (element_op op) then \<not> any else any))"
| "compare_some re v op expected = compare_scalar re (Some v) op expected"
| "compare_any re [] op expected = Inr False"
| "compare_any re (v # vs) op expected =
     (case compare_some re v op expected of
        Inl e \<Rightarrow> Inl e
      | Inr True \<Rightarrow> Inr True
      | Inr False \<Rightarrow> compare_any re vs op expected)"

definition compare_value :: "regex \<Rightarrow> sem_value option \<Rightarrow> compare_op \<Rightarrow> sem_value \<Rightarrow> semantic_error + bool" where
  "compare_value re actual op expected =
     (case actual of
        None \<Rightarrow> compare_scalar re None op expected
      | Some v \<Rightarrow> compare_some re v op expected)"

subsection \<open>Predicates\<close>

definition i64_try :: "string \<Rightarrow> nat \<Rightarrow> semantic_error + int" where
  "i64_try what n = (if int n \<le> i64_max then Inr (int n) else Inl (LimitExceeded what))"

definition need_trace :: "sem_trace option \<Rightarrow> semantic_error + sem_trace" where
  "need_trace t =
     (case t of None \<Rightarrow> Inl (Incompatible ''trace intrinsic requires complete-trace evaluation'') | Some tr \<Rightarrow> Inr tr)"

definition intrinsic_value ::
  "intrinsic \<Rightarrow> sem_span \<Rightarrow> sem_trace option \<Rightarrow> sem_span list \<Rightarrow> semantic_error + sem_value option" where
  "intrinsic_value i span trace spans =
     (case i of
        SpanName \<Rightarrow> Inr (Some (SString (ss_name span)))
      | SpanDuration \<Rightarrow> Inr (Some (SDurationNs (ss_duration_ns span)))
      | SpanStatus \<Rightarrow> Inr (Some (SString (ss_status span)))
      | SpanStatusMessage \<Rightarrow> Inr (map_option SString (ss_status_message span))
      | SpanKind \<Rightarrow> Inr (Some (SString (ss_kind span)))
      | SpanChildCount \<Rightarrow>
          map_sum id (\<lambda>n. Some (SInteger n))
            (i64_try ''TraceQL child count'' (length (filter (\<lambda>c. ss_parent_span_id c = Some (ss_span_id span)) spans)))
      | IntrinsicSpanId \<Rightarrow> Inr (Some (SString (hex_lower (ss_span_id span))))
      | IntrinsicTraceId \<Rightarrow> map_sum id (\<lambda>t. Some (SString (hex_lower (tr_trace_id t)))) (need_trace trace)
      | TraceDuration \<Rightarrow> map_sum id (\<lambda>t. Some (SDurationNs (tr_duration_ns t))) (need_trace trace)
      | TraceRootService \<Rightarrow> map_sum id (\<lambda>t. map_option SString (tr_root_service t)) (need_trace trace)
      | TraceRootName \<Rightarrow> map_sum id (\<lambda>t. map_option SString (tr_root_name t)) (need_trace trace))"

text \<open>\<open>try_fold(false, ...)\<close> over the items of an event or link list.\<close>

fun any_item ::
  "regex \<Rightarrow> typed_attributes list \<Rightarrow> string \<Rightarrow> compare_op \<Rightarrow> sem_value \<Rightarrow> bool \<Rightarrow> semantic_error + bool" where
  "any_item re [] key op expected matched = Inr matched"
| "any_item re (it # items) key op expected matched =
     (if matched then any_item re items key op expected True
      else
        case compare_value re (it key) op expected of
          Inl e \<Rightarrow> Inl e
        | Inr m \<Rightarrow> any_item re items key op expected m)"

definition attribute_matches ::
  "regex \<Rightarrow> sem_span \<Rightarrow> attribute_scope \<Rightarrow> string \<Rightarrow> compare_op \<Rightarrow> sem_value \<Rightarrow> semantic_error + bool" where
  "attribute_matches re span sc key op expected =
     (case sc of
        ScopeSpan \<Rightarrow> compare_value re (ss_attributes span key) op expected
      | ScopeResource \<Rightarrow> compare_value re (ss_resource span key) op expected
      | ScopeInstrumentation \<Rightarrow> compare_value re (ss_instrumentation span key) op expected
      | ScopeEvent \<Rightarrow> any_item re (ss_events span) key op expected False
      | ScopeLink \<Rightarrow> any_item re (ss_links span) key op expected False)"

fun predicate_matches ::
  "regex \<Rightarrow> sem_span \<Rightarrow> sem_trace option \<Rightarrow> sem_span list \<Rightarrow> span_predicate \<Rightarrow> semantic_error + bool"
  and predicates_match ::
  "regex \<Rightarrow> sem_span \<Rightarrow> sem_trace option \<Rightarrow> sem_span list \<Rightarrow> span_predicate list \<Rightarrow> semantic_error + bool" where
  "predicate_matches re span trace spans PAll = Inr True"
| "predicate_matches re span trace spans (PAnd ps) = predicates_match re span trace spans ps"
| "predicate_matches re span trace spans (PNameEq v) = Inr (ss_name span = v)"
| "predicate_matches re span trace spans (PStatusEq v) = Inr (ss_status span = v)"
| "predicate_matches re span trace spans (PKindEq v) = Inr (ss_kind span = v)"
| "predicate_matches re span trace spans (PDuration op n) =
     compare_value re (Some (SDurationNs (ss_duration_ns span))) op (SDurationNs n)"
| "predicate_matches re span trace spans (PIntrinsic i op v) =
     (case intrinsic_value i span trace spans of
        Inl e \<Rightarrow> Inl e
      | Inr actual \<Rightarrow> compare_value re actual op v)"
| "predicate_matches re span trace spans (PSpanAttrEq key v) =
     compare_value re (ss_attributes span key) CEq (SString v)"
| "predicate_matches re span trace spans (PResourceAttrEq key v) =
     compare_value re (ss_resource span key) CEq (SString v)"
| "predicate_matches re span trace spans (PAttribute sc key op v) = attribute_matches re span sc key op v"
| "predicates_match re span trace spans [] = Inr True"
| "predicates_match re span trace spans (p # ps) =
     (case predicate_matches re span trace spans p of
        Inl e \<Rightarrow> Inl e
      | Inr False \<Rightarrow> Inr False
      | Inr True \<Rightarrow> predicates_match re span trace spans ps)"

subsection \<open>Structural operators\<close>

text \<open>\<open>by_id\<close>: the last span of an identifier.\<close>

definition by_id :: "sem_span list \<Rightarrow> span_id \<rightharpoonup> sem_span" where
  "by_id spans = map_of (rev (map (\<lambda>s. (ss_span_id s, s)) spans))"

definition parent_of :: "sem_span list \<Rightarrow> span_id \<Rightarrow> span_id option" where
  "parent_of spans i = Option.bind (by_id spans i) ss_parent_span_id"

lemma by_id_dom: "by_id spans i \<noteq> None \<Longrightarrow> i \<in> ss_span_id ` set spans"
  by (auto simp: by_id_def dest!: map_of_SomeD)

text \<open>The walk of \<open>has_ancestor\<close>. Each turn adds an identifier to \<open>seen\<close>, and only an identifier of a
  span has a parent to go on to.\<close>

function ancestor_walk ::
  "sem_span list \<Rightarrow> span_id set \<Rightarrow> span_id set \<Rightarrow> span_id option \<Rightarrow> semantic_error + bool" where
  "ancestor_walk spans ancestors seen None = Inr False"
| "ancestor_walk spans ancestors seen (Some i) =
     (if i \<in> seen then Inl (Malformed ''cycle in span parent relationships'')
      else if i \<in> ancestors then Inr True
      else ancestor_walk spans ancestors (insert i seen) (parent_of spans i))"
  by pat_completeness auto
termination
proof (relation "measure (\<lambda>(spans, ancestors, seen, p).
    2 * card (ss_span_id ` set spans - seen) + (if p = None then 0 else 1))")
  fix spans :: "sem_span list" and ancestors seen :: "span_id set" and i :: span_id
  assume n: "i \<notin> seen"
  let ?ids = "ss_span_id ` set spans"
  have le: "card (?ids - insert i seen) \<le> card (?ids - seen)" by (intro card_mono) auto
  have "2 * card (?ids - insert i seen) + (if parent_of spans i = None then 0 else 1) < 2 * card (?ids - seen) + 1"
  proof (cases "parent_of spans i = None")
    case True
    then show ?thesis using le by simp
  next
    case False
    then have "by_id spans i \<noteq> None" by (cases "by_id spans i") (simp_all add: parent_of_def)
    then have "i \<in> ?ids" by (rule by_id_dom)
    with n have "card (?ids - insert i seen) < card (?ids - seen)"
      by (intro psubset_card_mono) auto
    then show ?thesis by simp
  qed
  then show "((spans, ancestors, insert i seen, parent_of spans i), spans, ancestors, seen, Some i)
      \<in> measure (\<lambda>(spans, ancestors, seen, p). 2 * card (ss_span_id ` set spans - seen) + (if p = None then 0 else 1))"
    by simp
qed simp

declare ancestor_walk.simps(2) [simp del]

definition has_ancestor :: "sem_span list \<Rightarrow> sem_span \<Rightarrow> span_id set \<Rightarrow> semantic_error + bool" where
  "has_ancestor spans span ancestors = ancestor_walk spans ancestors {} (ss_parent_span_id span)"

definition normal_op :: "structural_op \<Rightarrow> structural_op \<times> bool" where
  "normal_op op =
     (case op of
        SNotChild \<Rightarrow> (SChild, True) | SNotParent \<Rightarrow> (SParent, True) | SNotDescendant \<Rightarrow> (SDescendant, True)
      | SNotAncestor \<Rightarrow> (SAncestor, True) | SNotSibling \<Rightarrow> (SSibling, True) | _ \<Rightarrow> (op, False))"

text \<open>A \<open>BTreeSet\<close> is the sorted list of its elements, so a loop over it has the code's order.\<close>

fun ancestor_loop :: "sem_span list \<Rightarrow> span_id \<Rightarrow> span_id list \<Rightarrow> semantic_error + bool" where
  "ancestor_loop spans right_id [] = Inr False"
| "ancestor_loop spans right_id (l # ls) =
     (case by_id spans l of
        None \<Rightarrow> ancestor_loop spans right_id ls
      | Some span \<Rightarrow>
          (case has_ancestor spans span {right_id} of
             Inl e \<Rightarrow> Inl e
           | Inr True \<Rightarrow> Inr True
           | Inr False \<Rightarrow> ancestor_loop spans right_id ls))"

definition structural_match ::
  "sem_span list \<Rightarrow> span_id list \<Rightarrow> structural_op \<Rightarrow> span_id \<Rightarrow> sem_span \<Rightarrow> semantic_error + bool" where
  "structural_match spans left op right_id candidate =
     (case op of
        SChild \<Rightarrow> Inr (case ss_parent_span_id candidate of None \<Rightarrow> False | Some p \<Rightarrow> p \<in> set left)
      | SParent \<Rightarrow> Inr (list_ex (\<lambda>l. parent_of spans l = Some right_id) left)
      | SDescendant \<Rightarrow> has_ancestor spans candidate (set left)
      | SAncestor \<Rightarrow> ancestor_loop spans right_id left
      | SSibling \<Rightarrow> Inr (case ss_parent_span_id candidate of None \<Rightarrow> False
          | Some p \<Rightarrow> list_ex (\<lambda>l. l \<noteq> right_id \<and> parent_of spans l = Some p) left)
      | _ \<Rightarrow> Inr False)"

fun structural_loop ::
  "sem_span list \<Rightarrow> span_id list \<Rightarrow> structural_op \<Rightarrow> bool \<Rightarrow> span_id list \<Rightarrow> semantic_error + span_id list" where
  "structural_loop spans left op negated [] = Inr []"
| "structural_loop spans left op negated (r # rs) =
     (case by_id spans r of
        None \<Rightarrow> structural_loop spans left op negated rs
      | Some candidate \<Rightarrow>
          (case structural_match spans left op r candidate of
             Inl e \<Rightarrow> Inl e
           | Inr m \<Rightarrow>
               map_sum id (\<lambda>out. if m \<noteq> negated then r # out else out)
                 (structural_loop spans left op negated rs)))"

definition structural ::
  "sem_span list \<Rightarrow> span_id list \<Rightarrow> span_id list \<Rightarrow> structural_op \<Rightarrow> semantic_error + span_id list" where
  "structural spans left right op =
     structural_loop spans left (fst (normal_op op)) (snd (normal_op op)) right"

subsection \<open>Evaluating an expression\<close>

text \<open>Collecting into a \<open>BTreeSet\<close>, and the union of two.\<close>

definition bset :: "'a::linorder list \<Rightarrow> 'a list" where
  "bset xs = remdups (sort xs)"

lemma bset_simps [simp]: "set (bset xs) = set xs" "sorted (bset xs)" "distinct (bset xs)" "bset [] = []"
  by (simp_all add: bset_def)

lemma bset_empty [simp]: "bset xs = [] \<longleftrightarrow> xs = []"
  using set_empty [of "bset xs"] by simp

definition bunion :: "'a::linorder list \<Rightarrow> 'a list \<Rightarrow> 'a list" where
  "bunion xs ys = bset (xs @ ys)"

lemma bunion_simps [simp]: "set (bunion xs ys) = set xs \<union> set ys" "bunion xs ys = [] \<longleftrightarrow> xs = [] \<and> ys = []"
  by (simp_all add: bunion_def)

fun select_loop ::
  "regex \<Rightarrow> sem_span list \<Rightarrow> sem_trace option \<Rightarrow> span_predicate \<Rightarrow> sem_span list \<Rightarrow> semantic_error + span_id list" where
  "select_loop re spans trace p [] = Inr []"
| "select_loop re spans trace p (s # ss) =
     bind_sem (predicate_matches re s trace spans p) (\<lambda>m.
     bind_sem (select_loop re spans trace p ss) (\<lambda>out.
     Inr (if m then ss_span_id s # out else out)))"

definition count_matches :: "regex \<Rightarrow> nat \<Rightarrow> compare_op \<Rightarrow> nat \<Rightarrow> semantic_error + bool" where
  "count_matches re actual op expected =
     bind_sem (i64_try ''TraceQL spanset count'' actual) (\<lambda>a.
     bind_sem (i64_try ''TraceQL spanset count'' expected) (\<lambda>e.
     compare_value re (Some (SInteger a)) op (SInteger e)))"

definition deeper :: "nat \<Rightarrow> eval_limits \<Rightarrow> semantic_error + 'a \<Rightarrow> semantic_error + 'a" where
  "deeper depth limits r =
     (if depth \<ge> max_recursion limits then Inl (LimitExceeded ''trace expression recursion'') else r)"

fun eval ::
  "regex \<Rightarrow> sem_span list \<Rightarrow> sem_trace option \<Rightarrow> spanset_expr \<Rightarrow> nat \<Rightarrow> eval_limits \<Rightarrow>
   semantic_error + span_id list" where
  "eval re spans trace (ESelect p) depth limits =
     deeper depth limits (bind_sem (select_loop re spans trace p spans) (\<lambda>ids. Inr (bset ids)))"
| "eval re spans trace (EAnd l r) depth limits =
     deeper depth limits
      (bind_sem (eval re spans trace l (depth + 1) limits) (\<lambda>left.
       bind_sem (eval re spans trace r (depth + 1) limits) (\<lambda>right.
       Inr (if left = [] \<or> right = [] then [] else bunion left right))))"
| "eval re spans trace (EOr l r) depth limits =
     deeper depth limits
      (bind_sem (eval re spans trace l (depth + 1) limits) (\<lambda>left.
       bind_sem (eval re spans trace r (depth + 1) limits) (\<lambda>right.
       Inr (bunion left right))))"
| "eval re spans trace (ECountAtLeast e n) depth limits =
     deeper depth limits
      (bind_sem (eval re spans trace e (depth + 1) limits) (\<lambda>selected.
       Inr (if length selected \<ge> n then selected else [])))"
| "eval re spans trace (ECount e op n) depth limits =
     deeper depth limits
      (if op = CRegex \<or> op = CNotRegex
       then Inl (Malformed ''TraceQL count does not support regex comparison'')
       else
         bind_sem (eval re spans trace e (depth + 1) limits) (\<lambda>selected.
         bind_sem (count_matches re (length selected) op n) (\<lambda>m.
         Inr (if m then selected else []))))"
| "eval re spans trace (EStructural l op r u) depth limits =
     deeper depth limits
      (bind_sem (eval re spans trace l (depth + 1) limits) (\<lambda>left.
       bind_sem (eval re spans trace r (depth + 1) limits) (\<lambda>right.
       bind_sem (structural spans left right op) (\<lambda>matched.
       Inr (if u then bunion left matched else matched)))))"

text \<open>The checks on the spans before evaluation, and the selected identifiers in hexadecimal.\<close>

definition spans_check :: "sem_span list \<Rightarrow> eval_limits \<Rightarrow> semantic_error + unit" where
  "spans_check spans limits =
     (if length spans > max_spans limits then Inl (LimitExceeded ''spans'')
      else if \<not> distinct (map ss_span_id spans) then Inl (Malformed ''duplicate span id'')
      else Inr ())"

type_synonym trace_spanset = "string list"

definition to_spanset :: "span_id list \<Rightarrow> trace_spanset option" where
  "to_spanset selected = (if selected = [] then None else Some (map hex_lower selected))"

definition eval_trace_reference ::
  "regex \<Rightarrow> sem_trace \<Rightarrow> spanset_expr \<Rightarrow> eval_limits \<Rightarrow> semantic_error + trace_spanset option" where
  "eval_trace_reference re trace expr limits =
     bind_sem (spans_check (tr_spans trace) limits) (\<lambda>_.
     bind_sem (eval re (tr_spans trace) (Some trace) expr 0 limits) (\<lambda>selected.
     Inr (to_spanset selected)))"

definition eval_spanset_reference ::
  "regex \<Rightarrow> sem_span list \<Rightarrow> spanset_expr \<Rightarrow> eval_limits \<Rightarrow> semantic_error + trace_spanset option" where
  "eval_spanset_reference re spans expr limits =
     bind_sem (spans_check spans limits) (\<lambda>_.
     bind_sem (eval re spans None expr 0 limits) (\<lambda>selected.
     Inr (to_spanset selected)))"

end
