(* ===== verification/Traceql_Source.thy ===== *)
theory Traceql_Source
  imports Traceql
begin

text \<open>
  From stored span rows to the answer of a TraceQL query: attribute values read back from their JSON
  text, trace assembly and the two-phase trace search of \<open>crates/imbh/src/traces.rs\<close>, the filter that
  \<open>model/traceql.rs\<close> lifts out of an expression to narrow the search, and the streaming execution over
  the source that \<open>crates/imbh-lgtm/src/source.rs\<close> implements on the traces interface.

  Parameters stand for the crates the code calls: \<open>te_json\<close> the JSON parser, \<open>te_regex\<close> regular
  expressions, \<open>te_regexp_like\<close>, \<open>te_try_cast\<close> and \<open>rank\<close> the SQL engine's function, cast and ordered
  limit, \<open>te_parse_f64\<close> the decimal reader and \<open>te_alnum\<close>, \<open>te_lower\<close> the Unicode tables.
\<close>

subsection \<open>Attribute values\<close>

datatype any_value =
    VNull
  | VStr string
  | VInt int
  | VDouble f64
  | VBool bool
  | VBytes bytes
  | VArray "any_value list"
  | VMap "(string \<times> any_value) list"

type_synonym attributes = "(string \<times> any_value) list"

record text_env =
  te_json :: "string \<Rightarrow> any_value option"
  te_regex :: regex
  te_regexp_like :: "string \<Rightarrow> string \<Rightarrow> bool"
  te_try_cast :: "string \<Rightarrow> fnum option"
  te_parse_f64 :: "string \<Rightarrow> fnum option"
  te_alnum :: "char \<Rightarrow> bool"
  te_lower :: "char \<Rightarrow> string"

definition parse_object :: "text_env \<Rightarrow> string \<Rightarrow> attributes option" where
  "parse_object env s = (case te_json env s of Some (VMap pairs) \<Rightarrow> Some pairs | _ \<Rightarrow> None)"

definition from_canonical_json :: "text_env \<Rightarrow> string \<Rightarrow> attributes" where
  "from_canonical_json env s = (case parse_object env s of None \<Rightarrow> [] | Some pairs \<Rightarrow> pairs)"

definition json_get :: "text_env \<Rightarrow> string \<Rightarrow> string \<Rightarrow> any_value option" where
  "json_get env s key = Option.bind (parse_object env s) (\<lambda>pairs. map_of pairs key)"

text \<open>The functions of \<open>crates/imbh-query/src/lib.rs\<close> on one cell.\<close>

definition json_get_str :: "text_env \<Rightarrow> string \<Rightarrow> string \<Rightarrow> string option" where
  "json_get_str env s key = (case json_get env s key of Some (VStr v) \<Rightarrow> Some v | _ \<Rightarrow> None)"

definition json_get_num :: "text_env \<Rightarrow> string \<Rightarrow> string \<Rightarrow> fnum option" where
  "json_get_num env s key =
     (case json_get env s key of
        Some (VInt v) \<Rightarrow> Some (f64_of_i64 v)
      | Some (VDouble d) \<Rightarrow> Some (f64_num d)
      | Some (VStr v) \<Rightarrow> te_parse_f64 env v
      | _ \<Rightarrow> None)"

definition lookup_promoted :: "text_env \<Rightarrow> string \<Rightarrow> string \<Rightarrow> string option" where
  "lookup_promoted env attrs key = (case json_get env attrs key of Some (VStr v) \<Rightarrow> Some v | _ \<Rightarrow> None)"

definition RESERVED_COLUMNS :: "string list" where
  "RESERVED_COLUMNS =
     [''attributes'', ''body'', ''bucket_counts'', ''count'', ''duration_ns'', ''events'', ''exemplars'',
      ''explicit_bounds'', ''flags'', ''is_monotonic'', ''kind'', ''links'', ''max'', ''metric'', ''min'', ''name'',
      ''negative_counts'', ''negative_offset'', ''observed_time'', ''parent_span_id'', ''positive_counts'',
      ''positive_offset'', ''quantiles'', ''resource'', ''scale'', ''scope'', ''service'', ''severity_number'',
      ''severity_text'', ''span_id'', ''start_time'', ''status_code'', ''status_message'', ''sum'', ''temporality'',
      ''time'', ''trace_id'', ''trace_state'', ''unit'', ''value'', ''values'', ''zero_count'', ''zero_threshold'']"

definition promoted_columns :: "string list \<Rightarrow> string list" where
  "promoted_columns promote =
     fold (\<lambda>k out. if k \<notin> set RESERVED_COLUMNS \<and> k \<notin> set out then out @ [k] else out) promote []"

text \<open>A stored row of the spans table with the keys that were promoted when its batch was encoded: a
  cell of a column the batch predates reads as NULL.\<close>

record stored_span =
  st_row :: span_row
  st_promote :: "string list"

definition promoted_cell :: "text_env \<Rightarrow> stored_span \<Rightarrow> string \<Rightarrow> string option" where
  "promoted_cell env s key =
     (if key \<in> set (promoted_columns (st_promote s)) then lookup_promoted env (sr_attributes (st_row s)) key
      else None)"

subsection \<open>Assembling a trace\<close>

record span =
  sp_trace_id :: bytes
  sp_span_id :: bytes
  sp_parent_span_id :: "bytes option"
  sp_name :: string
  sp_kind :: string
  sp_start_time :: int
  sp_duration_ns :: nat
  sp_status_code :: string
  sp_status_message :: "string option"
  sp_service :: "string option"
  sp_attributes :: attributes
  sp_resource :: attributes
  sp_scope :: attributes
  sp_events :: "string option"
  sp_links :: "string option"
  sp_trace_state :: "string option"
  sp_flags :: "32 word"

definition id_or_zero :: "nat \<Rightarrow> bytes \<Rightarrow> bytes" where
  "id_or_zero n b = (case id_from_bytes n b of None \<Rightarrow> replicate n 0 | Some i \<Rightarrow> i)"

definition materialize_span :: "text_env \<Rightarrow> span_row \<Rightarrow> span" where
  "materialize_span env r =
     \<lparr>sp_trace_id = id_or_zero 16 (sr_trace_id r), sp_span_id = id_or_zero 8 (sr_span_id r),
      sp_parent_span_id = Option.bind (sr_parent_span_id r) (id_from_bytes 8),
      sp_name = sr_name r, sp_kind = sr_kind r, sp_start_time = sr_start_time_unix_nano r,
      sp_duration_ns = sr_duration_ns r, sp_status_code = sr_status_code r,
      sp_status_message = sr_status_message r, sp_service = sr_service r,
      sp_attributes = from_canonical_json env (sr_attributes r),
      sp_resource = from_canonical_json env (sr_resource r), sp_scope = from_canonical_json env (sr_scope r),
      sp_events = sr_events r, sp_links = sr_links r, sp_trace_state = sr_trace_state r, sp_flags = sr_flags r\<rparr>"

record trace =
  tc_trace_id :: bytes
  tc_root_service :: "string option"
  tc_root_name :: "string option"
  tc_start_time :: int
  tc_duration_ns :: nat
  tc_spans :: "span list"

definition assemble_trace :: "bytes \<Rightarrow> span list \<Rightarrow> trace" where
  "assemble_trace trace_id spans =
     (let start = (if spans = [] then 0 else Min (set (map sp_start_time spans)));
          endt = (if spans = [] then 0
                  else Max (set (map (\<lambda>s. sat_i64 (sp_start_time s + as_i64 (int (sp_duration_ns s)))) spans)));
          root = (case find (\<lambda>s. sp_parent_span_id s = None) spans of
                    Some s \<Rightarrow> Some s
                  | None \<Rightarrow> (case spans of [] \<Rightarrow> None | s # _ \<Rightarrow> Some s))
      in \<lparr>tc_trace_id = trace_id, tc_root_service = Option.bind root sp_service,
          tc_root_name = map_option sp_name root, tc_start_time = start,
          tc_duration_ns = nat (max (as_i64 (endt - start)) 0), tc_spans = spans\<rparr>)"

fun semantic_value :: "any_value \<Rightarrow> sem_value option" and semantic_values :: "any_value list \<Rightarrow> sem_value list" where
  "semantic_value VNull = Some SNil"
| "semantic_value (VStr v) = Some (SString v)"
| "semantic_value (VInt v) = Some (SInteger v)"
| "semantic_value (VDouble v) = Some (SFloat v)"
| "semantic_value (VBool v) = Some (SBoolean v)"
| "semantic_value (VBytes v) = Some (SBytes v)"
| "semantic_value (VArray vs) = Some (SArray (semantic_values vs))"
| "semantic_value (VMap m) = None"
| "semantic_values [] = []"
| "semantic_values (v # vs) = (case semantic_value v of None \<Rightarrow> semantic_values vs | Some x \<Rightarrow> x # semantic_values vs)"

text \<open>\<open>TypedAttributes::new\<close>: a map collected from pairs keeps the last value of a key.\<close>

definition typed_attributes_new :: "(string \<times> sem_value) list \<Rightarrow> typed_attributes" where
  "typed_attributes_new pairs = map_of (rev pairs)"

definition semantic_pairs :: "attributes \<Rightarrow> (string \<times> sem_value) list" where
  "semantic_pairs attrs = List.map_filter (\<lambda>(k, v). map_option (Pair k) (semantic_value v)) attrs"

definition item_pairs :: "attributes \<Rightarrow> (string \<times> sem_value) list" where
  "item_pairs kvs =
     concat (map (\<lambda>(k, v).
       if k = ''attributes'' then (case v of VMap attrs \<Rightarrow> semantic_pairs attrs | _ \<Rightarrow> [])
       else (case semantic_value v of None \<Rightarrow> [] | Some x \<Rightarrow> [(k, x)])) kvs)"

definition typed_scoped_items :: "text_env \<Rightarrow> string option \<Rightarrow> typed_attributes list" where
  "typed_scoped_items env js =
     (case Option.bind js (te_json env) of
        Some (VArray items) \<Rightarrow>
          List.map_filter (\<lambda>it. case it of VMap kvs \<Rightarrow> Some (typed_attributes_new (item_pairs kvs)) | _ \<Rightarrow> None) items
      | _ \<Rightarrow> [])"

definition semantic_span :: "text_env \<Rightarrow> span \<Rightarrow> sem_span" where
  "semantic_span env s =
     \<lparr>ss_span_id = sp_span_id s, ss_parent_span_id = sp_parent_span_id s, ss_name = sp_name s,
      ss_status = sp_status_code s, ss_status_message = sp_status_message s, ss_kind = sp_kind s,
      ss_service = sp_service s, ss_start_time_ns = sp_start_time s, ss_duration_ns = sp_duration_ns s,
      ss_attributes = typed_attributes_new (semantic_pairs (sp_attributes s)),
      ss_resource = typed_attributes_new (semantic_pairs (sp_resource s)),
      ss_instrumentation = typed_attributes_new (semantic_pairs (sp_scope s)),
      ss_events = typed_scoped_items env (sp_events s), ss_links = typed_scoped_items env (sp_links s)\<rparr>"

definition semantic_trace :: "text_env \<Rightarrow> trace \<Rightarrow> sem_trace" where
  "semantic_trace env t =
     \<lparr>tr_trace_id = tc_trace_id t, tr_spans = map (semantic_span env) (tc_spans t),
      tr_root_service = tc_root_service t, tr_root_name = tc_root_name t,
      tr_start_time_ns = tc_start_time t, tr_duration_ns = tc_duration_ns t\<rparr>"

end
