(* ===== verification/Arrow_Schema.thy ===== *)
theory Arrow_Schema
  imports Storage_Buffer Traceql_Source
begin

text \<open>
  The columns behind the batches of the storage engine: the schemas of the six tables
  (\<open>crates/imbh-storage/src/schema.rs\<close>), the encoding of rows into columns, the promoted columns
  projected out of the attributes, and what compaction does to a batch sealed under other promoted
  keys (\<open>coerce_to_schema\<close>, \<open>backfill_promoted\<close>). An Arrow array is its type and its cells, and
  \<open>try_new\<close> the checks of \<open>RecordBatch::try_new\<close>; the cast between types is a parameter.
\<close>

subsection \<open>Arrays, schemas and batches\<close>

datatype data_type =
    DtTimestamp
  | DtDictUtf8
  | DtUtf8
  | DtUInt8
  | DtUInt32
  | DtUInt64
  | DtInt32
  | DtFloat64
  | DtBoolean
  | DtFixedSizeBinary nat
  | DtList data_type

datatype cell =
    CTime int
  | CStr string
  | CU8 byte
  | CU32 "32 word"
  | CU64 nat
  | CI32 int
  | CF64 f64
  | CBool bool
  | CBytes bytes
  | CList "cell list"

record arr =
  a_type :: data_type
  a_cells :: "cell option list"

record field_def =
  f_name :: string
  f_type :: data_type
  f_nullable :: bool

type_synonym schema = "field_def list"

record rec_batch =
  b_schema :: schema
  b_columns :: "arr list"

definition req :: "string \<Rightarrow> data_type \<Rightarrow> field_def" where
  "req n t = \<lparr>f_name = n, f_type = t, f_nullable = False\<rparr>"

definition nul :: "string \<Rightarrow> data_type \<Rightarrow> field_def" where
  "nul n t = \<lparr>f_name = n, f_type = t, f_nullable = True\<rparr>"

text \<open>\<open>Schema::index_of\<close>: the first field of that name.\<close>

fun index_of :: "schema \<Rightarrow> string \<Rightarrow> nat option" where
  "index_of [] n = None"
| "index_of (f # fs) n = (if f_name f = n then Some 0 else map_option Suc (index_of fs n))"

text \<open>\<open>RecordBatch::try_new\<close>: as many columns as fields and at least one, columns of one length, each
  of the type of its field, and no null where the field does not allow one.\<close>

definition column_ok :: "nat \<Rightarrow> field_def \<Rightarrow> arr \<Rightarrow> bool" where
  "column_ok n f a \<longleftrightarrow> length (a_cells a) = n \<and> a_type a = f_type f \<and> (f_nullable f \<or> None \<notin> set (a_cells a))"

definition try_new :: "error \<Rightarrow> schema \<Rightarrow> arr list \<Rightarrow> error + rec_batch" where
  "try_new err s cs =
     (if cs \<noteq> [] \<and> list_all2 (column_ok (length (a_cells (hd cs)))) s cs
      then Inr \<lparr>b_schema = s, b_columns = cs\<rparr> else Inl err)"

definition num_rows :: "rec_batch \<Rightarrow> nat" where
  "num_rows b = (case b_columns b of [] \<Rightarrow> 0 | a # r \<Rightarrow> length (a_cells a))"

subsection \<open>The schemas of the tables\<close>

definition with_promoted :: "field_def list \<Rightarrow> string list \<Rightarrow> schema" where
  "with_promoted fs keys = fs @ map (\<lambda>n. nul n DtDictUtf8) (promoted_columns keys)"

definition logs_fields :: schema where
  "logs_fields =
     [req ''time'' DtTimestamp, nul ''observed_time'' DtTimestamp, nul ''service'' DtDictUtf8,
      req ''severity_number'' DtUInt8, nul ''severity_text'' DtUtf8, req ''body'' DtUtf8,
      req ''attributes'' DtUtf8, req ''resource'' DtDictUtf8, req ''scope'' DtDictUtf8,
      nul ''trace_id'' (DtFixedSizeBinary 16), nul ''span_id'' (DtFixedSizeBinary 8), req ''flags'' DtUInt32]"

definition logs_schema :: "string list \<Rightarrow> schema" where
  "logs_schema keys = with_promoted logs_fields keys"

definition scalar_fields :: schema where
  "scalar_fields =
     [req ''time'' DtTimestamp, nul ''start_time'' DtTimestamp, req ''metric'' DtUtf8, req ''unit'' DtUtf8,
      nul ''service'' DtDictUtf8, req ''attributes'' DtUtf8, req ''resource'' DtDictUtf8,
      req ''scope'' DtDictUtf8, req ''flags'' DtUInt32, req ''value'' DtFloat64, nul ''temporality'' DtUtf8,
      nul ''is_monotonic'' DtBoolean, req ''exemplars'' DtUtf8]"

definition metric_scalar_schema :: "string list \<Rightarrow> schema" where
  "metric_scalar_schema keys = with_promoted scalar_fields keys"

definition histogram_fields :: schema where
  "histogram_fields =
     [req ''time'' DtTimestamp, nul ''start_time'' DtTimestamp, req ''metric'' DtUtf8, req ''unit'' DtUtf8,
      nul ''service'' DtDictUtf8, req ''attributes'' DtUtf8, req ''resource'' DtDictUtf8,
      req ''scope'' DtDictUtf8, req ''flags'' DtUInt32, req ''count'' DtUInt64, nul ''sum'' DtFloat64,
      nul ''min'' DtFloat64, nul ''max'' DtFloat64, req ''explicit_bounds'' (DtList DtFloat64),
      req ''bucket_counts'' (DtList DtUInt64), nul ''temporality'' DtUtf8, req ''exemplars'' DtUtf8]"

definition histogram_schema :: "string list \<Rightarrow> schema" where
  "histogram_schema keys = with_promoted histogram_fields keys"

definition exp_histogram_fields :: schema where
  "exp_histogram_fields =
     [req ''time'' DtTimestamp, nul ''start_time'' DtTimestamp, req ''metric'' DtUtf8, req ''unit'' DtUtf8,
      nul ''service'' DtDictUtf8, req ''attributes'' DtUtf8, req ''resource'' DtDictUtf8,
      req ''scope'' DtDictUtf8, req ''flags'' DtUInt32, req ''count'' DtUInt64, nul ''sum'' DtFloat64,
      nul ''min'' DtFloat64, nul ''max'' DtFloat64, req ''scale'' DtInt32, req ''zero_count'' DtUInt64,
      req ''zero_threshold'' DtFloat64, req ''positive_offset'' DtInt32,
      req ''positive_counts'' (DtList DtUInt64), req ''negative_offset'' DtInt32,
      req ''negative_counts'' (DtList DtUInt64), nul ''temporality'' DtUtf8, req ''exemplars'' DtUtf8]"

definition exp_histogram_schema :: "string list \<Rightarrow> schema" where
  "exp_histogram_schema keys = with_promoted exp_histogram_fields keys"

definition summary_fields :: schema where
  "summary_fields =
     [req ''time'' DtTimestamp, nul ''start_time'' DtTimestamp, req ''metric'' DtUtf8, req ''unit'' DtUtf8,
      nul ''service'' DtDictUtf8, req ''attributes'' DtUtf8, req ''resource'' DtDictUtf8,
      req ''scope'' DtDictUtf8, req ''flags'' DtUInt32, req ''count'' DtUInt64, req ''sum'' DtFloat64,
      req ''quantiles'' (DtList DtFloat64), req ''values'' (DtList DtFloat64), nul ''temporality'' DtUtf8]"

definition summary_schema :: "string list \<Rightarrow> schema" where
  "summary_schema keys = with_promoted summary_fields keys"

definition spans_fields :: schema where
  "spans_fields =
     [req ''trace_id'' (DtFixedSizeBinary 16), req ''span_id'' (DtFixedSizeBinary 8),
      nul ''parent_span_id'' (DtFixedSizeBinary 8), req ''name'' DtUtf8, req ''kind'' DtUtf8,
      req ''start_time'' DtTimestamp, req ''duration_ns'' DtUInt64, req ''status_code'' DtUtf8,
      nul ''status_message'' DtUtf8, nul ''service'' DtDictUtf8, req ''attributes'' DtUtf8,
      req ''resource'' DtDictUtf8, req ''scope'' DtDictUtf8, nul ''events'' DtUtf8, nul ''links'' DtUtf8,
      nul ''trace_state'' DtUtf8, req ''flags'' DtUInt32]"

definition spans_schema :: "string list \<Rightarrow> schema" where
  "spans_schema keys = with_promoted spans_fields keys"

definition table_schema :: "table \<Rightarrow> string list \<Rightarrow> schema" where
  "table_schema t keys =
     (case t of
        TLogs \<Rightarrow> logs_schema keys
      | TSpans \<Rightarrow> spans_schema keys
      | TMetricsGauge \<Rightarrow> metric_scalar_schema keys
      | TMetricsSum \<Rightarrow> metric_scalar_schema keys
      | TMetricsHistogram \<Rightarrow> histogram_schema keys
      | TMetricsExpHistogram \<Rightarrow> exp_histogram_schema keys
      | TMetricsSummary \<Rightarrow> summary_schema keys)"

subsection \<open>Encoding rows\<close>

definition build_promoted_columns :: "text_env \<Rightarrow> string list \<Rightarrow> string list \<Rightarrow> arr list" where
  "build_promoted_columns J keys texts =
     map (\<lambda>k. \<lparr>a_type = DtDictUtf8, a_cells = map (\<lambda>s. map_option CStr (lookup_promoted J s k)) texts\<rparr>)
       (promoted_columns keys)"

text \<open>What the typed builders make: \<open>append_value\<close> of every row, \<open>append_option\<close>, and the fixed-size
  binary builder, which refuses a value of another length.\<close>

definition vals :: "data_type \<Rightarrow> ('a \<Rightarrow> cell) \<Rightarrow> ('r \<Rightarrow> 'a) \<Rightarrow> 'r list \<Rightarrow> arr" where
  "vals t c f rows = \<lparr>a_type = t, a_cells = map (\<lambda>r. Some (c (f r))) rows\<rparr>"

definition opts :: "data_type \<Rightarrow> ('a \<Rightarrow> cell) \<Rightarrow> ('r \<Rightarrow> 'a option) \<Rightarrow> 'r list \<Rightarrow> arr" where
  "opts t c f rows = \<lparr>a_type = t, a_cells = map (\<lambda>r. map_option c (f r)) rows\<rparr>"

definition nulls :: "data_type \<Rightarrow> nat \<Rightarrow> arr" where
  "nulls t n = \<lparr>a_type = t, a_cells = replicate n None\<rparr>"

definition fixed_binary :: "error \<Rightarrow> nat \<Rightarrow> ('r \<Rightarrow> bytes option) \<Rightarrow> 'r list \<Rightarrow> error + arr" where
  "fixed_binary err n f rows =
     (if list_all (\<lambda>r. case f r of None \<Rightarrow> True | Some b \<Rightarrow> length b = n) rows
      then Inr (opts (DtFixedSizeBinary n) CBytes f rows) else Inl err)"

definition floats :: "f64 list \<Rightarrow> cell" where "floats xs = CList (map CF64 xs)"
definition counts :: "nat list \<Rightarrow> cell" where "counts xs = CList (map CU64 xs)"

definition log_rows_to_batch :: "text_env \<Rightarrow> log_row list \<Rightarrow> string list \<Rightarrow> error + rec_batch" where
  "log_rows_to_batch J rows keys =
     (let err = build_batch_err ''logs'' arrow_str in
      bind_err (fixed_binary err 16 lr_trace_id rows) (\<lambda>trace_id.
      bind_err (fixed_binary err 8 lr_span_id rows) (\<lambda>span_id.
        try_new err (logs_schema keys)
          ([vals DtTimestamp CTime lr_time_unix_nano rows, opts DtTimestamp CTime lr_observed_time_unix_nano rows,
            opts DtDictUtf8 CStr lr_service rows, vals DtUInt8 CU8 lr_severity_number rows,
            opts DtUtf8 CStr lr_severity_text rows, vals DtUtf8 CStr lr_body rows,
            vals DtUtf8 CStr lr_attributes rows, vals DtDictUtf8 CStr lr_resource rows,
            vals DtDictUtf8 CStr lr_scope rows, trace_id, span_id, vals DtUInt32 CU32 lr_flags rows] @
           build_promoted_columns J keys (map lr_attributes rows)))))"

definition spans_rows_to_batch :: "text_env \<Rightarrow> span_row list \<Rightarrow> string list \<Rightarrow> error + rec_batch" where
  "spans_rows_to_batch J rows keys =
     (let err = build_batch_err ''spans'' arrow_str in
      bind_err (fixed_binary err 16 (Some \<circ> sr_trace_id) rows) (\<lambda>trace_id.
      bind_err (fixed_binary err 8 (Some \<circ> sr_span_id) rows) (\<lambda>span_id.
      bind_err (fixed_binary err 8 sr_parent_span_id rows) (\<lambda>parent.
        try_new err (spans_schema keys)
          ([trace_id, span_id, parent, vals DtUtf8 CStr sr_name rows, vals DtUtf8 CStr sr_kind rows,
            vals DtTimestamp CTime sr_start_time_unix_nano rows, vals DtUInt64 CU64 sr_duration_ns rows,
            vals DtUtf8 CStr sr_status_code rows, opts DtUtf8 CStr sr_status_message rows,
            opts DtDictUtf8 CStr sr_service rows, vals DtUtf8 CStr sr_attributes rows,
            vals DtDictUtf8 CStr sr_resource rows, vals DtDictUtf8 CStr sr_scope rows,
            opts DtUtf8 CStr sr_events rows, opts DtUtf8 CStr sr_links rows, opts DtUtf8 CStr sr_trace_state rows,
            vals DtUInt32 CU32 sr_flags rows] @
           build_promoted_columns J keys (map sr_attributes rows))))))"

definition scalar_metrics_rows_to_batch ::
  "text_env \<Rightarrow> scalar_metric_row list \<Rightarrow> string list \<Rightarrow> error + rec_batch" where
  "scalar_metrics_rows_to_batch J rows keys =
     try_new (build_batch_err ''scalar-metric'' arrow_str) (metric_scalar_schema keys)
       ([vals DtTimestamp CTime sm_time_unix_nano rows, opts DtTimestamp CTime sm_start_time_unix_nano rows,
         vals DtUtf8 CStr sm_metric rows, vals DtUtf8 CStr sm_unit rows, opts DtDictUtf8 CStr sm_service rows,
         vals DtUtf8 CStr sm_attributes rows, vals DtDictUtf8 CStr sm_resource rows,
         vals DtDictUtf8 CStr sm_scope rows, vals DtUInt32 CU32 sm_flags rows, vals DtFloat64 CF64 sm_value rows,
         opts DtUtf8 CStr sm_temporality rows, opts DtBoolean CBool sm_is_monotonic rows,
         vals DtUtf8 CStr sm_exemplars rows] @
        build_promoted_columns J keys (map sm_attributes rows))"

definition histogram_rows_to_batch ::
  "text_env \<Rightarrow> histogram_row list \<Rightarrow> string list \<Rightarrow> error + rec_batch" where
  "histogram_rows_to_batch J rows keys =
     try_new (build_batch_err ''histogram'' arrow_str) (histogram_schema keys)
       ([vals DtTimestamp CTime hr_time_unix_nano rows, opts DtTimestamp CTime hr_start_time_unix_nano rows,
         vals DtUtf8 CStr hr_metric rows, vals DtUtf8 CStr hr_unit rows, opts DtDictUtf8 CStr hr_service rows,
         vals DtUtf8 CStr hr_attributes rows, vals DtDictUtf8 CStr hr_resource rows,
         vals DtDictUtf8 CStr hr_scope rows, vals DtUInt32 CU32 hr_flags rows, vals DtUInt64 CU64 hr_count rows,
         opts DtFloat64 CF64 hr_sum rows, opts DtFloat64 CF64 hr_min rows, opts DtFloat64 CF64 hr_max rows,
         vals (DtList DtFloat64) floats hr_explicit_bounds rows, vals (DtList DtUInt64) counts hr_bucket_counts rows,
         opts DtUtf8 CStr hr_temporality rows, vals DtUtf8 CStr hr_exemplars rows] @
        build_promoted_columns J keys (map hr_attributes rows))"

definition exp_histogram_rows_to_batch ::
  "text_env \<Rightarrow> exp_histogram_row list \<Rightarrow> string list \<Rightarrow> error + rec_batch" where
  "exp_histogram_rows_to_batch J rows keys =
     try_new (build_batch_err ''exp-histogram'' arrow_str) (exp_histogram_schema keys)
       ([vals DtTimestamp CTime er_time_unix_nano rows, opts DtTimestamp CTime er_start_time_unix_nano rows,
         vals DtUtf8 CStr er_metric rows, vals DtUtf8 CStr er_unit rows, opts DtDictUtf8 CStr er_service rows,
         vals DtUtf8 CStr er_attributes rows, vals DtDictUtf8 CStr er_resource rows,
         vals DtDictUtf8 CStr er_scope rows, vals DtUInt32 CU32 er_flags rows, vals DtUInt64 CU64 er_count rows,
         opts DtFloat64 CF64 er_sum rows, opts DtFloat64 CF64 er_min rows, opts DtFloat64 CF64 er_max rows,
         vals DtInt32 CI32 er_scale rows, vals DtUInt64 CU64 er_zero_count rows,
         vals DtFloat64 CF64 er_zero_threshold rows, vals DtInt32 CI32 er_positive_offset rows,
         vals (DtList DtUInt64) counts er_positive_counts rows, vals DtInt32 CI32 er_negative_offset rows,
         vals (DtList DtUInt64) counts er_negative_counts rows, opts DtUtf8 CStr er_temporality rows,
         vals DtUtf8 CStr er_exemplars rows] @
        build_promoted_columns J keys (map er_attributes rows))"

definition summary_rows_to_batch ::
  "text_env \<Rightarrow> summary_row list \<Rightarrow> string list \<Rightarrow> error + rec_batch" where
  "summary_rows_to_batch J rows keys =
     try_new (build_batch_err ''summary'' arrow_str) (summary_schema keys)
       ([vals DtTimestamp CTime su_time_unix_nano rows, opts DtTimestamp CTime su_start_time_unix_nano rows,
         vals DtUtf8 CStr su_metric rows, vals DtUtf8 CStr su_unit rows, opts DtDictUtf8 CStr su_service rows,
         vals DtUtf8 CStr su_attributes rows, vals DtDictUtf8 CStr su_resource rows,
         vals DtDictUtf8 CStr su_scope rows, vals DtUInt32 CU32 su_flags rows, vals DtUInt64 CU64 su_count rows,
         vals DtFloat64 CF64 su_sum rows, vals (DtList DtFloat64) floats su_quantiles rows,
         vals (DtList DtFloat64) floats su_values rows, nulls DtUtf8 (length rows)] @
        build_promoted_columns J keys (map su_attributes rows))"

subsection \<open>Rewriting a batch under other promoted keys\<close>

text \<open>\<open>segment_schema_lags\<close>, on the schema its footer gives.\<close>

definition schema_lags :: "schema \<Rightarrow> string list \<Rightarrow> bool" where
  "schema_lags s keys \<longleftrightarrow>
     keys \<noteq> [] \<and> list_ex (\<lambda>k. index_of s k = None) (promoted_columns keys)"

type_synonym cast_fn = "arr \<Rightarrow> data_type \<Rightarrow> arr option"

definition coerce_column :: "cast_fn \<Rightarrow> rec_batch \<Rightarrow> field_def \<Rightarrow> error + arr" where
  "coerce_column cast b f =
     (case index_of (b_schema b) (f_name f) of
        Some i \<Rightarrow>
          (let col = b_columns b ! i in
           if a_type col = f_type f then Inr col
           else ok_or (storage_ctx (''coerce `'' @ f_name f @ ''`'') arrow_str) (cast col (f_type f)))
      | None \<Rightarrow>
          if f_nullable f then Inr (nulls (f_type f) (num_rows b))
          else Inl (storage_msg (''segment is missing non-nullable column `'' @ f_name f @ ''`'')))"

fun coerce_columns :: "cast_fn \<Rightarrow> rec_batch \<Rightarrow> schema \<Rightarrow> error + arr list" where
  "coerce_columns cast b [] = Inr []"
| "coerce_columns cast b (f # fs) =
     bind_err (coerce_column cast b f) (\<lambda>c. bind_err (coerce_columns cast b fs) (\<lambda>cs. Inr (c # cs)))"

definition coerce_to_schema :: "cast_fn \<Rightarrow> rec_batch \<Rightarrow> schema \<Rightarrow> error + rec_batch" where
  "coerce_to_schema cast b s =
     (if b_schema b = s then Inr b
      else bind_err (coerce_columns cast b s)
        (\<lambda>cs. try_new (storage_ctx ''coerce batch to canonical schema'' arrow_str) s cs))"

definition attr_text :: "cell option \<Rightarrow> string" where
  "attr_text c = (case c of Some (CStr s) \<Rightarrow> s | _ \<Rightarrow> ''{}'')"

definition set_column :: "schema \<Rightarrow> arr list \<Rightarrow> string \<times> arr \<Rightarrow> arr list" where
  "set_column s cs x = (case index_of s (fst x) of Some i \<Rightarrow> cs[i := snd x] | None \<Rightarrow> cs)"

definition backfill_promoted :: "text_env \<Rightarrow> rec_batch \<Rightarrow> string list \<Rightarrow> error + rec_batch" where
  "backfill_promoted J b missing =
     (if missing = [] then Inr b
      else
        case index_of (b_schema b) ''attributes'' of
          None \<Rightarrow> Inr b
        | Some i \<Rightarrow>
            if a_type (b_columns b ! i) \<noteq> DtUtf8
            then Inl (storage_msg ''compaction: `attributes` is not a StringArray'')
            else
              let texts = map attr_text (a_cells (b_columns b ! i));
                  built = build_promoted_columns J missing texts
              in try_new (storage_ctx ''compaction: rebuild batch with projected columns'' arrow_str) (b_schema b)
                   (foldl (set_column (b_schema b)) (b_columns b) (zip (promoted_columns missing) built)))"

text \<open>What the rewriting loops do to each batch of a source segment.\<close>

definition rewrite_batch :: "text_env \<Rightarrow> cast_fn \<Rightarrow> table \<Rightarrow> string list \<Rightarrow> rec_batch \<Rightarrow> error + rec_batch" where
  "rewrite_batch J cast t keys b =
     (let missing = filter (\<lambda>k. index_of (b_schema b) k = None) keys in
      bind_err (coerce_to_schema cast b (table_schema t keys)) (\<lambda>c. backfill_promoted J c missing))"

end
