(* ===== verification/Arrow_Rewrite.thy ===== *)
theory Arrow_Rewrite
  imports Arrow_Schema
begin

text \<open>
  Every encoded batch passes the checks of \<open>RecordBatch::try_new\<close>, and rewriting a batch under other
  promoted keys gives the batch that encoding its rows under those keys gives.
\<close>

subsection \<open>Names and columns\<close>

lemma set_promoted_loop:
  "set (fold (\<lambda>k out. if k \<notin> set RESERVED_COLUMNS \<and> k \<notin> set out then out @ [k] else out) keys out) =
     set out \<union> (set keys - set RESERVED_COLUMNS)"
  by (induction keys arbitrary: out) auto

lemma distinct_promoted_loop:
  "distinct out \<Longrightarrow>
     distinct (fold (\<lambda>k out. if k \<notin> set RESERVED_COLUMNS \<and> k \<notin> set out then out @ [k] else out) keys out)"
  by (induction keys arbitrary: out) auto

lemma set_promoted_columns [simp]: "set (promoted_columns keys) = set keys - set RESERVED_COLUMNS"
  by (simp add: promoted_columns_def set_promoted_loop)

lemma distinct_promoted_columns [simp]: "distinct (promoted_columns keys)"
  by (simp add: promoted_columns_def distinct_promoted_loop)

lemma index_of_None: "index_of s n = None \<longleftrightarrow> n \<notin> f_name ` set s"
  by (induction s) auto

lemma index_of_column:
  "length cs = length s \<Longrightarrow> map_option ((!) cs) (index_of s n) = map_of (zip (map f_name s) cs) n"
proof (induction s arbitrary: cs)
  case (Cons f s)
  then obtain c cs' where cs: "cs = c # cs'" "length cs' = length s" by (cases cs) auto
  have "map_option ((!) (c # cs')) (map_option Suc (index_of s n)) = map_option ((!) cs') (index_of s n)"
    by (simp add: option.map_comp comp_def)
  with Cons.IH [OF cs(2)] cs(1) show ?case by simp
qed simp

lemma map_of_zip_map: "map_of (zip xs (map g xs)) k = (if k \<in> set xs then Some (g k) else None)"
  by (induction xs) auto

lemma names_with_promoted [simp]: "map f_name (with_promoted fs keys) = map f_name fs @ promoted_columns keys"
  by (simp add: with_promoted_def nul_def comp_def)

lemma set_names_with_promoted: "f_name ` set (with_promoted fs keys) = f_name ` set fs \<union> (set keys - set RESERVED_COLUMNS)"
proof -
  have "set (map f_name (with_promoted fs keys)) = set (map f_name fs @ promoted_columns keys)" by (simp only: names_with_promoted)
  then show ?thesis by (simp only: set_map set_append set_promoted_columns)
qed

subsection \<open>A table as it is built\<close>

text \<open>The fixed columns of a table hold the checks, their names are reserved and distinct, and the
  attributes column has the texts the promoted columns are projected from.\<close>

definition fixed_ok :: "schema \<Rightarrow> arr list \<Rightarrow> string list \<Rightarrow> bool" where
  "fixed_ok fs cols texts \<longleftrightarrow>
     fs \<noteq> [] \<and> distinct (map f_name fs) \<and> f_name ` set fs \<subseteq> set RESERVED_COLUMNS \<and>
     list_all2 (column_ok (length texts)) fs cols \<and>
     (\<exists>c. map_of (zip (map f_name fs) cols) ''attributes'' = Some c \<and> a_type c = DtUtf8 \<and>
        map attr_text (a_cells c) = texts)"

definition promoted_column :: "text_env \<Rightarrow> string list \<Rightarrow> string \<Rightarrow> arr" where
  "promoted_column J texts k =
     \<lparr>a_type = DtDictUtf8, a_cells = map (\<lambda>s. map_option CStr (lookup_promoted J s k)) texts\<rparr>"

definition built :: "text_env \<Rightarrow> schema \<Rightarrow> arr list \<Rightarrow> string list \<Rightarrow> string list \<Rightarrow> rec_batch" where
  "built J fs cols texts keys =
     \<lparr>b_schema = with_promoted fs keys, b_columns = cols @ map (promoted_column J texts) (promoted_columns keys)\<rparr>"

lemma build_promoted_eq: "build_promoted_columns J keys texts = map (promoted_column J texts) (promoted_columns keys)"
  by (simp add: build_promoted_columns_def promoted_column_def)

lemma promoted_column_ok [simp]: "column_ok (length texts) (nul k DtDictUtf8) (promoted_column J texts k)"
  by (simp add: column_ok_def nul_def promoted_column_def)

lemma columns_ok:
  assumes "fixed_ok fs cols texts" "\<And>k. column_ok (length texts) (nul k DtDictUtf8) (g k)"
  shows "list_all2 (column_ok (length texts)) (with_promoted fs keys) (cols @ map g (promoted_columns keys))"
proof -
  have "list_all2 (column_ok (length texts)) (map (\<lambda>n. nul n DtDictUtf8) (promoted_columns keys)) (map g (promoted_columns keys))"
    by (simp add: list_all2_conv_all_nth assms(2))
  then show ?thesis using assms(1) unfolding fixed_ok_def with_promoted_def by (intro list_all2_appendI) simp_all
qed

lemmas built_columns_ok = columns_ok [OF _ promoted_column_ok]

lemma try_new_built:
  assumes "list_all2 (column_ok n) s cs" "cs \<noteq> []"
  shows "try_new err s cs = Inr \<lparr>b_schema = s, b_columns = cs\<rparr>"
proof -
  obtain c r where c: "cs = c # r" using assms(2) by (cases cs) auto
  with assms(1) have "length (a_cells c) = n" by (auto simp: list_all2_Cons2 column_ok_def)
  with assms c show ?thesis by (simp add: try_new_def)
qed

lemma fixed_ok_nonempty: "fixed_ok fs cols texts \<Longrightarrow> cols \<noteq> []"
  by (auto simp: fixed_ok_def)

lemma fixed_ok_length: "fixed_ok fs cols texts \<Longrightarrow> length cols = length fs"
  by (auto simp: fixed_ok_def dest: list_all2_lengthD)

lemma try_new_fixed:
  assumes "fixed_ok fs cols texts"
  shows "try_new err (with_promoted fs keys) (cols @ build_promoted_columns J keys texts) = Inr (built J fs cols texts keys)"
  using try_new_built [OF built_columns_ok [OF assms]] fixed_ok_nonempty [OF assms]
  by (simp add: build_promoted_eq built_def)

lemma built_distinct: "fixed_ok fs cols texts \<Longrightarrow> distinct (map f_name (with_promoted fs keys))"
  by (auto simp: fixed_ok_def)

lemma built_rows: "fixed_ok fs cols texts \<Longrightarrow> num_rows (built J fs cols texts keys) = length texts"
  by (cases cols) (auto simp: fixed_ok_def num_rows_def built_def list_all2_Cons2 column_ok_def)

lemma built_lookup:
  assumes ok: "fixed_ok fs cols texts"
  shows "map_option ((!) (b_columns (built J fs cols texts keys))) (index_of (b_schema (built J fs cols texts keys)) n) =
    (if n \<in> f_name ` set fs then map_of (zip (map f_name fs) cols) n
     else if n \<in> set (promoted_columns keys) then Some (promoted_column J texts n) else None)"
proof -
  have len: "length cols = length fs" by (rule fixed_ok_length [OF ok])
  have disj: "f_name ` set fs \<inter> set (promoted_columns keys) = {}" using ok by (auto simp: fixed_ok_def)
  have "map_option ((!) (b_columns (built J fs cols texts keys))) (index_of (b_schema (built J fs cols texts keys)) n) =
      map_of (zip (map f_name fs) cols @ zip (promoted_columns keys) (map (promoted_column J texts) (promoted_columns keys))) n"
    using index_of_column [of "b_columns (built J fs cols texts keys)" "with_promoted fs keys" n] len
    by (simp add: built_def with_promoted_def comp_def nul_def)
  moreover have "map_of (zip (map f_name fs) cols) n = None" if "n \<notin> f_name ` set fs"
    using that len by (simp add: map_of_zip_is_None)
  moreover have "map_of (zip (map f_name fs) cols) n \<noteq> None" if "n \<in> f_name ` set fs"
    using that len by (simp add: map_of_zip_is_None)
  ultimately show ?thesis
    by (cases "n \<in> f_name ` set fs") (simp_all add: map_of_zip_map map_add_def del: set_promoted_columns split: option.split)
qed

subsection \<open>Coercion\<close>

lemma coerce_columns_map:
  "(\<And>f. f \<in> set s \<Longrightarrow> coerce_column cast b f = Inr (g f)) \<Longrightarrow> coerce_columns cast b s = Inr (map g s)"
  by (induction s) simp_all

lemma coerce_column_lookup:
  assumes "map_option ((!) (b_columns b)) (index_of (b_schema b) (f_name f)) = Some c" "a_type c = f_type f"
  shows "coerce_column cast b f = Inr c"
  using assms by (auto simp: coerce_column_def Let_def)

lemma coerce_column_missing:
  "index_of (b_schema b) (f_name f) = None \<Longrightarrow> f_nullable f \<Longrightarrow> coerce_column cast b f = Inr (nulls (f_type f) (num_rows b))"
  by (simp add: coerce_column_def)

text \<open>The columns a coerced batch has.\<close>

definition null_filled :: "text_env \<Rightarrow> string list \<Rightarrow> string list \<Rightarrow> string \<Rightarrow> arr" where
  "null_filled J texts old k =
     (if k \<in> set (promoted_columns old) then promoted_column J texts k else nulls DtDictUtf8 (length texts))"

lemma fixed_lookup:
  assumes ok: "fixed_ok fs cols texts" and f: "f \<in> set fs"
  shows "\<exists>c. map_of (zip (map f_name fs) cols) (f_name f) = Some c \<and> a_type c = f_type f"
proof -
  obtain i where i: "i < length fs" "f = fs ! i" using f by (metis in_set_conv_nth)
  have len: "length cols = length fs" by (rule fixed_ok_length [OF ok])
  have "map_of (zip (map f_name fs) cols) (map f_name fs ! i) = Some (cols ! i)"
    using ok i len by (intro map_of_zip_nth) (auto simp: fixed_ok_def)
  moreover have "column_ok (length texts) (fs ! i) (cols ! i)"
    using ok i by (auto simp: fixed_ok_def list_all2_conv_all_nth)
  ultimately show ?thesis using i by (auto simp: column_ok_def)
qed

lemma coerce_built:
  assumes ok: "fixed_ok fs cols texts"
  shows "coerce_columns cast (built J fs cols texts old) (with_promoted fs new) =
    Inr (cols @ map (null_filled J texts old) (promoted_columns new))" (is "coerce_columns cast ?b _ = _")
proof -
  let ?g = "\<lambda>f. if f_name f \<in> f_name ` set fs then the (map_of (zip (map f_name fs) cols) (f_name f))
    else null_filled J texts old (f_name f)"
  have len: "length cols = length fs" by (rule fixed_ok_length [OF ok])
  have disj: "f_name ` set fs \<inter> set (promoted_columns new) = {}" using ok by (auto simp: fixed_ok_def)
  have "coerce_column cast ?b f = Inr (?g f)" if "f \<in> set (with_promoted fs new)" for f
  proof (cases "f \<in> set fs")
    case True
    from fixed_lookup [OF ok True] obtain c where
      "map_of (zip (map f_name fs) cols) (f_name f) = Some c" "a_type c = f_type f" by blast
    then show ?thesis using True built_lookup [OF ok, of J old "f_name f"]
      by (intro coerce_column_lookup [THEN trans]) auto
  next
    case False
    with that have "f \<in> (\<lambda>n. nul n DtDictUtf8) ` set (promoted_columns new)" by (simp add: with_promoted_def)
    then obtain k where k: "f = nul k DtDictUtf8" "k \<in> set (promoted_columns new)" by blast
    with disj have nk: "k \<notin> f_name ` set fs" by blast
    note look = built_lookup [OF ok, of J old k]
    show ?thesis
    proof (cases "k \<in> set (promoted_columns old)")
      case True
      then show ?thesis using look nk k
        by (intro coerce_column_lookup [THEN trans]) (auto simp: nul_def null_filled_def promoted_column_def)
    next
      case False
      then have "map_option ((!) (b_columns ?b)) (index_of (b_schema ?b) k) = None" unfolding look using nk by (simp only: if_False)
      then have "index_of (b_schema ?b) k = None" by (simp only: option.map_disc_iff)
      then show ?thesis using False nk k built_rows [OF ok]
        by (intro coerce_column_missing [THEN trans]) (auto simp: nul_def null_filled_def)
    qed
  qed
  then have "coerce_columns cast ?b (with_promoted fs new) = Inr (map ?g (with_promoted fs new))"
    by (rule coerce_columns_map)
  moreover have "map ?g fs = cols"
  proof (rule nth_equalityI)
    fix i assume i: "i < length (map ?g fs)"
    then have "map_of (zip (map f_name fs) cols) (map f_name fs ! i) = Some (cols ! i)"
      using ok len by (intro map_of_zip_nth) (auto simp: fixed_ok_def)
    then show "map ?g fs ! i = cols ! i" using i by simp
  qed (simp add: len)
  moreover have "map ?g (map (\<lambda>n. nul n DtDictUtf8) (promoted_columns new)) = map (null_filled J texts old) (promoted_columns new)"
    using disj by (auto simp: nul_def)
  ultimately show ?thesis by (simp add: with_promoted_def)
qed

lemma coerced_built:
  assumes ok: "fixed_ok fs cols texts"
  shows "coerce_to_schema cast (built J fs cols texts old) (with_promoted fs new) =
    Inr \<lparr>b_schema = with_promoted fs new, b_columns = cols @ map (null_filled J texts old) (promoted_columns new)\<rparr>"
proof (cases "with_promoted fs old = with_promoted fs new")
  case True
  have "map f_name (with_promoted fs old) = map f_name (with_promoted fs new)" by (simp only: True)
  then have "promoted_columns old = promoted_columns new" unfolding names_with_promoted by simp
  then show ?thesis using True by (simp add: coerce_to_schema_def built_def null_filled_def)
next
  case False
  have "list_all2 (column_ok (length texts)) (with_promoted fs new)
      (cols @ map (null_filled J texts old) (promoted_columns new))"
    by (rule columns_ok [OF ok]) (simp add: null_filled_def column_ok_def nulls_def nul_def promoted_column_def)
  note t = try_new_built [OF this]
  have "b_schema (built J fs cols texts old) \<noteq> with_promoted fs new" using False by (simp add: built_def)
  then show ?thesis using t fixed_ok_nonempty [OF ok] by (simp add: coerce_to_schema_def coerce_built [OF ok])
qed

subsection \<open>Back-filling\<close>

lemma set_column_map2:
  "distinct (map f_name s) \<Longrightarrow> length cs = length s \<Longrightarrow>
     set_column s cs (k, a) = map2 (\<lambda>f c. if f_name f = k then a else c) s cs"
proof (induction s arbitrary: cs)
  case (Cons f s)
  then obtain c cs' where cs: "cs = c # cs'" "length cs' = length s" by (cases cs) auto
  have same: "map2 (\<lambda>f c. if f_name f = k then a else c) s cs' = cs'" if "k \<notin> f_name ` set s"
    using that cs(2) by (intro nth_equalityI) auto
  show ?case
  proof (cases "f_name f = k")
    case True
    with Cons.prems(1) same cs show ?thesis by (simp add: set_column_def)
  next
    case False
    have "set_column (f # s) cs (k, a) = c # set_column s cs' (k, a)"
      using False cs by (simp add: set_column_def split: option.split)
    with False Cons.IH [of cs'] Cons.prems(1) cs show ?thesis by simp
  qed
qed (simp add: set_column_def)

lemma map2_map2: "length cs = length s \<Longrightarrow> map2 f s (map2 g s cs) = map2 (\<lambda>x c. f x (g x c)) s cs"
  by (induction cs s rule: list_induct2) simp_all

lemma set_columns_map2:
  assumes "distinct (map f_name s)" "length cs = length s"
  shows "foldl (set_column s) cs (zip xs (map g xs)) = map2 (\<lambda>f c. if f_name f \<in> set xs then g (f_name f) else c) s cs"
  using assms(2)
proof (induction xs arbitrary: cs)
  case Nil
  then show ?case by (intro nth_equalityI) simp_all
next
  case (Cons k xs)
  have "foldl (set_column s) cs (zip (k # xs) (map g (k # xs))) =
      map2 (\<lambda>f c. if f_name f \<in> set xs then g (f_name f) else c) s (map2 (\<lambda>f c. if f_name f = k then g k else c) s cs)"
    using Cons by (simp add: set_column_map2 [OF assms(1) Cons.prems])
  also have "\<dots> = map2 (\<lambda>f c. if f_name f \<in> set (k # xs) then g (f_name f) else c) s cs"
    unfolding map2_map2 [OF Cons.prems] by (auto intro!: map_cong)
  finally show ?case .
qed

lemma rewrite_built:
  assumes ok: "fixed_ok fs cols texts"
  shows "bind_err (coerce_to_schema cast (built J fs cols texts old) (with_promoted fs new))
      (\<lambda>c. backfill_promoted J c (filter (\<lambda>k. index_of (b_schema (built J fs cols texts old)) k = None) new)) =
    Inr (built J fs cols texts new)"
proof -
  let ?s = "with_promoted fs new"
  let ?m = "filter (\<lambda>k. index_of (b_schema (built J fs cols texts old)) k = None) new"
  let ?cs = "cols @ map (null_filled J texts old) (promoted_columns new)"
  let ?c = "\<lparr>b_schema = ?s, b_columns = ?cs\<rparr>"
  have len: "length cols = length fs" by (rule fixed_ok_length [OF ok])
  have res: "f_name ` set fs \<subseteq> set RESERVED_COLUMNS" using ok by (simp add: fixed_ok_def)
  have m: "set (promoted_columns ?m) = {k \<in> set (promoted_columns new). k \<notin> set (promoted_columns old)}"
    using res by (auto simp: index_of_None built_def set_names_with_promoted)
  obtain c where c: "map_of (zip (map f_name fs) cols) ''attributes'' = Some c" "a_type c = DtUtf8"
    "map attr_text (a_cells c) = texts" using ok by (auto simp: fixed_ok_def)
  have lens: "length ?cs = length ?s" using len by (simp add: with_promoted_def)
  have "map_option ((!) ?cs) (index_of ?s ''attributes'') = Some c"
  proof -
    have "''attributes'' \<in> set RESERVED_COLUMNS" by (simp add: RESERVED_COLUMNS_def)
    then have "''attributes'' \<notin> set (promoted_columns new)" by simp
    then have "map_of (zip (promoted_columns new) (map (null_filled J texts old) (promoted_columns new))) ''attributes'' = None"
      by (simp only: map_of_zip_map if_False)
    then show ?thesis
      unfolding index_of_column [OF lens] names_with_promoted using c(1) len by (simp add: map_add_def)
  qed
  then obtain i where i: "index_of ?s ''attributes'' = Some i" "?cs ! i = c" by auto
  have final: "map2 (\<lambda>f c. if f_name f \<in> set (promoted_columns ?m) then promoted_column J texts (f_name f) else c) ?s ?cs =
      cols @ map (promoted_column J texts) (promoted_columns new)"
  proof -
    have a: "map2 (\<lambda>f c. if f_name f \<in> set (promoted_columns ?m) then promoted_column J texts (f_name f) else c) fs cols = cols"
    proof (rule nth_equalityI)
      fix i assume "i < length (map2 (\<lambda>f c. if f_name f \<in> set (promoted_columns ?m) then promoted_column J texts (f_name f) else c) fs cols)"
      then have i: "i < length fs" using len by simp
      then have "f_name (fs ! i) \<in> set RESERVED_COLUMNS" using res by auto
      then have "f_name (fs ! i) \<notin> set (promoted_columns ?m)" by simp
      then show "map2 (\<lambda>f c. if f_name f \<in> set (promoted_columns ?m) then promoted_column J texts (f_name f) else c) fs cols ! i = cols ! i"
        using i len by (simp del: set_promoted_columns)
    qed (simp add: len)
    have "map2 (\<lambda>f c. if f_name f \<in> set (promoted_columns ?m) then promoted_column J texts (f_name f) else c)
        (map (\<lambda>n. nul n DtDictUtf8) (promoted_columns new)) (map (null_filled J texts old) (promoted_columns new)) =
      map (promoted_column J texts) (promoted_columns new)"
      using m by (auto simp: zip_map_map zip_same_conv_map nul_def null_filled_def)
    with a len show ?thesis by (simp add: with_promoted_def)
  qed
  have "backfill_promoted J ?c ?m = Inr (built J fs cols texts new)"
  proof (cases "?m = []")
    case True
    then have "null_filled J texts old k = promoted_column J texts k" if "k \<in> set (promoted_columns new)" for k
      using m that by (auto simp: null_filled_def promoted_columns_def)
    then show ?thesis using True by (simp add: backfill_promoted_def built_def)
  next
    case False
    have "backfill_promoted J ?c ?m =
        try_new (storage_ctx ''compaction: rebuild batch with projected columns'' arrow_str) ?s
          (foldl (set_column ?s) ?cs (zip (promoted_columns ?m) (map (promoted_column J texts) (promoted_columns ?m))))"
      using False i c by (simp add: backfill_promoted_def build_promoted_eq Let_def)
    also have "\<dots> = try_new (storage_ctx ''compaction: rebuild batch with projected columns'' arrow_str) ?s
        (cols @ build_promoted_columns J new texts)"
      unfolding set_columns_map2 [OF built_distinct [OF ok] lens] final build_promoted_eq ..
    finally show ?thesis using try_new_fixed [OF ok] by simp
  qed
  then show ?thesis unfolding coerced_built [OF ok] by simp
qed

subsection \<open>The six tables\<close>

lemma fixed_binary_eq:
  "fixed_binary err n f rows =
     (if \<forall>r \<in> set rows. \<forall>b. f r = Some b \<longrightarrow> length b = n then Inr (opts (DtFixedSizeBinary n) CBytes f rows) else Inl err)"
  unfolding fixed_binary_def list_all_iff by (auto split: option.splits)

lemmas table_encoders = log_rows_to_batch_def spans_rows_to_batch_def scalar_metrics_rows_to_batch_def
  histogram_rows_to_batch_def exp_histogram_rows_to_batch_def summary_rows_to_batch_def

lemmas array_simps = vals_def opts_def nulls_def column_ok_def req_def nul_def attr_text_def comp_def

definition log_ids :: "log_row \<Rightarrow> bool" where
  "log_ids r \<longleftrightarrow> (\<forall>b. lr_trace_id r = Some b \<longrightarrow> length b = 16) \<and> (\<forall>b. lr_span_id r = Some b \<longrightarrow> length b = 8)"

definition span_ids :: "span_row \<Rightarrow> bool" where
  "span_ids r \<longleftrightarrow> length (sr_trace_id r) = 16 \<and> length (sr_span_id r) = 8 \<and>
     (\<forall>b. sr_parent_span_id r = Some b \<longrightarrow> length b = 8)"

text \<open>An encoder: on rows whose identifiers have their length it gives the batch that has the fixed
  columns of its table and the promoted ones; on others it fails.\<close>

definition encodes :: "text_env \<Rightarrow> schema \<Rightarrow> ('r \<Rightarrow> string) \<Rightarrow> ('r \<Rightarrow> bool) \<Rightarrow> ('r list \<Rightarrow> string list \<Rightarrow> error + rec_batch) \<Rightarrow> bool" where
  "encodes J fs attrs ids enc \<longleftrightarrow>
     (\<forall>rows. \<exists>cols err. fixed_ok fs cols (map attrs rows) \<and>
        (\<forall>keys. enc rows keys = (if \<forall>r \<in> set rows. ids r then Inr (built J fs cols (map attrs rows) keys) else Inl err)))"

end
