(* ===== verification/Arrow_Properties.thy ===== *)
theory Arrow_Properties
  imports Arrow_Rewrite
begin

text \<open>
  The properties of the columns: every table's encoder gives a batch of its schema, and compaction's
  rewrite of a batch is the encoding of its rows under the present promoted keys.
\<close>

lemma fixedI:
  assumes "fs \<noteq> []" "distinct (map f_name fs)" "list_all (\<lambda>f. f_name f \<in> set RESERVED_COLUMNS) fs"
    "list_all2 (column_ok (length texts)) fs cols"
    "map_of (zip (map f_name fs) cols) ''attributes'' = Some c" "a_type c = DtUtf8" "map attr_text (a_cells c) = texts"
  shows "fixed_ok fs cols texts"
  using assms by (auto simp: fixed_ok_def list_all_iff)

lemma reserved_fields:
  "list_all (\<lambda>f. f_name f \<in> set RESERVED_COLUMNS) logs_fields" "distinct (map f_name logs_fields)" "logs_fields \<noteq> []"
  "list_all (\<lambda>f. f_name f \<in> set RESERVED_COLUMNS) spans_fields" "distinct (map f_name spans_fields)" "spans_fields \<noteq> []"
  "list_all (\<lambda>f. f_name f \<in> set RESERVED_COLUMNS) scalar_fields" "distinct (map f_name scalar_fields)" "scalar_fields \<noteq> []"
  "list_all (\<lambda>f. f_name f \<in> set RESERVED_COLUMNS) histogram_fields" "distinct (map f_name histogram_fields)"
  "histogram_fields \<noteq> []"
  "list_all (\<lambda>f. f_name f \<in> set RESERVED_COLUMNS) exp_histogram_fields" "distinct (map f_name exp_histogram_fields)"
  "exp_histogram_fields \<noteq> []"
  "list_all (\<lambda>f. f_name f \<in> set RESERVED_COLUMNS) summary_fields" "distinct (map f_name summary_fields)" "summary_fields \<noteq> []"
  by code_simp+

lemma vals_ok [simp]:
  "column_ok (length rows) (req n t) (vals t c f rows)" "column_ok (length rows) (nul n t) (vals t c f rows)"
  by (auto simp: array_simps)

lemma opts_ok [simp]:
  "column_ok (length rows) (nul n t) (opts t c g rows)" "column_ok (length rows) (nul n t) (nulls t (length rows))"
  "column_ok (length rows) (req n t) (opts t c (Some \<circ> f) rows)"
  by (auto simp: array_simps)

lemma vals_texts [simp]:
  "a_type (vals t c f rows) = t" "map attr_text (a_cells (vals t CStr f rows)) = map f rows"
  by (simp_all add: array_simps)

lemma fixed_cols:
  assumes "list_all (\<lambda>f. f_name f \<in> set RESERVED_COLUMNS) fs" "distinct (map f_name fs)" "fs \<noteq> []"
    "list_all2 (column_ok (length rows)) fs cols"
    "map_of (zip (map f_name fs) cols) ''attributes'' = Some (vals DtUtf8 CStr at rows)"
  shows "fixed_ok fs cols (map at rows)"
  by (rule fixedI [OF assms(3,2,1) _ assms(5)]) (simp_all add: assms(4))

subsection \<open>The fixed columns of each table\<close>

definition log_cols :: "log_row list \<Rightarrow> arr list" where
  "log_cols rows =
     [vals DtTimestamp CTime lr_time_unix_nano rows, opts DtTimestamp CTime lr_observed_time_unix_nano
      rows, opts DtDictUtf8 CStr lr_service rows, vals DtUInt8 CU8 lr_severity_number rows, opts DtUtf8
      CStr lr_severity_text rows, vals DtUtf8 CStr lr_body rows, vals DtUtf8 CStr lr_attributes rows,
      vals DtDictUtf8 CStr lr_resource rows, vals DtDictUtf8 CStr lr_scope rows, opts (DtFixedSizeBinary
      16) CBytes lr_trace_id rows, opts (DtFixedSizeBinary 8) CBytes lr_span_id rows, vals DtUInt32 CU32
      lr_flags rows]"

lemma log_fixed: "fixed_ok logs_fields (log_cols rows) (map lr_attributes rows)"
proof (rule fixed_cols [OF reserved_fields(1,2,3)])
  show "list_all2 (column_ok (length rows)) logs_fields (log_cols rows)"
    unfolding logs_fields_def log_cols_def by simp
  show "map_of (zip (map f_name logs_fields) (log_cols rows)) ''attributes'' = Some (vals DtUtf8 CStr lr_attributes rows)"
    by (simp add: logs_fields_def log_cols_def req_def nul_def)
qed

definition spans_cols :: "span_row list \<Rightarrow> arr list" where
  "spans_cols rows =
     [opts (DtFixedSizeBinary 16) CBytes (Some \<circ> sr_trace_id) rows, opts (DtFixedSizeBinary 8)
      CBytes (Some \<circ> sr_span_id) rows, opts (DtFixedSizeBinary 8) CBytes sr_parent_span_id rows,
      vals DtUtf8 CStr sr_name rows, vals DtUtf8 CStr sr_kind rows, vals DtTimestamp CTime
      sr_start_time_unix_nano rows, vals DtUInt64 CU64 sr_duration_ns rows, vals DtUtf8 CStr
      sr_status_code rows, opts DtUtf8 CStr sr_status_message rows, opts DtDictUtf8 CStr sr_service
      rows, vals DtUtf8 CStr sr_attributes rows, vals DtDictUtf8 CStr sr_resource rows, vals DtDictUtf8
      CStr sr_scope rows, opts DtUtf8 CStr sr_events rows, opts DtUtf8 CStr sr_links rows, opts DtUtf8
      CStr sr_trace_state rows, vals DtUInt32 CU32 sr_flags rows]"

lemma spans_fixed: "fixed_ok spans_fields (spans_cols rows) (map sr_attributes rows)"
proof (rule fixed_cols [OF reserved_fields(4,5,6)])
  show "list_all2 (column_ok (length rows)) spans_fields (spans_cols rows)"
    unfolding spans_fields_def spans_cols_def by simp
  show "map_of (zip (map f_name spans_fields) (spans_cols rows)) ''attributes'' = Some (vals DtUtf8 CStr sr_attributes rows)"
    by (simp add: spans_fields_def spans_cols_def req_def nul_def)
qed

definition scalar_cols :: "scalar_metric_row list \<Rightarrow> arr list" where
  "scalar_cols rows =
     [vals DtTimestamp CTime sm_time_unix_nano rows, opts DtTimestamp CTime sm_start_time_unix_nano
      rows, vals DtUtf8 CStr sm_metric rows, vals DtUtf8 CStr sm_unit rows, opts DtDictUtf8 CStr
      sm_service rows, vals DtUtf8 CStr sm_attributes rows, vals DtDictUtf8 CStr sm_resource rows, vals
      DtDictUtf8 CStr sm_scope rows, vals DtUInt32 CU32 sm_flags rows, vals DtFloat64 CF64 sm_value
      rows, opts DtUtf8 CStr sm_temporality rows, opts DtBoolean CBool sm_is_monotonic rows, vals DtUtf8
      CStr sm_exemplars rows]"

lemma scalar_fixed: "fixed_ok scalar_fields (scalar_cols rows) (map sm_attributes rows)"
proof (rule fixed_cols [OF reserved_fields(7,8,9)])
  show "list_all2 (column_ok (length rows)) scalar_fields (scalar_cols rows)"
    unfolding scalar_fields_def scalar_cols_def by simp
  show "map_of (zip (map f_name scalar_fields) (scalar_cols rows)) ''attributes'' = Some (vals DtUtf8 CStr sm_attributes rows)"
    by (simp add: scalar_fields_def scalar_cols_def req_def nul_def)
qed

definition histogram_cols :: "histogram_row list \<Rightarrow> arr list" where
  "histogram_cols rows =
     [vals DtTimestamp CTime hr_time_unix_nano rows, opts DtTimestamp CTime hr_start_time_unix_nano
      rows, vals DtUtf8 CStr hr_metric rows, vals DtUtf8 CStr hr_unit rows, opts DtDictUtf8 CStr
      hr_service rows, vals DtUtf8 CStr hr_attributes rows, vals DtDictUtf8 CStr hr_resource rows, vals
      DtDictUtf8 CStr hr_scope rows, vals DtUInt32 CU32 hr_flags rows, vals DtUInt64 CU64 hr_count rows,
      opts DtFloat64 CF64 hr_sum rows, opts DtFloat64 CF64 hr_min rows, opts DtFloat64 CF64 hr_max rows,
      vals (DtList DtFloat64) floats hr_explicit_bounds rows, vals (DtList DtUInt64) counts
      hr_bucket_counts rows, opts DtUtf8 CStr hr_temporality rows, vals DtUtf8 CStr hr_exemplars rows]"

lemma histogram_fixed: "fixed_ok histogram_fields (histogram_cols rows) (map hr_attributes rows)"
proof (rule fixed_cols [OF reserved_fields(10,11,12)])
  show "list_all2 (column_ok (length rows)) histogram_fields (histogram_cols rows)"
    unfolding histogram_fields_def histogram_cols_def by simp
  show "map_of (zip (map f_name histogram_fields) (histogram_cols rows)) ''attributes'' = Some (vals DtUtf8 CStr hr_attributes rows)"
    by (simp add: histogram_fields_def histogram_cols_def req_def nul_def)
qed

definition exp_histogram_cols :: "exp_histogram_row list \<Rightarrow> arr list" where
  "exp_histogram_cols rows =
     [vals DtTimestamp CTime er_time_unix_nano rows, opts DtTimestamp CTime er_start_time_unix_nano
      rows, vals DtUtf8 CStr er_metric rows, vals DtUtf8 CStr er_unit rows, opts DtDictUtf8 CStr
      er_service rows, vals DtUtf8 CStr er_attributes rows, vals DtDictUtf8 CStr er_resource rows, vals
      DtDictUtf8 CStr er_scope rows, vals DtUInt32 CU32 er_flags rows, vals DtUInt64 CU64 er_count rows,
      opts DtFloat64 CF64 er_sum rows, opts DtFloat64 CF64 er_min rows, opts DtFloat64 CF64 er_max rows,
      vals DtInt32 CI32 er_scale rows, vals DtUInt64 CU64 er_zero_count rows, vals DtFloat64 CF64
      er_zero_threshold rows, vals DtInt32 CI32 er_positive_offset rows, vals (DtList DtUInt64) counts
      er_positive_counts rows, vals DtInt32 CI32 er_negative_offset rows, vals (DtList DtUInt64) counts
      er_negative_counts rows, opts DtUtf8 CStr er_temporality rows, vals DtUtf8 CStr er_exemplars rows]"

lemma exp_histogram_fixed: "fixed_ok exp_histogram_fields (exp_histogram_cols rows) (map er_attributes rows)"
proof (rule fixed_cols [OF reserved_fields(13,14,15)])
  show "list_all2 (column_ok (length rows)) exp_histogram_fields (exp_histogram_cols rows)"
    unfolding exp_histogram_fields_def exp_histogram_cols_def by simp
  show "map_of (zip (map f_name exp_histogram_fields) (exp_histogram_cols rows)) ''attributes'' = Some (vals DtUtf8 CStr er_attributes rows)"
    by (simp add: exp_histogram_fields_def exp_histogram_cols_def req_def nul_def)
qed

definition summary_cols :: "summary_row list \<Rightarrow> arr list" where
  "summary_cols rows =
     [vals DtTimestamp CTime su_time_unix_nano rows, opts DtTimestamp CTime su_start_time_unix_nano
      rows, vals DtUtf8 CStr su_metric rows, vals DtUtf8 CStr su_unit rows, opts DtDictUtf8 CStr
      su_service rows, vals DtUtf8 CStr su_attributes rows, vals DtDictUtf8 CStr su_resource rows, vals
      DtDictUtf8 CStr su_scope rows, vals DtUInt32 CU32 su_flags rows, vals DtUInt64 CU64 su_count rows,
      vals DtFloat64 CF64 su_sum rows, vals (DtList DtFloat64) floats su_quantiles rows, vals (DtList
      DtFloat64) floats su_values rows, nulls DtUtf8 (length rows)]"

lemma summary_fixed: "fixed_ok summary_fields (summary_cols rows) (map su_attributes rows)"
proof (rule fixed_cols [OF reserved_fields(16,17,18)])
  show "list_all2 (column_ok (length rows)) summary_fields (summary_cols rows)"
    unfolding summary_fields_def summary_cols_def by simp
  show "map_of (zip (map f_name summary_fields) (summary_cols rows)) ''attributes'' = Some (vals DtUtf8 CStr su_attributes rows)"
    by (simp add: summary_fields_def summary_cols_def req_def nul_def)
qed

subsection \<open>The encoders\<close>

text \<open>Encoding rows of any one table, as the pushes of the engine choose the encoder.\<close>

definition pick :: "(row \<Rightarrow> 'r option) \<Rightarrow> row list \<Rightarrow> 'r list" where
  "pick f rows = List.map_filter f rows"

fun as_log where "as_log (LogRow r) = Some r" | "as_log _ = None"
fun as_span where "as_span (SpanRow r) = Some r" | "as_span _ = None"
fun as_scalar where "as_scalar (ScalarRow r) = Some r" | "as_scalar _ = None"
fun as_histogram where "as_histogram (HistogramRow r) = Some r" | "as_histogram _ = None"
fun as_exp_histogram where "as_exp_histogram (ExpHistogramRow r) = Some r" | "as_exp_histogram _ = None"
fun as_summary where "as_summary (SummaryRow r) = Some r" | "as_summary _ = None"

definition encode_table :: "text_env \<Rightarrow> table \<Rightarrow> row list \<Rightarrow> string list \<Rightarrow> error + rec_batch" where
  "encode_table J t rows keys =
     (case t of
        TLogs \<Rightarrow> log_rows_to_batch J (pick as_log rows) keys
      | TSpans \<Rightarrow> spans_rows_to_batch J (pick as_span rows) keys
      | TMetricsGauge \<Rightarrow> scalar_metrics_rows_to_batch J (pick as_scalar rows) keys
      | TMetricsSum \<Rightarrow> scalar_metrics_rows_to_batch J (pick as_scalar rows) keys
      | TMetricsHistogram \<Rightarrow> histogram_rows_to_batch J (pick as_histogram rows) keys
      | TMetricsExpHistogram \<Rightarrow> exp_histogram_rows_to_batch J (pick as_exp_histogram rows) keys
      | TMetricsSummary \<Rightarrow> summary_rows_to_batch J (pick as_summary rows) keys)"

definition row_ids :: "row \<Rightarrow> bool" where
  "row_ids r = (case r of LogRow l \<Rightarrow> log_ids l | SpanRow s \<Rightarrow> span_ids s | _ \<Rightarrow> True)"

lemma log_encoder:
  "log_rows_to_batch J rows keys =
     (if \<forall>r \<in> set rows. log_ids r then Inr (built J logs_fields (log_cols rows) (map lr_attributes rows) keys)
      else Inl (build_batch_err ''logs'' arrow_str))"
proof (cases "\<forall>r \<in> set rows. log_ids r")
  case True
  then have "log_rows_to_batch J rows keys =
      try_new (build_batch_err ''logs'' arrow_str) (logs_schema keys) (log_cols rows @ build_promoted_columns J keys (map lr_attributes rows))"
    unfolding log_cols_def by (simp add: log_rows_to_batch_def fixed_binary_eq log_ids_def Let_def del: append.simps)
  then show ?thesis using True try_new_fixed [OF log_fixed] by (simp add: logs_schema_def)
next
  case False
  then show ?thesis by (auto simp: log_rows_to_batch_def fixed_binary_eq log_ids_def Let_def bind_err_def simp del: append.simps)
qed

lemma spans_encoder:
  "spans_rows_to_batch J rows keys =
     (if \<forall>r \<in> set rows. span_ids r then Inr (built J spans_fields (spans_cols rows) (map sr_attributes rows) keys)
      else Inl (build_batch_err ''spans'' arrow_str))"
proof (cases "\<forall>r \<in> set rows. span_ids r")
  case True
  then have "spans_rows_to_batch J rows keys =
      try_new (build_batch_err ''spans'' arrow_str) (spans_schema keys) (spans_cols rows @ build_promoted_columns J keys (map sr_attributes rows))"
    unfolding spans_cols_def by (simp add: spans_rows_to_batch_def fixed_binary_eq span_ids_def Let_def del: append.simps)
  then show ?thesis using True try_new_fixed [OF spans_fixed] by (simp add: spans_schema_def)
next
  case False
  then show ?thesis by (auto simp: spans_rows_to_batch_def fixed_binary_eq span_ids_def Let_def bind_err_def simp del: append.simps)
qed

lemma scalar_encoder:
  "scalar_metrics_rows_to_batch J rows keys = Inr (built J scalar_fields (scalar_cols rows) (map sm_attributes rows) keys)"
  unfolding scalar_metrics_rows_to_batch_def metric_scalar_schema_def scalar_cols_def [symmetric] by (rule try_new_fixed [OF scalar_fixed])

lemma histogram_encoder:
  "histogram_rows_to_batch J rows keys = Inr (built J histogram_fields (histogram_cols rows) (map hr_attributes rows) keys)"
  unfolding histogram_rows_to_batch_def histogram_schema_def histogram_cols_def [symmetric] by (rule try_new_fixed [OF histogram_fixed])

lemma exp_histogram_encoder:
  "exp_histogram_rows_to_batch J rows keys = Inr (built J exp_histogram_fields (exp_histogram_cols rows) (map er_attributes rows) keys)"
  unfolding exp_histogram_rows_to_batch_def exp_histogram_schema_def exp_histogram_cols_def [symmetric] by (rule try_new_fixed [OF exp_histogram_fixed])

lemma summary_encoder:
  "summary_rows_to_batch J rows keys = Inr (built J summary_fields (summary_cols rows) (map su_attributes rows) keys)"
  unfolding summary_rows_to_batch_def summary_schema_def summary_cols_def [symmetric] by (rule try_new_fixed [OF summary_fixed])

text \<open>A row of a table.\<close>

definition row_in :: "table \<Rightarrow> row \<Rightarrow> bool" where
  "row_in t r \<longleftrightarrow>
     (case t of
        TLogs \<Rightarrow> as_log r \<noteq> None
      | TSpans \<Rightarrow> as_span r \<noteq> None
      | TMetricsGauge \<Rightarrow> as_scalar r \<noteq> None
      | TMetricsSum \<Rightarrow> as_scalar r \<noteq> None
      | TMetricsHistogram \<Rightarrow> as_histogram r \<noteq> None
      | TMetricsExpHistogram \<Rightarrow> as_exp_histogram r \<noteq> None
      | TMetricsSummary \<Rightarrow> as_summary r \<noteq> None)"

lemma length_pick: "\<forall>r \<in> set rows. \<exists>y. f r = Some y \<Longrightarrow> length (pick f rows) = length rows"
  unfolding pick_def by (induction rows) (auto simp: List.map_filter_simps)

lemma pick_all: "(\<And>r x. r \<in> set rows \<Longrightarrow> f r = Some x \<Longrightarrow> P x) \<Longrightarrow> \<forall>x \<in> set (pick f rows). P x"
  unfolding pick_def by (induction rows) (auto simp: List.map_filter_simps split: option.splits)

lemma as_log_Some: "as_log r = Some x \<longleftrightarrow> r = LogRow x"
  by (cases r) auto

lemma as_span_Some: "as_span r = Some x \<longleftrightarrow> r = SpanRow x"
  by (cases r) auto

lemma encoderI:
  assumes "fixed_ok fs cols texts" "\<And>keys. sch keys = with_promoted fs keys"
    "\<And>keys. enc keys = (if ok then Inr (built J fs cols texts keys) else Inl err)"
    "P \<Longrightarrow> length texts = n" "Q \<Longrightarrow> ok"
  shows "\<exists>fs cols texts ok err. fixed_ok fs cols texts \<and> (\<forall>keys. sch keys = with_promoted fs keys) \<and>
     (\<forall>keys. enc keys = (if ok then Inr (built J fs cols texts keys) else Inl err)) \<and>
     (P \<longrightarrow> length texts = n) \<and> (Q \<longrightarrow> ok)"
  using assms by blast

lemmas encoder_defs = encode_table_def table_schema_def row_in_def

lemma table_encoder:
  "\<exists>fs cols texts ok err. fixed_ok fs cols texts \<and> (\<forall>keys. table_schema t keys = with_promoted fs keys) \<and>
     (\<forall>keys. encode_table J t rows keys = (if ok then Inr (built J fs cols texts keys) else Inl err)) \<and>
     ((\<forall>r \<in> set rows. row_in t r) \<longrightarrow> length texts = length rows) \<and> ((\<forall>r \<in> set rows. row_ids r) \<longrightarrow> ok)"
proof -
  have log: "\<forall>x \<in> set (pick as_log rows). log_ids x" if "\<forall>r \<in> set rows. row_ids r"
    using that by (intro pick_all) (auto simp: as_log_Some row_ids_def)
  have span: "\<forall>x \<in> set (pick as_span rows). span_ids x" if "\<forall>r \<in> set rows. row_ids r"
    using that by (intro pick_all) (auto simp: as_span_Some row_ids_def)
  show ?thesis
  proof (cases t)
    case TLogs
    show ?thesis unfolding TLogs encoder_defs table.case
      by (rule encoderI [OF log_fixed logs_schema_def log_encoder]) (simp_all add: length_pick log)
  next
    case TSpans
    show ?thesis unfolding TSpans encoder_defs table.case
      by (rule encoderI [OF spans_fixed spans_schema_def spans_encoder]) (simp_all add: length_pick span)
  next
    case TMetricsGauge
    show ?thesis unfolding TMetricsGauge encoder_defs table.case
      by (rule encoderI [where ok = True, OF scalar_fixed metric_scalar_schema_def]) (auto simp: scalar_encoder intro!: length_pick)
  next
    case TMetricsSum
    show ?thesis unfolding TMetricsSum encoder_defs table.case
      by (rule encoderI [where ok = True, OF scalar_fixed metric_scalar_schema_def]) (auto simp: scalar_encoder intro!: length_pick)
  next
    case TMetricsHistogram
    show ?thesis unfolding TMetricsHistogram encoder_defs table.case
      by (rule encoderI [where ok = True, OF histogram_fixed histogram_schema_def]) (auto simp: histogram_encoder intro!: length_pick)
  next
    case TMetricsExpHistogram
    show ?thesis unfolding TMetricsExpHistogram encoder_defs table.case
      by (rule encoderI [where ok = True, OF exp_histogram_fixed exp_histogram_schema_def])
         (auto simp: exp_histogram_encoder intro!: length_pick)
  next
    case TMetricsSummary
    show ?thesis unfolding TMetricsSummary encoder_defs table.case
      by (rule encoderI [where ok = True, OF summary_fixed summary_schema_def]) (auto simp: summary_encoder intro!: length_pick)
  qed
qed

subsection \<open>Properties\<close>

text \<open>C10. Encoding rows of a table whose identifiers have their length succeeds, under any
  promoted keys: Arrow's checks pass, the batch has the table's schema, a row for each row, and every
  column the type of its field and no null where the field allows none.\<close>

theorem encode_typed:
  assumes "\<forall>r \<in> set rows. row_in t r \<and> row_ids r"
  shows "\<exists>b. encode_table J t rows keys = Inr b \<and> b_schema b = table_schema t keys \<and> num_rows b = length rows \<and>
    list_all2 (column_ok (length rows)) (b_schema b) (b_columns b)"
proof -
  from table_encoder [of t J rows] obtain fs cols texts ok err where
    "fixed_ok fs cols texts" "table_schema t keys = with_promoted fs keys"
    "encode_table J t rows keys = (if ok then Inr (built J fs cols texts keys) else Inl err)"
    "(\<forall>r \<in> set rows. row_in t r) \<longrightarrow> length texts = length rows" "(\<forall>r \<in> set rows. row_ids r) \<longrightarrow> ok" by blast
  moreover from this assms have "ok" "length texts = length rows" by auto
  ultimately show ?thesis using built_columns_ok [of fs cols texts keys] built_rows [of fs cols texts J keys]
    by (simp add: built_def)
qed

text \<open>C11. A batch that was encoded under one set of promoted keys and is then rewritten
  by compaction, coerced to the schema of the present keys and back-filled, is the batch that encoding its
  rows under the present keys gives, whatever the cast; its schema lags no longer.\<close>

theorem rewrite_as_encoded:
  assumes "encode_table J t rows old = Inr b"
  shows "\<exists>b'. rewrite_batch J cast t new b = Inr b' \<and> encode_table J t rows new = Inr b' \<and>
    \<not> schema_lags (b_schema b') new"
proof -
  from table_encoder [of t J rows] obtain fs cols texts ok err where t:
    "fixed_ok fs cols texts" "\<And>keys. table_schema t keys = with_promoted fs keys"
    "\<And>keys. encode_table J t rows keys = (if ok then Inr (built J fs cols texts keys) else Inl err)" by blast
  with assms have b: "ok" "b = built J fs cols texts old" by (auto split: if_splits)
  have "\<not> schema_lags (with_promoted fs new) new"
    by (auto simp: schema_lags_def list_ex_iff index_of_None set_names_with_promoted)
  moreover have "rewrite_batch J cast t new b = Inr (built J fs cols texts new)"
    unfolding rewrite_batch_def Let_def t(2) b(2) by (rule rewrite_built [OF t(1)])
  ultimately show ?thesis using t(3) b(1) by (simp add: built_def)
qed

subsection \<open>A concrete batch\<close>

definition aw_env :: text_env where
  "aw_env = \<lparr>te_json = (\<lambda>s. if s = ''A'' then Some (VMap [(''env'', VStr ''prod'')]) else Some (VMap [])),
     te_regex = (\<lambda>p a. Some True), te_regexp_like = (\<lambda>a p. True), te_try_cast = (\<lambda>s. None),
     te_parse_f64 = (\<lambda>s. None), te_alnum = (\<lambda>c. True), te_lower = (\<lambda>c. [c])\<rparr>"

definition aw_row :: "string \<Rightarrow> row" where
  "aw_row attrs = LogRow \<lparr>lr_time_unix_nano = 5, lr_observed_time_unix_nano = None, lr_service = Some ''s'',
     lr_severity_number = 9, lr_severity_text = None, lr_body = ''b'', lr_attributes = attrs,
     lr_resource = ''{}'', lr_scope = ''{}'', lr_trace_id = Some (replicate 16 1), lr_span_id = None, lr_flags = 0\<rparr>"

definition aw_batch :: rec_batch where
  "aw_batch = built aw_env logs_fields (log_cols (pick as_log [aw_row ''A'', aw_row ''B''])) [''A'', ''B''] [''region'']"

lemma aw_ids: "\<forall>r \<in> set [aw_row ''A'', aw_row ''B'']. row_in TLogs r \<and> row_ids r"
  by (simp add: aw_row_def row_in_def row_ids_def log_ids_def)

lemma aw_pick: "pick as_log [aw_row ''A'', aw_row ''B''] = [case aw_row ''A'' of LogRow r \<Rightarrow> r, case aw_row ''B'' of LogRow r \<Rightarrow> r]"
  by (simp add: pick_def aw_row_def List.map_filter_simps)

lemma aw_encoded: "encode_table aw_env TLogs [aw_row ''A'', aw_row ''B''] [''region''] = Inr aw_batch"
  unfolding encode_table_def table.case log_encoder aw_batch_def aw_pick
  by (simp add: aw_row_def log_ids_def)

lemma encode_typed_witness:
  "\<exists>b. encode_table aw_env TLogs [aw_row ''A'', aw_row ''B''] [''env'', ''body''] = Inr b \<and> num_rows b = 2"
  using encode_typed [OF aw_ids, of aw_env "[''env'', ''body'']"] by auto

lemma aw_lags: "schema_lags (b_schema aw_batch) [''env'', ''body'']"
proof -
  have "schema_lags (with_promoted logs_fields [''region'']) [''env'', ''body'']" by code_simp
  then show ?thesis by (simp add: aw_batch_def built_def)
qed

lemma rewrite_as_encoded_witness:
  "\<exists>b. rewrite_batch aw_env (\<lambda>_ _. None) TLogs [''env'', ''body''] aw_batch = Inr b \<and>
     encode_table aw_env TLogs [aw_row ''A'', aw_row ''B''] [''env'', ''body''] = Inr b \<and>
     schema_lags (b_schema aw_batch) [''env'', ''body''] \<and> \<not> schema_lags (b_schema b) [''env'', ''body'']"
  using rewrite_as_encoded [OF aw_encoded, of "\<lambda>_ _. None" "[''env'', ''body'']"]
    aw_lags by blast

end
