(* ===== verification/Storage_Maintain.thy ===== *)
theory Storage_Maintain
  imports Storage_System Arrow_Schema
begin

text \<open>
  The maintenance of the storage engine (\<open>crates/imbh-storage/src/lib.rs\<close>): retention, compaction
  with its three phases (a snapshot of the lists under the lock, the rewriting outside it, the
  reconciliation under it again), the writer's half of the housekeeping hand-off, and the statistics
  of the tables. A batch here is its rows and its promoted keys; what coercion and back-filling do to
  its columns is in \<open>Arrow_Rewrite\<close>. Parameters: \<open>F\<close> reads the promoted keys of a file's schema
  out of its footer, and \<open>now\<close> is the clock of the call.
\<close>

subsection \<open>Sizing and deleting segments\<close>

definition files_under :: "string \<Rightarrow> world \<Rightarrow> string list" where
  "files_under d w = filter (\<lambda>p. prefix (d @ ''/'') p) (fs_names w)"

definition len_or_0 :: "world \<Rightarrow> string \<Rightarrow> nat" where
  "len_or_0 w p = (case fs_len w p of None \<Rightarrow> 0 | Some n \<Rightarrow> n)"

definition dir_size :: "world \<Rightarrow> string \<Rightarrow> nat" where
  "dir_size w d = sum_list (map (len_or_0 w) (files_under d w))"

definition segment_size :: "world \<Rightarrow> segment_ref \<Rightarrow> nat" where
  "segment_size w s = len_or_0 w (relative_path s) + dir_size w (with_extension (relative_path s) ''tidx'')"

definition remove_file_if_exists :: "string \<Rightarrow> world \<Rightarrow> (world, unit) outcome" where
  "remove_file_if_exists p w =
     (case fs_remove p w of
        (Inr u, w) \<Rightarrow> (Inr (), w)
      | (Inl NotFound, w) \<Rightarrow> (Inr (), w)
      | (Inl OtherIo, w) \<Rightarrow> (Inl (storage_io (Some p) io_str), w))"

text \<open>\<open>fs::remove_dir_all\<close>: the files below the directory one by one, up to the first failure.\<close>

fun remove_files :: "string list \<Rightarrow> world \<Rightarrow> bool \<times> world" where
  "remove_files [] w = (True, w)"
| "remove_files (p # ps) w =
     (case fs_remove p w of (Inr u, w) \<Rightarrow> remove_files ps w | (Inl e, w) \<Rightarrow> (False, w))"

definition delete_segment :: "segment_ref \<Rightarrow> world \<Rightarrow> (world, unit) outcome" where
  "delete_segment s w =
     (let tidx = with_extension (relative_path s) ''tidx''
      in and_then id (remove_file_if_exists (relative_path s) w) (\<lambda>_ w.
           io_try (storage_io (Some tidx) io_str) (remove_files (files_under tidx w) w)))"

definition reclaim_segments :: "segment_ref list \<Rightarrow> world \<Rightarrow> world" where
  "reclaim_segments ss w = fold (\<lambda>s w. snd (delete_segment s w)) ss w"

subsection \<open>The lists of the tables\<close>

definition all_segments :: "inner \<Rightarrow> segment_ref list" where
  "all_segments inn = segments inn @ spans_segments inn @ concat (map snd (entries (metric_segments inn)))"

definition segments_for :: "inner \<Rightarrow> table \<Rightarrow> segment_ref list" where
  "segments_for inn t =
     (case t of TLogs \<Rightarrow> segments inn | TSpans \<Rightarrow> spans_segments inn | _ \<Rightarrow> or_default (metric_segments inn) t)"

text \<open>\<open>segments_for_mut\<close>, with the list replaced; taking a metric table's list creates its entry.\<close>

definition set_segments_for :: "table \<Rightarrow> segment_ref list \<Rightarrow> inner \<Rightarrow> inner" where
  "set_segments_for t xs inn =
     (case t of
        TLogs \<Rightarrow> inn\<lparr>segments := xs\<rparr>
      | TSpans \<Rightarrow> inn\<lparr>spans_segments := xs\<rparr>
      | _ \<Rightarrow> inn\<lparr>metric_segments := (metric_segments inn)(t \<mapsto> xs)\<rparr>)"

definition retain_segments :: "(segment_ref \<Rightarrow> bool) \<Rightarrow> inner \<Rightarrow> inner" where
  "retain_segments keep inn =
     inn\<lparr>segments := filter keep (segments inn), spans_segments := filter keep (spans_segments inn),
         metric_segments := (\<lambda>t. map_option (filter keep) (metric_segments inn t))\<rparr>"

subsection \<open>Retention\<close>

record retention_report =
  segments_dropped :: nat
  bytes_freed :: nat

text \<open>The paths over the age limit, and the oldest of the others until the total is in the budget.\<close>

definition expired :: "int \<Rightarrow> retention \<Rightarrow> segment_ref list \<Rightarrow> string list" where
  "expired now ret aged =
     (case max_age ret of
        None \<Rightarrow> []
      | Some age \<Rightarrow>
          let cutoff = sat_i64 (now - min (int age) i64_max)
          in map relative_path (filter (\<lambda>s. max_time_unix_nano s < cutoff) aged))"

fun over_budget :: "nat \<Rightarrow> nat \<Rightarrow> (string \<times> nat) list \<Rightarrow> string list" where
  "over_budget budget used [] = []"
| "over_budget budget used ((p, sz) # r) =
     (if used > budget then p # over_budget budget (used - sz) r else [])"

definition drop_set :: "int \<Rightarrow> retention \<Rightarrow> world \<Rightarrow> segment_ref list \<Rightarrow> string list" where
  "drop_set now ret w aged =
     (let old = expired now ret aged in
      case max_disk_bytes ret of
        None \<Rightarrow> old
      | Some budget \<Rightarrow>
          let survivors = filter (\<lambda>s. relative_path s \<notin> set old) aged;
              sizes = map (segment_size w) survivors
          in old @ over_budget budget (sum_list sizes) (zip (map relative_path survivors) sizes))"

definition segment_count :: "inner \<Rightarrow> nat" where
  "segment_count inn =
     length (segments inn) + length (spans_segments inn) +
     sum_list (map (\<lambda>(t, ss). length ss) (entries (metric_segments inn)))"

definition retain :: "mhash \<Rightarrow> int \<Rightarrow> engine \<Rightarrow> (engine, retention_report) outcome" where
  "retain mh now e =
     (let none = \<lparr>segments_dropped = 0, bytes_freed = 0\<rparr> in
      if \<not> st_dir (fst e) then (Inr none, e)
      else
        let inn = st_inner (fst e);
            aged = sort_key min_time_unix_nano (all_segments inn);
            doomed = drop_set now (st_retention (fst e)) (snd e) aged
        in if doomed = [] then (Inr none, e)
           else
             let gone = filter (\<lambda>s. relative_path s \<in> set doomed) aged;
                 freed = sum_list (map (segment_size (snd e)) gone);
                 inn' = retain_segments (\<lambda>s. relative_path s \<notin> set doomed) inn;
                 dropped = segment_count inn - segment_count inn'
             in and_then id (persist_manifest mh (upd_inner (\<lambda>_. inn') e)) (\<lambda>_ e.
                  (Inr \<lparr>segments_dropped = dropped, bytes_freed = freed\<rparr>, fst e, reclaim_segments gone (snd e))))"

subsection \<open>Statistics\<close>

record table_stats =
  ts_table :: table
  segment_total :: nat
  segment_rows :: nat
  buffer_rows :: nat
  ts_min_time :: "int option"
  ts_max_time :: "int option"

definition table_stats_of :: "table \<Rightarrow> segment_ref list \<Rightarrow> nat \<Rightarrow> table_stats" where
  "table_stats_of t segs n =
     \<lparr>ts_table = t, segment_total = length segs, segment_rows = sum_list (map seg_rows segs), buffer_rows = n,
      ts_min_time = (if segs = [] then None else Some (Min (set (map min_time_unix_nano segs)))),
      ts_max_time = (if segs = [] then None else Some (Max (set (map max_time_unix_nano segs))))\<rparr>"

definition stats :: "inner \<Rightarrow> table_stats list" where
  "stats inn =
     [table_stats_of TLogs (segments inn) (buffered_rows (buffer inn)),
      table_stats_of TSpans (spans_segments inn) (buffered_rows (spans_buffer inn))] @
     map (\<lambda>t. table_stats_of t (or_default (metric_segments inn) t) (buffered_rows (or_default (metric_buffers inn) t)))
       SCALAR_METRIC_TABLES @
     [table_stats_of TMetricsHistogram (or_default (metric_segments inn) TMetricsHistogram) (buffered_rows (histogram_buffer inn)),
      table_stats_of TMetricsExpHistogram (or_default (metric_segments inn) TMetricsExpHistogram)
        (buffered_rows (exp_histogram_buffer inn)),
      table_stats_of TMetricsSummary (or_default (metric_segments inn) TMetricsSummary) (buffered_rows (summary_buffer inn))]"

subsection \<open>Rewriting segments\<close>

definition read_parquet_file :: "arrow_env \<Rightarrow> world \<Rightarrow> string \<Rightarrow> error + record_batch list" where
  "read_parquet_file A w p =
     (case fs_read w p of
        Inl e \<Rightarrow> Inl (storage_io None io_str)
      | Inr bs \<Rightarrow> ok_or (storage_io (Some p) io_str) (pq_read A bs))"

type_synonym footer = "bytes \<Rightarrow> string list option"

definition segment_schema_lags :: "footer \<Rightarrow> table \<Rightarrow> string list \<Rightarrow> world \<Rightarrow> string \<Rightarrow> error + bool" where
  "segment_schema_lags F t keys w p =
     (if keys = [] then Inr False
      else
        case fs_read w p of
          Inl e \<Rightarrow> Inl (storage_io None io_str)
        | Inr bs \<Rightarrow>
            (case F bs of
               None \<Rightarrow> Inl (storage_io (Some p) io_str)
             | Some old \<Rightarrow> Inr (schema_lags (table_schema t old) keys)))"

text \<open>What coercion and back-filling make of a batch: its rows under the present keys.\<close>

definition converge :: "string list \<Rightarrow> record_batch \<Rightarrow> record_batch" where
  "converge keys b = b\<lparr>rb_keys := keys\<rparr>"

fun read_group :: "arrow_env \<Rightarrow> world \<Rightarrow> string list \<Rightarrow> segment_ref list \<Rightarrow> error + record_batch list" where
  "read_group A w keys [] = Inr []"
| "read_group A w keys (s # ss) =
     bind_err (read_parquet_file A w (relative_path s)) (\<lambda>bs.
     bind_err (read_group A w keys ss) (\<lambda>r. Inr (map (converge keys) bs @ r)))"

definition build_index :: "table \<Rightarrow> bool" where
  "build_index t \<longleftrightarrow> (case t of TLogs \<Rightarrow> True | TSpans \<Rightarrow> True | _ \<Rightarrow> False)"

definition min_time_of :: "segment_ref list \<Rightarrow> int" where
  "min_time_of g = (if g = [] then 0 else Min (set (map min_time_unix_nano g)))"

definition max_time_of :: "segment_ref list \<Rightarrow> int" where
  "max_time_of g = (if g = [] then 0 else Max (set (map max_time_unix_nano g)))"

text \<open>The segments of a table by day, in the order of a \<open>BTreeMap\<close>.\<close>

definition day_groups :: "segment_ref list \<Rightarrow> segment_ref list list" where
  "day_groups segs =
     map (\<lambda>d. filter (\<lambda>s. day_of_path (relative_path s) = d) segs)
       (sort (remdups (map (\<lambda>s. day_of_path (relative_path s)) segs)))"

definition group_due :: "footer \<Rightarrow> table \<Rightarrow> string list \<Rightarrow> world \<Rightarrow> segment_ref list \<Rightarrow> error + bool" where
  "group_due F t keys w g =
     (if length g \<le> 1 then
        (case g of [] \<Rightarrow> Inr False | s # r \<Rightarrow> segment_schema_lags F t keys w (relative_path s))
      else Inr True)"

subsection \<open>Compaction\<close>

text \<open>One group: nothing when its files have no batch, else the merged segment.\<close>

definition compact_group ::
  "arrow_env \<Rightarrow> table \<Rightarrow> segment_ref list \<Rightarrow> engine \<Rightarrow> (engine, segment_ref option) outcome" where
  "compact_group A t g e =
     (case read_group A (snd e) (promote (fst e)) g of
        Inl err \<Rightarrow> (Inl err, e)
      | Inr [] \<Rightarrow> (Inr None, e)
      | Inr (b # bs) \<Rightarrow>
          (case concat_and_sort A (b # bs) of
             Inl err \<Rightarrow> (Inl err, e)
           | Inr merged \<Rightarrow>
               and_then id (write_segment_parquet A (table_as_str t) (min_time_of g) merged e) (\<lambda>path e.
               and_then id (if build_index t then build_sidecar A path merged e else (Inr (), e)) (\<lambda>_ e.
                 (Inr (Some (segment_of path (min_time_of g, max_time_of g) merged)), e)))))"

record compact_acc =
  ca_result :: "segment_ref list"
  ca_merged :: nat
  ca_converged :: nat
  ca_created :: nat
  ca_deleted :: "segment_ref list"
  ca_budget :: nat

definition pass_through :: "segment_ref list \<Rightarrow> compact_acc \<Rightarrow> compact_acc" where
  "pass_through g acc = acc\<lparr>ca_result := ca_result acc @ g\<rparr>"

definition rewritten :: "segment_ref list \<Rightarrow> segment_ref \<Rightarrow> compact_acc \<Rightarrow> compact_acc" where
  "rewritten g s acc =
     acc\<lparr>ca_result := ca_result acc @ [s],
         ca_merged := (if length g = 1 then ca_merged acc else ca_merged acc + length g),
         ca_converged := (if length g = 1 then ca_converged acc + 1 else ca_converged acc),
         ca_created := ca_created acc + 1, ca_deleted := ca_deleted acc @ g, ca_budget := ca_budget acc - 1\<rparr>"

fun compact_groups ::
  "arrow_env \<Rightarrow> footer \<Rightarrow> table \<Rightarrow> segment_ref list list \<Rightarrow> compact_acc \<Rightarrow> engine \<Rightarrow> (engine, compact_acc) outcome" where
  "compact_groups A F t [] acc e = (Inr acc, e)"
| "compact_groups A F t (g # gs) acc e =
     (if ca_budget acc = 0 then compact_groups A F t gs (pass_through g acc) e
      else
        case group_due F t (promote (fst e)) (snd e) g of
          Inl err \<Rightarrow> (Inl err, e)
        | Inr due \<Rightarrow>
            if \<not> due then compact_groups A F t gs (pass_through g acc) e
            else and_then id (compact_group A t g e) (\<lambda>out e.
                   case out of
                     None \<Rightarrow> compact_groups A F t gs (pass_through g acc) e
                   | Some s \<Rightarrow> compact_groups A F t gs (rewritten g s acc) e))"

definition compact_partition ::
  "arrow_env \<Rightarrow> footer \<Rightarrow> table \<Rightarrow> segment_ref list \<Rightarrow> compact_acc \<Rightarrow> engine \<Rightarrow> (engine, compact_acc) outcome" where
  "compact_partition A F t segs acc e = compact_groups A F t (day_groups segs) (acc\<lparr>ca_result := []\<rparr>) e"

fun compact_tables ::
  "arrow_env \<Rightarrow> footer \<Rightarrow> (table \<times> segment_ref list) list \<Rightarrow> compact_acc \<Rightarrow> engine \<Rightarrow>
     (engine, (table \<times> segment_ref list) list \<times> compact_acc) outcome" where
  "compact_tables A F [] acc e = (Inr ([], acc), e)"
| "compact_tables A F ((t, segs) # r) acc e =
     and_then id (compact_partition A F t segs acc e) (\<lambda>acc1 e.
     and_then id (compact_tables A F r acc1 e) (\<lambda>out e. (Inr ((t, ca_result acc1) # fst out, snd out), e)))"

text \<open>The three phases. The first is a look at the lists under the lock.\<close>

type_synonym plan = "(table \<times> segment_ref list) list \<times> compact_acc"

definition compact_snapshot :: "inner \<Rightarrow> (table \<times> segment_ref list) list" where
  "compact_snapshot inn =
     [(TLogs, segments inn), (TSpans, spans_segments inn)] @ entries (metric_segments inn)"

definition compact_write ::
  "arrow_env \<Rightarrow> footer \<Rightarrow> nat \<Rightarrow> (table \<times> segment_ref list) list \<Rightarrow> engine \<Rightarrow> (engine, plan) outcome" where
  "compact_write A F max_partitions snap e =
     compact_tables A F snap
       \<lparr>ca_result = [], ca_merged = 0, ca_converged = 0, ca_created = 0, ca_deleted = [], ca_budget = max_partitions\<rparr> e"

definition reconcile_segments :: "segment_ref list \<Rightarrow> string set \<Rightarrow> segment_ref list \<Rightarrow> segment_ref list" where
  "reconcile_segments current deleted produced =
     foldl (\<lambda>cur p. if relative_path p \<in> relative_path ` set cur then cur else cur @ [p])
       (filter (\<lambda>s. relative_path s \<notin> deleted) current) produced"

definition reconcile_table :: "string set \<Rightarrow> inner \<Rightarrow> table \<times> segment_ref list \<Rightarrow> inner" where
  "reconcile_table deleted inn x =
     (case x of (t, merged) \<Rightarrow>
        let xs = reconcile_segments (segments_for inn t) deleted merged
        in case t of
             TLogs \<Rightarrow> inn\<lparr>segments := xs\<rparr>
           | TSpans \<Rightarrow> inn\<lparr>spans_segments := xs\<rparr>
           | _ \<Rightarrow> inn\<lparr>metric_segments := (metric_segments inn)(t := if xs = [] then None else Some xs)\<rparr>)"

definition compact_reconcile :: "plan \<Rightarrow> inner \<Rightarrow> inner" where
  "compact_reconcile p inn =
     foldl (reconcile_table (relative_path ` set (ca_deleted (snd p)))) inn (fst p)"

definition compact_commit :: "mhash \<Rightarrow> plan \<Rightarrow> engine \<Rightarrow> (engine, unit) outcome" where
  "compact_commit mh p e = persist_manifest mh (upd_inner (compact_reconcile p) e)"

definition compact_reclaim :: "plan \<Rightarrow> engine \<Rightarrow> engine" where
  "compact_reclaim p e = (fst e, reclaim_segments (ca_deleted (snd p)) (snd e))"

record compaction_report =
  segments_merged :: nat
  segments_converged :: nat
  segments_created :: nat

definition report_of :: "plan \<Rightarrow> compaction_report" where
  "report_of p =
     \<lparr>segments_merged = ca_merged (snd p), segments_converged = ca_converged (snd p),
      segments_created = ca_created (snd p)\<rparr>"

definition compact_bounded ::
  "arrow_env \<Rightarrow> footer \<Rightarrow> mhash \<Rightarrow> nat \<Rightarrow> engine \<Rightarrow> (engine, compaction_report) outcome" where
  "compact_bounded A F mh max_partitions e =
     (if \<not> st_dir (fst e) then (Inr \<lparr>segments_merged = 0, segments_converged = 0, segments_created = 0\<rparr>, e)
      else
        and_then id (compact_write A F max_partitions (compact_snapshot (st_inner (fst e))) e) (\<lambda>p e.
        and_then id (compact_commit mh p e) (\<lambda>_ e. (Inr (report_of p), compact_reclaim p e))))"

definition compact :: "arrow_env \<Rightarrow> footer \<Rightarrow> mhash \<Rightarrow> engine \<Rightarrow> (engine, compaction_report) outcome" where
  "compact A F mh e = compact_bounded A F mh u64_max e"

subsection \<open>Committing prepared rewrites\<close>

record pending_report =
  applied :: nat
  discarded :: nat
  segments_replaced :: nat

definition digest_ok :: "mhash \<Rightarrow> pending_rewrite \<Rightarrow> world \<Rightarrow> bool" where
  "digest_ok mh r w \<longleftrightarrow>
     fs_exists w (relative_path (pr_output r)) \<and> digest_file mh w (relative_path (pr_output r)) = Inr (pr_digest r)"

text \<open>Removing the two paths of a segment with \<open>remove_file\<close>, errors ignored: an index
  directory is not a file, and stays.\<close>

definition remove_pair :: "string \<Rightarrow> world \<Rightarrow> world" where
  "remove_pair p w = remove_quietly p (remove_quietly (with_extension p ''tidx'') w)"

definition record_valid :: "mhash \<Rightarrow> pending_rewrite \<Rightarrow> engine \<Rightarrow> bool" where
  "record_valid mh r e \<longleftrightarrow>
     (let current = segments_for (st_inner (fst e)) (pr_table r)
      in (\<forall>i \<in> set (pr_inputs r). i \<in> relative_path ` set current) \<and>
         pr_promote r = promote (fst e) \<and>
         relative_path (pr_output r) \<notin> relative_path ` set current \<and> digest_ok mh r (snd e))"

definition swap_segments :: "pending_rewrite \<Rightarrow> inner \<Rightarrow> inner" where
  "swap_segments r inn =
     set_segments_for (pr_table r)
       (filter (\<lambda>s. relative_path s \<notin> set (pr_inputs r)) (segments_for inn (pr_table r)) @ [pr_output r]) inn"

definition discard_record :: "string \<Rightarrow> pending_rewrite \<Rightarrow> engine \<Rightarrow> engine" where
  "discard_record path r e =
     (let current = segments_for (st_inner (fst e)) (pr_table r);
          out = relative_path (pr_output r);
          e = upd_inner (set_segments_for (pr_table r) current) e;
          w = (if out \<in> relative_path ` set current then snd e
               else remove_quietly (with_extension out ''tidx'') (remove_quietly out (snd e)))
      in (fst e, remove_quietly path w))"

fun commit_records ::
  "mhash \<Rightarrow> (string + string \<times> pending_rewrite) list \<Rightarrow> pending_report \<Rightarrow> engine \<Rightarrow> (engine, pending_report) outcome" where
  "commit_records mh [] rep e = (Inr rep, e)"
| "commit_records mh (Inl path # rs) rep e =
     commit_records mh rs (rep\<lparr>discarded := discarded rep + 1\<rparr>) (fst e, remove_quietly path (snd e))"
| "commit_records mh (Inr (path, r) # rs) rep e =
     (if \<not> record_valid mh r e
      then commit_records mh rs (rep\<lparr>discarded := discarded rep + 1\<rparr>) (discard_record path r e)
      else
        let removed = filter (\<lambda>s. relative_path s \<in> set (pr_inputs r)) (segments_for (st_inner (fst e)) (pr_table r))
        in and_then id (persist_manifest mh (upd_inner (swap_segments r) e)) (\<lambda>_ e.
             commit_records mh rs
               (rep\<lparr>applied := applied rep + 1, segments_replaced := segments_replaced rep + length removed\<rparr>)
               (fst e, remove_quietly path (fold (\<lambda>s. remove_pair (relative_path s)) removed (snd e)))))"

definition commit_pending :: "mhash \<Rightarrow> engine \<Rightarrow> (engine, pending_report) outcome" where
  "commit_pending mh e =
     (let none = \<lparr>applied = 0, discarded = 0, segments_replaced = 0\<rparr> in
      if read_only (fst e) then (Inl read_only_err, e)
      else if \<not> st_dir (fst e) then (Inr none, e)
      else commit_records mh (pending_list mh (snd e)) none e)"

end
