(* ===== verification/Storage_Compaction.thy ===== *)
theory Storage_Compaction
  imports Storage_Maintain Storage_Steps
begin

text \<open>
  The off-lock phase of compaction: the segments it writes hold the rows of the groups it merges, and
  the other files of the directory stay as they are.
\<close>

subsection \<open>Lists of segments\<close>

lemma segments_for_eq: "segments_for inn t = segs_of inn t"
  by (cases t) (simp_all add: segments_for_def list_of_def manifest_view_def or_default_def split: option.splits)

lemma seg_data_mset: "mset xs = mset ys \<Longrightarrow> seg_data A w xs = seg_data A w ys"
  unfolding seg_data_def by (metis mset_map sum_mset_sum_list)

lemma mset_parts: "mset xs = mset ys + mset zs \<Longrightarrow> set ys \<subseteq> set xs \<and> set zs \<subseteq> set xs"
  by (metis mset_append mset_eq_setD set_append Un_upper1 Un_upper2)

lemma mset_by_key:
  "distinct ds \<Longrightarrow> mset (concat (map (\<lambda>d. filter (\<lambda>x. f x = d) xs) ds)) = mset (filter (\<lambda>x. f x \<in> set ds) xs)"
proof (induction ds)
  case (Cons d ds)
  have "mset (filter (\<lambda>x. f x \<in> set (d # ds)) xs) = mset (filter (\<lambda>x. f x = d) xs) + mset (filter (\<lambda>x. f x \<in> set ds) xs)"
    using Cons.prems by (induction xs) auto
  with Cons show ?case by simp
qed simp

lemma day_groups_mset: "mset (concat (day_groups segs)) = mset segs"
proof -
  have "mset (concat (day_groups segs)) =
      mset (filter (\<lambda>s. day_of_path (relative_path s) \<in> set (sort (remdups (map (\<lambda>s. day_of_path (relative_path s)) segs)))) segs)"
    unfolding day_groups_def by (rule mset_by_key) simp
  also have "\<dots> = mset segs" by (simp add: filter_id_conv)
  finally show ?thesis .
qed

lemma day_groups_length: "length (day_groups segs) \<le> length segs"
  unfolding day_groups_def by (simp add: length_remdups_leq [THEN order_trans])

subsection \<open>One group\<close>

lemma read_group_rows:
  "read_group A w keys g = Inr bs \<Longrightarrow>
     (\<forall>b \<in> set bs. rb_keys b = keys) \<and> brows bs = concat (map (\<lambda>s. the (seg_content A w s)) g)"
proof (induction g arbitrary: bs)
  case (Cons s g)
  then obtain raw r bs1 where r: "fs_read w (relative_path s) = Inr raw" "pq_read A raw = Some bs1"
    "read_group A w keys g = Inr r" "bs = map (converge keys) bs1 @ r"
    by (auto simp: bind_err_Inr read_parquet_file_def ok_or_Inr split: sum.splits)
  have "brows (map (converge keys) bs1) = brows bs1" by (simp add: brows_def converge_def comp_def)
  with Cons.IH [OF r(3)] r show ?case by (auto simp: seg_content_def converge_def)
qed simp

lemma seg_data_rows: "seg_data A w g = mset (concat (map (\<lambda>s. the (seg_content A w s)) g))"
  by (induction g) simp_all

definition index_after :: "arrow_env \<Rightarrow> table \<Rightarrow> string \<Rightarrow> record_batch \<Rightarrow> engine \<Rightarrow> (engine, unit) outcome" where
  "index_after A t path b e = (if build_index t then build_sidecar A path b e else (Inr (), e))"

lemma compact_group_eq:
  "compact_group A t g e =
     (case read_group A (snd e) (promote (fst e)) g of
        Inl err \<Rightarrow> (Inl err, e)
      | Inr bs \<Rightarrow> write_table A (write_seg_with A t (\<lambda>b. (min_time_of g, max_time_of g)) (index_after A t)) bs e)"
  unfolding compact_group_def write_table_def write_seg_with_def index_after_def
  by (auto split: sum.splits list.splits simp: and_then_def prod.case_eq_if)

text \<open>What the rewriting needs of the segments it reads.\<close>

definition ready :: "arrow_env \<Rightarrow> engine \<Rightarrow> segment_ref list \<Rightarrow> bool" where
  "ready A e g \<longleftrightarrow>
     (\<forall>s \<in> set g. seg_fine A (fst e) (snd e) s \<and> (\<forall>r \<in> set (the (seg_content A (snd e) s)). i64_ok (row_time r)))"

lemma ready_simps [simp]: "ready A e []" "ready A e (xs @ ys) \<longleftrightarrow> ready A e xs \<and> ready A e ys"
  by (auto simp: ready_def)

lemma ready_subset: "ready A e xs \<Longrightarrow> set ys \<subseteq> set xs \<Longrightarrow> ready A e ys"
  by (auto simp: ready_def)

lemma ready_scratched:
  assumes "ready A e g" "scratched A e e' n"
  shows "ready A e' g" "seg_data A (snd e') g = seg_data A (snd e) g"
proof -
  from assms(2) obtain q where q: "fst e' = (fst e)\<lparr>st_seq := q\<rparr>" "st_seq (fst e) \<le> q"
    "touches (seg_range A (st_seq (fst e)) q) (snd e) (snd e')" by (auto simp: scratched_def)
  have f: "seg_fine A (fst e') (snd e') s \<and> seg_content A (snd e') s = seg_content A (snd e) s" if "s \<in> set g" for s
    using seg_fine_range [OF _ q(3,2), of s] that assms(1) q(1) by (simp add: ready_def)
  then show "ready A e' g" using assms(1) by (simp add: ready_def)
  show "seg_data A (snd e') g = seg_data A (snd e) g"
    unfolding seg_data_def using f by (metis (mono_tags, lifting) map_eq_conv)
qed

lemma bounds_ok:
  assumes "ready A e g"
  shows "i64_ok (min_time_of g) \<and> i64_ok (max_time_of g)"
proof (cases "g = []")
  case True
  then show ?thesis by (simp add: min_time_of_def max_time_of_def i64_ok_def i64_min_def i64_max_def)
next
  case False
  then have "Min (set (map min_time_unix_nano g)) \<in> set (map min_time_unix_nano g)"
    "Max (set (map max_time_unix_nano g)) \<in> set (map max_time_unix_nano g)" by (intro Min_in Max_in; simp)+
  then obtain s s' where s: "s \<in> set g" "Min (set (map min_time_unix_nano g)) = min_time_unix_nano s"
    "s' \<in> set g" "Max (set (map max_time_unix_nano g)) = max_time_unix_nano s'" by (metis (no_types, lifting) imageE set_map)
  show ?thesis using assms False unfolding min_time_of_def max_time_of_def s(2,4) ready_def seg_fine_def using s(1,3) by auto
qed

lemma compact_group_cases:
  assumes laws: "arrow_laws A" and rdy: "ready A e g" and room: "st_seq (fst e) < u64_max"
    and run: "compact_group A t g e = (res, e')"
  shows "scratched A e e' 1"
    "\<And>x. res = Inr x \<Longrightarrow> \<exists>bs. wrote A e e' [(t, bs)] (map (Pair t) (opt_list x)) \<and> mset (brows bs) = seg_data A (snd e) g"
proof -
  have wr: "writes_segment A t (write_seg_with A t (\<lambda>b. (min_time_of g, max_time_of g)) (index_after A t))"
  proof (rule write_seg_with_writes [OF laws])
    fix b show "i64_ok (fst (min_time_of g, max_time_of g)) \<and> i64_ok (snd (min_time_of g, max_time_of g))"
      using bounds_ok [OF rdy] by simp
  next
    fix mt sq b s w
    show "\<exists>r w'. index_after A t (segment_path A (table_as_str t) mt sq) b (s, w) = (r, s, w') \<and>
        touches (seg_area A t mt sq - {segment_path A (table_as_str t) mt sq}) w w'"
      using build_sidecar_cases [OF laws] by (simp add: index_after_def)
  qed
  have "scratched A e e' 1 \<and> (\<forall>x. res = Inr x \<longrightarrow>
      (\<exists>bs. wrote A e e' [(t, bs)] (map (Pair t) (opt_list x)) \<and> mset (brows bs) = seg_data A (snd e) g))"
  proof (cases "read_group A (snd e) (promote (fst e)) g")
    case (Inl err)
    with run show ?thesis by (auto simp: compact_group_eq)
  next
    case (Inr bs)
    note rg = read_group_rows [OF Inr]
    have "batches_ok (promote (fst e)) bs"
    proof -
      have "i64_ok (row_time r)" if "b \<in> set bs" "r \<in> set (rb_rows b)" for b r
      proof -
        have "r \<in> set (brows bs)" using that by (auto simp: brows_def)
        then show ?thesis using rg rdy by (auto simp: ready_def)
      qed
      then show ?thesis using rg by (simp add: batches_ok_def)
    qed
    note c = write_table_cases [OF laws wr this room]
    have "write_table A (write_seg_with A t (\<lambda>b. (min_time_of g, max_time_of g)) (index_after A t)) bs e = (res, e')"
      using run Inr by (simp add: compact_group_eq)
    from c [OF this] rg show ?thesis by (auto simp: seg_data_rows)
  qed
  then show "scratched A e e' 1"
    "\<And>x. res = Inr x \<Longrightarrow> \<exists>bs. wrote A e e' [(t, bs)] (map (Pair t) (opt_list x)) \<and> mset (brows bs) = seg_data A (snd e) g"
    by blast+
qed

subsection \<open>The groups of a table\<close>

text \<open>What a pass over groups has done: it wrote segments for \<open>merged\<close>, and kept the others.\<close>

definition passed ::
  "arrow_env \<Rightarrow> engine \<Rightarrow> engine \<Rightarrow> table \<Rightarrow> segment_ref list list \<Rightarrow> compact_acc \<Rightarrow> compact_acc \<Rightarrow> bool" where
  "passed A e e' t gs acc acc' \<longleftrightarrow>
     (\<exists>items outs kept merged. wrote A e e' items outs \<and> length items \<le> length gs \<and>
        fst ` set items \<subseteq> {t} \<and> fst ` set outs \<subseteq> {t} \<and> mset (concat gs) = mset kept + mset merged \<and>
        mset (ca_result acc') = mset (ca_result acc) + mset kept + mset (map snd outs) \<and>
        ca_deleted acc' = ca_deleted acc @ merged \<and> seg_data A (snd e) merged = mset (brows (concat (map snd items))))"

lemma passed_Nil: "passed A e e t [] acc acc"
  unfolding passed_def
  by (intro exI [of _ "[]"]) (simp add: wrote_Nil brows_def)

lemma passed_keep:
  assumes "passed A e e' t gs (pass_through g acc) acc'"
  shows "passed A e e' t (g # gs) acc acc'"
proof -
  from assms obtain items outs kept merged where
    "wrote A e e' items outs" "length items \<le> length gs" "fst ` set items \<subseteq> {t}" "fst ` set outs \<subseteq> {t}"
    "mset (concat gs) = mset kept + mset merged"
    "mset (ca_result acc') = mset (ca_result acc) + mset g + mset kept + mset (map snd outs)"
    "ca_deleted acc' = ca_deleted acc @ merged" "seg_data A (snd e) merged = mset (brows (concat (map snd items)))"
    by (auto simp: passed_def pass_through_def)
  then show ?thesis unfolding passed_def
    by (intro exI [of _ items] exI [of _ outs] exI [of _ "g @ kept"] exI [of _ merged]) simp
qed

text \<open>A group that was written, or came to nothing, before the rest of the pass.\<close>

lemma passed_step:
  assumes w: "wrote A e e1 [(t, bs)] outs" "fst ` set outs \<subseteq> {t}" "mset (brows bs) = seg_data A (snd e) merged"
    and p: "passed A e1 e' t gs acc1 acc'"
    and same: "\<And>ys. set ys \<subseteq> set (concat gs) \<Longrightarrow> seg_data A (snd e1) ys = seg_data A (snd e) ys"
    and acc: "mset g = mset kept + mset merged"
      "mset (ca_result acc1) = mset (ca_result acc) + mset kept + mset (map snd outs)" "ca_deleted acc1 = ca_deleted acc @ merged"
  shows "passed A e e' t (g # gs) acc acc'"
proof -
  from p obtain items outs' kept' merged' where q:
    "wrote A e1 e' items outs'" "length items \<le> length gs" "fst ` set items \<subseteq> {t}" "fst ` set outs' \<subseteq> {t}"
    "mset (concat gs) = mset kept' + mset merged'"
    "mset (ca_result acc') = mset (ca_result acc1) + mset kept' + mset (map snd outs')"
    "ca_deleted acc' = ca_deleted acc1 @ merged'" "seg_data A (snd e1) merged' = mset (brows (concat (map snd items)))"
    unfolding passed_def by (elim exE conjE) (rule that)
  have d: "seg_data A (snd e) merged' = mset (brows (concat (map snd items)))"
    by (rule trans [OF same [OF conjunct2 [OF mset_parts [OF q(5)]], symmetric] q(8)])
  show ?thesis unfolding passed_def
  proof (intro exI conjI)
    show "wrote A e e' ([(t, bs)] @ items) (outs @ outs')" by (rule wrote_trans [OF w(1) q(1)])
    show "mset (concat (g # gs)) = mset (kept @ kept') + mset (merged @ merged')" using q(5) acc(1) by simp
    show "mset (ca_result acc') = mset (ca_result acc) + mset (kept @ kept') + mset (map snd (outs @ outs'))"
      using q(6) acc(2) by simp
    show "ca_deleted acc' = ca_deleted acc @ merged @ merged'" using q(7) acc(3) by simp
    show "seg_data A (snd e) (merged @ merged') = mset (brows (concat (map snd ([(t, bs)] @ items))))" using d w(3) by simp
  qed (use q(2-4) w(2) in auto)
qed

lemma compact_groups_cases:
  assumes laws: "arrow_laws A"
  shows "ready A e (concat gs) \<Longrightarrow> st_seq (fst e) + length gs \<le> u64_max \<Longrightarrow>
    compact_groups A F t gs acc e = (res, e') \<Longrightarrow>
    scratched A e e' (length gs) \<and> (\<forall>acc'. res = Inr acc' \<longrightarrow> passed A e e' t gs acc acc')"
proof (induction gs arbitrary: acc e)
  case Nil
  then show ?case by (auto simp: passed_Nil)
next
  case (Cons g gs)
  have weak: "scratched A e e' (length gs) \<Longrightarrow> scratched A e e' (length (g # gs))" for e'
    by (fastforce simp: scratched_def)
  have rdy: "ready A e g" "ready A e (concat gs)" using Cons.prems(1) by simp_all
  have pass: ?case if "compact_groups A F t gs (pass_through g acc) e = (res, e')"
    using Cons.IH [OF rdy(2) _ that] Cons.prems(2) weak passed_keep by auto
  show ?case
  proof (cases "ca_budget acc = 0 \<or> group_due F t (promote (fst e)) (snd e) g = Inr False")
    case True
    have "compact_groups A F t gs (pass_through g acc) e = (res, e')"
      using True Cons.prems(3) by (auto split: if_splits)
    then show ?thesis by (rule pass)
  next
    case False
    show ?thesis
    proof (cases "group_due F t (promote (fst e)) (snd e) g")
      case (Inl err)
      then show ?thesis using False Cons.prems(3) by auto
    next
      case (Inr due)
      obtain r1 e1 where g1: "compact_group A t g e = (r1, e1)" by (cases "compact_group A t g e")
      have room: "st_seq (fst e) < u64_max" using Cons.prems(2) by simp
      note c = compact_group_cases [OF laws rdy(1) room g1]
      have seq1: "st_seq (fst e1) \<le> st_seq (fst e) + 1" using c(1) by (auto simp: scratched_def)
      have rdy1: "ready A e1 (concat gs)" by (rule ready_scratched(1) [OF rdy(2) c(1)])
      have room1: "st_seq (fst e1) + length gs \<le> u64_max" using Cons.prems(2) seq1 by simp
      show ?thesis
      proof (cases r1)
        case (Inl err)
        then have "e' = e1" "\<exists>err. res = Inl err" using Cons.prems(3) g1 Inr False by auto
        then show ?thesis using c(1) by (fastforce simp: scratched_def)
      next
        case r1: (Inr x)
        from c(2) [OF r1] obtain bs where w: "wrote A e e1 [(t, bs)] (map (Pair t) (opt_list x))"
          "mset (brows bs) = seg_data A (snd e) g" by blast
        define acc1 where "acc1 = (case x of None \<Rightarrow> pass_through g acc | Some s \<Rightarrow> rewritten g s acc)"
        have run1: "compact_groups A F t gs acc1 e1 = (res, e')"
          using Cons.prems(3) g1 Inr False r1 by (auto simp: acc1_def split: option.splits)
        note ih = Cons.IH [OF rdy1 room1 run1]
        have "scratched A e e' (length (g # gs))"
          using scratched_trans [OF c(1) conjunct1 [OF ih]] by simp
        moreover have "passed A e e' t (g # gs) acc acc'" if "res = Inr acc'" for acc'
        proof -
          have same: "seg_data A (snd e1) ys = seg_data A (snd e) ys" if "set ys \<subseteq> set (concat gs)" for ys
            by (rule ready_scratched(2) [OF ready_subset [OF rdy(2) that] c(1)])
          have p: "passed A e1 e' t gs acc1 acc'" using ih that by blast
          show ?thesis
          proof (cases x)
            case None
            have "seg_data A (snd e1) (outs_of t (map (Pair t) (opt_list x))) = mset (brows (concat (outs_of t [(t, bs)])))"
              using w(1) unfolding wrote_def by blast
            then have "brows bs = []" using None by (simp add: opt_list_def)
            with None w(1) show ?thesis
              by (intro passed_step [OF _ _ _ p same, where bs = bs and outs = "[]" and kept = g and merged = "[]"])
                 (simp_all add: opt_list_def acc1_def pass_through_def)
          next
            case (Some s)
            with w show ?thesis
              by (intro passed_step [OF _ _ _ p same, where bs = bs and outs = "[(t, s)]" and kept = "[]" and merged = g])
                 (simp_all add: opt_list_def acc1_def rewritten_def)
          qed
        qed
        ultimately show ?thesis by blast
      qed
    qed
  qed
qed

subsection \<open>All the tables\<close>

definition new_of :: "(table \<times> segment_ref list) list \<Rightarrow> table \<Rightarrow> segment_ref list" where
  "new_of xs t = (case map_of xs t of None \<Rightarrow> [] | Some ys \<Rightarrow> ys)"

lemma new_of_simps [simp]: "new_of [] t = []" "new_of ((u, ys) # xs) t = (if t = u then ys else new_of xs t)"
  by (simp_all add: new_of_def)

text \<open>What the pass over the tables of a snapshot has done: \<open>kept\<close> and \<open>merged\<close> split each table's
  list.\<close>

definition compacted ::
  "arrow_env \<Rightarrow> engine \<Rightarrow> engine \<Rightarrow> (table \<times> segment_ref list) list \<Rightarrow> compact_acc \<Rightarrow>
     (table \<times> segment_ref list) list \<Rightarrow> compact_acc \<Rightarrow> bool" where
  "compacted A e e' snap acc new acc' \<longleftrightarrow>
     map fst new = map fst snap \<and>
     (\<exists>items outs kept merged. wrote A e e' items outs \<and>
        length items \<le> length (concat (map snd snap)) \<and>
        fst ` set items \<subseteq> fst ` set snap \<and> fst ` set outs \<subseteq> fst ` set snap \<and>
        (\<forall>t. mset (new_of snap t) = mset (kept t) + mset (merged t) \<and>
           mset (new_of new t) = mset (kept t) + mset (outs_of t outs) \<and>
           seg_data A (snd e) (merged t) = mset (brows (concat (outs_of t items)))) \<and>
        set (ca_deleted acc') = set (ca_deleted acc) \<union> (\<Union>t. set (merged t)))"

lemma outs_of_only: "fst ` set xs \<subseteq> {t} \<Longrightarrow> outs_of u xs = (if u = t then map snd xs else [])"
proof -
  assume a: "fst ` set xs \<subseteq> {t}"
  then have "filter (\<lambda>x. fst x = t) xs = xs" by (auto simp: filter_id_conv)
  then show ?thesis using a by (auto simp: outs_of_def filter_empty_conv)
qed

lemma outs_of_none: "u \<notin> fst ` set xs \<Longrightarrow> outs_of u xs = []"
  by (auto simp: outs_of_def filter_empty_conv)

lemma new_of_none: "u \<notin> fst ` set xs \<Longrightarrow> new_of xs u = []"
  by (induction xs) auto

lemma new_of_in: "set (new_of xs u) \<subseteq> set (concat (map snd xs))"
  by (induction xs) (auto split: if_splits)

lemma compact_tables_cases:
  assumes laws: "arrow_laws A"
  shows "ready A e (concat (map snd snap)) \<Longrightarrow> st_seq (fst e) + length (concat (map snd snap)) \<le> u64_max \<Longrightarrow>
    distinct (map fst snap) \<Longrightarrow> compact_tables A F snap acc e = (res, e') \<Longrightarrow>
    scratched A e e' (length (concat (map snd snap))) \<and>
    (\<forall>new acc'. res = Inr (new, acc') \<longrightarrow> compacted A e e' snap acc new acc')"
proof (induction snap arbitrary: acc e e' res)
  case Nil
  have "compacted A e e [] acc [] acc" unfolding compacted_def
    by (auto intro!: exI [of _ "[]"] exI [of _ "\<lambda>t. []"] wrote_Nil simp: brows_def)
  then show ?case using Nil by auto
next
  case (Cons x snap)
  obtain t segs where x: "x = (t, segs)" by (cases x)
  have rdy: "ready A e segs" "ready A e (concat (map snd snap))" using Cons.prems(1) x by simp_all
  have ng: "length (day_groups segs) \<le> length segs" by (rule day_groups_length)
  obtain r1 e1 where p: "compact_partition A F t segs acc e = (r1, e1)" by (cases "compact_partition A F t segs acc e")
  have rdyg: "ready A e (concat (day_groups segs))"
    using ready_subset [OF rdy(1)] mset_eq_setD [OF day_groups_mset [of segs]] by blast
  have roomg: "st_seq (fst e) + length (day_groups segs) \<le> u64_max" using Cons.prems(2) ng x by simp
  note g = compact_groups_cases [OF laws rdyg roomg p [unfolded compact_partition_def]]
  have sc1: "scratched A e e1 (length segs)" using g ng by (fastforce simp: scratched_def)
  show ?case
  proof (cases r1)
    case (Inl err)
    then have "e' = e1" "\<exists>err. res = Inl err" using Cons.prems(4) p x by auto
    then show ?thesis using sc1 x by (fastforce simp: scratched_def)
  next
    case (Inr acc1)
    obtain r2 e2 where q: "compact_tables A F snap acc1 e1 = (r2, e2)" by (cases "compact_tables A F snap acc1 e1")
    have rdy1: "ready A e1 (concat (map snd snap))" by (rule ready_scratched(1) [OF rdy(2) sc1])
    have room1: "st_seq (fst e1) + length (concat (map snd snap)) \<le> u64_max"
      using Cons.prems(2) sc1 x by (auto simp: scratched_def)
    have fin: "e' = e2" "\<And>err. r2 = Inl err \<Longrightarrow> res = Inl err"
      "\<And>new acc2. r2 = Inr (new, acc2) \<Longrightarrow> res = Inr ((t, ca_result acc1) # new, acc2)"
      using Cons.prems(4) p q x Inr by (cases r2; auto)+
    have dist: "distinct (map fst snap)" "t \<notin> fst ` set snap" using Cons.prems(3) x by auto
    note ih = Cons.IH [OF rdy1 room1 dist(1) q]
    have "scratched A e e' (length (concat (map snd (x # snap))))"
      using scratched_trans [OF sc1 conjunct1 [OF ih]] fin(1) x by simp
    moreover have "compacted A e e' (x # snap) acc new acc'" if r: "res = Inr (new, acc')" for new acc'
    proof -
      obtain new2 where n: "r2 = Inr (new2, acc')" "new = (t, ca_result acc1) # new2"
        proof (cases r2)
        case (Inl err)
        then show thesis using fin(2) r by simp
      next
        case (Inr y)
        obtain n2 a2 where "y = (n2, a2)" by (cases y)
        then show thesis using fin(3) [of n2 a2] r Inr by (intro that [of n2]) simp_all
      qed
      from g Inr have "passed A e e1 t (day_groups segs) (acc\<lparr>ca_result := []\<rparr>) acc1" by blast
      then obtain items1 outs1 kept1 merged1 where a: "wrote A e e1 items1 outs1" "length items1 \<le> length segs"
        "fst ` set items1 \<subseteq> {t}" "fst ` set outs1 \<subseteq> {t}" "mset segs = mset kept1 + mset merged1"
        "mset (ca_result acc1) = mset kept1 + mset (map snd outs1)" "ca_deleted acc1 = ca_deleted acc @ merged1"
        "seg_data A (snd e) merged1 = mset (brows (concat (map snd items1)))"
        using ng unfolding passed_def by (auto simp: day_groups_mset)
      from ih n(1) have "compacted A e1 e2 snap acc1 new2 acc'" by blast
      then obtain items2 outs2 kept2 merged2 where b: "map fst new2 = map fst snap" "wrote A e1 e2 items2 outs2"
        "length items2 \<le> length (concat (map snd snap))" "fst ` set items2 \<subseteq> fst ` set snap"
        "fst ` set outs2 \<subseteq> fst ` set snap"
        "\<And>u. mset (new_of snap u) = mset (kept2 u) + mset (merged2 u)"
        "\<And>u. mset (new_of new2 u) = mset (kept2 u) + mset (outs_of u outs2)"
        "\<And>u. seg_data A (snd e1) (merged2 u) = mset (brows (concat (outs_of u items2)))"
        "set (ca_deleted acc') = set (ca_deleted acc1) \<union> (\<Union>u. set (merged2 u))"
        unfolding compacted_def by (elim exE conjE) (rule that, simp_all only:)
      have none: "outs_of t items2 = []" "outs_of t outs2 = []" "new_of snap t = []"
        using b(4,5) dist(2) by (auto intro!: outs_of_none new_of_none)
      have none2: "kept2 t = []" "merged2 t = []" using b(6) [of t] none(3) by simp_all
      have sub: "set (merged2 u) \<subseteq> set (concat (map snd snap))" for u
      proof -
        have "set (merged2 u) \<subseteq> set (new_of snap u)" using mset_parts [OF b(6) [of u]] by blast
        also have "\<dots> \<subseteq> set (concat (map snd snap))" by (rule new_of_in)
        finally show ?thesis .
      qed
      have d: "seg_data A (snd e) (merged2 u) = seg_data A (snd e1) (merged2 u)" for u
        using ready_scratched(2) [OF ready_subset [OF rdy(2) sub] sc1] by simp
      have o: "outs_of u items1 = (if u = t then map snd items1 else [])"
        "outs_of u outs1 = (if u = t then map snd outs1 else [])" for u
        using a(3,4) by (simp_all add: outs_of_only)
      let ?kept = "\<lambda>u. if u = t then kept1 else kept2 u" and ?merged = "\<lambda>u. if u = t then merged1 else merged2 u"
      have f1: "mset (new_of (x # snap) u) = mset (?kept u) + mset (?merged u) \<and>
          mset (new_of new u) = mset (?kept u) + mset (outs_of u (outs1 @ outs2)) \<and>
          seg_data A (snd e) (?merged u) = mset (brows (concat (outs_of u (items1 @ items2))))" for u
        using a(5,6,8) b(6-8) [of u] d [of u] none n(2) x o [of u] by simp
      have f2: "set (ca_deleted acc') = set (ca_deleted acc) \<union> (\<Union>u. set (?merged u))"
      proof -
        have "set (merged2 u) \<subseteq> (\<Union>u. set (?merged u))" for u
          using none2 by (cases "u = t") (auto intro!: exI [of _ u])
        moreover have "set merged1 \<subseteq> (\<Union>u. set (?merged u))" by (auto intro!: exI [of _ t])
        ultimately have "(\<Union>u. set (?merged u)) = set merged1 \<union> (\<Union>u. set (merged2 u))"
          by (intro equalityI) (auto split: if_splits)
        then show ?thesis using b(9) a(7) by auto
      qed
      have f3: "wrote A e e' (items1 @ items2) (outs1 @ outs2)" using wrote_trans [OF a(1) b(2)] fin(1) by simp
      have f4: "length (items1 @ items2) \<le> length (concat (map snd (x # snap)))" using a(2) b(3) x by simp
      have f5: "fst ` set (items1 @ items2) \<subseteq> fst ` set (x # snap)" "fst ` set (outs1 @ outs2) \<subseteq> fst ` set (x # snap)"
        using a(3,4) b(4,5) x by auto
      have f6: "map fst new = map fst (x # snap)" using n(2) b(1) x by simp
      show ?thesis unfolding compacted_def
        by (rule conjI [OF f6], rule exI [of _ "items1 @ items2"], rule exI [of _ "outs1 @ outs2"], rule exI [of _ ?kept],
            rule exI [of _ ?merged], intro conjI allI f2 f3 f4 f5)
           (rule f1 [THEN conjunct1] f1 [THEN conjunct2, THEN conjunct1] f1 [THEN conjunct2, THEN conjunct2])+
    qed
    ultimately show ?thesis by blast
  qed
qed

end
