(* ===== verification/Storage_Compactor.thy ===== *)
theory Storage_Compactor
  imports Storage_Compaction Storage_Runs
begin

text \<open>
  The engine with a compactor beside the ingesting callers and the sealer: the snapshot of the lists,
  the writing outside the lock, the reconciliation and the reclaim are separate steps, and any steps of
  the others may come between them.
\<close>

subsection \<open>Names\<close>

definition named :: "table \<Rightarrow> segment_ref \<Rightarrow> bool" where
  "named t x \<longleftrightarrow> (\<exists>mt now sq. relative_path x = segment_rel_path (table_as_str t) mt now sq)"

lemma named_table: "named t x \<Longrightarrow> named u y \<Longrightarrow> relative_path x = relative_path y \<Longrightarrow> t = u"
proof -
  assume a: "named t x" "named u y" "relative_path x = relative_path y"
  have first: "hd (split_on (CHR ''/'') (segment_rel_path (table_as_str t) mt now sq)) = table_as_str t" for t mt now sq
    unfolding segment_rel_path_def using table_as_str_no_slash [of t] by (simp add: split_on_append)
  from a show ?thesis unfolding named_def by (metis first table_as_str_inject)
qed

lemma named_slashes: "named t x \<Longrightarrow> slashes (relative_path x) = 2"
  using slashes_base by (auto simp: named_def segment_rel_path_base)

lemma path_in_named: "path_in A k0 k1 (t, x) \<Longrightarrow> named t x"
  by (auto simp: path_in_def named_def segment_path_def)

lemma distinct_map_append:
  "distinct (map f xs) \<Longrightarrow> distinct (map f ys) \<Longrightarrow> (\<And>x y. x \<in> set xs \<Longrightarrow> y \<in> set ys \<Longrightarrow> f x \<noteq> f y) \<Longrightarrow>
     distinct (map f (xs @ ys))"
  by (induction xs) auto

subsection \<open>Segments in flight\<close>

fun in_flight :: "phase \<Rightarrow> (table \<times> segment_ref) list" where
  "in_flight (Written tk out) = written_segs out"
| "in_flight _ = []"

abbreviation segs_all :: "storage \<Rightarrow> phase \<Rightarrow> table \<Rightarrow> segment_ref list" where
  "segs_all st ph t \<equiv> segs_of (st_inner st) t @ outs_of t (in_flight ph)"

text \<open>The paths of a table's segments, registered or about to be, are distinct, name their table and
  belong to sequence numbers already used.\<close>

definition uniq :: "arrow_env \<Rightarrow> storage \<Rightarrow> phase \<Rightarrow> bool" where
  "uniq A st ph \<longleftrightarrow> (\<forall>t. distinct (map relative_path (segs_all st ph t)) \<and>
     (\<forall>x \<in> set (segs_all st ph t). named t x \<and> path_old A (st_seq st) (relative_path x)))"

text \<open>What a step of the engine does to the segments: it touches no file of an old one, and appends
  new ones.\<close>

definition advances :: "arrow_env \<Rightarrow> storage \<Rightarrow> world \<Rightarrow> phase \<Rightarrow> storage \<Rightarrow> world \<Rightarrow> phase \<Rightarrow> bool" where
  "advances A st w ph st' w' ph' \<longleftrightarrow>
     st_seq st \<le> st_seq st' \<and> touches (- seg_names \<union> seg_range A (st_seq st) (st_seq st')) w w' \<and>
     (\<forall>t. \<exists>ext. segs_of (st_inner st') t = segs_of (st_inner st) t @ ext) \<and>
     (\<forall>t. \<exists>new. segs_all st' ph' t = segs_all st ph t @ new \<and> distinct (map relative_path new) \<and>
        (\<forall>x \<in> set new. path_in A (st_seq st) (st_seq st') (t, x)))"

lemma grows_same:
  assumes "st_seq st' = st_seq st" "touches S w w'" "S \<inter> seg_names = {}"
    "manifest_view (st_inner st') = manifest_view (st_inner st)" "in_flight ph' = in_flight ph"
  shows "advances A st w ph st' w' ph'"
  unfolding advances_def using assms touches_mono [OF assms(2), of "- seg_names \<union> seg_range A (st_seq st) (st_seq st')"]
  by auto

lemma uniq_grows:
  assumes u: "uniq A st ph" and g: "advances A st w ph st' w' ph'"
  shows "uniq A st' ph'"
  unfolding uniq_def
proof
  fix t
  obtain new where n: "segs_all st' ph' t = segs_all st ph t @ new" "distinct (map relative_path new)"
    "\<forall>x \<in> set new. path_in A (st_seq st) (st_seq st') (t, x)" using g unfolding advances_def by blast
  have le: "st_seq st \<le> st_seq st'" using g by (simp add: advances_def)
  have u': "distinct (map relative_path (segs_all st ph t))"
    "\<And>x. x \<in> set (segs_all st ph t) \<Longrightarrow> named t x \<and> path_old A (st_seq st) (relative_path x)"
    using u unfolding uniq_def by blast+
  have "relative_path x \<noteq> relative_path y" if "x \<in> set (segs_all st ph t)" "y \<in> set new" for x y
    using u'(2) [OF that(1)] path_in_range [of A "st_seq st" "st_seq st'" "(t, y)"] n(3) that(2) by (auto simp: path_old_def)
  then have "distinct (map relative_path (segs_all st ph t @ new))"
    by (rule distinct_map_append [OF u'(1) n(2)])
  moreover have "named t x \<and> path_old A (st_seq st') (relative_path x)" if "x \<in> set (segs_all st ph t @ new)" for x
    using that u'(2) [of x] path_old_mono [OF _ le] n(3) path_in_named path_in_old [of A "st_seq st" "st_seq st'" "(t, x)"]
    unfolding set_append Un_iff by auto
  ultimately show "distinct (map relative_path (segs_all st' ph' t)) \<and>
      (\<forall>x \<in> set (segs_all st' ph' t). named t x \<and> path_old A (st_seq st') (relative_path x))"
    unfolding n(1) by blast
qed

subsection \<open>The steps of the engine\<close>

lemma wal_no_seg: "wal_names \<inter> seg_names = {}" "manifest_names \<inter> seg_names = {}"
  using seg_disjoint by blast+

lemma ingest_grows:
  assumes laws: "arrow_laws A" and al: "alive A h mh st w H ph" and j: "job_ok j"
    and run: "process_ingest_job A h now sync j (st, w) = (Inr a, st', w')"
  shows "advances A st w ph st' w' ph"
proof -
  obtain l recs where l: "st_wal st = Some l" "wal_holds h 0 (l, w) recs"
    using al by (auto simp: alive_def wal_part_def)
  have acc: "\<forall>k rs. accepts A k rs" using laws by (simp add: arrow_laws_def)
  have ro: "\<not> read_only st" using al by (simp add: alive_def lsn_part_def Let_def)
  obtain r1 l1 w1 where a: "wal_append h (next_lsn (st_inner st)) (job_signal j) (job_raw j) (l, w) = (r1, l1, w1)"
    "same_bytes w1 w'" "same_store st st'"
    "pushed (promote st) (job_rows j) (accepted_inner now (st_inner st)) (st_inner st')"
    by (rule process_job_cases [OF acc j ro l(1) run]) blast
  have t1: "touches wal_names w w1"
    using wal_append_touches [OF wal_file_name [OF l(2)], of w h "next_lsn (st_inner st)" "job_signal j" "job_raw j"] a(1) by simp
  have t: "touches wal_names w w'" by (rule touches_trans [OF t1 same_bytes_touches [OF a(2)]])
  show ?thesis
    by (rule grows_same [OF _ t wal_no_seg(1)]) (use a(3) pushed_frame(2) [OF a(4)] in \<open>simp_all add: same_store_def\<close>)
qed

lemma sync_grows:
  assumes al: "alive A h mh st w H ph" and run: "sync_wal (st, w) = (r, st', w')"
  shows "advances A st w ph st' w' ph"
proof -
  obtain l where l: "st_wal st = Some l" using al by (auto simp: alive_def wal_part_def)
  obtain r1 w1 where s: "wal_sync (l, w) = (r1, l, w1)" "same_bytes w w1" using wal_sync_shape by blast
  have st: "w' = w1" "st_seq st' = st_seq st" "st_inner st' = st_inner st"
    using run l s by (cases r1; auto simp: sync_wal_def with_wal_def fetch_max_def Let_def)+
  show ?thesis by (rule grows_same [OF st(2) _ _ _ refl, of "{}"]) (use st s same_bytes_touches in auto)
qed

lemma register_grows:
  assumes ms: "\<forall>x \<in> set (snd (snd out)). fst x \<noteq> TLogs \<and> fst x \<noteq> TSpans"
    and run: "seal_commit mh tk out (st, w) = (Inr (), st', w')"
  shows "advances A st w (Written tk out) st' w' (Committed tk)"
proof -
  have i: "st_inner st' = seal_register tk out (st_inner st)" by (rule seal_commit_inner [OF run])
  have q: "st_seq st' = st_seq st \<and> touches manifest_names w w'"
  proof (cases "st_manifest st")
    case None
    then show ?thesis using run by (auto simp: seal_commit_def persist_manifest_def upd_inner_pair fetch_max_def)
  next
    case (Some mw)
    obtain r mw' w2 where p: "persist mh (manifest_view (seal_register tk out (st_inner st))) (mw, w) = (r, mw', w2)"
      by (metis prod_cases3)
    have "touches manifest_names w w2"
      using persist_touches [of w mh "manifest_view (seal_register tk out (st_inner st))" mw] p by simp
    then show ?thesis using run Some p
      by (cases r) (auto simp: seal_commit_def persist_manifest_def upd_inner_pair fetch_max_def with_manifest_def)
  qed
  have s: "segs_of (st_inner st') t = segs_of (st_inner st) t @ outs_of t (written_segs out)" for t
    unfolding i by (rule seal_register_facts(1) [OF ms])
  have "touches (- seg_names \<union> seg_range A (st_seq st) (st_seq st')) w w'"
    using q wal_no_seg(2) by (auto intro: touches_mono)
  then show ?thesis unfolding advances_def using q s by simp
qed

lemma reclaim_grows:
  assumes al: "alive A h mh st w H (Committed tk)" and room: "\<And>l. st_wal st = Some l \<Longrightarrow> seq l < u64_max"
    and run: "seal_reclaim tk (st, w) = (Inr (), st', w')"
  shows "advances A st w (Committed tk) st' w' Idle"
proof -
  obtain l recs where l: "st_wal st = Some l" "wal_holds h 0 (l, w) recs"
    using al by (auto simp: alive_def wal_part_def)
  obtain r l' w2 where rc: "wal_reclaim (tk_watermark tk) (l, w) = (r, l', w2)" by (metis prod_cases3)
  obtain cl rs where rep: "wal_rep h (l, w) cl rs" using l(2) by (auto simp: wal_holds_def)
  have t: "touches wal_names w w2" using wal_reclaim_touches [OF rep room [OF l(1)], of "tk_watermark tk"] rc by simp
  have st: "w' = w2" "st_seq st' = st_seq st" "st_inner st' = st_inner st"
    using run l rc by (auto simp: seal_reclaim_def with_wal_def)
  show ?thesis by (rule grows_same [OF st(2) _ wal_no_seg(1)]) (use st t in auto)
qed

lemma write_grows:
  assumes laws: "arrow_laws A" and al: "alive A h mh st w H (Taken tk)" and room: "st_seq st + 12 \<le> u64_max"
    and run: "seal_write A tk (st, w) = (res, st', w')"
  shows "advances A st w (Taken tk) st' w' (case res of Inl e \<Rightarrow> Failed tk | Inr out \<Rightarrow> Written tk out)"
proof -
  have tk: "tk_part st H tk" using al unfolding alive_def phase_part_def by simp
  have rm: "st_seq (fst (st, w)) + 12 \<le> u64_max" using room by simp
  note c = seal_write_cases [OF laws tk_items_ok [OF tk] rm run]
  obtain q where q: "st' = st\<lparr>st_seq := q\<rparr>" "st_seq st \<le> q" "touches (seg_range A (st_seq st) q) w w'"
    using c(1) by (auto simp: scratched_def)
  have new: "\<exists>new. outs_of t (in_flight (case res of Inl e \<Rightarrow> Failed tk | Inr out \<Rightarrow> Written tk out)) = new \<and>
      distinct (map relative_path new) \<and> (\<forall>x \<in> set new. path_in A (st_seq st) (st_seq st') (t, x))" for t
  proof (cases res)
    case (Inr out)
    from c(2) [OF Inr] obtain qa where "st' = st\<lparr>st_seq := qa\<rparr>"
      "\<forall>x \<in> set (written_segs out). path_in A (st_seq st) qa x"
      "distinct (map (relative_path \<circ> snd) (written_segs out))" by (auto simp: wrote_def)
    then have w: "\<forall>x \<in> set (written_segs out). path_in A (st_seq st) (st_seq st') x"
      "distinct (map (relative_path \<circ> snd) (written_segs out))" by simp_all
    have "distinct (map relative_path (outs_of t xs))" if "distinct (map (relative_path \<circ> snd) xs)" for xs
      using that by (induction xs) (auto simp: outs_of_def)
    then show ?thesis using w Inr by (auto simp: outs_of_def)
  qed simp
  have "touches (- seg_names \<union> seg_range A (st_seq st) (st_seq st')) w w'" using q by (auto intro: touches_mono)
  then show ?thesis unfolding advances_def using q new by auto
qed

text \<open>Every step of the engine that leaves it running.\<close>

lemma step_grows:
  assumes laws: "arrow_laws A" and inv: "sys_inv A h mh i s" and rep: "representable s"
    and step: "engine_step A h mh {i} s s'" and alive': "\<not> sy_dead s'"
    and e: "sy_engine s = (st, w)" "sy_engine s' = (st', w')"
  shows "advances A st w (sy_sealer s i) st' w' (sy_sealer s' i)"
proof -
  have r: "st_seq st + 12 \<le> u64_max" "\<And>l. st_wal st = Some l \<Longrightarrow> seq l < u64_max"
    using rep by (auto simp: representable_def e)
  have al: "alive A h mh st w (sy_jobs s) (sy_sealer s i)" if "\<not> sy_dead s" using inv that by (simp add: sys_inv_def e)
  have same: "advances A st w ph st' w' ph'"
    if "st' = st\<lparr>st_inner := inn'\<rparr>" "w' = w" "manifest_view inn' = manifest_view (st_inner st)" "in_flight ph' = in_flight ph"
    for inn' ph ph'
    by (rule grows_same [of _ _ "{}"]) (use that in simp_all)
  show ?thesis
    using step
  proof cases
    case (ingest_ok j now sync l d e')
    then show ?thesis using ingest_grows [OF laws al, of j now sync "(l, d)"] e by simp
  next
    case (commit_log r e')
    then show ?thesis using sync_grows [OF al] e by simp
  next
    case (take i' tk inn')
    then have st: "st' = st\<lparr>st_inner := inn'\<rparr>" "w' = w" using e by (simp_all add: set_phase_def upd_inner_def)
    have "manifest_view inn' = manifest_view (st_inner st)" by (rule seal_take_facts(7)) (use take e in simp)
    from same [OF st this] show ?thesis using take by (simp add: set_phase_def)
  next
    case (write_ok i' tk out e')
    have al': "alive A h mh st w (sy_jobs s) (Taken tk)" using al write_ok by simp
    show ?thesis using write_grows [OF laws al' r(1), of "Inr out" st' w'] write_ok e by (simp add: set_phase_def)
  next
    case (write_err i' tk err e')
    have al': "alive A h mh st w (sy_jobs s) (Taken tk)" using al write_err by simp
    show ?thesis using write_grows [OF laws al' r(1), of "Inl err" st' w'] write_err e by (simp add: set_phase_def)
  next
    case (restore i' tk)
    then have st: "st' = st\<lparr>st_inner := seal_restore tk (st_inner st)\<rparr>" "w' = w"
      using e by (simp_all add: set_phase_def upd_inner_def)
    from same [OF st seal_restore_facts(3)] show ?thesis using restore by (simp add: set_phase_def)
  next
    case (register_ok i' tk out e')
    have al': "alive A h mh st w (sy_jobs s) (Written tk out)" using al register_ok by simp
    then have "\<forall>x \<in> set (snd (snd out)). fst x \<noteq> TLogs \<and> fst x \<noteq> TSpans"
      unfolding alive_def phase_part_def by (simp add: out_part_def)
    from register_grows [OF this] show ?thesis using register_ok e by (simp add: set_phase_def)
  next
    case (reclaim_ok i' tk e')
    have al': "alive A h mh st w (sy_jobs s) (Committed tk)" using al reclaim_ok by simp
    show ?thesis using reclaim_grows [OF al' r(2), of st' w'] reclaim_ok e by (simp add: set_phase_def)
  qed (use alive' in \<open>simp_all add: crash_def\<close>)
qed

end
