(* ===== verification/Storage_Reconcile.thy ===== *)
theory Storage_Reconcile
  imports Storage_Compactor
begin

text \<open>
  The reconciliation of compaction: after it the lists hold the kept segments, those appended
  meanwhile and the merged ones, the manifest follows, and deleting the merged sources touches no
  listed segment.
\<close>

subsection \<open>The lists after the reconciliation\<close>

lemma reconcile_loop:
  "distinct (map relative_path new) \<Longrightarrow>
     foldl (\<lambda>cur p. if relative_path p \<in> paths cur then cur else cur @ [p]) cur new =
     cur @ filter (\<lambda>p. relative_path p \<notin> paths cur) new"
proof (induction new arbitrary: cur)
  case (Cons p new)
  have "relative_path q \<noteq> relative_path p" if "q \<in> set new" for q
    using that Cons.prems by (metis distinct.simps(2) image_eqI list.simps(9) set_map)
  then have "filter (\<lambda>q. relative_path q \<notin> paths (cur @ [p])) new = filter (\<lambda>q. relative_path q \<notin> paths cur) new"
    by (intro filter_cong) auto
  with Cons show ?case by simp
qed simp

lemma reconcile_segments_eq:
  "distinct (map relative_path new) \<Longrightarrow>
     reconcile_segments cur del new =
     filter (\<lambda>s. relative_path s \<notin> del) cur @
     filter (\<lambda>p. relative_path p \<notin> paths (filter (\<lambda>s. relative_path s \<notin> del) cur)) new"
  unfolding reconcile_segments_def by (rule reconcile_loop)

lemma reconcile_table_segs:
  "segs_of (reconcile_table del inn (t, new)) u =
     (if u = t then reconcile_segments (segs_of inn t) del new else segs_of inn u)"
  unfolding reconcile_table_def segments_for_eq
  by (cases t; cases u) (simp_all add: Let_def manifest_view_def list_of_def)

lemma reconcile_fold_segs:
  "distinct (map fst xs) \<Longrightarrow>
     segs_of (foldl (reconcile_table del) inn xs) u =
     (if u \<in> fst ` set xs then reconcile_segments (segs_of inn u) del (new_of xs u) else segs_of inn u)"
proof (induction xs arbitrary: inn)
  case (Cons x xs)
  obtain t new where x: "x = (t, new)" by (cases x)
  show ?case using Cons x by (auto simp: reconcile_table_segs image_iff)
qed simp

lemma reconcile_table_frame:
  "buffer_of (reconcile_table del inn x) u = buffer_of inn u" "metric_buffers (reconcile_table del inn x) = metric_buffers inn"
  "sealing (reconcile_table del inn x) = sealing inn" "watermark (reconcile_table del inn x) = watermark inn"
  "buffer_max_lsn (reconcile_table del inn x) = buffer_max_lsn inn" "next_lsn (reconcile_table del inn x) = next_lsn inn"
  "metrics_ok (manifest_view inn) \<Longrightarrow> metrics_ok (manifest_view (reconcile_table del inn x))"
proof -
  obtain t new where x: "x = (t, new)" by (cases x)
  show "buffer_of (reconcile_table del inn x) u = buffer_of inn u"
    by (cases t; cases u) (simp_all add: x reconcile_table_def Let_def)
  show "metrics_ok (manifest_view inn) \<Longrightarrow> metrics_ok (manifest_view (reconcile_table del inn x))"
    by (cases t) (simp_all add: x reconcile_table_def Let_def metrics_ok_def manifest_view_def)
qed (cases x; cases "fst x"; simp add: reconcile_table_def Let_def)+

definition same_buffers :: "inner \<Rightarrow> inner \<Rightarrow> bool" where
  "same_buffers inn inn' \<longleftrightarrow>
     (\<forall>u. buffer_of inn' u = buffer_of inn u) \<and> metric_buffers inn' = metric_buffers inn \<and> sealing inn' = sealing inn \<and>
     watermark inn' = watermark inn \<and> buffer_max_lsn inn' = buffer_max_lsn inn \<and> next_lsn inn' = next_lsn inn \<and>
     (metrics_ok (manifest_view inn) \<longrightarrow> metrics_ok (manifest_view inn'))"

lemma reconcile_fold_frame: "same_buffers inn (foldl (reconcile_table del) inn xs)"
  by (induction xs arbitrary: inn) (auto simp: same_buffers_def reconcile_table_frame)

subsection \<open>Replacing segments\<close>

text \<open>Files that no registered segment and none in flight uses may change.\<close>

lemma alive_files:
  assumes al: "alive A h mh st w H ph" and t: "touches S w w'" and S: "S \<subseteq> seg_names"
    and use: "\<And>t x. x \<in> set (segs_all st ph t) \<Longrightarrow> relative_path x \<notin> S"
  shows "alive A h mh st w' H ph"
proof -
  have S': "S \<inter> wal_names = {}" "S \<inter> manifest_names = {}" using S seg_disjoint by blast+
  have parts: "lsn_part st H" "wal_part h st w H" "man_part mh st w" "seg_part A st w H" "phase_part A st w H ph"
    using al unfolding alive_def by simp_all
  have fine: "seg_fine A st w' x" if "seg_fine A st w x" "relative_path x \<notin> S" for x
    using that seg_content_touches [OF t that(2)] by (simp add: seg_fine_def seg_readable_def)
  have seg: "seg_part A st w' H"
    unfolding seg_part_def
  proof (intro allI conjI ballI)
    fix u x assume "x \<in> set (segs_of (st_inner st) u)"
    then show "seg_fine A st w' x" using parts(4) use [of x u] fine by (simp add: seg_part_def)
  next
    fix u
    have "seg_data A w' (segs_of (st_inner st) u) = seg_data A w (segs_of (st_inner st) u)"
      by (rule seg_data_touches [OF t]) (use use [of _ u] in simp)
    then show "seg_data A w' (segs_of (st_inner st) u) = mset (hist_rows H u (\<lambda>l. l \<le> watermark (st_inner st)))"
      using parts(4) by (simp add: seg_part_def)
  qed
  have out: "out_part A st w' tk out" if o: "out_part A st w tk out" "ph = Written tk out" for tk out
  proof -
    have n: "relative_path (snd x) \<notin> S" if "x \<in> set (written_segs out)" for x
      using use [of "snd x" "fst x"] that o(2) by (force simp: outs_of_def)
    have "seg_data A w' (outs_of u (written_segs out)) = seg_data A w (outs_of u (written_segs out))" for u
      by (rule seg_data_touches [OF t]) (use n path_in_outs in fastforce)
    then show ?thesis using o(1) n fine by (simp add: out_part_def)
  qed
  have "phase_part A st w' H ph" using parts(5) out by (cases ph) (auto simp: phase_part_def)
  moreover have "wal_part h st w' H" by (rule wal_part_touches [OF t S'(1) parts(2)])
  moreover have "man_part mh st w'" by (rule man_part_touches [OF t S'(2) parts(3)])
  ultimately show ?thesis using parts(1) seg unfolding alive_def by blast
qed

lemma alive_seq:
  assumes al: "alive A h mh st w H ph" and q: "st_seq st \<le> q"
  shows "alive A h mh (st\<lparr>st_seq := q\<rparr>) w H ph"
proof -
  have f: "seg_fine A (st\<lparr>st_seq := q\<rparr>) w x" if "seg_fine A st w x" for x
    using that path_old_mono [OF _ q] by (simp add: seg_fine_def)
  have "seg_part A (st\<lparr>st_seq := q\<rparr>) w H" using al f by (simp add: alive_def seg_part_def)
  moreover have "phase_part A (st\<lparr>st_seq := q\<rparr>) w H ph"
    using al f by (cases ph) (auto simp: alive_def phase_part_def same_frame_simps out_part_def)
  ultimately show ?thesis using al unfolding alive_def by (simp add: same_frame_simps)
qed

text \<open>Writing files of sequence numbers not yet used, in any phase of the sealer.\<close>

lemma alive_writes:
  assumes al: "alive A h mh st w H ph" and u: "uniq A st ph" and sc: "scratched A (st, w) (st', w') n"
  shows "alive A h mh st' w' H ph" "uniq A st' ph" "st_inner st' = st_inner st"
proof -
  obtain q where q: "st' = st\<lparr>st_seq := q\<rparr>" "st_seq st \<le> q" "touches (seg_range A (st_seq st) q) w w'"
    using sc by (auto simp: scratched_def)
  have "alive A h mh st w' H ph"
    by (rule alive_files [OF al q(3) seg_range_names]) (use u in \<open>unfold uniq_def path_old_def, blast\<close>)
  then show "alive A h mh st' w' H ph" unfolding q(1) by (rule alive_seq [OF _ q(2)])
  show "uniq A st' ph" using u path_old_mono [OF _ q(2)] unfolding q(1) uniq_def by simp
  show "st_inner st' = st_inner st" by (simp add: q(1))
qed

text \<open>New lists with the same rows, saved to the manifest.\<close>

lemma persist_inner:
  "persist_manifest mh (st, w) = (res, st', w') \<Longrightarrow>
     st_inner st' = st_inner st \<and> st_seq st' = st_seq st \<and> touches manifest_names w w'"
proof -
  assume run: "persist_manifest mh (st, w) = (res, st', w')"
  show ?thesis
  proof (cases "st_manifest st")
    case None
    then show ?thesis using run by (auto simp: persist_manifest_def)
  next
    case (Some mw)
    obtain r mw' w2 where p: "persist mh (manifest_view (st_inner st)) (mw, w) = (r, mw', w2)" by (metis prod_cases3)
    show ?thesis using run Some p persist_touches [of w mh "manifest_view (st_inner st)" mw]
      by (auto simp: persist_manifest_def with_manifest_def)
  qed
qed

lemma alive_replace:
  assumes al: "alive A h mh st w H ph" and fr: "same_buffers (st_inner st) inn'"
    and room: "\<And>mw. st_manifest st = Some mw \<Longrightarrow> current_num mw < u64_max"
    and rep: "fits (manifest_view inn')" "watermark inn' \<le> u64_max" "\<And>t x. x \<in> set (segs_of inn' t) \<Longrightarrow> seg_rows x \<le> u64_max"
    and fine: "\<And>t x. x \<in> set (segs_of inn' t) \<Longrightarrow> seg_fine A st w x"
    and rows: "\<And>t. seg_data A w (segs_of inn' t) = seg_data A w (segs_of (st_inner st) t)"
    and ev: "\<And>t. evolves (segs_of (st_inner st) t) (segs_of inn' t)"
    and apart: "\<And>t x y. x \<in> set (in_flight ph) \<Longrightarrow> y \<in> set (segs_of inn' t) \<Longrightarrow> relative_path y \<noteq> relative_path (snd x)"
    and run: "persist_manifest mh (st\<lparr>st_inner := inn'\<rparr>, w) = (res, st', w')"
  shows "disk_ok A h mh w' H" "res = Inr () \<Longrightarrow> alive A h mh st' w' H ph"
proof -
  let ?st1 = "st\<lparr>st_inner := inn'\<rparr>" and ?view = "manifest_view inn'"
  have parts: "lsn_part st H" "wal_part h st w H" "man_part mh st w" "seg_part A st w H" "phase_part A st w H ph"
    using al unfolding alive_def by simp_all
  have f: "watermark inn' = watermark (st_inner st)" "buffer_max_lsn inn' = buffer_max_lsn (st_inner st)"
    "next_lsn inn' = next_lsn (st_inner st)" "sealing inn' = sealing (st_inner st)"
    "metric_buffers inn' = metric_buffers (st_inner st)" "\<And>u. buffer_of inn' u = buffer_of (st_inner st) u"
    using fr by (simp_all add: same_buffers_def)
  obtain mw where mw: "st_manifest st = Some mw" "mw_inv mh 0 (mw, w)"
    and same: "same_state (last_state mw) (manifest_view (st_inner st))" and mok: "metrics_ok (manifest_view (st_inner st))"
    using parts(3) by (auto simp: man_part_def)
  obtain r mw' w2 where p: "persist mh ?view (mw, w) = (r, mw', w2)" by (metis prod_cases3)
  have inv: "mw_inv mh (Suc 0) (mw, w)" by (rule mw_inv_room [OF mw(2) room [OF mw(1)]])
  have mok': "metrics_ok ?view" using fr mok by (simp add: same_buffers_def)
  have sok: "state_ok ?view"
    using mok' rep fine by (auto simp: state_ok_def list_all_iff seg_ok_def seg_fine_def)
  have ev': "evolves (list_of (last_state mw) t) (list_of ?view t)" for t
    using ev [of t] same by (simp add: same_state_def)
  note pc = persist_cases [OF inv sok rep(1) ev' p]
  have t: "touches manifest_names w w2" using persist_touches [of w mh ?view mw] p by simp
  have fin: "w' = w2" "res = r" "st' = ?st1\<lparr>st_manifest := Some mw'\<rparr>"
    using run p mw(1) by (auto simp: persist_manifest_def with_manifest_def)
  have dj: "manifest_names \<inter> seg_names = {}" "manifest_names \<inter> wal_names = {}"
    using seg_disjoint wal_manifest_disjoint by blast+
  have seg1: "seg_part A ?st1 w2 H"
  proof (rule seg_part_touches [OF t dj(1)])
    have "seg_fine A ?st1 w x" if "x \<in> set (segs_of inn' u)" for u x using fine [OF that] by (simp add: seg_fine_def)
    then show "seg_part A ?st1 w H" using parts(4) rows f(1) by (simp add: seg_part_def)
  qed
  have seg0: "seg_part A st w2 H" by (rule seg_part_touches [OF t dj(1) parts(4)])
  have wal0: "wal_part h st w2 H" by (rule wal_part_touches [OF t dj(2) parts(2)])
  then have wal1: "wal_part h ?st1 w2 H" by (simp add: wal_part_def f)
  have disk: "disk_ok A h mh w2 H"
    if v: "shows_state mh w2 (manifest_view (st_inner s))" and wal: "wal_part h s w2 H" and seg: "seg_part A s w2 H" for s
  proof -
    obtain l recs where l: "wal_holds h 0 (l, w2) recs"
      "live (watermark (st_inner s)) recs = live (watermark (st_inner s)) (map rec_of H)"
      using wal by (auto simp: wal_part_def)
    show ?thesis by (rule disk_parts [OF v wal_holds_disk [OF l(1)] l(2) seg])
  qed
  have "shows_state mh w2 (manifest_view (st_inner st)) \<or> shows_state mh w2 (manifest_view (st_inner ?st1))"
    using pc same same_state_trans unfolding shows_state_def by (auto 0 3 intro: same_state_trans)
  then show "disk_ok A h mh w' H" using disk [OF _ wal0 seg0] disk [OF _ wal1 seg1] fin by blast
  assume "res = Inr ()"
  then have r: "r = Inr ()" using fin by simp
  note s = fin(3)
  have "lsn_part st' H" using parts(1) by (simp add: s lsn_part_def f Let_def)
  moreover have "wal_part h st' w' H" using wal1 by (simp add: s fin(1) wal_part_def)
  moreover have "man_part mh st' w'" using pc r mok' by (simp add: s fin(1) man_part_def)
  moreover have "seg_part A st' w' H" using seg1 by (simp add: s fin(1) seg_part_def seg_fine_def)
  moreover have "phase_part A st' w' H ph"
  proof -
    have b: "buf_part st' H lo = buf_part st H lo" for lo by (simp add: s buf_part_def f)
    have tk: "tk_part st' H tk = tk_part st H tk" for tk by (simp add: s tk_part_def f Let_def)
    have "out_part A st' w' tk out" if "out_part A st w tk out" "ph = Written tk out" for tk out
    proof -
      have "out_part A st w2 tk out" by (rule out_part_touches [OF t dj(1) that(1)])
      then show ?thesis using apart that(2) by (simp add: s fin(1) out_part_def seg_fine_def)
    qed
    moreover have "sealing (st_inner st') = sealing (st_inner st)" "watermark (st_inner st') = watermark (st_inner st)"
      by (simp_all add: s f)
    ultimately show ?thesis using parts(5) by (cases ph) (auto simp: phase_part_def b tk)
  qed
  ultimately show "alive A h mh st' w' H ph" unfolding alive_def by blast
qed

subsection \<open>A plan\<close>

text \<open>What holds of a written plan while the engine goes on: the lists still start with the snapshot,
  which splits into kept and merged segments; the new lists are the kept and the fresh ones; the fresh
  ones have the rows of the merged, and files of their own.\<close>

definition plan_split ::
  "arrow_env \<Rightarrow> storage \<Rightarrow> world \<Rightarrow> phase \<Rightarrow> plan \<Rightarrow> (table \<Rightarrow> segment_ref list) \<Rightarrow> (table \<Rightarrow> segment_ref list) \<Rightarrow>
     (table \<Rightarrow> segment_ref list) \<Rightarrow> (table \<Rightarrow> segment_ref list) \<Rightarrow> bool" where
  "plan_split A st w ph p snap kept merged fresh \<longleftrightarrow>
     distinct (map fst (fst p)) \<and> set (ca_deleted (snd p)) = (\<Union>t. set (merged t)) \<and>
     (\<forall>t. (\<exists>ext. segs_of (st_inner st) t = snap t @ ext) \<and> (t \<in> fst ` set (fst p) \<or> merged t = []) \<and> mset (snap t) = mset (kept t) + mset (merged t) \<and>
        mset (new_of (fst p) t) = mset (kept t) + mset (fresh t) \<and>
        distinct (map relative_path (segs_all st ph t @ fresh t)) \<and>
        (\<forall>x \<in> set (fresh t). named t x \<and> seg_fine A st w x) \<and>
        seg_data A w (fresh t) = seg_data A w (merged t))"

definition plan_part :: "arrow_env \<Rightarrow> storage \<Rightarrow> world \<Rightarrow> phase \<Rightarrow> plan \<Rightarrow> bool" where
  "plan_part A st w ph p \<longleftrightarrow> (\<exists>snap kept merged fresh. plan_split A st w ph p snap kept merged fresh)"

lemma plan_splitD:
  assumes "plan_split A st w ph p snap kept merged fresh"
  shows "distinct (map fst (fst p))" "set (ca_deleted (snd p)) = (\<Union>t. set (merged t))"
    "\<exists>ext. segs_of (st_inner st) t = snap t @ ext" "mset (snap t) = mset (kept t) + mset (merged t)"
    "mset (new_of (fst p) t) = mset (kept t) + mset (fresh t)"
    "distinct (map relative_path (segs_all st ph t @ fresh t))"
    "x \<in> set (fresh t) \<Longrightarrow> named t x" "x \<in> set (fresh t) \<Longrightarrow> seg_fine A st w x"
    "seg_data A w (fresh t) = seg_data A w (merged t)" "t \<in> fst ` set (fst p) \<or> merged t = []"
  using assms unfolding plan_split_def by blast+

lemma plan_merged_in:
  assumes "plan_split A st w ph p snap kept merged fresh"
  shows "set (merged t) \<subseteq> set (segs_of (st_inner st) t)" "set (kept t) \<subseteq> set (segs_of (st_inner st) t)"
  using mset_parts [OF plan_splitD(4) [OF assms, of t]] plan_splitD(3) [OF assms, of t] by auto

lemma distinct_map_mset: "mset xs = mset ys \<Longrightarrow> distinct (map f xs) = distinct (map f ys)"
  by (metis mset_map mset_eq_imp_distinct_iff)

text \<open>The engine goes on.\<close>

lemma plan_grows:
  assumes p: "plan_part A st w ph p" and al: "alive A h mh st w H ph" and u: "uniq A st ph"
    and g: "advances A st w ph st' w' ph'"
  shows "plan_part A st' w' ph' p"
proof -
  obtain snap kept merged fresh where s: "plan_split A st w ph p snap kept merged fresh" using p by (auto simp: plan_part_def)
  note d = plan_splitD [OF s]
  have le: "st_seq st \<le> st_seq st'" and t: "touches (- seg_names \<union> seg_range A (st_seq st) (st_seq st')) w w'"
    using g by (simp_all add: advances_def)
  have keep: "seg_content A w' x = seg_content A w x \<and> seg_fine A st' w' x" if "seg_fine A st w x" for x
  proof -
    have n: "relative_path x \<notin> - seg_names \<union> seg_range A (st_seq st) (st_seq st')"
      using that by (auto simp: seg_fine_def path_old_def)
    have c: "seg_content A w' x = seg_content A w x" by (rule seg_content_touches [OF t n])
    then show ?thesis using that path_old_mono [OF _ le] by (simp add: seg_fine_def seg_readable_def)
  qed
  have data: "seg_data A w' xs = seg_data A w xs" if "\<forall>x \<in> set xs. seg_fine A st w x" for xs
    unfolding seg_data_def using keep that by (metis (mono_tags, lifting) map_eq_conv)
  have mfine: "\<forall>x \<in> set (merged u). seg_fine A st w x" for u
    using plan_merged_in(1) [OF s, of u] al by (auto simp: alive_def seg_part_def)
  have dist: "distinct (map relative_path (segs_all st' ph' u @ fresh u))" for u
  proof -
    obtain new where n: "segs_all st' ph' u = segs_all st ph u @ new" "distinct (map relative_path new)"
      "\<forall>x \<in> set new. path_in A (st_seq st) (st_seq st') (u, x)" using g unfolding advances_def by blast
    have "relative_path x \<noteq> relative_path y" if "x \<in> set (segs_all st ph u @ fresh u)" "y \<in> set new" for x y
    proof -
      have "path_old A (st_seq st) (relative_path x)"
        using that(1) u d(8) [of x u] unfolding uniq_def by (auto simp: seg_fine_def)
      then show ?thesis
        using path_in_range [of A "st_seq st" "st_seq st'" "(u, y)"] n(3) that(2) by (auto simp: path_old_def)
    qed
    from distinct_map_append [OF d(6) n(2) this]
    have "distinct (map relative_path ((segs_all st ph u @ fresh u) @ new))" .
    moreover have "mset (segs_all st' ph' u @ fresh u) = mset ((segs_all st ph u @ fresh u) @ new)" unfolding n(1) by simp
    ultimately show ?thesis by (metis distinct_map_mset)
  qed
  have pre: "\<exists>ext. segs_of (st_inner st') u = snap u @ ext" for u
    using g d(3) [of u] unfolding advances_def by (metis append.assoc)
  have "plan_split A st' w' ph' p snap kept merged fresh"
    unfolding plan_split_def
    using d(1,2,4,5,7) pre dist keep [OF d(8)] data [OF mfine] data [of "fresh _"] d(8,9,10) by metis
  then show ?thesis unfolding plan_part_def by blast
qed

end
