(* ===== verification/Storage_Plans.thy ===== *)
theory Storage_Plans
  imports Storage_Reconcile
begin

text \<open>
  A compaction beside the engine: the plan its writing phase makes, the reconciliation of the plan with
  the lists of that moment, and the deletion of the merged segments.
\<close>

subsection \<open>The snapshot\<close>

lemma new_of_entries: "new_of (entries m) t = or_default m t"
proof -
  have "distinct ts \<Longrightarrow> map_of (List.map_filter (\<lambda>t. map_option (Pair t) (m t)) ts) t = (if t \<in> set ts then m t else None)" for ts
    by (induction ts) (auto simp: map_filter_def split: option.splits)
  then show ?thesis by (simp add: new_of_def entries_def or_default_def)
qed

lemma entries_keys: "distinct (map fst (entries m))" "t \<in> fst ` set (entries m) \<longleftrightarrow> m t \<noteq> None"
proof -
  have "map fst (List.map_filter (\<lambda>t. map_option (Pair t) (m t)) ts) = filter (\<lambda>t. m t \<noteq> None) ts" for ts
    by (induction ts) (auto simp: map_filter_def)
  then have k: "map fst (entries m) = filter (\<lambda>t. m t \<noteq> None) table_ALL" by (simp add: entries_def)
  then show "distinct (map fst (entries m))" by simp
  show "t \<in> fst ` set (entries m) \<longleftrightarrow> m t \<noteq> None"
    using arg_cong [OF k, of set] by (auto simp: image_iff set_eq_iff)
qed

lemma compact_snapshot_facts:
  assumes "metrics_ok (manifest_view inn)"
  shows "distinct (map fst (compact_snapshot inn))" "new_of (compact_snapshot inn) t = segs_of inn t"
proof -
  have n: "metric_segments inn TLogs = None" "metric_segments inn TSpans = None"
    using assms by (simp_all add: metrics_ok_def manifest_view_def)
  then show "distinct (map fst (compact_snapshot inn))"
    using entries_keys(1) [of "metric_segments inn"] entries_keys(2) [of _ "metric_segments inn"]
    by (simp add: compact_snapshot_def)
  show "new_of (compact_snapshot inn) t = segs_of inn t"
    using segments_for_eq [of inn t]
    by (cases t) (simp_all add: compact_snapshot_def new_of_entries segments_for_def)
qed

text \<open>What holds of a snapshot while the engine goes on.\<close>

definition snap_part :: "storage \<Rightarrow> (table \<times> segment_ref list) list \<Rightarrow> bool" where
  "snap_part st snap \<longleftrightarrow> distinct (map fst snap) \<and> (\<forall>t. \<exists>ext. segs_of (st_inner st) t = new_of snap t @ ext)"

lemma snap_taken: "alive A h mh st w H ph \<Longrightarrow> snap_part st (compact_snapshot (st_inner st))"
  by (auto simp: snap_part_def compact_snapshot_facts alive_def man_part_def)

lemma snap_grows: "snap_part st snap \<Longrightarrow> advances A st w ph st' w' ph' \<Longrightarrow> snap_part st' snap"
  unfolding snap_part_def advances_def by (metis append.assoc)

subsection \<open>Writing a plan\<close>

lemma new_of_all: "distinct (map fst xs) \<Longrightarrow> set (concat (map snd xs)) = (\<Union>t. set (new_of xs t))"
proof (induction xs)
  case (Cons x xs)
  obtain t ys where x: "x = (t, ys)" by (cases x)
  have "new_of xs t = []" using Cons.prems x by (auto intro: new_of_none)
  then have "(\<Union>u. set (new_of (x # xs) u)) = set ys \<union> (\<Union>u. set (new_of xs u))"
    unfolding x by (auto split: if_splits) (metis empty_iff empty_set)
  with Cons x show ?case by simp
qed simp

lemma alive_ready:
  assumes al: "alive A h mh st w H ph"
  shows "ready A (st, w) (segs_of (st_inner st) t)"
  unfolding ready_def
proof (intro ballI conjI)
  fix s assume s: "s \<in> set (segs_of (st_inner st) t)"
  have seg: "seg_part A st w H" and lsn: "lsn_part st H" using al by (simp_all add: alive_def)
  show "seg_fine A (fst (st, w)) (snd (st, w)) s" using seg s by (simp add: seg_part_def)
  fix r assume "r \<in> set (the (seg_content A (snd (st, w)) s))"
  then have "r \<in># seg_data A w (segs_of (st_inner st) t)" using s by (auto simp: seg_data_rows)
  then have "r \<in> set (hist_rows H t (\<lambda>l. l \<le> watermark (st_inner st)))" using seg by (simp add: seg_part_def)
  then show "i64_ok (row_time r)" using lsn by (auto simp: hist_rows_def lsn_part_def job_ok_def Let_def)
qed

lemma plan_written:
  assumes laws: "arrow_laws A" and al: "alive A h mh st w H ph" and u: "uniq A st ph" and sn: "snap_part st snap"
    and room: "st_seq st + length (concat (map snd snap)) \<le> u64_max"
    and run: "compact_write A F n snap (st, w) = (res, st', w')"
  shows "alive A h mh st' w' H ph" "uniq A st' ph" "st_inner st' = st_inner st"
    "res = Inr p \<Longrightarrow> plan_part A st' w' ph p"
proof -
  have dist: "distinct (map fst snap)" using sn by (simp add: snap_part_def)
  have sub: "set (new_of snap t) \<subseteq> set (segs_of (st_inner st) t)" for t
    using sn unfolding snap_part_def by (metis Un_upper1 set_append)
  have rdy: "ready A (st, w) (concat (map snd snap))"
    unfolding ready_def new_of_all [OF dist] using alive_ready [OF al] sub by (fastforce simp: ready_def)
  have rm: "st_seq (fst (st, w)) + length (concat (map snd snap)) \<le> u64_max" using room by simp
  note c = compact_tables_cases [OF laws rdy rm dist run [unfolded compact_write_def]]
  note k = alive_writes [OF al u conjunct1 [OF c]]
  show "alive A h mh st' w' H ph" "uniq A st' ph" "st_inner st' = st_inner st" by (rule k)+
  assume r: "res = Inr p"
  obtain new acc where p: "p = (new, acc)" by (cases p)
  obtain items outs kept merged where w: "wrote A (st, w) (st', w') items outs" "map fst new = map fst snap"
    "fst ` set outs \<subseteq> fst ` set snap"
    "\<And>t. mset (new_of snap t) = mset (kept t) + mset (merged t)"
    "\<And>t. mset (new_of new t) = mset (kept t) + mset (outs_of t outs)"
    "\<And>t. seg_data A w (merged t) = mset (brows (concat (outs_of t items)))"
    "set (ca_deleted acc) = (\<Union>t. set (merged t))"
    using c r p unfolding compacted_def by auto
  obtain q where q: "st' = st\<lparr>st_seq := q\<rparr>" "st_seq st \<le> q" "touches (seg_range A (st_seq st) q) w w'"
    "\<And>x. x \<in> set outs \<Longrightarrow> path_in A (st_seq st) q x" "distinct (map (relative_path \<circ> snd) outs)"
    using w(1) unfolding wrote_def by auto
  have fr: "named t x \<and> seg_fine A st' w' x \<and> relative_path x \<in> seg_range A (st_seq st) q" if "x \<in> set (outs_of t outs)" for t x
  proof -
    have o: "(t, x) \<in> set outs" using that by (auto simp: outs_of_def)
    note pin = q(4) [OF o]
    show ?thesis
      using w(1) o path_in_named [OF pin] path_in_ok [OF pin] path_in_old [OF pin] path_in_names [OF pin] path_in_range [OF pin]
      by (auto simp: wrote_def seg_fine_def q(1))
  qed
  have d1: "distinct (map relative_path (outs_of t outs))" for t
    using q(5) by (induction outs) (auto simp: outs_of_def)
  have d2: "distinct (map relative_path (segs_all st' ph t @ outs_of t outs))" for t
  proof (rule distinct_map_append [OF _ d1])
    show "distinct (map relative_path (segs_all st' ph t))" using k(2) by (simp add: uniq_def)
    fix x y assume x: "x \<in> set (segs_all st' ph t)" and y: "y \<in> set (outs_of t outs)"
    have "path_old A (st_seq st) (relative_path x)" using u x k(3) unfolding uniq_def by metis
    then show "relative_path x \<noteq> relative_path y" using fr [OF y] by (auto simp: path_old_def)
  qed
  have data: "seg_data A w' (outs_of t outs) = seg_data A w' (merged t)" for t
  proof -
    have "set (merged t) \<subseteq> set (segs_of (st_inner st) t)"
      using mset_parts [OF w(4) [of t]] sub [of t] by blast
    then have "ready A (st, w) (merged t)" by (rule ready_subset [OF alive_ready [OF al]])
    from ready_scratched(2) [OF this conjunct1 [OF c]] show ?thesis using w(1,6) unfolding wrote_def by simp
  qed
  have none: "t \<in> fst ` set new \<or> merged t = []" for t
  proof (cases "t \<in> fst ` set snap")
    case True
    then show ?thesis using w(2) by (metis set_map)
  next
    case False
    then show ?thesis using w(4) [of t] new_of_none by simp
  qed
  have "plan_split A st' w' ph p (new_of snap) kept merged (\<lambda>t. outs_of t outs)"
    unfolding plan_split_def p fst_conv snd_conv
  proof (intro conjI allI ballI)
    show "distinct (map fst new)" using dist w(2) by simp
    show "\<exists>ext. segs_of (st_inner st') t = new_of snap t @ ext" for t using sn k(3) by (simp add: snap_part_def)
    fix t
    show "mset (new_of snap t) = mset (kept t) + mset (merged t)" by (rule w(4))
    show "mset (new_of new t) = mset (kept t) + mset (outs_of t outs)" by (rule w(5))
    show "t \<in> fst ` set new \<or> merged t = []" by (rule none)
    show "distinct (map relative_path (segs_all st' ph t @ outs_of t outs))" by (rule d2)
    show "seg_data A w' (outs_of t outs) = seg_data A w' (merged t)" by (rule data)
    fix x assume "x \<in> set (outs_of t outs)"
    then show "named t x" "seg_fine A st' w' x" using fr by blast+
  qed (rule w(7))
  then show "plan_part A st' w' ph p" unfolding plan_part_def by blast
qed

subsection \<open>Reconciling a plan\<close>

lemma mset_remove:
  assumes "mset xs = mset ys + mset zs" "distinct xs"
  shows "mset (filter (\<lambda>x. x \<notin> set zs) xs) = mset ys"
proof -
  have "distinct (ys @ zs)" using assms by (metis mset_append mset_eq_imp_distinct_iff)
  then have y: "filter (\<lambda>x. x \<notin> set zs) ys = ys" by (auto simp: filter_id_conv)
  have "mset (filter (\<lambda>x. x \<notin> set zs) xs) = mset (filter (\<lambda>x. x \<notin> set zs) (ys @ zs))"
    by (metis assms(1) mset_append mset_filter)
  also have "filter (\<lambda>x. x \<notin> set zs) (ys @ zs) = ys" using y by simp
  finally show ?thesis .
qed

lemma distinct_path: "distinct (map relative_path xs) \<Longrightarrow> x \<in> set xs \<Longrightarrow> y \<in> set xs \<Longrightarrow>
    relative_path x = relative_path y \<Longrightarrow> x = y"
  by (metis distinct_map inj_onD)

text \<open>The merged segments are the ones the reconciliation takes off the list.\<close>

lemma plan_deleted:
  assumes s: "plan_split A st w ph p snap kept merged fresh" and u: "uniq A st ph" and x: "x \<in> set (segs_of (st_inner st) t)"
  shows "relative_path x \<in> relative_path ` set (ca_deleted (snd p)) \<longleftrightarrow> x \<in> set (merged t)"
proof
  assume "relative_path x \<in> relative_path ` set (ca_deleted (snd p))"
  then obtain v m where m: "m \<in> set (merged v)" "relative_path x = relative_path m"
    using plan_splitD(2) [OF s] by auto
  have mv: "m \<in> set (segs_of (st_inner st) v)" using m(1) plan_merged_in(1) [OF s] by blast
  have "named t x" "named v m" using u x mv by (auto simp: uniq_def)
  then have v: "t = v" by (rule named_table [OF _ _ m(2)])
  have "distinct (map relative_path (segs_of (st_inner st) t))" using u by (simp add: uniq_def)
  from distinct_path [OF this x mv [folded v] m(2)] m(1) v show "x \<in> set (merged t)" by simp
next
  assume "x \<in> set (merged t)"
  then show "relative_path x \<in> relative_path ` set (ca_deleted (snd p))" using plan_splitD(2) [OF s] by auto
qed

lemma plan_apart:
  assumes s: "plan_split A st w ph p snap kept merged fresh"
  shows "distinct (map relative_path (segs_of (st_inner st) t))"
    "x \<in> set (segs_of (st_inner st) t) \<Longrightarrow> y \<in> set (fresh t) \<Longrightarrow> relative_path x \<noteq> relative_path y"
    "x \<in> set (segs_of (st_inner st) t) \<Longrightarrow> y \<in> set (outs_of t (in_flight ph)) \<Longrightarrow> relative_path x \<noteq> relative_path y"
    "x \<in> set (fresh t) \<Longrightarrow> y \<in> set (outs_of t (in_flight ph)) \<Longrightarrow> relative_path x \<noteq> relative_path y"
    "distinct (map relative_path (kept t @ fresh t))"
proof -
  note d = plan_splitD(6) [OF s, of t]
  show "distinct (map relative_path (segs_of (st_inner st) t))" using d by simp
  show "x \<in> set (segs_of (st_inner st) t) \<Longrightarrow> y \<in> set (fresh t) \<Longrightarrow> relative_path x \<noteq> relative_path y"
    "x \<in> set (segs_of (st_inner st) t) \<Longrightarrow> y \<in> set (outs_of t (in_flight ph)) \<Longrightarrow> relative_path x \<noteq> relative_path y"
    "x \<in> set (fresh t) \<Longrightarrow> y \<in> set (outs_of t (in_flight ph)) \<Longrightarrow> relative_path x \<noteq> relative_path y"
    using d by auto
  obtain ext where "segs_of (st_inner st) t = snap t @ ext" using plan_splitD(3) [OF s] by blast
  then have "mset (segs_all st ph t @ fresh t) = mset ((kept t @ fresh t) @ merged t @ ext @ outs_of t (in_flight ph))"
    using plan_splitD(4) [OF s, of t] by simp
  then have "distinct (map relative_path ((kept t @ fresh t) @ merged t @ ext @ outs_of t (in_flight ph)))"
    using d distinct_map_mset by metis
  then have "distinct (map relative_path (kept t @ fresh t) @ map relative_path (merged t @ ext @ outs_of t (in_flight ph)))"
    by (metis map_append)
  then show "distinct (map relative_path (kept t @ fresh t))" unfolding distinct_append by (rule conjunct1)
qed

text \<open>A list after the reconciliation: the old one without the merged segments, then the fresh ones.\<close>

lemma plan_lists:
  assumes s: "plan_split A st w ph p snap kept merged fresh" and u: "uniq A st ph"
  shows "\<exists>add. segs_of (compact_reconcile p (st_inner st)) t =
      filter (\<lambda>x. x \<notin> set (merged t)) (segs_of (st_inner st) t) @ add \<and> mset add = mset (fresh t)"
proof -
  let ?D = "relative_path ` set (ca_deleted (snd p))" and ?segs = "segs_of (st_inner st) t" and ?new = "new_of (fst p) t"
  let ?keep = "filter (\<lambda>x. x \<notin> set (merged t)) ?segs"
  note d = plan_splitD [OF s]
  have r: "segs_of (compact_reconcile p (st_inner st)) t =
      (if t \<in> fst ` set (fst p) then reconcile_segments ?segs ?D ?new else ?segs)"
    unfolding compact_reconcile_def by (rule reconcile_fold_segs [OF d(1)])
  show ?thesis
  proof (cases "t \<in> fst ` set (fst p)")
    case False
    then have "merged t = []" "fresh t = []" using d(10) [of t] d(5) [of t] new_of_none [OF False] by simp_all
    with False r show ?thesis by simp
  next
    case True
    have k: "filter (\<lambda>x. relative_path x \<notin> ?D) ?segs = ?keep"
      by (rule filter_cong) (use plan_deleted [OF s u] in auto)
    have dn: "distinct (map relative_path ?new)"
      using plan_apart(5) [OF s, of t] d(5) [of t] distinct_map_mset [of "?new" "kept t @ fresh t" relative_path]
      unfolding mset_append by blast
    have "mset (filter (\<lambda>x. relative_path x \<notin> paths ?keep) ?new) =
        mset (filter (\<lambda>x. relative_path x \<notin> paths ?keep) (kept t @ fresh t))"
      using d(5) [of t] by (metis mset_append mset_filter)
    moreover have "filter (\<lambda>x. relative_path x \<notin> paths ?keep) (kept t) = []"
    proof -
      have "distinct (snap t)" using plan_apart(1) [OF s, of t] d(3) [of t] by (auto simp: distinct_map)
      with d(4) [of t] have "distinct (kept t @ merged t)" by (metis mset_append mset_eq_imp_distinct_iff)
      then have "set (kept t) \<subseteq> set ?keep" using plan_merged_in(2) [OF s, of t] by auto
      then show ?thesis by (auto simp: filter_empty_conv)
    qed
    moreover have "filter (\<lambda>x. relative_path x \<notin> paths ?keep) (fresh t) = fresh t"
      using plan_apart(2) [OF s] by (force simp: filter_id_conv)
    ultimately have "mset (filter (\<lambda>x. relative_path x \<notin> paths ?keep) ?new) = mset (fresh t)"
      by (simp only: filter_append append_Nil)
    then show ?thesis using True r unfolding reconcile_segments_eq [OF dn] k by auto
  qed
qed

lemma plan_lists_mset:
  assumes s: "plan_split A st w ph p snap kept merged fresh" and u: "uniq A st ph"
  defines "inn' \<equiv> compact_reconcile p (st_inner st)"
  shows "mset (segs_of inn' t) + mset (merged t) = mset (segs_of (st_inner st) t) + mset (fresh t)"
    "x \<in> set (segs_of inn' t) \<Longrightarrow> x \<in> set (segs_of (st_inner st) t) \<and> x \<notin> set (merged t) \<or> x \<in> set (fresh t)"
    "evolves (segs_of (st_inner st) t) (segs_of inn' t)"
proof -
  let ?segs = "segs_of (st_inner st) t"
  obtain add where a: "segs_of inn' t = filter (\<lambda>x. x \<notin> set (merged t)) ?segs @ add" "mset add = mset (fresh t)"
    using plan_lists [OF s u] unfolding inn'_def by blast
  have sa: "set add = set (fresh t)" by (rule mset_eq_setD [OF a(2)])
  obtain ext where e: "?segs = snap t @ ext" using plan_splitD(3) [OF s] by blast
  have m: "mset ?segs = mset (kept t @ ext) + mset (merged t)" using e plan_splitD(4) [OF s, of t] by simp
  have "distinct ?segs" using plan_apart(1) [OF s, of t] by (simp add: distinct_map)
  from mset_remove [OF m this] show "mset (segs_of inn' t) + mset (merged t) = mset ?segs + mset (fresh t)"
    using a m by simp
  show "x \<in> set (segs_of inn' t) \<Longrightarrow> x \<in> set ?segs \<and> x \<notin> set (merged t) \<or> x \<in> set (fresh t)" using a sa by auto
  have "filter (\<lambda>x. relative_path x \<in> paths (segs_of inn' t)) ?segs = filter (\<lambda>x. x \<notin> set (merged t)) ?segs"
  proof (rule filter_cong [OF refl])
    fix x assume x: "x \<in> set ?segs"
    show "relative_path x \<in> paths (segs_of inn' t) \<longleftrightarrow> x \<notin> set (merged t)"
    proof
      assume "relative_path x \<in> paths (segs_of inn' t)"
      then obtain y where y: "y \<in> set (segs_of inn' t)" "relative_path x = relative_path y" by blast
      then have "y \<in> set ?segs \<and> y \<notin> set (merged t)" using a(1) sa plan_apart(2) [OF s x] by auto
      with distinct_path [OF plan_apart(1) [OF s] x _ y(2)] show "x \<notin> set (merged t)" by blast
    next
      assume "x \<notin> set (merged t)"
      then show "relative_path x \<in> paths (segs_of inn' t)" using x a(1) by auto
    qed
  qed
  then show "evolves ?segs (segs_of inn' t)"
    unfolding evolves_def using a(1) sa plan_apart(2) [OF s] by (intro exI [of _ add]) force
qed

subsection \<open>Committing a plan\<close>

definition done_part :: "arrow_env \<Rightarrow> storage \<Rightarrow> phase \<Rightarrow> plan \<Rightarrow> bool" where
  "done_part A st ph p \<longleftrightarrow>
     (\<forall>x \<in> set (ca_deleted (snd p)). (\<exists>t. named t x) \<and> path_old A (st_seq st) (relative_path x) \<and>
        (\<forall>u. \<forall>y \<in> set (segs_all st ph u). relative_path y \<noteq> relative_path x))"

lemma done_grows:
  assumes d: "done_part A st ph p" and g: "advances A st w ph st' w' ph'"
  shows "done_part A st' ph' p"
  unfolding done_part_def
proof (intro ballI conjI allI)
  fix x assume x: "x \<in> set (ca_deleted (snd p))"
  then show "\<exists>t. named t x" using d unfolding done_part_def by blast
  have old: "path_old A (st_seq st) (relative_path x)" using d x unfolding done_part_def by blast
  then show "path_old A (st_seq st') (relative_path x)" using g path_old_mono unfolding advances_def by blast
  fix u y assume y: "y \<in> set (segs_all st' ph' u)"
  obtain new where n: "segs_all st' ph' u = segs_all st ph u @ new"
    "\<forall>z \<in> set new. path_in A (st_seq st) (st_seq st') (u, z)" using g unfolding advances_def by blast
  show "relative_path y \<noteq> relative_path x"
  proof (cases "y \<in> set (segs_all st ph u)")
    case True
    then show ?thesis using d x unfolding done_part_def by blast
  next
    case False
    then have "path_in A (st_seq st) (st_seq st') (u, y)" using y n unfolding n(1) by auto
    from path_in_range [OF this] old show ?thesis by (auto simp: path_old_def)
  qed
qed

lemma plan_committed:
  assumes al: "alive A h mh st w H ph" and u: "uniq A st ph" and pl: "plan_part A st w ph p"
    and room: "\<And>mw. st_manifest st = Some mw \<Longrightarrow> current_num mw < u64_max" "next_lsn (st_inner st) < u64_max"
    and run: "compact_commit mh p (st, w) = (res, st', w')"
    and rep: "representable s'" "sy_engine s' = (st', w')"
  shows "disk_ok A h mh w' H"
    "res = Inr () \<Longrightarrow> alive A h mh st' w' H ph \<and> uniq A st' ph \<and> done_part A st' ph p"
proof -
  let ?inn' = "compact_reconcile p (st_inner st)"
  obtain snap kept merged fresh where s: "plan_split A st w ph p snap kept merged fresh" using pl by (auto simp: plan_part_def)
  note d = plan_splitD [OF s] and m = plan_lists_mset [OF s u]
  have run': "persist_manifest mh (st\<lparr>st_inner := ?inn'\<rparr>, w) = (res, st', w')"
    using run by (simp add: compact_commit_def upd_inner_def)
  have st': "st_inner st' = ?inn'" "st_seq st' = st_seq st" using persist_inner [OF run'] by simp_all
  have frame: "same_buffers (st_inner st) ?inn'" unfolding compact_reconcile_def by (rule reconcile_fold_frame)
  have seg: "seg_part A st w H" and lsn: "lsn_part st H" and ph: "phase_part A st w H ph" using al by (simp_all add: alive_def)
  have fine: "seg_fine A st w x" if "x \<in> set (segs_of ?inn' t)" for t x
    using m(2) [OF that] seg d(8) by (auto simp: seg_part_def)
  have fits: "fits (manifest_view ?inn')" and rows_ok: "\<And>t x. x \<in> set (segs_of ?inn' t) \<Longrightarrow> seg_rows x \<le> u64_max"
    using rep by (auto simp: representable_def st')
  have wm: "watermark ?inn' \<le> u64_max"
    using frame lsn room(2) by (simp add: same_buffers_def lsn_part_def Let_def)
  have data: "seg_data A w (segs_of ?inn' t) = seg_data A w (segs_of (st_inner st) t)" for t
  proof -
    have "mset (segs_of ?inn' t @ merged t) = mset (segs_of (st_inner st) t @ fresh t)" using m(1) by simp
    from seg_data_mset [OF this, of A w] d(9) [of t] show ?thesis by simp
  qed
  have apart: "relative_path y \<noteq> relative_path (snd x)" if "x \<in> set (in_flight ph)" "y \<in> set (segs_of ?inn' t)" for t x y
  proof
    assume eq: "relative_path y = relative_path (snd x)"
    have o: "snd x \<in> set (outs_of (fst x) (in_flight ph))" using that(1) by (force simp: outs_of_def)
    then have "named (fst x) (snd x)" using u by (simp add: uniq_def)
    moreover have "named t y" using m(2) [OF that(2)] u d(7) by (auto simp: uniq_def)
    ultimately have "t = fst x" using named_table eq by metis
    then show False using m(2) [OF that(2)] plan_apart(3,4) [OF s _ o] eq by blast
  qed
  show "disk_ok A h mh w' H" by (rule alive_replace(1) [OF al frame room(1) fits wm rows_ok fine data m(3) apart run'])
  assume ok: "res = Inr ()"
  have r: "alive A h mh st' w' H ph"
    by (rule alive_replace(2) [OF al frame room(1) fits wm rows_ok fine data m(3) apart run' ok])
  have mem: "x \<in> set (segs_all st ph t) \<or> x \<in> set (fresh t)" if "x \<in> set (segs_all st' ph t)" for x t
    using that m(2) [of x t] by (auto simp: st')
  have named_all: "named t x" if "x \<in> set (segs_all st' ph t)" for x t
    using mem [OF that] u d(7) unfolding uniq_def by blast
  have "uniq A st' ph"
    unfolding uniq_def
  proof (intro allI conjI ballI)
    fix t
    have "mset (segs_all st ph t @ fresh t) = mset (segs_all st' ph t @ merged t)" using m(1) [of t] by (simp add: st')
    with d(6) [of t] have "distinct (map relative_path (segs_all st' ph t @ merged t))" using distinct_map_mset by metis
    then have "distinct (map relative_path (segs_all st' ph t) @ map relative_path (merged t))" by (metis map_append)
    then show "distinct (map relative_path (segs_all st' ph t))" unfolding distinct_append by (rule conjunct1)
    fix x assume x: "x \<in> set (segs_all st' ph t)"
    show "named t x" by (rule named_all [OF x])
    show "path_old A (st_seq st') (relative_path x)"
      using mem [OF x] u d(8) unfolding uniq_def st' by (auto simp: seg_fine_def)
  qed
  moreover have "done_part A st' ph p"
    unfolding done_part_def
  proof (intro ballI conjI allI)
    fix x assume "x \<in> set (ca_deleted (snd p))"
    then obtain v where x: "x \<in> set (merged v)" using d(2) by auto
    then have xs: "x \<in> set (segs_of (st_inner st) v)" using plan_merged_in(1) [OF s] by blast
    then have nx: "named v x" and ox: "path_old A (st_seq st) (relative_path x)" using u unfolding uniq_def by auto
    show "\<exists>t. named t x" using nx by blast
    show "path_old A (st_seq st') (relative_path x)" using ox by (simp add: st')
    fix t y assume y: "y \<in> set (segs_all st' ph t)"
    show "relative_path y \<noteq> relative_path x"
    proof
      assume eq: "relative_path y = relative_path x"
      have t: "t = v" by (rule named_table [OF named_all [OF y] nx eq])
      have "y \<in> set (segs_of ?inn' v) \<or> y \<in> set (outs_of v (in_flight ph))" using y t by (simp add: st')
      then show False
      proof
        assume "y \<in> set (segs_of ?inn' v)"
        then show False using m(2) [of y v] plan_apart(2) [OF s xs, of y] distinct_path [OF plan_apart(1) [OF s] _ xs eq] x eq
          by metis
      next
        assume "y \<in> set (outs_of v (in_flight ph))"
        then show False using plan_apart(3) [OF s xs] eq by metis
      qed
    qed
  qed
  ultimately show "alive A h mh st' w' H ph \<and> uniq A st' ph \<and> done_part A st' ph p" using r by blast
qed

subsection \<open>Deleting the merged segments\<close>

definition seg_files :: "segment_ref \<Rightarrow> string set" where
  "seg_files s = insert (relative_path s) {q. prefix (with_extension (relative_path s) ''tidx'' @ ''/'') q}"

lemma delete_segment_touches: "touches (seg_files s) w (snd (delete_segment s w))"
proof -
  let ?t = "with_extension (relative_path s) ''tidx''"
  have p: "touches (seg_files s) w (snd (remove_file_if_exists (relative_path s) w))" for w
    using fs_remove_touches [of "relative_path s" "seg_files s" w]
    by (auto simp: remove_file_if_exists_def seg_files_def split: prod.splits sum.splits io_error.splits)
  have r: "set ps \<subseteq> seg_files s \<Longrightarrow> touches (seg_files s) w (snd (remove_files ps w))" for ps w
  proof (induction ps arbitrary: w)
    case (Cons q ps)
    then show ?case using fs_remove_touches [of q "seg_files s" w]
      by (auto split: prod.splits sum.splits) (metis snd_conv touches_trans)+
  qed simp
  have "set (files_under ?t w) \<subseteq> seg_files s" for w by (auto simp: files_under_def seg_files_def)
  then show ?thesis
    unfolding delete_segment_def Let_def by (intro touches_bind p) (auto simp: io_try_def split: prod.splits intro: r [THEN touches_trans [OF touches_refl]])
qed

lemma reclaim_touches: "touches (\<Union>s \<in> set ss. seg_files s) w (reclaim_segments ss w)"
proof (induction ss arbitrary: w)
  case (Cons s ss)
  have "touches (\<Union>s \<in> set (s # ss). seg_files s) w (snd (delete_segment s w))"
    by (rule touches_mono [OF delete_segment_touches]) simp
  moreover have "touches (\<Union>s \<in> set (s # ss). seg_files s) (snd (delete_segment s w)) (reclaim_segments ss (snd (delete_segment s w)))"
    by (rule touches_mono [OF Cons.IH]) auto
  ultimately show ?case unfolding reclaim_segments_def by (simp add: touches_trans)
qed (simp add: reclaim_segments_def)

lemma named_files:
  assumes "named t x"
  shows "seg_files x \<subseteq> seg_names" "named u y \<Longrightarrow> relative_path y \<in> seg_files x \<Longrightarrow> relative_path y = relative_path x"
proof -
  obtain mt now sq where p: "relative_path x = segment_rel_path (table_as_str t) mt now sq" using assms by (auto simp: named_def)
  let ?b = "segment_base (table_as_str t) mt now sq"
  have f: "seg_files x = insert (?b @ ''.parquet'') {q. prefix (?b @ ''.tidx/'') q}"
    by (simp add: seg_files_def p segment_with_extension) (simp add: segment_rel_path_base)
  show "seg_files x \<subseteq> seg_names" unfolding f using segment_in_names by (auto simp: prefix_def)
  show "relative_path y = relative_path x" if "named u y" "relative_path y \<in> seg_files x"
  proof (rule ccontr)
    assume "relative_path y \<noteq> relative_path x"
    then have "prefix (?b @ ''.tidx/'') (relative_path y)" using that(2) f by (simp add: p segment_rel_path_base)
    then have "3 \<le> slashes (relative_path y)"
      using slashes_base [of t mt now sq] by (auto simp: prefix_def)
    then show False using named_slashes [OF that(1)] by simp
  qed
qed

lemma plan_reclaimed:
  assumes al: "alive A h mh st w H ph" and u: "uniq A st ph" and dn: "done_part A st ph p"
  shows "alive A h mh st (reclaim_segments (ca_deleted (snd p)) w) H ph"
proof (rule alive_files [OF al reclaim_touches])
  show "(\<Union>s \<in> set (ca_deleted (snd p)). seg_files s) \<subseteq> seg_names"
    using dn named_files(1) unfolding done_part_def by blast
  fix t x assume x: "x \<in> set (segs_all st ph t)"
  show "relative_path x \<notin> (\<Union>s \<in> set (ca_deleted (snd p)). seg_files s)"
  proof
    assume "relative_path x \<in> (\<Union>s \<in> set (ca_deleted (snd p)). seg_files s)"
    then obtain s where s: "s \<in> set (ca_deleted (snd p))" "relative_path x \<in> seg_files s" by blast
    have "named t x" using u x by (simp add: uniq_def)
    then show False using dn s x named_files(2) unfolding done_part_def by metis
  qed
qed

end
