(* ===== verification/Storage_Compact_Runs.thy ===== *)
theory Storage_Compact_Runs
  imports Storage_Plans Storage_Properties
begin

text \<open>
  Runs of the engine with one compactor beside the ingesting callers and the sealer. The snapshot, the
  writing, the commit and the deletion of a compaction are four steps, and the others may take any
  steps between them.
\<close>

subsection \<open>Steps\<close>

datatype compactor = Resting | Looked "(table \<times> segment_ref list) list" | Planned plan | Replaced plan

record maint =
  mt_sys :: sys
  mt_compactor :: compactor

definition set_compactor :: "compactor \<Rightarrow> engine \<Rightarrow> maint \<Rightarrow> maint" where
  "set_compactor c e m = m\<lparr>mt_sys := (mt_sys m)\<lparr>sy_engine := e\<rparr>, mt_compactor := c\<rparr>"

abbreviation mt_engine :: "maint \<Rightarrow> engine" where
  "mt_engine m \<equiv> sy_engine (mt_sys m)"

abbreviation running :: "maint \<Rightarrow> bool" where
  "running m \<equiv> \<not> sy_dead (mt_sys m)"

inductive maint_step :: "arrow_env \<Rightarrow> footer \<Rightarrow> hash \<Rightarrow> mhash \<Rightarrow> nat \<Rightarrow> maint \<Rightarrow> maint \<Rightarrow> bool"
  for A F h mh i where
  by_engine: "engine_step A h mh {i} (mt_sys m) s' \<Longrightarrow> maint_step A F h mh i m (m\<lparr>mt_sys := s'\<rparr>)"
| snapshot: "running m \<Longrightarrow> mt_compactor m = Resting \<Longrightarrow> st_dir (fst (mt_engine m)) \<Longrightarrow>
     maint_step A F h mh i m (set_compactor (Looked (compact_snapshot (st_inner (fst (mt_engine m))))) (mt_engine m) m)"
| rewrite_ok: "running m \<Longrightarrow> mt_compactor m = Looked snap \<Longrightarrow>
     compact_write A F n snap (mt_engine m) = (Inr p, e') \<Longrightarrow> maint_step A F h mh i m (set_compactor (Planned p) e' m)"
| rewrite_err: "running m \<Longrightarrow> mt_compactor m = Looked snap \<Longrightarrow>
     compact_write A F n snap (mt_engine m) = (Inl err, e') \<Longrightarrow> maint_step A F h mh i m (set_compactor Resting e' m)"
| commit_ok: "running m \<Longrightarrow> mt_compactor m = Planned p \<Longrightarrow>
     compact_commit mh p (mt_engine m) = (Inr (), e') \<Longrightarrow> maint_step A F h mh i m (set_compactor (Replaced p) e' m)"
| commit_err: "running m \<Longrightarrow> mt_compactor m = Planned p \<Longrightarrow>
     compact_commit mh p (mt_engine m) = (Inl err, e') \<Longrightarrow> maint_step A F h mh i m (m\<lparr>mt_sys := crash e' (mt_sys m)\<rparr>)"
| delete_merged: "running m \<Longrightarrow> mt_compactor m = Replaced p \<Longrightarrow>
     maint_step A F h mh i m (set_compactor Resting (compact_reclaim p (mt_engine m)) m)"

text \<open>Nothing overflows; the compactor numbers at most one file for each segment of its snapshot.\<close>

definition roomy :: "maint \<Rightarrow> bool" where
  "roomy m \<longleftrightarrow> representable (mt_sys m) \<and>
     (case mt_compactor m of
        Looked snap \<Rightarrow> st_seq (fst (mt_engine m)) + length (concat (map snd snap)) \<le> u64_max
      | _ \<Rightarrow> True)"

inductive maint_run :: "arrow_env \<Rightarrow> footer \<Rightarrow> hash \<Rightarrow> mhash \<Rightarrow> nat \<Rightarrow> maint \<Rightarrow> maint \<Rightarrow> bool"
  for A F h mh i m where
  begin_run: "roomy m \<Longrightarrow> maint_run A F h mh i m m"
| go_on: "maint_run A F h mh i m m' \<Longrightarrow> maint_step A F h mh i m' m'' \<Longrightarrow> roomy m'' \<Longrightarrow> maint_run A F h mh i m m''"

definition new_maint :: "engine \<Rightarrow> maint" where
  "new_maint e = \<lparr>mt_sys = new_sys e, mt_compactor = Resting\<rparr>"

subsection \<open>The invariant\<close>

definition compactor_part :: "arrow_env \<Rightarrow> storage \<Rightarrow> world \<Rightarrow> phase \<Rightarrow> compactor \<Rightarrow> bool" where
  "compactor_part A st w ph c =
     (case c of
        Resting \<Rightarrow> True
      | Looked snap \<Rightarrow> snap_part st snap
      | Planned p \<Rightarrow> plan_part A st w ph p
      | Replaced p \<Rightarrow> done_part A st ph p)"

definition maint_inv :: "arrow_env \<Rightarrow> hash \<Rightarrow> mhash \<Rightarrow> nat \<Rightarrow> maint \<Rightarrow> bool" where
  "maint_inv A h mh i m \<longleftrightarrow>
     sys_inv A h mh i (mt_sys m) \<and>
     (running m \<longrightarrow>
        (case mt_engine m of (st, w) \<Rightarrow>
           uniq A st (sy_sealer (mt_sys m) i) \<and> compactor_part A st w (sy_sealer (mt_sys m) i) (mt_compactor m)))"

lemma maint_invI:
  assumes "alive A h mh st w (sy_jobs s) (sy_sealer s i)" "uniq A st (sy_sealer s i)" "compactor_part A st w (sy_sealer s i) c"
    "\<not> sy_dead s"
  shows "maint_inv A h mh i (set_compactor c (st, w) \<lparr>mt_sys = s, mt_compactor = c'\<rparr>)"
  using assms by (simp add: maint_inv_def sys_inv_def set_compactor_def)

lemma compactor_grows:
  assumes "compactor_part A st w ph c" "alive A h mh st w H ph" "uniq A st ph" "advances A st w ph st' w' ph'"
  shows "compactor_part A st' w' ph' c"
  using assms snap_grows [OF _ assms(4)] plan_grows [OF _ assms(2-4)] done_grows [OF _ assms(4)]
  by (cases c) (simp_all add: compactor_part_def)

lemma dead_stays: "engine_step A h mh I s s' \<Longrightarrow> \<not> sy_dead s"
  by (cases rule: engine_step.cases) auto

lemma maint_inv_step:
  assumes laws: "arrow_laws A" and inv: "maint_inv A h mh i m" and room: "roomy m" "roomy m'"
    and step: "maint_step A F h mh i m m'"
  shows "maint_inv A h mh i m'"
proof -
  obtain s c where m: "m = \<lparr>mt_sys = s, mt_compactor = c\<rparr>" by (cases m)
  obtain st w where e: "sy_engine s = (st, w)" by (cases "sy_engine s")
  let ?ph = "sy_sealer s i"
  have sinv: "sys_inv A h mh i s" using inv m by (simp add: maint_inv_def)
  have rep: "representable s" using room(1) m by (simp add: roomy_def)
  have cur: "alive A h mh st w (sy_jobs s) ?ph" "uniq A st ?ph" "compactor_part A st w ?ph c" if "\<not> sy_dead s"
    using inv that m e by (simp_all add: maint_inv_def sys_inv_def)
  note wb = maint_invI [of A h mh _ _ s i]
  show ?thesis
    using step
  proof cases
    case (by_engine s')
    then have es: "engine_step A h mh {i} s s'" and m': "m' = \<lparr>mt_sys = s', mt_compactor = c\<rparr>" by (simp_all add: m)
    have rep': "representable s'" using room(2) m' by (simp add: roomy_def)
    note live = dead_stays [OF es]
    obtain st' w' where e': "sy_engine s' = (st', w')" by (cases "sy_engine s'")
    have "uniq A st' (sy_sealer s' i) \<and> compactor_part A st' w' (sy_sealer s' i) c" if "\<not> sy_dead s'"
    proof -
      note g = step_grows [OF laws sinv rep es that e e']
      show ?thesis using uniq_grows [OF cur(2) [OF live] g] compactor_grows [OF cur(3,1,2) [OF live] g] by blast
    qed
    then show ?thesis using sys_inv_step [OF laws sinv rep rep' es] e' m' by (simp add: maint_inv_def)
  next
    case snapshot
    then show ?thesis using wb [of st w "Looked (compact_snapshot (st_inner st))"] cur snap_taken
      by (simp add: m e compactor_part_def)
  next
    case (rewrite_ok snap n p e')
    obtain st' w' where e': "e' = (st', w')" by (cases e')
    have live: "\<not> sy_dead s" and c: "c = Looked snap" using rewrite_ok by (simp_all add: m)
    have rm: "st_seq st + length (concat (map snd snap)) \<le> u64_max" using room(1) by (simp add: roomy_def m c e)
    have sn: "snap_part st snap" using cur(3) [OF live] by (simp add: compactor_part_def c)
    have run: "compact_write A F n snap (st, w) = (Inr p, st', w')" using rewrite_ok by (simp add: m e e')
    note k = plan_written [OF laws cur(1,2) [OF live] sn rm run]
    show ?thesis using wb [of st' w' "Planned p"] k live rewrite_ok(1) by (simp add: m e' compactor_part_def)
  next
    case (rewrite_err snap n err e')
    obtain st' w' where e': "e' = (st', w')" by (cases e')
    have live: "\<not> sy_dead s" and c: "c = Looked snap" using rewrite_err by (simp_all add: m)
    have rm: "st_seq st + length (concat (map snd snap)) \<le> u64_max" using room(1) by (simp add: roomy_def m c e)
    have sn: "snap_part st snap" using cur(3) [OF live] by (simp add: compactor_part_def c)
    have run: "compact_write A F n snap (st, w) = (Inl err, st', w')" using rewrite_err by (simp add: m e e')
    note k = plan_written [OF laws cur(1,2) [OF live] sn rm run]
    show ?thesis using wb [of st' w' Resting] k live rewrite_err(1) by (simp add: m e' compactor_part_def)
  next
    case (commit_ok p e')
    obtain st' w' where e': "e' = (st', w')" by (cases e')
    have live: "\<not> sy_dead s" and c: "c = Planned p" using commit_ok by (simp_all add: m)
    have pl: "plan_part A st w ?ph p" using cur(3) [OF live] by (simp add: compactor_part_def c)
    have run: "compact_commit mh p (st, w) = (Inr (), st', w')" using commit_ok by (simp add: m e e')
    have rm: "\<And>mw. st_manifest st = Some mw \<Longrightarrow> current_num mw < u64_max" "next_lsn (st_inner st) < u64_max"
      using rep by (auto simp: representable_def e)
    have rep': "representable (mt_sys m')" "sy_engine (mt_sys m') = (st', w')"
      using room(2) commit_ok(1) e' by (simp_all add: roomy_def set_compactor_def)
    have k: "alive A h mh st' w' (sy_jobs s) ?ph \<and> uniq A st' ?ph \<and> done_part A st' ?ph p"
      by (rule plan_committed(2) [OF cur(1,2) [OF live] pl rm run rep' refl])
    show ?thesis using wb [of st' w' "Replaced p"] k live commit_ok(1) by (simp add: m e' compactor_part_def)
  next
    case (commit_err p err e')
    obtain st' w' where e': "e' = (st', w')" by (cases e')
    have live: "\<not> sy_dead s" and c: "c = Planned p" using commit_err by (simp_all add: m)
    have pl: "plan_part A st w ?ph p" using cur(3) [OF live] by (simp add: compactor_part_def c)
    have run: "compact_commit mh p (st, w) = (Inl err, st', w')" using commit_err by (simp add: m e e')
    have rm: "\<And>mw. st_manifest st = Some mw \<Longrightarrow> current_num mw < u64_max" "next_lsn (st_inner st) < u64_max"
      using rep by (auto simp: representable_def e)
    have rep': "representable (mt_sys m')" "sy_engine (mt_sys m') = (st', w')"
      using room(2) commit_err(1) e' by (simp_all add: roomy_def crash_def)
    have "disk_ok A h mh w' (sy_jobs s)"
      by (rule plan_committed(1) [OF cur(1,2) [OF live] pl rm run rep'])
    then show ?thesis using commit_err(1) by (simp add: m e' maint_inv_def sys_inv_def crash_def)
  next
    case (delete_merged p)
    have live: "\<not> sy_dead s" and c: "c = Replaced p" using delete_merged by (simp_all add: m)
    have dn: "done_part A st ?ph p" using cur(3) [OF live] by (simp add: compactor_part_def c)
    show ?thesis using wb [of st "reclaim_segments (ca_deleted (snd p)) w" Resting] plan_reclaimed [OF cur(1,2) [OF live] dn]
        cur(2) live delete_merged(1)
      by (simp add: m e compact_reclaim_def compactor_part_def)
  qed
qed

lemma maint_run_roomy: "maint_run A F h mh i m m' \<Longrightarrow> roomy m'"
  by (induction rule: maint_run.induct) auto

lemma maint_inv_run:
  assumes laws: "arrow_laws A" and run: "maint_run A F h mh i m m'" and inv: "maint_inv A h mh i m"
  shows "maint_inv A h mh i m'"
  using run
proof induction
  case begin_run
  show ?case by (rule inv)
next
  case (go_on m' m'')
  then show ?case using maint_inv_step [OF laws _ maint_run_roomy] by blast
qed

lemma new_maint_inv:
  assumes "files w = []" "dir_ok w" "storage_open A h mh lk now cmp mode ret budget w = (Inr st, w0)"
  shows "maint_inv A h mh i (new_maint (st, w0))"
  using opened_state [OF assms] new_sys_inv
  by (simp add: maint_inv_def new_maint_def uniq_def compactor_part_def) (simp add: new_sys_def)

end
