(* ===== verification/Storage_Retention.thy ===== *)
theory Storage_Retention
  imports Storage_Compact_Runs
begin

text \<open>
  Retention: which segments it drops, which it keeps, and that the kept ones stay readable.
\<close>

subsection \<open>The segments of all the tables\<close>

lemma concat_entries: "concat (map snd (entries m)) = concat (map (or_default m) table_ALL)"
proof -
  have "concat (map snd (List.map_filter (\<lambda>t. map_option (Pair t) (m t)) ts)) = concat (map (or_default m) ts)" for ts
    by (induction ts) (auto simp: map_filter_def or_default_def split: option.splits)
  then show ?thesis by (simp add: entries_def)
qed

lemma all_segments_eq:
  assumes "metrics_ok (manifest_view inn)"
  shows "all_segments inn = concat (map (segs_of inn) table_ALL)"
proof -
  have n: "or_default (metric_segments inn) TLogs = []" "or_default (metric_segments inn) TSpans = []"
    using assms by (simp_all add: metrics_ok_def manifest_view_def or_default_def)
  have "segs_of inn t = segments_for inn t" for t by (simp add: segments_for_eq)
  then show ?thesis using n by (simp add: all_segments_def concat_entries table_ALL_def segments_for_def)
qed

lemma distinct_concat_keys:
  "distinct ts \<Longrightarrow> (\<And>t. distinct (map g (f t))) \<Longrightarrow>
     (\<And>t u x y. x \<in> set (f t) \<Longrightarrow> y \<in> set (f u) \<Longrightarrow> g x = g y \<Longrightarrow> t = u) \<Longrightarrow> distinct (map g (concat (map f ts)))"
proof (induction ts)
  case (Cons t ts)
  have "g x \<noteq> g y" if "x \<in> set (f t)" "y \<in> set (concat (map f ts))" for x y
    using that Cons.prems(1) Cons.prems(3) [of x t y] by auto
  then show ?case using Cons distinct_map_append [of g "f t" "concat (map f ts)"] by simp
qed simp

lemma all_segments_distinct:
  assumes "metrics_ok (manifest_view (st_inner st))" "uniq A st ph"
  shows "distinct (map relative_path (all_segments (st_inner st)))"
  unfolding all_segments_eq [OF assms(1)]
proof (rule distinct_concat_keys)
  show "distinct (map relative_path (segs_of (st_inner st) t))" for t using assms(2) by (simp add: uniq_def)
  fix t u x y assume a: "x \<in> set (segs_of (st_inner st) t)" "y \<in> set (segs_of (st_inner st) u)" "relative_path x = relative_path y"
  have "named t x" "named u y" using assms(2) a(1,2) by (simp_all add: uniq_def)
  then show "t = u" by (rule named_table [OF _ _ a(3)])
qed simp

lemma retain_segments_of: "segs_of (retain_segments keep inn) t = filter keep (segs_of inn t)"
  by (cases t) (simp_all add: retain_segments_def list_of_def manifest_view_def or_default_def split: option.splits)

lemma segment_count_eq: "segment_count inn = length (all_segments inn)"
proof -
  have "sum_list (map (\<lambda>(t, ss). length ss) xs) = length (concat (map snd xs))" for xs :: "(table \<times> segment_ref list) list"
    by (induction xs) auto
  then show ?thesis by (simp add: segment_count_def all_segments_def)
qed

lemma all_segments_retain: "all_segments (retain_segments keep inn) = filter keep (all_segments inn)"
proof -
  have o: "or_default (\<lambda>t. map_option (filter keep) (m t)) t = filter keep (or_default m t)" for m :: "table \<rightharpoonup> segment_ref list" and t
    by (simp add: or_default_def split: option.splits)
  have "concat (map (or_default (\<lambda>t. map_option (filter keep) (m t))) ts) = filter keep (concat (map (or_default m) ts))"
    for m :: "table \<rightharpoonup> segment_ref list" and ts
    by (induction ts) (simp_all add: o)
  then show ?thesis by (simp add: all_segments_def concat_entries) (simp add: retain_segments_def)
qed

subsection \<open>The drop set\<close>

definition too_old :: "int \<Rightarrow> retention \<Rightarrow> segment_ref \<Rightarrow> bool" where
  "too_old now ret s \<longleftrightarrow>
     (case max_age ret of None \<Rightarrow> False | Some age \<Rightarrow> max_time_unix_nano s < sat_i64 (now - min (int age) i64_max))"

lemma expired_eq: "expired now ret ss = map relative_path (filter (too_old now ret) ss)"
  by (cases "max_age ret") (simp_all add: expired_def too_old_def [abs_def] Let_def)

abbreviation over :: "nat \<Rightarrow> world \<Rightarrow> segment_ref list \<Rightarrow> string list" where
  "over b w ss \<equiv> over_budget b (sum_list (map (segment_size w) ss)) (zip (map relative_path ss) (map (segment_size w) ss))"

lemma over_fits: "sum_list (map (segment_size w) (filter (\<lambda>s. relative_path s \<notin> set (over b w ss)) ss)) \<le> b"
proof (induction ss)
  case (Cons s ss)
  show ?case
  proof (cases "sum_list (map (segment_size w) (s # ss)) > b")
    case True
    let ?r = "over b w ss"
    have "sum_list (map (segment_size w) (filter (\<lambda>x. relative_path x \<notin> insert (relative_path s) R) xs)) \<le>
        sum_list (map (segment_size w) (filter (\<lambda>x. relative_path x \<notin> R) xs))" for R xs
      by (induction xs) auto
    from order_trans [OF this [of "set ?r" ss] Cons.IH] True show ?thesis by simp
  next
    case False
    then show ?thesis by (simp add: not_less)
  qed
qed simp

lemma over_needed:
  "p \<in> set (over b w ss) \<Longrightarrow> \<exists>pre s post. ss = pre @ s # post \<and> relative_path s = p \<and>
     b < sum_list (map (segment_size w) (s # post))"
proof (induction ss)
  case (Cons s ss)
  then have big: "b < sum_list (map (segment_size w) (s # ss))" by (auto split: if_splits)
  show ?case
  proof (cases "p = relative_path s")
    case True
    with big show ?thesis by (intro exI [of _ "[]"] exI [of _ s] exI [of _ ss]) simp
  next
    case False
    then have "p \<in> set (over b w ss)" using Cons.prems big by simp
    from Cons.IH [OF this] obtain pre x post where "ss = pre @ x # post" "relative_path x = p"
      "b < sum_list (map (segment_size w) (x # post))" by blast
    then show ?thesis by (intro exI [of _ "s # pre"] exI [of _ x] exI [of _ post]) simp
  qed
qed simp

lemma drop_set_cases:
  fixes now :: int and ret :: retention and w :: world
  assumes d: "distinct (map relative_path S)"
  defines "aged \<equiv> sort_key min_time_unix_nano S"
  defines "doomed \<equiv> set (drop_set now ret w aged)"
  shows "s \<in> set S \<Longrightarrow> too_old now ret s \<Longrightarrow> relative_path s \<in> doomed"
    "max_disk_bytes ret = Some b \<Longrightarrow> sum_list (map (segment_size w) (filter (\<lambda>s. relative_path s \<notin> doomed) S)) \<le> b"
    "s \<in> set S \<Longrightarrow> relative_path s \<in> doomed \<Longrightarrow> \<not> too_old now ret s \<Longrightarrow>
       \<exists>b. max_disk_bytes ret = Some b \<and> b < sum_list (map (segment_size w)
         (filter (\<lambda>x. \<not> too_old now ret x \<and> min_time_unix_nano s \<le> min_time_unix_nano x) S))"
proof -
  let ?young = "filter (\<lambda>x. \<not> too_old now ret x) aged"
  have same: "set aged = set S" by (simp add: aged_def)
  have inj: "s = x" if "s \<in> set S" "x \<in> set S" "relative_path s = relative_path x" for s x
    by (rule distinct_path [OF d that])
  have old: "relative_path s \<in> set (expired now ret aged) \<longleftrightarrow> too_old now ret s" if "s \<in> set S" for s
    using that inj same by (auto simp: expired_eq)
  have young: "filter (\<lambda>s. relative_path s \<notin> set (expired now ret aged)) aged = ?young"
    by (rule filter_cong [OF refl]) (use old same in simp)
  have doom: "doomed = set (expired now ret aged) \<union> (case max_disk_bytes ret of None \<Rightarrow> {} | Some b \<Rightarrow> set (over b w ?young))"
    by (cases "max_disk_bytes ret") (simp_all only: doomed_def drop_set_def Let_def young option.case set_append Un_empty_right)
  have sums: "sum_list (map (segment_size w) (filter P aged)) = sum_list (map (segment_size w) (filter P S))" for P
  proof -
    have "mset (map (segment_size w) (filter P aged)) = mset (map (segment_size w) (filter P S))" by (simp add: aged_def)
    then show ?thesis by (metis sum_mset_sum_list)
  qed
  show "s \<in> set S \<Longrightarrow> too_old now ret s \<Longrightarrow> relative_path s \<in> doomed" using old doom by simp
  show "sum_list (map (segment_size w) (filter (\<lambda>s. relative_path s \<notin> doomed) S)) \<le> b" if b: "max_disk_bytes ret = Some b"
  proof -
    have "(relative_path s \<notin> doomed) = (relative_path s \<notin> set (over b w ?young) \<and> \<not> too_old now ret s)" if "s \<in> set aged" for s
      using that b old [of s] unfolding doom same by auto
    then have "filter (\<lambda>s. relative_path s \<notin> doomed) aged =
        filter (\<lambda>s. relative_path s \<notin> set (over b w ?young) \<and> \<not> too_old now ret s) aged" by (rule filter_cong [OF refl])
    also have "\<dots> = filter (\<lambda>s. relative_path s \<notin> set (over b w ?young)) ?young" by (simp only: filter_filter conj_commute)
    finally show ?thesis using over_fits [of w b ?young] sums [of "\<lambda>s. relative_path s \<notin> doomed"] by metis
  qed
  assume s: "s \<in> set S" "relative_path s \<in> doomed" "\<not> too_old now ret s"
  then obtain b where b: "max_disk_bytes ret = Some b" "relative_path s \<in> set (over b w ?young)"
    using old doom by (auto split: option.splits)
  obtain pre x post where x: "?young = pre @ x # post" "relative_path x = relative_path s"
    "b < sum_list (map (segment_size w) (x # post))" using over_needed [OF b(2)] by blast
  have "x \<in> set ?young" unfolding x(1) by simp
  then have xs: "x = s" using inj [OF _ s(1) x(2)] same by simp
  have "sorted (map min_time_unix_nano ?young)" by (simp add: aged_def filter_sort)
  then have later: "\<forall>y \<in> set (x # post). min_time_unix_nano s \<le> min_time_unix_nano y"
    unfolding x(1) xs by (simp add: sorted_append)
  let ?late = "\<lambda>y. \<not> too_old now ret y \<and> min_time_unix_nano s \<le> min_time_unix_nano y"
  have "filter ?late aged = filter (\<lambda>y. min_time_unix_nano s \<le> min_time_unix_nano y) ?young" by (simp add: conj_commute)
  also have "\<dots> = filter (\<lambda>y. min_time_unix_nano s \<le> min_time_unix_nano y) pre @ x # post"
    unfolding x(1) using later by (simp add: filter_id_conv)
  finally have "b < sum_list (map (segment_size w) (filter ?late aged))" using x(3) by simp
  then show "\<exists>b. max_disk_bytes ret = Some b \<and> b < sum_list (map (segment_size w) (filter ?late S))"
    using b(1) sums by metis
qed

subsection \<open>A call of retention\<close>

lemma retain_cases:
  fixes st :: storage and w :: world and now :: int
  assumes al: "alive A h mh st w H ph" and u: "uniq A st ph" and run: "retain mh now (st, w) = (Inr rep, st', w')"
  defines "S \<equiv> all_segments (st_inner st)"
  defines "gone \<equiv> {s \<in> set S. relative_path s \<in> set (drop_set now (st_retention st) w (sort_key min_time_unix_nano S))}"
  shows "segs_of (st_inner st') t = filter (\<lambda>s. s \<notin> gone) (segs_of (st_inner st) t)"
    "segments_dropped rep = card gone"
    "s \<in> set (segs_of (st_inner st') t) \<Longrightarrow> fs_read w' (relative_path s) = fs_read w (relative_path s)"
proof -
  let ?aged = "sort_key min_time_unix_nano S" and ?inn = "st_inner st"
  let ?doomed = "drop_set now (st_retention st) w ?aged"
  let ?keep = "\<lambda>s. relative_path s \<notin> set ?doomed"
  have dir: "st_dir st" using al by (simp add: alive_def lsn_part_def Let_def)
  have mok: "metrics_ok (manifest_view ?inn)" using al by (auto simp: alive_def man_part_def)
  have dist: "distinct (map relative_path S)" unfolding S_def by (rule all_segments_distinct [OF mok u])
  have in_S: "set (segs_of ?inn t) \<subseteq> set S" for t unfolding S_def all_segments_eq [OF mok] by auto
  have keep: "filter ?keep (segs_of ?inn t) = filter (\<lambda>s. s \<notin> gone) (segs_of ?inn t)" for t
    by (rule filter_cong [OF refl]) (use in_S in \<open>auto simp: gone_def\<close>)
  have card: "card gone + length (filter ?keep S) = length S"
  proof -
    have "gone = set (filter (\<lambda>s. \<not> ?keep s) S)" by (auto simp: gone_def)
    moreover have "distinct (filter (\<lambda>s. \<not> ?keep s) S)" using dist by (simp add: distinct_map)
    ultimately have "card gone = length (filter (\<lambda>s. \<not> ?keep s) S)" by (simp only: distinct_card)
    then show ?thesis using sum_length_filter_compl [of ?keep S] by simp
  qed
  have res: "st_inner st' = retain_segments ?keep ?inn \<and> segments_dropped rep = card gone \<and>
      (\<exists>w1. touches manifest_names w w1 \<and> w' = reclaim_segments (filter (\<lambda>s. relative_path s \<in> set ?doomed) ?aged) w1)"
  proof (cases "?doomed = []")
    case True
    have "retain_segments (\<lambda>_. True) ?inn = ?inn" 
    proof -
      have "filter (\<lambda>_. True) = (id :: segment_ref list \<Rightarrow> _)" by (rule ext) simp
      then show ?thesis by (simp add: retain_segments_def option.map_id0)
    qed
    moreover have "gone = {}" using True by (simp add: gone_def)
    ultimately show ?thesis using run True dir
      by (auto simp: retain_def Let_def S_def [symmetric] reclaim_segments_def intro!: exI [of _ w'])
  next
    case False
    let ?inn' = "retain_segments ?keep ?inn"
    obtain r st1 w1 where p: "persist_manifest mh (st\<lparr>st_inner := ?inn'\<rparr>, w) = (r, st1, w1)" by (metis prod_cases3)
    have ok: "r = Inr ()" "st' = st1" "w' = reclaim_segments (filter (\<lambda>s. relative_path s \<in> set ?doomed) ?aged) w1"
      "segments_dropped rep = segment_count ?inn - segment_count ?inn'"
      using run False dir p by (cases r; auto simp: retain_def Let_def S_def [symmetric] upd_inner_def)+
    have "segments_dropped rep = card gone"
      using card ok(4) by (simp add: segment_count_eq all_segments_retain S_def)
    then show ?thesis using ok persist_inner [OF p] by auto
  qed
  then show "segs_of (st_inner st') t = filter (\<lambda>s. s \<notin> gone) (segs_of ?inn t)" "segments_dropped rep = card gone"
    by (simp_all add: retain_segments_of keep)
  obtain w1 where w1: "touches manifest_names w w1"
    "w' = reclaim_segments (filter (\<lambda>s. relative_path s \<in> set ?doomed) ?aged) w1" using res by blast
  assume s: "s \<in> set (segs_of (st_inner st') t)"
  then have so: "s \<in> set (segs_of ?inn t)" "?keep s" using res by (auto simp: retain_segments_of)
  have ns: "named t s" and sn: "relative_path s \<in> seg_names"
    using u so(1) al by (auto simp: uniq_def alive_def seg_part_def seg_fine_def)
  have "relative_path s \<notin> manifest_names" using sn seg_disjoint by blast
  moreover have "relative_path s \<notin> (\<Union>x \<in> set (filter (\<lambda>s. relative_path s \<in> set ?doomed) ?aged). seg_files x)"
  proof
    assume "relative_path s \<in> (\<Union>x \<in> set (filter (\<lambda>s. relative_path s \<in> set ?doomed) ?aged). seg_files x)"
    then obtain x where x: "x \<in> set S" "relative_path x \<in> set ?doomed" "relative_path s \<in> seg_files x" by auto
    obtain v where "x \<in> set (segs_of ?inn v)" using x(1) unfolding S_def all_segments_eq [OF mok] by auto
    then have "named v x" using u by (simp add: uniq_def)
    from named_files(2) [OF this ns x(3)] x(2) so(2) show False by simp
  qed
  ultimately show "fs_read w' (relative_path s) = fs_read w (relative_path s)"
    using touches_read [OF w1(1)] touches_read [OF reclaim_touches] unfolding w1(2) by metis
qed

end
