(* ===== verification/Storage_Compact_Races.thy ===== *)
theory Storage_Compact_Races
  imports Storage_Maintain Storage_Example
begin

text \<open>
  Maintenance calls beside a compaction. Nothing serialises them: the reconciliation trusts the
  snapshot, so what another call took off the lists meanwhile comes back.
\<close>

subsection \<open>Two runs\<close>

text \<open>A file here is the times of its rows.\<close>

definition times_env :: arrow_env where
  "times_env = example_env (\<lambda>b. map (\<lambda>r. word_of_int (row_time r)) (rb_rows b))
     (\<lambda>bs. Some [\<lparr>rb_keys = [], rb_rows = map (\<lambda>n. LogRow (example_row (uint n))) bs\<rparr>])"

definition one_tick :: retention where
  "one_tick = retention_none\<lparr>max_age := Some 1\<rparr>"

text \<open>A new directory, then a log row sealed into a segment.\<close>

definition race_open :: engine where
  "race_open =
     (case storage_open times_env demo_hash m_hash LockTaken 0 CompressionNone WalAlways one_tick 0 demo_world of
        (r, w) \<Rightarrow> (projr r, w))"

definition one_segment :: "(engine, segment_ref option) outcome" where
  "one_segment = and_then id (tw_ingest times_env 5 race_open) (\<lambda>_ e. seal times_env m_hash e)"

text \<open>A compaction has looked and written; then retention runs; then the compaction commits.\<close>

definition retain_race :: "footer \<Rightarrow> engine \<Rightarrow> (engine, nat) outcome" where
  "retain_race F e =
     and_then id (compact_write times_env F 10 (compact_snapshot (st_inner (fst e))) e) (\<lambda>p e.
     and_then id (retain m_hash 100 e) (\<lambda>rep e.
     and_then id (compact_commit m_hash p e) (\<lambda>_ e. (Inr (segments_dropped rep), compact_reclaim p e))))"

text \<open>A key is promoted when the database is opened again, so the segment is due for a rewrite. Two
  compactions have looked and written; then both commit.\<close>

definition with_key :: "engine \<Rightarrow> engine" where
  "with_key e = ((fst e)\<lparr>promote := [''k'']\<rparr>, snd e)"

definition compact_race :: "engine \<Rightarrow> (engine, nat) outcome" where
  "compact_race e =
     (let snap = compact_snapshot (st_inner (fst e)); F = (\<lambda>_. Some []) in
      and_then id (compact_write times_env F 10 snap e) (\<lambda>p e.
      and_then id (compact_write times_env F 10 snap e) (\<lambda>q e.
      and_then id (compact_commit m_hash p e) (\<lambda>_ e.
      and_then id (compact_commit m_hash q (compact_reclaim p e)) (\<lambda>_ e.
        (Inr (segments_converged (report_of p) + segments_converged (report_of q)), compact_reclaim q e))))))"

text \<open>The result of a run, and what the files of the listed log segments hold.\<close>

definition seen :: "(engine, 'a) outcome \<Rightarrow> (error + 'a) \<times> (io_error + bytes) list" where
  "seen r = (fst r, map (\<lambda>s. fs_read (snd (snd r)) (relative_path s)) (segments (st_inner (fst (snd r)))))"

definition races :: "footer \<Rightarrow> (engine, segment_ref option) outcome \<Rightarrow>
    bool \<times> (io_error + bytes) list \<times> ((error + nat) \<times> (io_error + bytes) list) \<times> ((error + nat) \<times> (io_error + bytes) list)" where
  "races F r = (isl (fst r), snd (seen r), seen (retain_race F (snd r)), seen (compact_race (with_key (snd r))))"

lemma races_value:
  "races F one_segment = (False, [Inr [5]], (Inr 1, [Inl NotFound]), (Inr 2, [Inr [5], Inr [5]]))"
  by code_simp

end
