(* ===== verification/Maintenance_Properties.thy ===== *)
theory Maintenance_Properties
  imports Storage_Retention Storage_Compact_Races
begin

text \<open>
  The properties of the maintenance of the storage engine: compaction beside the running engine,
  retention, and what goes wrong when two maintenance calls overlap.
\<close>


text \<open>C9. Retention on any reachable state of the engine drops a set of segments and
  keeps the order of the others: all that are past the age limit, and of the rest none that could stay,
  that is, a dropped one and the later ones together are over the disk budget. What is left is within
  the budget, and the files of the kept segments are as they were.\<close>

theorem retention_policy:
  assumes "arrow_laws A" "files w = []" "dir_ok w"
    and "storage_open A h mh lk now cmp mode ret budget w = (Inr st, w0)"
    and "maint_run A F h mh i (new_maint (st, w0)) m" "running m" "mt_engine m = (st', w')"
    and "retain mh t1 (st', w') = (Inr rep, st'', w'')"
  shows "\<exists>gone. gone \<subseteq> set (all_segments (st_inner st')) \<and> segments_dropped rep = card gone \<and>
     (\<forall>t. segs_of (st_inner st'') t = filter (\<lambda>s. s \<notin> gone) (segs_of (st_inner st') t) \<and>
        (\<forall>s \<in> set (segs_of (st_inner st'') t). fs_read w'' (relative_path s) = fs_read w' (relative_path s))) \<and>
     (\<forall>s \<in> set (all_segments (st_inner st')). too_old t1 (st_retention st') s \<longrightarrow> s \<in> gone) \<and>
     (\<forall>b. max_disk_bytes (st_retention st') = Some b \<longrightarrow>
        sum_list (map (segment_size w') (filter (\<lambda>s. s \<notin> gone) (all_segments (st_inner st')))) \<le> b) \<and>
     (\<forall>s \<in> gone. too_old t1 (st_retention st') s \<or>
        (\<exists>b. max_disk_bytes (st_retention st') = Some b \<and>
           b < sum_list (map (segment_size w')
             (filter (\<lambda>x. \<not> too_old t1 (st_retention st') x \<and> min_time_unix_nano s \<le> min_time_unix_nano x)
               (all_segments (st_inner st'))))))"
proof -
  have inv: "maint_inv A h mh i m" by (rule maint_inv_run [OF assms(1,5) new_maint_inv [OF assms(2-4)]])
  let ?ph = "sy_sealer (mt_sys m) i" and ?S = "all_segments (st_inner st')"
  have al: "alive A h mh st' w' (sy_jobs (mt_sys m)) ?ph" and u: "uniq A st' ?ph"
    using inv assms(6,7) by (simp_all add: maint_inv_def sys_inv_def)
  have mok: "metrics_ok (manifest_view (st_inner st'))" using al by (auto simp: alive_def man_part_def)
  have dist: "distinct (map relative_path ?S)" by (rule all_segments_distinct [OF mok u])
  note d = drop_set_cases [OF dist, where now = t1 and ret = "st_retention st'" and w = w'] and r = retain_cases [OF al u assms(8)]
  let ?D = "set (drop_set t1 (st_retention st') w' (sort_key min_time_unix_nano ?S))"
  have kept: "filter (\<lambda>s. s \<notin> {s \<in> set ?S. relative_path s \<in> ?D}) ?S = filter (\<lambda>s. relative_path s \<notin> ?D) ?S"
    by (rule filter_cong) simp_all
  show ?thesis
    by (rule exI [of _ "{s \<in> set ?S. relative_path s \<in> ?D}"], unfold kept, intro conjI allI ballI impI)
       (use d r in blast)+
qed


subsection \<open>Instances\<close>

text \<open>A new directory, one accepted job, and a compaction up to its plan.\<close>

definition looked :: "(table \<times> segment_ref list) list" where
  "looked = [(TLogs, []), (TSpans, [])]"

definition planned :: plan where
  "planned = (looked, \<lparr>ca_result = [], ca_merged = 0, ca_converged = 0, ca_created = 0, ca_deleted = [], ca_budget = 10\<rparr>)"

definition example_maint :: "engine \<Rightarrow> (nat \<times> ingest_job) list \<Rightarrow> compactor \<Rightarrow> maint" where
  "example_maint e J c = \<lparr>mt_sys = (new_sys (example_start coded_env))\<lparr>sy_engine := e, sy_jobs := J\<rparr>, mt_compactor = c\<rparr>"

lemma example_looked: "compact_snapshot (st_inner (fst (one_in coded_env))) = looked" "st_dir (fst (one_in coded_env))"
proof -
  have "compact_snapshot (st_inner (fst (one_in (example_env wr rd)))) = looked \<and> st_dir (fst (one_in (example_env wr rd)))" for wr rd
    by code_simp
  then show "compact_snapshot (st_inner (fst (one_in coded_env))) = looked" "st_dir (fst (one_in coded_env))"
    unfolding coded_env_def by blast+
qed

lemma example_planned: "compact_write A F 10 looked e = (Inr planned, e)"
  by (simp add: compact_write_def looked_def planned_def compact_partition_def day_groups_def)

lemma example_maint_run:
  "maint_run coded_env F demo_hash m_hash 0 (new_maint (example_start coded_env))
     (example_maint (one_in coded_env) [(1, example_job 5)] (Planned planned))"
proof -
  let ?s = "example_maint (one_in coded_env) [(1, example_job 5)]"
  have rep: "representable (new_sys (example_start coded_env))"
    "representable ((new_sys (example_start coded_env))\<lparr>sy_engine := one_in coded_env, sy_jobs := J\<rparr>)" for J
    unfolding coded_env_def by (rule example_representable)+
  have seq: "st_seq (fst (one_in coded_env)) \<le> u64_max"
    using rep(2) by (simp add: representable_def split: prod.splits)
  have roomy: "roomy (new_maint (example_start coded_env))" "roomy (?s Resting)" "roomy (?s (Looked looked))"
    "roomy (?s (Planned planned))"
    using rep seq by (simp_all add: roomy_def new_maint_def example_maint_def looked_def)
  have "job_ok (example_job 5)" by (simp add: example_job_ok i64_ok_def i64_min_def i64_max_def)
  moreover have "tw_ingest coded_env 5 (example_start coded_env) = (Inr (1, True), one_in coded_env)"
    unfolding coded_env_def by (rule prod_eqI) (simp_all add: tw_ingest_value(1))
  ultimately have "engine_step coded_env demo_hash m_hash {0} (new_sys (example_start coded_env)) (mt_sys (?s Resting))"
    using engine_step.ingest_ok [of "new_sys (example_start coded_env)" "example_job 5" coded_env demo_hash 0 True 1 True
        "one_in coded_env" m_hash "{0}"]
    by (simp add: new_sys_def tw_ingest_def example_maint_def)
  then have s1: "maint_step coded_env F demo_hash m_hash 0 (new_maint (example_start coded_env)) (?s Resting)"
    using by_engine [of coded_env demo_hash m_hash 0 "new_maint (example_start coded_env)"]
    by (simp add: new_maint_def example_maint_def)
  have s2: "maint_step coded_env F demo_hash m_hash 0 (?s Resting) (?s (Looked looked))"
    using snapshot [of "?s Resting" coded_env F demo_hash m_hash 0] example_looked
    by (simp add: example_maint_def set_compactor_def new_sys_def)
  have s3: "maint_step coded_env F demo_hash m_hash 0 (?s (Looked looked)) (?s (Planned planned))"
    using rewrite_ok [of "?s (Looked looked)" looked coded_env F 10 planned "one_in coded_env" demo_hash m_hash 0] example_planned
    by (simp add: example_maint_def set_compactor_def new_sys_def)
  show ?thesis by (rule go_on [OF go_on [OF go_on [OF begin_run s1] s2] s3]) (rule roomy)+
qed

lemma example_retain: "retain m_hash 0 (one_in coded_env) = (Inr \<lparr>segments_dropped = 0, bytes_freed = 0\<rparr>, one_in coded_env)"
proof -
  have none: "all_segments (st_inner (fst (one_in (example_env wr rd)))) = []" for wr rd by code_simp
  have "drop_set now ret w [] = []" for now ret w
    by (simp add: drop_set_def expired_def Let_def split: option.splits)
  then show ?thesis unfolding coded_env_def by (simp add: retain_def none Let_def)
qed



theorem retention_policy_witness:
  "\<exists>gone. gone \<subseteq> set (all_segments (st_inner (fst (one_in coded_env)))) \<and> card gone = 0"
proof -
  have run: "maint_run coded_env F demo_hash m_hash 0 (new_maint (fst (example_start coded_env), snd (example_start coded_env)))
     (example_maint (one_in coded_env) [(1, example_job 5)] (Planned planned))" for F
    using example_maint_run by simp
  have "running (example_maint (one_in coded_env) [(1, example_job 5)] (Planned planned))"
    "mt_engine (example_maint (one_in coded_env) [(1, example_job 5)] (Planned planned)) =
      (fst (one_in coded_env), snd (one_in coded_env))"
    "retain m_hash 0 (fst (one_in coded_env), snd (one_in coded_env)) =
      (Inr \<lparr>segments_dropped = 0, bytes_freed = 0\<rparr>, fst (one_in coded_env), snd (one_in coded_env))"
    using example_retain by (simp_all add: example_maint_def new_sys_def)
  from retention_policy [OF coded_laws example_world example_opened run this] show ?thesis
    by (elim exE conjE) (intro exI conjI, assumption, simp)
qed

end
