(* ===== verification/Traceql_Search.thy ===== *)
theory Traceql_Search
  imports Traceql_Source
begin

text \<open>
  The trace search of \<open>crates/imbh/src/traces.rs\<close>: the query value and the conditions it puts on one
  span, evaluated as the SQL engine evaluates the text the code builds; ranking the candidate traces;
  fetching whole traces. Then the filter a TraceQL expression pushes into that search and the
  execution over a source (\<open>model/traceql.rs\<close>, \<open>source.rs\<close>).
\<close>

subsection \<open>The query\<close>

datatype num_op = NumGt | NumGe | NumLt | NumLe

record trace_query =
  tq_service :: "string option"
  tq_name :: "string option"
  tq_text :: "string option"
  tq_min_duration_ns :: "nat option"
  tq_max_duration_ns :: "nat option"
  tq_status :: "string option"
  tq_kind :: "string option"
  tq_attr_eq :: "(string \<times> string) list"
  tq_attr_exists :: "string list"
  tq_attr_matches :: "(string \<times> string) list"
  tq_attr_in :: "(string \<times> string list) list"
  tq_attr_not_in :: "(string \<times> string list) list"
  tq_attr_num :: "(string \<times> num_op \<times> fnum) list"
  tq_attr_regex :: "(string \<times> string) list"
  tq_trace_start_range :: "time_range option"
  tq_trace_start_end_inclusive :: bool
  tq_range :: "time_range option"
  tq_limit :: nat

definition trace_query_default :: trace_query where
  "trace_query_default =
     \<lparr>tq_service = None, tq_name = None, tq_text = None, tq_min_duration_ns = None, tq_max_duration_ns = None,
      tq_status = None, tq_kind = None, tq_attr_eq = [], tq_attr_exists = [], tq_attr_matches = [],
      tq_attr_in = [], tq_attr_not_in = [], tq_attr_num = [], tq_attr_regex = [], tq_trace_start_range = None,
      tq_trace_start_end_inclusive = False, tq_range = None, tq_limit = 20\<rparr>"

definition trace_start_range_inclusive :: "int \<Rightarrow> int \<Rightarrow> trace_query \<Rightarrow> trace_query" where
  "trace_start_range_inclusive start endt q =
     q\<lparr>tq_trace_start_range := Some (time_range_between start endt), tq_trace_start_end_inclusive := True\<rparr>"

definition attr_num :: "num_op \<Rightarrow> string \<Rightarrow> fnum \<Rightarrow> trace_query \<Rightarrow> trace_query" where
  "attr_num op key n q = q\<lparr>tq_attr_num := tq_attr_num q @ [(key, op, n)]\<rparr>"

subsection \<open>Conditions on one span\<close>

definition builtin_column :: "string \<Rightarrow> bool" where
  "builtin_column key \<longleftrightarrow> key = ''service'' \<or> key = ''service.name''"

text \<open>The value of the SQL expression that \<open>attr_field\<close> writes, on a row; \<open>promoted\<close> are the keys
  promoted when the query runs. \<open>None\<close> is NULL.\<close>

definition attr_field :: "text_env \<Rightarrow> string list \<Rightarrow> string \<Rightarrow> stored_span \<Rightarrow> string option" where
  "attr_field env promoted key s =
     (if builtin_column key then sr_service (st_row s)
      else if key \<in> set (promoted_columns promoted) then
        (case promoted_cell env s key of
           Some v \<Rightarrow> Some v
         | None \<Rightarrow> json_get_str env (sr_attributes (st_row s)) key)
      else json_get_str env (sr_attributes (st_row s)) key)"

definition attr_num_field :: "text_env \<Rightarrow> string list \<Rightarrow> string \<Rightarrow> stored_span \<Rightarrow> fnum option" where
  "attr_num_field env promoted key s =
     (if builtin_column key then Option.bind (sr_service (st_row s)) (te_try_cast env)
      else if key \<in> set (promoted_columns promoted) then
        (case promoted_cell env s key of
           Some v \<Rightarrow> te_try_cast env v
         | None \<Rightarrow> json_get_num env (sr_attributes (st_row s)) key)
      else json_get_num env (sr_attributes (st_row s)) key)"

datatype span_cond =
    StartGe int
  | StartLt int
  | StartLe int
  | ServiceIs string
  | NameIs string
  | NameMatches string
  | DurationAtLeast nat
  | DurationAtMost nat
  | StatusIs string
  | KindIs string
  | AttrIs string string
  | AttrNotNull string
  | AttrTermMatch string string
  | NeverTrue
  | AttrAmong string "string list"
  | AttrNullOrNotAmong string "string list"
  | AttrNumber string num_op fnum
  | AttrRegexp string string

text \<open>\<open>span_conditions\<close>, in the order of the code.\<close>

definition span_conditions :: "trace_query \<Rightarrow> span_cond list" where
  "span_conditions q =
     (case tq_range q of None \<Rightarrow> []
      | Some r \<Rightarrow> (if tr_start r \<noteq> i64_min then [StartGe (tr_start r)] else []) @
                   (if tr_end r \<noteq> i64_max then [StartLt (tr_end r)] else [])) @
     (case tq_service q of None \<Rightarrow> [] | Some s \<Rightarrow> [ServiceIs s]) @
     (case tq_name q of None \<Rightarrow> [] | Some n \<Rightarrow> [NameIs n]) @
     (case tq_text q of None \<Rightarrow> [] | Some t \<Rightarrow> [NameMatches t]) @
     (case tq_min_duration_ns q of None \<Rightarrow> [] | Some d \<Rightarrow> [DurationAtLeast d]) @
     (case tq_max_duration_ns q of None \<Rightarrow> [] | Some d \<Rightarrow> [DurationAtMost d]) @
     (case tq_status q of None \<Rightarrow> [] | Some s \<Rightarrow> [StatusIs s]) @
     (case tq_kind q of None \<Rightarrow> [] | Some k \<Rightarrow> [KindIs k]) @
     map (\<lambda>(k, v). AttrIs k v) (tq_attr_eq q) @
     map AttrNotNull (tq_attr_exists q) @
     map (\<lambda>(k, t). AttrTermMatch k t) (tq_attr_matches q) @
     map (\<lambda>(k, vs). if vs = [] then NeverTrue else AttrAmong k vs) (tq_attr_in q) @
     List.map_filter (\<lambda>(k, vs). if vs = [] then None else Some (AttrNullOrNotAmong k vs)) (tq_attr_not_in q) @
     map (\<lambda>(k, op, n). AttrNumber k op n) (tq_attr_num q) @
     map (\<lambda>(k, pat). AttrRegexp k pat) (tq_attr_regex q)"

definition num_holds :: "num_op \<Rightarrow> ordering option \<Rightarrow> bool" where
  "num_holds op c =
     (case op of
        NumGt \<Rightarrow> c = Some OGreater
      | NumGe \<Rightarrow> c = Some OGreater \<or> c = Some OEqual
      | NumLt \<Rightarrow> c = Some OLess
      | NumLe \<Rightarrow> c = Some OLess \<or> c = Some OEqual)"

text \<open>Whether a \<open>WHERE\<close> keeps the row: a comparison with NULL does not hold.\<close>

definition cond_holds :: "text_env \<Rightarrow> string list \<Rightarrow> stored_span \<Rightarrow> span_cond \<Rightarrow> bool" where
  "cond_holds env promoted s c =
     (let r = st_row s; field = (\<lambda>k. attr_field env promoted k s) in
      case c of
        StartGe t \<Rightarrow> sr_start_time_unix_nano r \<ge> t
      | StartLt t \<Rightarrow> sr_start_time_unix_nano r < t
      | StartLe t \<Rightarrow> sr_start_time_unix_nano r \<le> t
      | ServiceIs v \<Rightarrow> sr_service r = Some v
      | NameIs v \<Rightarrow> sr_name r = v
      | NameMatches t \<Rightarrow> matches_terms (te_alnum env) (te_lower env) (sr_name r) t
      | DurationAtLeast d \<Rightarrow> sr_duration_ns r \<ge> d
      | DurationAtMost d \<Rightarrow> sr_duration_ns r \<le> d
      | StatusIs v \<Rightarrow> sr_status_code r = v
      | KindIs v \<Rightarrow> sr_kind r = v
      | AttrIs k v \<Rightarrow> field k = Some v
      | AttrNotNull k \<Rightarrow> field k \<noteq> None
      | AttrTermMatch k t \<Rightarrow> (case field k of None \<Rightarrow> False | Some v \<Rightarrow> matches_terms (te_alnum env) (te_lower env) v t)
      | NeverTrue \<Rightarrow> False
      | AttrAmong k vs \<Rightarrow> (case field k of None \<Rightarrow> False | Some v \<Rightarrow> v \<in> set vs)
      | AttrNullOrNotAmong k vs \<Rightarrow> (case field k of None \<Rightarrow> True | Some v \<Rightarrow> v \<notin> set vs)
      | AttrNumber k op n \<Rightarrow>
          (case attr_num_field env promoted k s of None \<Rightarrow> False | Some v \<Rightarrow> num_holds op (fcmp v n))
      | AttrRegexp k pat \<Rightarrow> (case field k of None \<Rightarrow> False | Some v \<Rightarrow> te_regexp_like env v pat))"

text \<open>\<open>trace_start_prefilter\<close>, and the bounds that \<open>trace_start_having\<close> puts on the start of a group.\<close>

definition trace_start_prefilter :: "trace_query \<Rightarrow> span_cond list" where
  "trace_start_prefilter q =
     (case tq_trace_start_range q of None \<Rightarrow> []
      | Some r \<Rightarrow>
          (if tr_start r \<noteq> i64_min then [StartGe (tr_start r)] else []) @
          (if tr_end r \<noteq> i64_max
           then [if tq_trace_start_end_inclusive q then StartLe (tr_end r) else StartLt (tr_end r)] else []))"

definition trace_start_matches :: "trace_query \<Rightarrow> int \<Rightarrow> bool" where
  "trace_start_matches q start =
     (case tq_trace_start_range q of None \<Rightarrow> True
      | Some r \<Rightarrow>
          (tr_start r = i64_min \<or> start \<ge> tr_start r) \<and>
          (if tr_end r = i64_max then True
           else if tq_trace_start_end_inclusive q then start \<le> tr_end r else start < tr_end r))"

definition trace_start_having :: "trace_query \<Rightarrow> int \<Rightarrow> bool" where
  "trace_start_having q first =
     (case tq_trace_start_range q of None \<Rightarrow> True
      | Some r \<Rightarrow>
          (tr_start r \<noteq> i64_min \<longrightarrow> first \<ge> tr_start r) \<and>
          (tr_end r \<noteq> i64_max \<longrightarrow> (if tq_trace_start_end_inclusive q then first \<le> tr_end r else first < tr_end r)))"

subsection \<open>Searching\<close>

definition sat_usize :: "nat \<Rightarrow> nat" where
  "sat_usize n = min n u64_max"

definition start_of :: "stored_span \<Rightarrow> int" where
  "start_of s = sr_start_time_unix_nano (st_row s)"

definition tid_of :: "stored_span \<Rightarrow> string" where
  "tid_of s = hex_lower (sr_trace_id (st_row s))"

text \<open>The statement of phase 1: the rows that pass the \<open>WHERE\<close>, grouped by trace, groups filtered by the
  \<open>HAVING\<close> on their first start, each with its latest start. \<open>rank\<close> is \<open>ORDER BY latest DESC LIMIT\<close>.\<close>

definition kept_rows :: "text_env \<Rightarrow> string list \<Rightarrow> trace_query \<Rightarrow> stored_span list \<Rightarrow> stored_span list" where
  "kept_rows env promoted q db =
     (let conds = span_conditions q;
          hit = map tid_of (filter (\<lambda>s. list_all (cond_holds env promoted s) conds) db)
      in filter (\<lambda>s. (conds = [] \<or> tid_of s \<in> set hit) \<and>
                      list_all (cond_holds env promoted s) (trace_start_prefilter q)) db)"

definition groups :: "trace_query \<Rightarrow> stored_span list \<Rightarrow> (string \<times> int) list" where
  "groups q rows =
     List.map_filter (\<lambda>tid.
       let starts = map start_of (filter (\<lambda>s. tid_of s = tid) rows)
       in if trace_start_having q (Min (set starts)) then Some (tid, Max (set starts)) else None)
      (remdups (map tid_of rows))"

definition fetch_limit :: "trace_query \<Rightarrow> nat" where
  "fetch_limit q =
     (if trace_start_prefilter q \<noteq> [] then sat_usize (sat_usize (tq_limit q * 2) + 16) else tq_limit q)"

record trace_summary =
  ts_trace_id :: bytes
  ts_root_service :: "string option"
  ts_root_name :: "string option"
  ts_start_time :: int
  ts_duration_ns :: nat
  ts_span_count :: nat
  ts_error :: bool

definition summary_of :: "trace \<Rightarrow> trace_summary" where
  "summary_of t =
     \<lparr>ts_trace_id = tc_trace_id t, ts_root_service = tc_root_service t, ts_root_name = tc_root_name t,
      ts_start_time = tc_start_time t, ts_duration_ns = tc_duration_ns t, ts_span_count = length (tc_spans t),
      ts_error = list_ex (\<lambda>s. sp_status_code s = ''ERROR'') (tc_spans t)\<rparr>"

definition spans_of_traces :: "text_env \<Rightarrow> bytes list \<Rightarrow> int option \<Rightarrow> stored_span list \<Rightarrow> span list" where
  "spans_of_traces env ids not_before db =
     map (\<lambda>s. materialize_span env (st_row s))
      (filter (\<lambda>s. sr_trace_id (st_row s) \<in> set ids \<and>
                    (case not_before of None \<Rightarrow> True | Some t \<Rightarrow> start_of s \<ge> t)) db)"

text \<open>The second loop of \<open>search\<close>. \<open>remove\<close> takes a trace's spans out of the map, so an identifier that
  came twice would find nothing the second time.\<close>

fun summaries ::
  "trace_query \<Rightarrow> (string \<rightharpoonup> span list) \<Rightarrow> string list \<Rightarrow> trace_summary list \<Rightarrow> trace_summary list" where
  "summaries q by_trace [] out = out"
| "summaries q by_trace (tid # tids) out =
     (if length out = tq_limit q then out
      else
        case by_trace tid of
          None \<Rightarrow> summaries q by_trace tids out
        | Some [] \<Rightarrow> summaries q (by_trace(tid := None)) tids out
        | Some (first # rest) \<Rightarrow>
            let t = assemble_trace (sp_trace_id first) (first # rest)
            in if trace_start_prefilter q \<noteq> [] \<and> \<not> trace_start_matches q (tc_start_time t)
               then summaries q (by_trace(tid := None)) tids out
               else summaries q (by_trace(tid := None)) tids (out @ [summary_of t]))"

definition group_by :: "('a \<Rightarrow> 'k) \<Rightarrow> 'a list \<Rightarrow> 'k \<rightharpoonup> 'a list" where
  "group_by key xs k = (case filter (\<lambda>x. key x = k) xs of [] \<Rightarrow> None | ys \<Rightarrow> Some ys)"

type_synonym ranking = "(string \<times> int) list \<Rightarrow> nat \<Rightarrow> string list"

definition search ::
  "text_env \<Rightarrow> ranking \<Rightarrow> string list \<Rightarrow> stored_span list \<Rightarrow> trace_query \<Rightarrow> trace_summary list" where
  "search env rank promoted db q =
     (let tids = rank (groups q (kept_rows env promoted q db)) (fetch_limit q);
          ids = List.map_filter trace_id_from_hex tids
      in if tids = [] \<or> ids = [] then []
         else summaries q (group_by (\<lambda>s. hex_lower (sp_trace_id s)) (spans_of_traces env ids None db)) tids [])"

text \<open>\<open>get\<close>, ordered by start time, ties in scan order.\<close>

definition get_trace :: "text_env \<Rightarrow> stored_span list \<Rightarrow> bytes \<Rightarrow> trace option" where
  "get_trace env db i =
     (let spans = map (\<lambda>s. materialize_span env (st_row s))
            (sort_key start_of (filter (\<lambda>s. sr_trace_id (st_row s) = i) db))
      in if spans = [] then None else Some (assemble_trace i spans))"

text \<open>\<open>get_many\<close>: the spans of each trace sorted by start time, stably.\<close>

definition get_many :: "text_env \<Rightarrow> stored_span list \<Rightarrow> bytes list \<Rightarrow> int option \<Rightarrow> bytes \<rightharpoonup> trace" where
  "get_many env db ids not_before =
     (if ids = [] then Map.empty
      else (\<lambda>i. map_option (\<lambda>spans. assemble_trace i (sort_key sp_start_time spans))
                  (group_by sp_trace_id (spans_of_traces env ids not_before db) i)))"

end
