(* ===== verification/Traceql_Execute.thy ===== *)
theory Traceql_Execute
  imports Traceql_Search
begin

text \<open>
  Planning and executing a TraceQL query: the candidate filter (\<open>candidate_filters\<close> in
  \<open>model/traceql.rs\<close>), its translation to a storage query (\<open>source.rs\<close>), and the streaming loop of
  \<open>execute_traceql\<close> over any source of traces.
\<close>

subsection \<open>The candidate filter\<close>

datatype span_filter =
    FName string
  | FStatus string
  | FKind string
  | FDurationGe nat
  | FDurationLe nat
  | FAttrEq string string
  | FAttrNumGt string int
  | FAttrNumGe string int
  | FAttrNumLt string int
  | FAttrNumLe string int

definition push_numeric_attr :: "string \<Rightarrow> compare_op \<Rightarrow> int \<Rightarrow> span_filter list" where
  "push_numeric_attr key op v =
     (if \<bar>v\<bar> \<ge> 2 ^ 53 then []
      else
        case op of
          CGt \<Rightarrow> [FAttrNumGt key v]
        | CGe \<Rightarrow> [FAttrNumGe key v]
        | CLt \<Rightarrow> [FAttrNumLt key v]
        | CLe \<Rightarrow> [FAttrNumLe key v]
        | CEq \<Rightarrow> [FAttrNumGe key v, FAttrNumLe key v]
        | _ \<Rightarrow> [])"

text \<open>What \<open>push_predicate\<close> appends to its output.\<close>

fun push_predicate :: "span_predicate \<Rightarrow> span_filter list" where
  "push_predicate PAll = []"
| "push_predicate (PAnd ps) = concat (map push_predicate ps)"
| "push_predicate (PNameEq n) = [FName n]"
| "push_predicate (PStatusEq s) = [FStatus s]"
| "push_predicate (PKindEq k) = [FKind k]"
| "push_predicate (PDuration op n) =
     (case op of
        CGt \<Rightarrow> [FDurationGe n]
      | CGe \<Rightarrow> [FDurationGe n]
      | CLt \<Rightarrow> [FDurationLe n]
      | CLe \<Rightarrow> [FDurationLe n]
      | CEq \<Rightarrow> [FDurationGe n, FDurationLe n]
      | _ \<Rightarrow> [])"
| "push_predicate (PSpanAttrEq key v) = [FAttrEq key v]"
| "push_predicate (PAttribute sc key op v) =
     (case (sc, op, v) of
        (ScopeSpan, CEq, SString t) \<Rightarrow> [FAttrEq key t]
      | (ScopeSpan, _, SInteger n) \<Rightarrow> push_numeric_attr key op n
      | _ \<Rightarrow> [])"
| "push_predicate (PIntrinsic i op v) = []"
| "push_predicate (PResourceAttrEq key v) = []"

fun candidate_filters :: "spanset_expr \<Rightarrow> span_filter list" where
  "candidate_filters (ESelect p) = push_predicate p"
| "candidate_filters (EAnd l r) =
     (if candidate_filters l = [] then candidate_filters r else candidate_filters l)"
| "candidate_filters (EStructural l op r u) =
     (if candidate_filters l = [] then candidate_filters r else candidate_filters l)"
| "candidate_filters (ECountAtLeast e n) = (if n \<ge> 1 then candidate_filters e else [])"
| "candidate_filters (ECount e op n) =
     (if n \<ge> 1 \<and> (op = CGe \<or> op = CGt \<or> op = CEq) then candidate_filters e else [])"
| "candidate_filters (EOr l r) = []"

record fetch_request =
  fr_bounds :: fetch_bounds
  fr_max_traces :: nat
  fr_max_spans :: nat
  fr_candidate :: "span_filter list"

definition plan_trace_fetch :: "fetch_bounds \<Rightarrow> eval_limits \<Rightarrow> spanset_expr \<Rightarrow> semantic_error + fetch_request" where
  "plan_trace_fetch bounds limits expr =
     bind_sem (fetch_bounds_new (fb_start_ns bounds) (fb_end_ns bounds)) (\<lambda>b.
     Inr \<lparr>fr_bounds = b, fr_max_traces = max_traces limits, fr_max_spans = max_spans limits,
          fr_candidate = candidate_filters expr\<rparr>)"

text \<open>\<open>build_trace_query\<close>: \<open>Duration\<close> carries the nanoseconds unchanged, and \<open>as f64\<close> widens a bound.\<close>

definition add_filter :: "span_filter \<Rightarrow> trace_query \<Rightarrow> trace_query" where
  "add_filter f q =
     (case f of
        FName n \<Rightarrow> q\<lparr>tq_name := Some n\<rparr>
      | FStatus s \<Rightarrow> q\<lparr>tq_status := Some s\<rparr>
      | FKind k \<Rightarrow> q\<lparr>tq_kind := Some k\<rparr>
      | FDurationGe n \<Rightarrow> q\<lparr>tq_min_duration_ns := Some n\<rparr>
      | FDurationLe n \<Rightarrow> q\<lparr>tq_max_duration_ns := Some n\<rparr>
      | FAttrEq k v \<Rightarrow> q\<lparr>tq_attr_eq := tq_attr_eq q @ [(k, v)]\<rparr>
      | FAttrNumGt k n \<Rightarrow> attr_num NumGt k (f64_of_i64 n) q
      | FAttrNumGe k n \<Rightarrow> attr_num NumGe k (f64_of_i64 n) q
      | FAttrNumLt k n \<Rightarrow> attr_num NumLt k (f64_of_i64 n) q
      | FAttrNumLe k n \<Rightarrow> attr_num NumLe k (f64_of_i64 n) q)"

definition build_trace_query :: "fetch_request \<Rightarrow> trace_query" where
  "build_trace_query req =
     fold add_filter (fr_candidate req)
      ((trace_start_range_inclusive (fb_start_ns (fr_bounds req)) (fb_end_ns (fr_bounds req)) trace_query_default)
        \<lparr>tq_limit := sat_usize (fr_max_traces req + 1)\<rparr>)"

subsection \<open>Execution\<close>

text \<open>A source: candidate identifiers for a request, and whole traces for identifiers.\<close>

record trace_source =
  so_candidates :: "fetch_request \<Rightarrow> semantic_error + bytes list"
  so_traces :: "bytes list \<Rightarrow> int \<Rightarrow> semantic_error + sem_trace list"

definition TRACE_FETCH_CHUNK :: nat where
  "TRACE_FETCH_CHUNK = 32"

function chunks :: "nat \<Rightarrow> 'a list \<Rightarrow> 'a list list" where
  "chunks n xs = (if n = 0 \<or> xs = [] then [] else take n xs # chunks n (drop n xs))"
  by pat_completeness auto
termination by (relation "measure (\<lambda>(n, xs). length xs)") auto

declare chunks.simps [simp del]

record trace_match =
  tm_trace_id :: string
  tm_start_time_ns :: int
  tm_spanset :: trace_spanset

fun match_packs ::
  "regex \<Rightarrow> spanset_expr \<Rightarrow> eval_limits \<Rightarrow> fetch_request \<Rightarrow> sem_trace list \<Rightarrow> nat \<Rightarrow> trace_match list \<Rightarrow>
   semantic_error + nat \<times> trace_match list" where
  "match_packs re expr limits req [] span_count result = Inr (span_count, result)"
| "match_packs re expr limits req (t # ts) span_count result =
     (case checked_add_usize span_count (length (tr_spans t)) of
        None \<Rightarrow> Inl (LimitExceeded ''TraceQL source spans'')
      | Some span_count \<Rightarrow>
          if span_count > fr_max_spans req then Inl (LimitExceeded ''TraceQL source spans'')
          else
            bind_sem (eval_trace_reference re t expr limits) (\<lambda>m.
            match_packs re expr limits req ts span_count
             (case m of None \<Rightarrow> result
              | Some spanset \<Rightarrow>
                  result @ [\<lparr>tm_trace_id = hex_lower (tr_trace_id t), tm_start_time_ns = tr_start_time_ns t,
                             tm_spanset = spanset\<rparr>])))"

fun match_chunks ::
  "trace_source \<Rightarrow> regex \<Rightarrow> spanset_expr \<Rightarrow> eval_limits \<Rightarrow> fetch_request \<Rightarrow> bytes list list \<Rightarrow> nat \<Rightarrow>
   trace_match list \<Rightarrow> semantic_error + trace_match list" where
  "match_chunks src re expr limits req [] span_count result = Inr result"
| "match_chunks src re expr limits req (c # cs) span_count result =
     bind_sem (so_traces src c (fb_start_ns (fr_bounds req))) (\<lambda>packs.
     bind_sem (match_packs re expr limits req packs span_count result) (\<lambda>(span_count, result).
     match_chunks src re expr limits req cs span_count result))"

definition execute_traceql ::
  "trace_source \<Rightarrow> regex \<Rightarrow> spanset_expr \<Rightarrow> fetch_bounds \<Rightarrow> eval_limits \<Rightarrow> semantic_error + trace_match list" where
  "execute_traceql src re expr bounds limits =
     bind_sem (plan_trace_fetch bounds limits expr) (\<lambda>req.
     bind_sem (so_candidates src req) (\<lambda>cands.
     if length cands > fr_max_traces req then Inl (LimitExceeded ''TraceQL source traces'')
     else if \<not> distinct cands then Inl (Malformed ''TraceQL source returned a duplicate trace'')
     else match_chunks src re expr limits req (chunks TRACE_FETCH_CHUNK cands) 0 []))"

text \<open>The source over the traces interface (\<open>impl TraceSource for TracesApi\<close>).\<close>

definition api_candidates ::
  "text_env \<Rightarrow> ranking \<Rightarrow> string list \<Rightarrow> stored_span list \<Rightarrow> fetch_request \<Rightarrow> bytes list" where
  "api_candidates env rank promoted db req =
     map ts_trace_id (search env rank promoted db (build_trace_query req))"

definition api_traces :: "text_env \<Rightarrow> stored_span list \<Rightarrow> bytes list \<Rightarrow> int \<Rightarrow> sem_trace list" where
  "api_traces env db ids not_before =
     fst (fold (\<lambda>i (out, found).
       case found i of None \<Rightarrow> (out, found) | Some t \<Rightarrow> (out @ [semantic_trace env t], found(i := None)))
       ids ([], get_many env db ids (Some not_before)))"

definition traces_api :: "text_env \<Rightarrow> ranking \<Rightarrow> string list \<Rightarrow> stored_span list \<Rightarrow> trace_source" where
  "traces_api env rank promoted db =
     \<lparr>so_candidates = (\<lambda>req. Inr (api_candidates env rank promoted db req)),
      so_traces = (\<lambda>ids not_before. Inr (api_traces env db ids not_before))\<rparr>"

end
