(* ===== verification/Traceql_Pushdown.thy ===== *)
theory Traceql_Pushdown
  imports Traceql_Execute
begin

text \<open>
  When the filter pushed into the storage search is a necessary condition: what a filter asks of a span
  that the evaluator sees, the expressions whose filters every match satisfies, and the agreement of
  the storage conditions with the filters.
\<close>

subsection \<open>A filter on a span\<close>

definition sem_num :: "sem_value option \<Rightarrow> fnum option" where
  "sem_num v =
     (case v of Some (SInteger a) \<Rightarrow> Some (f64_of_i64 a) | Some (SFloat d) \<Rightarrow> Some (f64_num d) | _ \<Rightarrow> None)"

definition num_filter :: "sem_span \<Rightarrow> string \<Rightarrow> num_op \<Rightarrow> int \<Rightarrow> bool" where
  "num_filter s key op n =
     (case sem_num (ss_attributes s key) of None \<Rightarrow> False | Some x \<Rightarrow> num_holds op (fcmp x (f64_of_i64 n)))"

fun filter_holds :: "sem_span \<Rightarrow> span_filter \<Rightarrow> bool" where
  "filter_holds s (FName n) = (ss_name s = n)"
| "filter_holds s (FStatus t) = (ss_status s = t)"
| "filter_holds s (FKind k) = (ss_kind s = k)"
| "filter_holds s (FDurationGe n) = (ss_duration_ns s \<ge> n)"
| "filter_holds s (FDurationLe n) = (ss_duration_ns s \<le> n)"
| "filter_holds s (FAttrEq k v) = (ss_attributes s k = Some (SString v))"
| "filter_holds s (FAttrNumGt k n) = num_filter s k NumGt n"
| "filter_holds s (FAttrNumGe k n) = num_filter s k NumGe n"
| "filter_holds s (FAttrNumLt k n) = num_filter s k NumLt n"
| "filter_holds s (FAttrNumLe k n) = num_filter s k NumLe n"

text \<open>No span attribute is an array: the evaluator compares each element of one, the storage none.\<close>

definition scalar_attributes :: "sem_span \<Rightarrow> bool" where
  "scalar_attributes s \<longleftrightarrow> (\<forall>k vs. ss_attributes s k \<noteq> Some (SArray vs))"

lemma compare_value_scalar:
  "(\<And>vs. actual \<noteq> Some (SArray vs)) \<Longrightarrow> compare_value re actual op e = compare_scalar re actual op e"
  by (cases actual; cases "the actual") (auto simp: compare_value_def)

lemma values_equal_string: "values_equal a (SString v) \<Longrightarrow> a = Some (SString v)"
  by (cases a; cases "the a") auto

lemma attr_eq_holds:
  assumes "scalar_attributes s" "compare_value re (ss_attributes s k) CEq (SString v) = Inr True"
  shows "ss_attributes s k = Some (SString v)"
proof -
  have "compare_scalar re (ss_attributes s k) CEq (SString v) = Inr True"
    using assms compare_value_scalar [of "ss_attributes s k" re CEq "SString v"] by (simp add: scalar_attributes_def)
  then show ?thesis by (auto simp: compare_scalar_def split: if_splits intro: values_equal_string)
qed

lemma duration_compare:
  assumes "compare_value re (Some (SDurationNs a)) op (SDurationNs b) = Inr True"
  shows "op = CGt \<or> op = CGe \<Longrightarrow> b \<le> a" "op = CLt \<or> op = CLe \<Longrightarrow> a \<le> b" "op = CEq \<Longrightarrow> a = b"
  using assms
  by (auto simp: compare_value_def compare_scalar_def ordered_def int_cmp_def split: compare_op.splits if_splits)

text \<open>The comparison of an integer literal with a scalar value is the comparison of doubles.\<close>

definition num_of_op :: "compare_op \<Rightarrow> num_op list" where
  "num_of_op op =
     (case op of CGt \<Rightarrow> [NumGt] | CGe \<Rightarrow> [NumGe] | CLt \<Rightarrow> [NumLt] | CLe \<Rightarrow> [NumLe] | CEq \<Rightarrow> [NumGe, NumLe] | _ \<Rightarrow> [])"

lemma fcmp_int:
  assumes "\<bar>n\<bar> < 2 ^ 53"
  shows "fcmp (f64_of_i64 a) (f64_of_i64 n) = Some (int_cmp a n)"
  using fcmp_round [OF assms, of a] by (auto simp: f64_of_i64_exact [OF assms] int_cmp_def)

lemma number_compare:
  assumes n: "\<bar>n\<bar> < 2 ^ 53" and c: "compare_scalar re v op (SInteger n) = Inr True" and p: "p \<in> set (num_of_op op)"
  shows "\<exists>x. sem_num v = Some x \<and> num_holds p (fcmp x (f64_of_i64 n))"
proof -
  have "op \<noteq> CRegex" "op \<noteq> CNotRegex" using p by (auto simp: num_of_op_def)
  moreover have "v \<noteq> None" using c by (cases v) (simp_all add: compare_scalar_def)
  ultimately have "if op = CEq then values_equal v (SInteger n) else ordered op (semantic_partial_cmp v (SInteger n))"
    using c p by (auto simp: compare_scalar_def num_of_op_def split: if_splits)
  then show ?thesis using p
    by (cases v; cases "the v")
       (auto simp: sem_num_def fcmp_int [OF n] num_of_op_def num_holds_def ordered_def int_cmp_def feq_def
          split: compare_op.splits option.splits ordering.splits if_splits)
qed

lemma push_numeric_holds:
  assumes s: "scalar_attributes s" and c: "compare_value re (ss_attributes s k) op (SInteger n) = Inr True"
    and f: "f \<in> set (push_numeric_attr k op n)"
  shows "filter_holds s f"
proof -
  have n: "\<bar>n\<bar> < 2 ^ 53" using f by (auto simp: push_numeric_attr_def split: if_splits)
  have "compare_scalar re (ss_attributes s k) op (SInteger n) = Inr True"
    using c s compare_value_scalar [of "ss_attributes s k" re op "SInteger n"] by (simp add: scalar_attributes_def)
  note h = number_compare [OF n this]
  show ?thesis using f h [of NumGt] h [of NumGe] h [of NumLt] h [of NumLe] n
    by (cases op) (auto simp: push_numeric_attr_def num_of_op_def num_filter_def)
qed

lemma push_predicate_holds:
  "scalar_attributes s \<Longrightarrow> predicate_matches re s trace spans p = Inr True \<Longrightarrow> f \<in> set (push_predicate p) \<Longrightarrow>
   filter_holds s f"
  "scalar_attributes s \<Longrightarrow> predicates_match re s trace spans ps = Inr True \<Longrightarrow> p \<in> set ps \<Longrightarrow>
   f \<in> set (push_predicate p) \<Longrightarrow> filter_holds s f"
proof (induction re s trace spans p and re s trace spans ps arbitrary: f and p f
    rule: predicate_matches_predicates_match.induct)
  case (6 re span trace spans op n)
  then show ?case using duration_compare [of re "ss_duration_ns span" op n]
    by (auto split: compare_op.splits)
next
  case (10 re span trace spans sc key op v)
  show ?case
  proof (cases "sc = ScopeSpan")
    case True
    with 10 have c: "compare_value re (ss_attributes span key) op v = Inr True" by (simp add: attribute_matches_def)
    from 10(3) True consider (str) t where "op = CEq" "v = SString t" "f = FAttrEq key t"
      | (num) n where "v = SInteger n" "f \<in> set (push_numeric_attr key op n)"
      by (auto split: compare_op.splits sem_value.splits)
    then show ?thesis
    proof cases
      case str
      then show ?thesis using attr_eq_holds [OF 10(1)] c by simp
    next
      case num
      then show ?thesis using push_numeric_holds [OF 10(1)] c by blast
    qed
  next
    case False
    then show ?thesis using 10 by (auto split: attribute_scope.splits)
  qed
next
  case (12 re span trace spans q qs)
  from 12(4) have m: "predicate_matches re span trace spans q = Inr True" "predicates_match re span trace spans qs = Inr True"
    by (auto split: sum.splits bool.splits)
  then show ?case using 12 by auto
qed (auto intro: attr_eq_holds)

subsection \<open>Which expressions the filter is necessary for\<close>

text \<open>The descent of \<open>candidate_filters\<close> takes the filter of the left operand of a structural operator,
  and of the right one when the left has none. The left is not needed for a match of a negated
  operator, and the right is not when the union keeps the left operand's own matches.\<close>

fun necessary :: "spanset_expr \<Rightarrow> bool" where
  "necessary (ESelect p) = True"
| "necessary (EAnd l r) = (if candidate_filters l = [] then necessary r else necessary l)"
| "necessary (EOr l r) = True"
| "necessary (EStructural l op r u) =
     (if candidate_filters l = [] then candidate_filters r = [] \<or> (\<not> u \<and> necessary r)
      else \<not> snd (normal_op op) \<and> necessary l)"
| "necessary (ECountAtLeast e n) = necessary e"
| "necessary (ECount e op n) = necessary e"

lemma ancestor_walk_none: "ancestor_walk spans {} seen p \<noteq> Inr True"
  by (induction spans "{} :: span_id set" seen p rule: ancestor_walk.induct)
     (simp_all add: ancestor_walk.simps(2))

lemma ancestor_loop_nil: "ancestor_loop spans r [] = Inr False"
  by simp

lemma structural_match_nil: "structural_match spans [] op r c \<noteq> Inr True"
  using ancestor_walk_none by (cases op) (auto simp: structural_match_def has_ancestor_def split: option.splits)

lemma map_sum_Inr: "map_sum id f r = Inr b \<longleftrightarrow> (\<exists>a. r = Inr a \<and> b = f a)"
  by (cases r) auto

lemma structural_loop_mem:
  assumes "structural_loop spans left op negated right = Inr out" "i \<in> set out"
  shows "i \<in> set right \<and> (\<exists>c m. by_id spans i = Some c \<and> structural_match spans left op i c = Inr m \<and> m \<noteq> negated)"
  using assms
proof (induction right arbitrary: out)
  case (Cons r rs)
  show ?case
  proof (cases "by_id spans r")
    case None
    then show ?thesis using Cons by auto
  next
    case (Some c)
    then obtain m out' where "structural_match spans left op r c = Inr m"
        "structural_loop spans left op negated rs = Inr out'" "out = (if m \<noteq> negated then r # out' else out')"
      using Cons(2) by (auto split: sum.splits simp: map_sum_Inr)
    then show ?thesis using Cons Some by (auto split: if_splits)
  qed
qed simp

lemma structural_nonempty:
  assumes "structural spans left right op = Inr out" "out \<noteq> []"
  shows "right \<noteq> []" "\<not> snd (normal_op op) \<Longrightarrow> left \<noteq> []"
proof -
  obtain i where "i \<in> set out" using assms(2) by (cases out) auto
  note m = structural_loop_mem [OF assms(1) [unfolded structural_def] this]
  then show "right \<noteq> []" by auto
  show "left \<noteq> []" if "\<not> snd (normal_op op)" using m that structural_match_nil by fastforce
qed

lemma select_loop_mem:
  assumes "select_loop re spans trace p ss = Inr out" "out \<noteq> []"
  shows "\<exists>s \<in> set ss. predicate_matches re s trace spans p = Inr True"
  using assms
proof (induction ss arbitrary: out)
  case (Cons s ss)
  from Cons(2) obtain m out' where m: "predicate_matches re s trace spans p = Inr m"
      "select_loop re spans trace p ss = Inr out'" "out = (if m then ss_span_id s # out' else out')"
    by (auto simp: bind_sem_Inr)
  show ?case
  proof (cases m)
    case True
    then show ?thesis using m by auto
  next
    case False
    then show ?thesis using m Cons by auto
  qed
qed simp

lemma deeper_Inr [simp]: "deeper d limits r = Inr a \<longleftrightarrow> d < max_recursion limits \<and> r = Inr a"
  by (auto simp: deeper_def)

definition hit :: "sem_span list \<Rightarrow> span_filter list \<Rightarrow> bool" where
  "hit spans fs \<longleftrightarrow> (\<exists>s \<in> set spans. \<forall>f \<in> set fs. filter_holds s f)"

lemma eval_hit:
  assumes "\<forall>s \<in> set spans. scalar_attributes s" "eval re spans trace e d limits = Inr ids" "ids \<noteq> []"
    "necessary e" "candidate_filters e \<noteq> []"
  shows "hit spans (candidate_filters e)"
  using assms(2-)
proof (induction e arbitrary: d ids)
  case (ESelect p)
  then obtain out where "select_loop re spans trace p spans = Inr out" "out \<noteq> []"
    by (auto simp: bind_sem_Inr)
  then obtain s where "s \<in> set spans" "predicate_matches re s trace spans p = Inr True"
    using select_loop_mem by blast
  then show ?case using push_predicate_holds(1) assms(1) unfolding hit_def candidate_filters.simps by blast
next
  case (EAnd l r)
  then obtain left right where "eval re spans trace l (d + 1) limits = Inr left" "left \<noteq> []"
      "eval re spans trace r (d + 1) limits = Inr right" "right \<noteq> []"
    by (auto simp: bind_sem_Inr split: if_splits)
  then show ?case using EAnd.IH EAnd.prems(3,4) by (auto split: if_splits)
next
  case (EStructural l op r u)
  then obtain left right m where e: "eval re spans trace l (d + 1) limits = Inr left"
      "eval re spans trace r (d + 1) limits = Inr right" "structural spans left right op = Inr m"
      "ids = (if u then bunion left m else m)"
    by (auto simp: bind_sem_Inr)
  show ?case
  proof (cases "candidate_filters l = []")
    case True
    then have n: "\<not> u" "necessary r" "candidate_filters r \<noteq> []" using EStructural.prems by auto
    then have "right \<noteq> []" using structural_nonempty(1) [OF e(3)] e(4) EStructural.prems(2) by simp
    then show ?thesis using EStructural.IH(2) [OF e(2)] n True by simp
  next
    case False
    then have n: "\<not> snd (normal_op op)" "necessary l" using EStructural.prems by auto
    then have "left \<noteq> []" using structural_nonempty(2) [OF e(3)] e(4) EStructural.prems(2) by (auto split: if_splits)
    then show ?thesis using EStructural.IH(1) [OF e(1)] n False by simp
  qed
next
  case (ECountAtLeast e n)
  then show ?case by (auto simp: bind_sem_Inr split: if_splits)
next
  case (ECount e op n)
  then show ?case by (auto simp: bind_sem_Inr split: if_splits)
qed simp

subsection \<open>The storage conditions\<close>

text \<open>The attributes of a row name no key twice and hold no array.\<close>

fun is_array :: "any_value \<Rightarrow> bool" where
  "is_array (VArray vs) = True"
| "is_array _ = False"

definition plain_row :: "text_env \<Rightarrow> stored_span \<Rightarrow> bool" where
  "plain_row env s \<longleftrightarrow>
     (let attrs = from_canonical_json env (sr_attributes (st_row s))
      in distinct (map fst attrs) \<and> list_all (\<lambda>(k, v). \<not> is_array v) attrs)"

definition seen_span :: "text_env \<Rightarrow> stored_span \<Rightarrow> sem_span" where
  "seen_span env s = semantic_span env (materialize_span env (st_row s))"

lemma seen_span_simps [simp]:
  "ss_name (seen_span env s) = sr_name (st_row s)" "ss_status (seen_span env s) = sr_status_code (st_row s)"
  "ss_kind (seen_span env s) = sr_kind (st_row s)" "ss_duration_ns (seen_span env s) = sr_duration_ns (st_row s)"
  by (simp_all add: seen_span_def semantic_span_def materialize_span_def)

lemma semantic_pairs_mem: "(k, x) \<in> set (semantic_pairs attrs) \<Longrightarrow> \<exists>v. (k, v) \<in> set attrs \<and> semantic_value v = Some x"
  by (auto simp: semantic_pairs_def List.map_filter_def)

lemma seen_attribute:
  assumes p: "plain_row env s" and a: "ss_attributes (seen_span env s) k = Some x"
  shows "\<exists>v. json_get env (sr_attributes (st_row s)) k = Some v \<and> semantic_value v = Some x \<and> \<not> is_array v"
proof -
  let ?attrs = "from_canonical_json env (sr_attributes (st_row s))"
  have "map_of (rev (semantic_pairs ?attrs)) k = Some x"
    using a by (simp add: seen_span_def semantic_span_def materialize_span_def typed_attributes_new_def)
  then have "(k, x) \<in> set (semantic_pairs ?attrs)" using map_of_SomeD by fastforce
  then obtain v where v: "(k, v) \<in> set ?attrs" "semantic_value v = Some x" using semantic_pairs_mem by blast
  then have "map_of ?attrs k = Some v" "\<not> is_array v" using p by (auto simp: plain_row_def Let_def list_all_iff)
  then show ?thesis using v(2)
    by (auto simp: from_canonical_json_def json_get_def split: option.splits)
qed

lemma semantic_value_shape:
  "semantic_value v = Some (SString t) \<longleftrightarrow> v = VStr t" "semantic_value v = Some (SInteger n) \<longleftrightarrow> v = VInt n"
  "semantic_value v = Some (SFloat d) \<longleftrightarrow> v = VDouble d" "semantic_value v = Some (SArray vs) \<Longrightarrow> is_array v"
  by (cases v; simp)+

lemma plain_scalar: "plain_row env s \<Longrightarrow> scalar_attributes (seen_span env s)"
  using seen_attribute semantic_value_shape(4) unfolding scalar_attributes_def by blast

lemma attr_field_json:
  "\<not> builtin_column k \<Longrightarrow> attr_field env promoted k s = json_get_str env (sr_attributes (st_row s)) k"
  by (auto simp: attr_field_def promoted_cell_def json_get_str_def lookup_promoted_def
      split: option.splits any_value.splits)

lemma attr_num_field_json:
  assumes "\<not> builtin_column k" "json_get_str env (sr_attributes (st_row s)) k = None"
  shows "attr_num_field env promoted k s = json_get_num env (sr_attributes (st_row s)) k"
  using assms by (auto simp: attr_num_field_def promoted_cell_def json_get_str_def lookup_promoted_def
      split: option.splits any_value.splits)

fun filter_key :: "span_filter \<Rightarrow> string option" where
  "filter_key (FAttrEq k v) = Some k"
| "filter_key (FAttrNumGt k n) = Some k"
| "filter_key (FAttrNumGe k n) = Some k"
| "filter_key (FAttrNumLt k n) = Some k"
| "filter_key (FAttrNumLe k n) = Some k"
| "filter_key _ = None"

definition keys_free :: "span_filter list \<Rightarrow> bool" where
  "keys_free fs \<longleftrightarrow> list_all (\<lambda>f. case filter_key f of None \<Rightarrow> True | Some k \<Rightarrow> \<not> builtin_column k) fs"

fun cond_of :: "span_filter \<Rightarrow> span_cond" where
  "cond_of (FName n) = NameIs n"
| "cond_of (FStatus t) = StatusIs t"
| "cond_of (FKind k) = KindIs k"
| "cond_of (FDurationGe n) = DurationAtLeast n"
| "cond_of (FDurationLe n) = DurationAtMost n"
| "cond_of (FAttrEq k v) = AttrIs k v"
| "cond_of (FAttrNumGt k n) = AttrNumber k NumGt (f64_of_i64 n)"
| "cond_of (FAttrNumGe k n) = AttrNumber k NumGe (f64_of_i64 n)"
| "cond_of (FAttrNumLt k n) = AttrNumber k NumLt (f64_of_i64 n)"
| "cond_of (FAttrNumLe k n) = AttrNumber k NumLe (f64_of_i64 n)"

lemma number_cond:
  assumes p: "plain_row env s" and k: "\<not> builtin_column k" and f: "num_filter (seen_span env s) k op n"
  shows "cond_holds env promoted s (AttrNumber k op (f64_of_i64 n))"
proof -
  from f obtain x v where x: "sem_num (Some v) = Some x" "ss_attributes (seen_span env s) k = Some v"
      "num_holds op (fcmp x (f64_of_i64 n))"
    by (auto simp: num_filter_def sem_num_def split: option.splits)
  from seen_attribute [OF p x(2)] obtain a where
    a: "json_get env (sr_attributes (st_row s)) k = Some a" "semantic_value a = Some v" by blast
  have "json_get_num env (sr_attributes (st_row s)) k = Some x \<and> json_get_str env (sr_attributes (st_row s)) k = None"
    using x(1) a by (cases v) (auto simp: sem_num_def json_get_num_def json_get_str_def semantic_value_shape)
  then show ?thesis using attr_num_field_json [OF k] x(3) by (simp add: cond_holds_def)
qed

lemma filter_cond:
  assumes p: "plain_row env s" and f: "filter_holds (seen_span env s) f"
    and k: "case filter_key f of None \<Rightarrow> True | Some k \<Rightarrow> \<not> builtin_column k"
  shows "cond_holds env promoted s (cond_of f)"
proof (cases f)
  case (FAttrEq key v)
  then show ?thesis using seen_attribute [OF p, of key "SString v"] f k attr_field_json [of key]
    by (auto simp: cond_holds_def json_get_str_def semantic_value_shape)
qed (use f k number_cond [OF p] in \<open>simp_all add: cond_holds_def\<close>)

text \<open>The conditions of the built query are the conditions of the filters.\<close>

lemma add_filter_conds: "set (span_conditions (add_filter f q)) \<subseteq> insert (cond_of f) (set (span_conditions q))"
  by (cases f; simp add: add_filter_def span_conditions_def attr_num_def del: Un_iff; blast)

lemma fold_filter_conds:
  "set (span_conditions (fold add_filter fs q)) \<subseteq> cond_of ` set fs \<union> set (span_conditions q)"
proof (induction fs arbitrary: q)
  case (Cons f fs)
  then show ?case using add_filter_conds [of f q] by fastforce
qed simp

lemma add_filter_frame:
  "tq_limit (add_filter f q) = tq_limit q"
  "tq_trace_start_range (add_filter f q) = tq_trace_start_range q"
  "tq_trace_start_end_inclusive (add_filter f q) = tq_trace_start_end_inclusive q"
  by (cases f; simp add: add_filter_def attr_num_def)+

lemma fold_filter_frame:
  "tq_limit (fold add_filter fs q) = tq_limit q"
  "tq_trace_start_range (fold add_filter fs q) = tq_trace_start_range q"
  "tq_trace_start_end_inclusive (fold add_filter fs q) = tq_trace_start_end_inclusive q"
  by (induction fs arbitrary: q) (simp_all add: add_filter_frame)

lemma build_query_conds: "set (span_conditions (build_trace_query req)) \<subseteq> cond_of ` set (fr_candidate req)"
proof -
  let ?q = "(trace_start_range_inclusive (fb_start_ns (fr_bounds req)) (fb_end_ns (fr_bounds req)) trace_query_default)
    \<lparr>tq_limit := sat_usize (fr_max_traces req + 1)\<rparr>"
  have "span_conditions ?q = []"
    by (simp add: span_conditions_def trace_query_default_def trace_start_range_inclusive_def List.map_filter_simps)
  then show ?thesis using fold_filter_conds [of "fr_candidate req" ?q] by (simp add: build_trace_query_def)
qed

lemma build_query_simps:
  "tq_limit (build_trace_query req) = sat_usize (fr_max_traces req + 1)"
  "tq_trace_start_range (build_trace_query req) = Some (time_range_between (fb_start_ns (fr_bounds req)) (fb_end_ns (fr_bounds req)))"
  "tq_trace_start_end_inclusive (build_trace_query req)"
  by (simp_all add: build_trace_query_def fold_filter_frame trace_start_range_inclusive_def)

lemma filters_conds:
  assumes "plain_row env s" "keys_free (fr_candidate req)" "\<forall>f \<in> set (fr_candidate req). filter_holds (seen_span env s) f"
  shows "list_all (cond_holds env promoted s) (span_conditions (build_trace_query req))"
  using build_query_conds [of req] filter_cond [OF assms(1)] assms(2,3)
  unfolding keys_free_def list_all_iff by blast

end
