(* ===== verification/Traceql_Stream.thy ===== *)
theory Traceql_Stream
  imports Traceql_Execute
begin

text \<open>
  The streaming evaluator over any source. The locale states what \<open>execute_traceql\<close> relies on: the
  candidates of a request are stored traces that start in its window, and traces fetched by identifier
  are the stored ones, whole and in the order asked for. Inside it, a finished execution is the
  reference evaluation of each candidate. The traces interface provides it, for every stored table.
\<close>

lemma chunks_concat: "0 < n \<Longrightarrow> concat (chunks n xs) = xs"
  by (induction n xs rule: chunks.induct) (simp add: chunks.simps)

lemma map_filter_app: "List.map_filter f (xs @ ys) = List.map_filter f xs @ List.map_filter f ys"
  by (simp add: List.map_filter_def)

lemma map_filter_Cons: "List.map_filter f (x # xs) = (case f x of None \<Rightarrow> List.map_filter f xs | Some y \<Rightarrow> y # List.map_filter f xs)"
  by (cases "f x") (simp_all add: List.map_filter_simps)

lemma map_filter_Nil: "List.map_filter f [] = []"
  by (simp add: List.map_filter_def)

lemma map_filter_eq: "(\<And>x. x \<in> set xs \<Longrightarrow> f x = g x) \<Longrightarrow> List.map_filter f xs = List.map_filter g xs"
  by (induction xs) (auto simp: map_filter_Cons map_filter_Nil split: option.splits)

definition match_of :: "regex \<Rightarrow> spanset_expr \<Rightarrow> eval_limits \<Rightarrow> sem_trace \<Rightarrow> trace_match option" where
  "match_of re expr limits t =
     (case eval_trace_reference re t expr limits of
        Inr (Some spanset) \<Rightarrow>
          Some \<lparr>tm_trace_id = hex_lower (tr_trace_id t), tm_start_time_ns = tr_start_time_ns t, tm_spanset = spanset\<rparr>
      | _ \<Rightarrow> None)"

lemma match_packs_result:
  "match_packs re expr limits req ts n result = Inr (n', result') \<Longrightarrow>
   result' = result @ List.map_filter (match_of re expr limits) ts \<and>
   (\<forall>t \<in> set ts. \<exists>m. eval_trace_reference re t expr limits = Inr m)"
proof (induction ts arbitrary: n result)
  case (Cons t ts)
  from Cons(2) obtain k m where m: "eval_trace_reference re t expr limits = Inr m"
      "match_packs re expr limits req ts k
         (case m of None \<Rightarrow> result
          | Some spanset \<Rightarrow> result @ [\<lparr>tm_trace_id = hex_lower (tr_trace_id t), tm_start_time_ns = tr_start_time_ns t,
                             tm_spanset = spanset\<rparr>]) = Inr (n', result')"
    by (cases "checked_add_usize n (length (tr_spans t))") (auto simp: bind_sem_Inr split: if_splits)
  show ?case using Cons.IH [OF m(2)] m(1)
    by (cases m) (simp_all add: match_of_def map_filter_Cons)
qed (simp add: map_filter_Nil)

locale whole_traces =
  fixes src :: trace_source and stored :: "bytes \<Rightarrow> sem_trace option"
  assumes candidates_stored:
    "so_candidates src req = Inr cands \<Longrightarrow> i \<in> set cands \<Longrightarrow>
     length i = 16 \<and> (\<exists>t. stored i = Some t \<and>
       (i64_ok (tr_start_time_ns t) \<longrightarrow> fb_contains (fr_bounds req) (tr_start_time_ns t)))"
  and traces_whole:
    "so_traces src ids not_before = Inr packs \<Longrightarrow> distinct ids \<Longrightarrow>
     \<forall>i \<in> set ids. length i = 16 \<and> (\<exists>t. stored i = Some t \<and> not_before \<le> tr_start_time_ns t) \<Longrightarrow>
     packs = map (\<lambda>i. the (stored i)) ids"
begin

lemma match_chunks_result:
  "match_chunks src re expr limits req cs n result = Inr out \<Longrightarrow> distinct (concat cs) \<Longrightarrow>
   \<forall>i \<in> set (concat cs). length i = 16 \<and> (\<exists>t. stored i = Some t \<and> fb_start_ns (fr_bounds req) \<le> tr_start_time_ns t) \<Longrightarrow>
   out = result @ List.map_filter (match_of re expr limits) (map (\<lambda>i. the (stored i)) (concat cs)) \<and>
   (\<forall>i \<in> set (concat cs). \<exists>m. eval_trace_reference re (the (stored i)) expr limits = Inr m)"
proof (induction cs arbitrary: n result)
  case (Cons c cs)
  from Cons(2) obtain packs n' result' where p: "so_traces src c (fb_start_ns (fr_bounds req)) = Inr packs"
      "match_packs re expr limits req packs n result = Inr (n', result')"
      "match_chunks src re expr limits req cs n' result' = Inr out"
    by (auto simp: bind_sem_Inr)
  have packs: "packs = map (\<lambda>i. the (stored i)) c" using traces_whole [OF p(1)] Cons(3,4) by simp
  have "out = result' @ List.map_filter (match_of re expr limits) (map (\<lambda>i. the (stored i)) (concat cs)) \<and>
      (\<forall>i \<in> set (concat cs). \<exists>m. eval_trace_reference re (the (stored i)) expr limits = Inr m)"
    using Cons.IH [OF p(3)] Cons(3,4) by simp
  then show ?case using match_packs_result [OF p(2)] packs by (auto simp: map_filter_app)
qed (simp add: map_filter_Nil)

lemma execute_result:
  assumes ok: "execute_traceql src re expr bounds limits = Inr out"
    and starts: "\<And>i t. stored i = Some t \<Longrightarrow> i64_ok (tr_start_time_ns t)"
  obtains req cands where "plan_trace_fetch bounds limits expr = Inr req" "so_candidates src req = Inr cands"
    "length cands \<le> max_traces limits"
    "\<And>i. i \<in> set cands \<Longrightarrow> \<exists>t. stored i = Some t \<and> fb_contains bounds (tr_start_time_ns t)"
    "out = List.map_filter (match_of re expr limits) (map (\<lambda>i. the (stored i)) cands)"
    "\<And>i. i \<in> set cands \<Longrightarrow> \<exists>m. eval_trace_reference re (the (stored i)) expr limits = Inr m"
proof -
  from ok obtain req cands where r: "plan_trace_fetch bounds limits expr = Inr req" "so_candidates src req = Inr cands"
      "length cands \<le> fr_max_traces req" "distinct cands"
      "match_chunks src re expr limits req (chunks TRACE_FETCH_CHUNK cands) 0 [] = Inr out"
    by (auto simp: execute_traceql_def bind_sem_Inr split: if_splits)
  have b: "fr_bounds req = bounds" "fr_max_traces req = max_traces limits"
    using r(1) by (auto simp: plan_trace_fetch_def bind_sem_Inr fetch_bounds_new_def split: if_splits)
  have c: "length i = 16 \<and> (\<exists>t. stored i = Some t \<and> fb_contains bounds (tr_start_time_ns t))" if "i \<in> set cands" for i
    using candidates_stored [OF r(2) that] starts b(1) by blast
  have cc: "concat (chunks TRACE_FETCH_CHUNK cands) = cands" by (rule chunks_concat) (simp add: TRACE_FETCH_CHUNK_def)
  have "\<forall>i \<in> set cands. length i = 16 \<and> (\<exists>t. stored i = Some t \<and> fb_start_ns (fr_bounds req) \<le> tr_start_time_ns t)"
    using c b(1) by (auto simp: fb_contains_def)
  note m = match_chunks_result [OF r(5), unfolded cc, OF r(4) this]
  show thesis using that [OF r(1,2)] r(3) b(2) c m by auto
qed

end

end
