(* ===== verification/Traceql_Complete.thy ===== *)
theory Traceql_Complete
  imports Traceql_Pushdown Traceql_Stream
begin

text \<open>
  The traces interface as a source: what the two-phase search returns, that traces fetched in chunks
  are the stored ones, and that the candidates of a pushed-down filter miss no match.
\<close>

subsection \<open>Identifiers and starts\<close>

lemma hex_lower_inject: "hex_lower a = hex_lower b \<longleftrightarrow> a = b"
  by (metis hex_pairs_lower option.inject)

lemma from_hex_lower: "trace_id_from_hex (hex_lower b) = (if length b = 16 then Some b else None)"
  using hex_decode_lower [of b] by (auto simp: trace_id_from_hex_def hex_decode_def length_hex_lower)

definition rows_of :: "stored_span list \<Rightarrow> bytes \<Rightarrow> stored_span list" where
  "rows_of db i = filter (\<lambda>s. sr_trace_id (st_row s) = i) db"

lemma assemble_start:
  "spans \<noteq> [] \<Longrightarrow> tc_start_time (assemble_trace i spans) = Min (sp_start_time ` set spans)"
  by (simp add: assemble_trace_def Let_def)

lemma sp_start_materialize [simp]: "sp_start_time (materialize_span env (st_row s)) = start_of s"
  by (simp add: materialize_span_def start_of_def)

lemma sort_key_Nil [simp]: "sort_key f xs = [] \<longleftrightarrow> xs = []"
  by (metis set_empty set_sort)

lemma insort_key_map: "insort_key f (g x) (map g xs) = map g (insort_key (\<lambda>y. f (g y)) x xs)"
  by (induction xs) auto

lemma sort_key_map: "sort_key f (map g xs) = map g (sort_key (\<lambda>x. f (g x)) xs)"
  by (induction xs) (simp_all add: insort_key_map)

lemma get_trace_Some:
  "get_trace env db i = Some t \<longleftrightarrow>
   rows_of db i \<noteq> [] \<and>
   t = assemble_trace i (map (\<lambda>s. materialize_span env (st_row s)) (sort_key start_of (rows_of db i)))"
  by (auto simp: get_trace_def rows_of_def Let_def)

lemma get_trace_start:
  "get_trace env db i = Some t \<Longrightarrow> tc_start_time t = Min (start_of ` set (rows_of db i))"
  by (auto simp: get_trace_Some assemble_start image_image)

subsection \<open>Fetching\<close>

lemma sp_trace_id_materialize: "length (sr_trace_id (st_row s)) = 16 \<Longrightarrow> sp_trace_id (materialize_span env (st_row s)) = sr_trace_id (st_row s)"
  by (simp add: materialize_span_def id_or_zero_def id_from_bytes_def)

lemma spans_at:
  assumes "\<forall>j \<in> set ids. length j = 16" "i \<in> set ids"
  shows "filter (\<lambda>x. sp_trace_id x = i) (spans_of_traces env ids nb db) =
    map (\<lambda>s. materialize_span env (st_row s))
      (filter (\<lambda>s. case nb of None \<Rightarrow> True | Some t \<Rightarrow> start_of s \<ge> t) (rows_of db i))"
  unfolding spans_of_traces_def rows_of_def filter_map filter_filter o_def
  by (intro arg_cong [where f = "map _"] filter_cong refl) (use assms sp_trace_id_materialize in auto)

lemma get_many_whole:
  assumes l: "\<forall>j \<in> set ids. length j = 16" and i: "i \<in> set ids" and t: "get_trace env db i = Some t"
    and nb: "nb \<le> tc_start_time t"
  shows "get_many env db ids (Some nb) i = Some t"
proof -
  have r: "rows_of db i \<noteq> []" using t by (simp add: get_trace_Some)
  have "filter (\<lambda>s. nb \<le> start_of s) (rows_of db i) = rows_of db i"
    unfolding filter_id_conv
    using nb get_trace_start [OF t] by (metis Min_le finite_imageI finite_set imageI order_trans)
  then have f: "filter (\<lambda>x. sp_trace_id x = i) (spans_of_traces env ids (Some nb) db) =
      map (\<lambda>s. materialize_span env (st_row s)) (rows_of db i)"
    using spans_at [OF l i, of env "Some nb" db] by simp
  then have "group_by sp_trace_id (spans_of_traces env ids (Some nb) db) i =
      Some (map (\<lambda>s. materialize_span env (st_row s)) (rows_of db i))"
    using r by (auto simp: group_by_def split: list.splits)
  then show ?thesis using i t by (auto simp: get_many_def get_trace_Some sort_key_map)
qed

lemma take_traces:
  "distinct ids \<Longrightarrow> \<forall>i \<in> set ids. m i = Some (f i) \<Longrightarrow>
   fst (fold (\<lambda>i (out, found). case found i of None \<Rightarrow> (out, found) | Some t \<Rightarrow> (out @ [g t], found(i := None))) ids (out, m)) =
   out @ map (\<lambda>i. g (f i)) ids"
proof (induction ids arbitrary: out m)
  case (Cons i ids)
  then have "\<forall>j \<in> set ids. (m(i := None)) j = Some (f j)" by auto
  then show ?case using Cons.IH [of "m(i := None)" "out @ [g (f i)]"] Cons.prems by (simp del: fun_upd_apply)
qed simp

definition stored_trace :: "text_env \<Rightarrow> stored_span list \<Rightarrow> bytes \<Rightarrow> sem_trace option" where
  "stored_trace env db i = map_option (semantic_trace env) (get_trace env db i)"

lemma api_traces_whole:
  assumes "distinct ids"
    "\<forall>i \<in> set ids. length i = 16 \<and> (\<exists>t. stored_trace env db i = Some t \<and> nb \<le> tr_start_time_ns t)"
  shows "api_traces env db ids nb = map (\<lambda>i. the (stored_trace env db i)) ids"
proof -
  have g: "\<exists>t. get_trace env db i = Some t \<and> get_many env db ids (Some nb) i = Some t" if i: "i \<in> set ids" for i
  proof -
    obtain t where "get_trace env db i = Some t" "nb \<le> tc_start_time t"
      using assms(2) i by (auto simp: stored_trace_def semantic_trace_def)
    then show ?thesis using get_many_whole [of ids i] assms(2) i by blast
  qed
  then have "\<forall>i \<in> set ids. get_many env db ids (Some nb) i = Some (the (get_trace env db i))" by force
  then have "api_traces env db ids nb = map (\<lambda>i. semantic_trace env (the (get_trace env db i))) ids"
    unfolding api_traces_def by (subst take_traces [OF assms(1)]) auto
  also have "\<dots> = map (\<lambda>i. the (stored_trace env db i)) ids"
    by (rule map_cong [OF refl]) (use g in \<open>force simp: stored_trace_def\<close>)
  finally show ?thesis .
qed

subsection \<open>Searching\<close>

definition summary_in :: "trace_query \<Rightarrow> (string \<rightharpoonup> span list) \<Rightarrow> string \<Rightarrow> trace_summary option" where
  "summary_in q m tid =
     (case m tid of
        Some (first # rest) \<Rightarrow>
          (let t = assemble_trace (sp_trace_id first) (first # rest)
           in if trace_start_prefilter q \<noteq> [] \<and> \<not> trace_start_matches q (tc_start_time t) then None
              else Some (summary_of t))
      | _ \<Rightarrow> None)"

lemma summary_in_upd: "tid \<noteq> tid' \<Longrightarrow> summary_in q (m(tid' := v)) tid = summary_in q m tid"
  by (simp add: summary_in_def)

lemma summaries_step:
  "summaries q m (tid # tids) out =
     (if length out = tq_limit q then out
      else summaries q (m(tid := None)) tids (case summary_in q m tid of None \<Rightarrow> out | Some s \<Rightarrow> out @ [s]))"
proof (cases "m tid")
  case None
  then show ?thesis by (simp add: summary_in_def fun_upd_idem)
next
  case (Some ss)
  then show ?thesis by (cases ss) (simp_all add: summary_in_def Let_def)
qed

lemma summaries_longer: "length out \<le> length (summaries q m tids out)"
proof (induction tids arbitrary: m out)
  case (Cons tid tids)
  show ?case unfolding summaries_step
    using Cons.IH [of out "m(tid := None)"] Cons.IH [of _ "m(tid := None)"]
    by (auto split: option.split intro: order_trans [OF _ Cons.IH])
qed simp

lemma summaries_all:
  "distinct tids \<Longrightarrow> length (summaries q m tids out) < tq_limit q \<Longrightarrow>
   summaries q m tids out = out @ List.map_filter (summary_in q m) tids"
proof (induction tids arbitrary: m out)
  case (Cons tid tids)
  let ?out = "case summary_in q m tid of None \<Rightarrow> out | Some s \<Rightarrow> out @ [s]"
  have ne: "length out \<noteq> tq_limit q" using summaries_longer [of out q m "tid # tids"] Cons(3) by linarith
  then have st: "summaries q m (tid # tids) out = summaries q (m(tid := None)) tids ?out" by (simp only: summaries_step if_False)
  have "List.map_filter (summary_in q (m(tid := None))) tids = List.map_filter (summary_in q m) tids"
    by (rule map_filter_eq, rule summary_in_upd) (use Cons(2) in auto)
  moreover have "summaries q (m(tid := None)) tids ?out = ?out @ List.map_filter (summary_in q (m(tid := None))) tids"
    by (rule Cons.IH) (use Cons(2,3) st in \<open>simp_all del: fun_upd_apply summaries.simps\<close>)
  ultimately show ?case unfolding st by (simp add: map_filter_Cons del: fun_upd_apply split: option.split)
qed (simp add: map_filter_Nil)

lemma summaries_set:
  "x \<in> set (summaries q m tids out) \<Longrightarrow> x \<in> set out \<or> (\<exists>tid \<in> set tids. summary_in q m tid = Some x)"
proof (induction tids arbitrary: m out)
  case (Cons tid tids)
  let ?out = "case summary_in q m tid of None \<Rightarrow> out | Some s \<Rightarrow> out @ [s]"
  show ?case
  proof (cases "length out = tq_limit q")
    case False
    then have "x \<in> set (summaries q (m(tid := None)) tids ?out)" using Cons(2) by (simp only: summaries_step if_False)
    from Cons.IH [OF this] consider "x \<in> set ?out" | tid' where "tid' \<in> set tids" "summary_in q (m(tid := None)) tid' = Some x"
      by blast
    then show ?thesis
    proof cases
      case 1
      then show ?thesis by (auto split: option.splits)
    next
      case 2
      then have "tid' \<noteq> tid" by (auto simp: summary_in_def)
      then show ?thesis using 2 summary_in_upd by auto
    qed
  qed (use Cons(2) in simp)
qed simp

text \<open>\<open>ORDER BY latest DESC LIMIT n\<close>, with any order of equal keys.\<close>

definition rank_laws :: "ranking \<Rightarrow> bool" where
  "rank_laws rank \<longleftrightarrow>
     (\<forall>gs n. \<exists>hs. mset hs = mset gs \<and> sorted_wrt (\<lambda>a b. snd a \<ge> snd b) hs \<and> rank gs n = map fst (take n hs))"

definition rank_stable :: ranking where
  "rank_stable gs n = map fst (take n (sort_key (\<lambda>g. - snd g) gs))"

lemma rank_stable_laws: "rank_laws rank_stable"
  unfolding rank_laws_def rank_stable_def
proof (intro allI exI conjI)
  fix gs :: "(string \<times> int) list"
  have "sorted (map (\<lambda>g. - snd g) (sort_key (\<lambda>g. - snd g) gs))" by simp
  then show "sorted_wrt (\<lambda>a b. snd a \<ge> snd b) (sort_key (\<lambda>g. - snd g) gs)"
    by (simp add: sorted_map)
qed simp_all

lemma rank_all:
  assumes "rank_laws rank" "length gs \<le> n" "distinct (map fst gs)"
  shows "set (rank gs n) = fst ` set gs" "distinct (rank gs n)"
proof -
  obtain hs where h: "mset hs = mset gs" "rank gs n = map fst (take n hs)" using assms(1) by (auto simp: rank_laws_def)
  then have "take n hs = hs" using assms(2) mset_eq_length [OF h(1)] by simp
  then show "set (rank gs n) = fst ` set gs" using h mset_eq_setD [OF h(1)] by simp
  have "mset (map fst hs) = mset (map fst gs)" using h(1) by (simp add: mset_map)
  then show "distinct (rank gs n)" using h(2) \<open>take n hs = hs\<close> assms(3) by (metis mset_eq_imp_distinct_iff)
qed

lemma spans_group:
  assumes l: "\<forall>j \<in> set ids. length j = 16"
  shows "group_by (\<lambda>s. hex_lower (sp_trace_id s)) (spans_of_traces env ids None db) tid = Some (x # xs) \<longleftrightarrow>
    (\<exists>i \<in> set ids. tid = hex_lower i \<and> x # xs = map (\<lambda>s. materialize_span env (st_row s)) (rows_of db i))"
proof -
  let ?sp = "spans_of_traces env ids None db"
  let ?m = "map (\<lambda>s. materialize_span env (st_row s))"
  have at: "filter (\<lambda>s. hex_lower (sp_trace_id s) = hex_lower i) ?sp = ?m (rows_of db i)" if "i \<in> set ids" for i
    using spans_at [OF l that, of env None db] by (simp add: hex_lower_inject)
  have "\<exists>i \<in> set ids. tid = hex_lower i" if "filter (\<lambda>s. hex_lower (sp_trace_id s) = tid) ?sp \<noteq> []"
  proof -
    obtain s where "s \<in> set (filter (\<lambda>s. hex_lower (sp_trace_id s) = tid) ?sp)" using \<open>filter _ _ \<noteq> []\<close> by (meson hd_in_set)
    then show ?thesis using l sp_trace_id_materialize by (fastforce simp: spans_of_traces_def)
  qed
  then show ?thesis using at by (fastforce simp: group_by_def split: list.splits)
qed

lemma summary_in_iff:
  assumes l: "\<forall>j \<in> set ids. length j = 16"
  shows "summary_in q (group_by (\<lambda>s. hex_lower (sp_trace_id s)) (spans_of_traces env ids None db)) tid = Some x \<longleftrightarrow>
    (\<exists>i \<in> set ids. tid = hex_lower i \<and> rows_of db i \<noteq> [] \<and>
       x = summary_of (assemble_trace i (map (\<lambda>s. materialize_span env (st_row s)) (rows_of db i))) \<and>
       (trace_start_prefilter q = [] \<or> trace_start_matches q (Min (start_of ` set (rows_of db i)))))"
    (is "summary_in q ?g tid = _ \<longleftrightarrow> ?r")
proof -
  have sum: "summary_in q ?g tid = Some x \<longleftrightarrow>
      (\<exists>y ys. ?g tid = Some (y # ys) \<and> x = summary_of (assemble_trace (sp_trace_id y) (y # ys)) \<and>
        (trace_start_prefilter q = [] \<or> trace_start_matches q (tc_start_time (assemble_trace (sp_trace_id y) (y # ys)))))"
    by (auto simp: summary_in_def Let_def split: option.splits list.splits)
  have id: "sp_trace_id y = i" "tc_start_time (assemble_trace i (y # ys)) = Min (start_of ` set (rows_of db i))"
    if i: "i \<in> set ids" and ys: "y # ys = map (\<lambda>s. materialize_span env (st_row s)) (rows_of db i)" for i y ys
  proof -
    obtain s where "s \<in> set (rows_of db i)" "y = materialize_span env (st_row s)" using ys by (cases "rows_of db i") auto
    then show "sp_trace_id y = i" using sp_trace_id_materialize [of s env] l i by (auto simp: rows_of_def)
    have "rows_of db i \<noteq> []" using ys by (metis list.distinct(1) list.map_disc_iff)
    then show "tc_start_time (assemble_trace i (y # ys)) = Min (start_of ` set (rows_of db i))"
      unfolding ys by (simp add: assemble_start image_image)
  qed
  show ?thesis
  proof
    assume "summary_in q ?g tid = Some x"
    then obtain y ys where y: "?g tid = Some (y # ys)" "x = summary_of (assemble_trace (sp_trace_id y) (y # ys))"
        "trace_start_prefilter q = [] \<or> trace_start_matches q (tc_start_time (assemble_trace (sp_trace_id y) (y # ys)))"
      using sum by blast
    from spans_group [OF l, THEN iffD1, OF y(1)] obtain i where
      i: "i \<in> set ids" "tid = hex_lower i" "y # ys = map (\<lambda>s. materialize_span env (st_row s)) (rows_of db i)"
      by (elim bexE conjE)
    have "rows_of db i \<noteq> []" using i(3) by (metis list.distinct(1) list.map_disc_iff)
    moreover have "x = summary_of (assemble_trace i (map (\<lambda>s. materialize_span env (st_row s)) (rows_of db i)))"
      using y(2) id(1) [OF i(1,3)] i(3) by simp
    moreover have "trace_start_prefilter q = [] \<or> trace_start_matches q (Min (start_of ` set (rows_of db i)))"
      using y(3) id [OF i(1,3)] by simp
    ultimately show ?r using i(1,2) by blast
  next
    assume ?r
    then obtain i where i: "i \<in> set ids" "tid = hex_lower i" "rows_of db i \<noteq> []"
        "x = summary_of (assemble_trace i (map (\<lambda>s. materialize_span env (st_row s)) (rows_of db i)))"
        "trace_start_prefilter q = [] \<or> trace_start_matches q (Min (start_of ` set (rows_of db i)))" by blast
    obtain y ys where y: "y # ys = map (\<lambda>s. materialize_span env (st_row s)) (rows_of db i)"
      using i(3) by (cases "rows_of db i") simp_all
    have "?g tid = Some (y # ys)"
      by (rule spans_group [OF l, THEN iffD2], rule bexI [OF _ i(1)]) (intro conjI i(2) y)
    moreover have "x = summary_of (assemble_trace (sp_trace_id y) (y # ys))"
      using i(4) id(1) [OF i(1) y] y by simp
    moreover have "trace_start_prefilter q = [] \<or> trace_start_matches q (tc_start_time (assemble_trace (sp_trace_id y) (y # ys)))"
      using i(5) id [OF i(1) y] by simp
    ultimately show "summary_in q ?g tid = Some x" using sum by blast
  qed
qed

subsection \<open>Candidates\<close>

definition api_ids :: "text_env \<Rightarrow> ranking \<Rightarrow> string list \<Rightarrow> stored_span list \<Rightarrow> trace_query \<Rightarrow> string list" where
  "api_ids env rank promoted db q = rank (groups q (kept_rows env promoted q db)) (fetch_limit q)"

lemma from_hex_length: "trace_id_from_hex s = Some b \<Longrightarrow> length b = 16"
  using hex_pairs_length [of s b] by (auto simp: trace_id_from_hex_def hex_decode_def split: if_splits)

lemma set_map_filter: "y \<in> set (List.map_filter f xs) \<longleftrightarrow> (\<exists>x \<in> set xs. f x = Some y)"
  by (force simp: List.map_filter_def)

lemma from_hex_ids: "\<forall>j \<in> set (List.map_filter trace_id_from_hex tids). length j = 16"
  using from_hex_length by (auto simp: set_map_filter)

lemma search_eq:
  "search env rank promoted db q =
     (let tids = api_ids env rank promoted db q; ids = List.map_filter trace_id_from_hex tids
      in if tids = [] \<or> ids = [] then []
         else summaries q (group_by (\<lambda>s. hex_lower (sp_trace_id s)) (spans_of_traces env ids None db)) tids [])"
  by (simp add: search_def api_ids_def)

definition window_start :: "fetch_request \<Rightarrow> int \<Rightarrow> bool" where
  "window_start req t \<longleftrightarrow>
     (let q = build_trace_query req in trace_start_prefilter q = [] \<or> trace_start_matches q t)"

lemma window_start_bounds: "i64_ok t \<Longrightarrow> window_start req t \<Longrightarrow> fb_contains (fr_bounds req) t"
  by (auto simp: window_start_def trace_start_prefilter_def trace_start_matches_def build_query_simps
      time_range_between_def fb_contains_def i64_ok_def Let_def split: if_splits)

lemma bounds_window_start: "fb_contains (fr_bounds req) t \<Longrightarrow> window_start req t"
  by (auto simp: window_start_def trace_start_matches_def build_query_simps time_range_between_def fb_contains_def Let_def)

lemma summary_of_id [simp]: "ts_trace_id (summary_of (assemble_trace i spans)) = i"
  by (simp add: summary_of_def assemble_trace_def Let_def)

lemma api_candidates_mem:
  assumes "i \<in> set (api_candidates env rank promoted db req)"
  shows "length i = 16 \<and> rows_of db i \<noteq> [] \<and> window_start req (Min (start_of ` set (rows_of db i)))"
proof -
  let ?q = "build_trace_query req"
  let ?tids = "api_ids env rank promoted db ?q"
  let ?ids = "List.map_filter trace_id_from_hex ?tids"
  let ?g = "group_by (\<lambda>s. hex_lower (sp_trace_id s)) (spans_of_traces env ?ids None db)"
  obtain x where x: "x \<in> set (search env rank promoted db ?q)" "i = ts_trace_id x"
    using assms by (auto simp: api_candidates_def)
  from x(1) have "x \<in> set (summaries ?q ?g ?tids [])" by (auto simp: search_eq Let_def split: if_splits)
  from summaries_set [OF this] obtain tid where "summary_in ?q ?g tid = Some x" by auto
  then show ?thesis unfolding summary_in_iff [OF from_hex_ids] using x(2) from_hex_ids
    by (auto simp: window_start_def Let_def)
qed

lemma stored_trace_start:
  "stored_trace env db i = Some t \<Longrightarrow> tr_start_time_ns t = Min (start_of ` set (rows_of db i))"
  using get_trace_start by (fastforce simp: stored_trace_def semantic_trace_def)

lemma stored_traceI: "rows_of db i \<noteq> [] \<Longrightarrow> \<exists>t. stored_trace env db i = Some t"
  by (simp add: stored_trace_def get_trace_Some)

interpretation ta: whole_traces "traces_api env rank promoted db" "stored_trace env db"
  for env rank promoted db
proof (unfold_locales, goal_cases)
  case (1 req cands i)
  then have m: "length i = 16" "rows_of db i \<noteq> []" "window_start req (Min (start_of ` set (rows_of db i)))"
    using api_candidates_mem [of i env rank promoted db req] by (auto simp: traces_api_def)
  from stored_traceI [OF m(2)] obtain t where "stored_trace env db i = Some t" by blast
  then show ?case using m window_start_bounds stored_trace_start by metis
next
  case (2 ids nb packs)
  then show ?case using api_traces_whole [of ids env db nb] by (simp add: traces_api_def)
qed

subsection \<open>No match is missed\<close>

text \<open>What is asked of the stored rows: identifiers of the width of the column, times in 64 bits, and
  attributes the storage reads as the evaluator does.\<close>

definition db_ok :: "text_env \<Rightarrow> stored_span list \<Rightarrow> bool" where
  "db_ok env db \<longleftrightarrow>
     list_all (\<lambda>s. length (sr_trace_id (st_row s)) = 16 \<and> i64_ok (start_of s) \<and> plain_row env s) db"

definition window_traces :: "fetch_bounds \<Rightarrow> stored_span list \<Rightarrow> bytes list" where
  "window_traces b db = remdups (map (\<lambda>s. sr_trace_id (st_row s)) (filter (\<lambda>s. fb_contains b (start_of s)) db))"

lemma map_fst_map_filter:
  "(\<And>x y. f x = Some y \<Longrightarrow> fst y = x) \<Longrightarrow> map fst (List.map_filter f xs) = filter (\<lambda>x. f x \<noteq> None) xs"
  by (induction xs) (auto simp: map_filter_Cons map_filter_Nil split: option.splits)

lemma groups_fst:
  "fst ` set (groups q rows) =
   {tid \<in> tid_of ` set rows. trace_start_having q (Min (start_of ` {s \<in> set rows. tid_of s = tid}))}"
proof -
  have "fst ` set (groups q rows) = set (map fst (groups q rows))" by simp
  also have "\<dots> = {tid \<in> tid_of ` set rows. trace_start_having q (Min (start_of ` {s \<in> set rows. tid_of s = tid}))}"
    unfolding groups_def by (subst map_fst_map_filter) (auto simp: Let_def split: if_splits)
  finally show ?thesis .
qed

lemma groups_distinct: "distinct (map fst (groups q rows))"
  unfolding groups_def by (subst map_fst_map_filter) (auto simp: Let_def split: if_splits)

lemma prefilter_holds:
  "i64_ok (start_of s) \<Longrightarrow>
   list_all (cond_holds env promoted s) (trace_start_prefilter (build_trace_query req)) \<longleftrightarrow> fb_contains (fr_bounds req) (start_of s)"
  by (auto simp: trace_start_prefilter_def build_query_simps time_range_between_def fb_contains_def cond_holds_def
      start_of_def i64_ok_def)

lemma kept_rows_mem:
  "s \<in> set (kept_rows env promoted q db) \<longleftrightarrow>
   s \<in> set db \<and> list_all (cond_holds env promoted s) (trace_start_prefilter q) \<and>
   (span_conditions q = [] \<or>
     (\<exists>h \<in> set db. tid_of h = tid_of s \<and> list_all (cond_holds env promoted h) (span_conditions q)))"
  by (auto simp: kept_rows_def Let_def image_iff)

lemma groups_few:
  assumes db: "db_ok env db"
  shows "length (groups (build_trace_query req) (kept_rows env promoted (build_trace_query req) db))
    \<le> length (window_traces (fr_bounds req) db)"
proof -
  let ?q = "build_trace_query req"
  let ?k = "kept_rows env promoted ?q db"
  have "set ?k \<subseteq> {s \<in> set db. fb_contains (fr_bounds req) (start_of s)}"
    using db prefilter_holds by (auto simp: kept_rows_mem db_ok_def list_all_iff)
  then have "fst ` set (groups ?q ?k) \<subseteq> hex_lower ` set (window_traces (fr_bounds req) db)"
    unfolding groups_fst by (auto simp: window_traces_def tid_of_def)
  then have "card (set (map fst (groups ?q ?k))) \<le> card (set (window_traces (fr_bounds req) db))"
    by (simp add: surj_card_le)
  then show ?thesis using distinct_card [OF groups_distinct, of ?q ?k] distinct_card [of "window_traces (fr_bounds req) db"]
    by (simp add: window_traces_def)
qed

lemma group_present:
  assumes db: "db_ok env db" and h: "h \<in> set (rows_of db i)"
    and c: "list_all (cond_holds env promoted h) (span_conditions (build_trace_query req))"
    and b: "fb_contains (fr_bounds req) (Min (start_of ` set (rows_of db i)))"
  shows "hex_lower i \<in> fst ` set (groups (build_trace_query req) (kept_rows env promoted (build_trace_query req) db))"
proof -
  let ?q = "build_trace_query req"
  let ?k = "kept_rows env promoted ?q db"
  let ?m = "Min (start_of ` set (rows_of db i))"
  have ne: "set (rows_of db i) \<noteq> {}" using h by auto
  then have "?m \<in> start_of ` set (rows_of db i)" by (intro Min_in) auto
  then obtain w where w: "w \<in> set (rows_of db i)" "start_of w = ?m" by auto
  have wi: "w \<in> set db" "tid_of w = hex_lower i" using w(1) by (simp_all add: rows_of_def tid_of_def)
  have hi: "h \<in> set db" "tid_of h = hex_lower i" using h by (simp_all add: rows_of_def tid_of_def)
  have "i64_ok (start_of w)" using db wi(1) by (simp add: db_ok_def list_all_iff)
  then have wk: "w \<in> set ?k" using prefilter_holds [of w env promoted req] b w(2) wi hi c
    unfolding kept_rows_mem by auto
  have sub: "{s \<in> set ?k. tid_of s = hex_lower i} \<subseteq> set (rows_of db i)"
    by (auto simp: kept_rows_mem rows_of_def tid_of_def hex_lower_inject)
  have "Min (start_of ` {s \<in> set ?k. tid_of s = hex_lower i}) = ?m"
  proof (rule Min_eqI)
    show "?m \<in> start_of ` {s \<in> set ?k. tid_of s = hex_lower i}" using wk wi(2) w(2) by force
    show "?m \<le> y" if "y \<in> start_of ` {s \<in> set ?k. tid_of s = hex_lower i}" for y
      using that sub by (auto intro: Min_le)
  qed simp
  moreover have "trace_start_having ?q ?m"
    using b by (auto simp: trace_start_having_def build_query_simps time_range_between_def fb_contains_def)
  ultimately show ?thesis unfolding groups_fst using wk wi(2) by force
qed

lemma api_candidates_complete:
  assumes r: "rank_laws rank" and db: "db_ok env db" and h: "h \<in> set (rows_of db i)"
    and c: "list_all (cond_holds env promoted h) (span_conditions (build_trace_query req))"
    and b: "fb_contains (fr_bounds req) (Min (start_of ` set (rows_of db i)))"
    and few: "length (window_traces (fr_bounds req) db) \<le> fetch_limit (build_trace_query req)"
    and all: "length (api_candidates env rank promoted db req) \<le> fr_max_traces req" "fr_max_traces req < u64_max"
  shows "i \<in> set (api_candidates env rank promoted db req)"
proof -
  let ?q = "build_trace_query req"
  let ?tids = "api_ids env rank promoted db ?q"
  let ?ids = "List.map_filter trace_id_from_hex ?tids"
  let ?g = "group_by (\<lambda>s. hex_lower (sp_trace_id s)) (spans_of_traces env ?ids None db)"
  have len: "length i = 16" using h db by (auto simp: rows_of_def db_ok_def list_all_iff)
  have tids: "set ?tids = fst ` set (groups ?q (kept_rows env promoted ?q db))" "distinct ?tids"
    unfolding api_ids_def
    using rank_all [OF r _ groups_distinct] groups_few [OF db, of req promoted] few by (meson order_trans)+
  have tid: "hex_lower i \<in> set ?tids" unfolding tids(1) by (rule group_present [OF db h c b])
  then have ids: "i \<in> set ?ids" using len by (auto simp: set_map_filter from_hex_lower intro!: bexI)
  have ne: "?tids \<noteq> []" "?ids \<noteq> []" using tid ids by force+
  then have s: "search env rank promoted db ?q = summaries ?q ?g ?tids []" by (simp add: search_eq Let_def)
  have "length (summaries ?q ?g ?tids []) < tq_limit ?q"
    using all s by (simp add: api_candidates_def build_query_simps sat_usize_def)
  then have "search env rank promoted db ?q = List.map_filter (summary_in ?q ?g) ?tids"
    using summaries_all [OF tids(2), of ?q ?g "[]"] s by simp
  moreover have "\<exists>x. summary_in ?q ?g (hex_lower i) = Some x \<and> ts_trace_id x = i"
  proof -
    have "rows_of db i \<noteq> []" using h by auto
    moreover have "trace_start_prefilter ?q = [] \<or> trace_start_matches ?q (Min (start_of ` set (rows_of db i)))"
      using bounds_window_start [OF b] by (simp add: window_start_def Let_def)
    ultimately show ?thesis unfolding summary_in_iff [OF from_hex_ids] using ids by force
  qed
  ultimately have "\<exists>x \<in> set (search env rank promoted db ?q). ts_trace_id x = i"
    using tid by (metis set_map_filter)
  then show ?thesis by (auto simp: api_candidates_def)
qed

lemma stored_spans:
  "stored_trace env db i = Some t \<Longrightarrow> set (tr_spans t) = seen_span env ` set (rows_of db i) \<and> rows_of db i \<noteq> []"
  by (auto simp: stored_trace_def get_trace_Some semantic_trace_def assemble_trace_def Let_def seen_span_def)

lemma match_hit:
  assumes db: "db_ok env db" and t: "stored_trace env db i = Some t" and m: "match_of re e limits t = Some m"
    and n: "necessary e"
  shows "\<exists>s \<in> set (rows_of db i). \<forall>f \<in> set (candidate_filters e). filter_holds (seen_span env s) f"
proof (cases "candidate_filters e = []")
  case True
  then show ?thesis using stored_spans [OF t] by (cases "rows_of db i") auto
next
  case False
  obtain ids where "eval re (tr_spans t) (Some t) e 0 limits = Inr ids" "ids \<noteq> []"
    using m by (auto simp: match_of_def eval_trace_reference_def bind_sem_def to_spanset_def split: sum.splits if_splits)
  moreover have "\<forall>s \<in> set (tr_spans t). scalar_attributes s"
    using stored_spans [OF t] db plain_scalar by (auto simp: db_ok_def list_all_iff rows_of_def)
  ultimately have "hit (tr_spans t) (candidate_filters e)" using eval_hit n False by blast
  then show ?thesis using stored_spans [OF t] by (auto simp: hit_def)
qed

lemma stored_start_ok:
  assumes "db_ok env db" "stored_trace env db i = Some t"
  shows "i64_ok (tr_start_time_ns t)"
proof -
  have "start_of ` set (rows_of db i) \<noteq> {}" using stored_spans [OF assms(2)] by simp
  then have "Min (start_of ` set (rows_of db i)) \<in> start_of ` set (rows_of db i)" by (intro Min_in) auto
  then show ?thesis using assms(1) unfolding stored_trace_start [OF assms(2)]
    by (auto simp: db_ok_def list_all_iff rows_of_def)
qed

lemma match_candidate:
  assumes "rank_laws rank" and db: "db_ok env db" and e: "necessary e" "keys_free (candidate_filters e)"
    and req: "plan_trace_fetch bounds limits e = Inr req"
    and few: "length (window_traces bounds db) \<le> 2 * max_traces limits + 18" "2 * max_traces limits + 18 \<le> u64_max"
    and window: "fb_start_ns bounds \<noteq> i64_min \<or> fb_end_ns bounds \<noteq> i64_max"
    and all: "length (api_candidates env rank promoted db req) \<le> max_traces limits"
    and t: "stored_trace env db i = Some t" "fb_contains bounds (tr_start_time_ns t)" "match_of re e limits t = Some m"
  shows "i \<in> set (api_candidates env rank promoted db req)"
proof -
  have r: "fr_bounds req = bounds" "fr_max_traces req = max_traces limits" "fr_candidate req = candidate_filters e"
    using req by (auto simp: plan_trace_fetch_def bind_sem_Inr fetch_bounds_new_def split: if_splits)
  obtain h where h: "h \<in> set (rows_of db i)" "\<forall>f \<in> set (candidate_filters e). filter_holds (seen_span env h) f"
    using match_hit [OF db t(1,3) e(1)] by blast
  have "plain_row env h" using h(1) db by (auto simp: db_ok_def list_all_iff rows_of_def)
  then have "list_all (cond_holds env promoted h) (span_conditions (build_trace_query req))"
    by (rule filters_conds) (use h(2) e(2) r(3) in simp_all)
  moreover have "fetch_limit (build_trace_query req) = 2 * max_traces limits + 18"
    using window few(2) r by (auto simp: fetch_limit_def trace_start_prefilter_def build_query_simps
        time_range_between_def sat_usize_def)
  ultimately show ?thesis
    using api_candidates_complete [OF assms(1) db h(1)] stored_trace_start [OF t(1)] t(2) few all r by simp
qed

end
