(* ===== verification/Traceql_Structure.thy ===== *)
theory Traceql_Structure
  imports Traceql_Pushdown
begin

text \<open>
  What the structural operators mean: the walk up the parents of a span against the chain it follows,
  each operator against a relation between spans, and that a well-formed expression evaluates without
  an error to identifiers of the trace's spans.
\<close>

subsection \<open>The chain of parents\<close>

fun up :: "sem_span list \<Rightarrow> nat \<Rightarrow> span_id option \<Rightarrow> span_id option" where
  "up spans 0 p = p"
| "up spans (Suc n) p = Option.bind (up spans n p) (parent_of spans)"

lemma up_None_mono: "up spans n p = None \<Longrightarrow> n \<le> m \<Longrightarrow> up spans m p = None"
  by (induction m) (auto simp: le_Suc_eq)

lemma up_shift: "up spans n (Option.bind p (parent_of spans)) = up spans (Suc n) p"
  by (induction n) simp_all

lemma up_periodic: "up spans n p = up spans k p \<Longrightarrow> k < n \<Longrightarrow> \<exists>m' < n. up spans m p = up spans m' p"
proof (induction m)
  case (Suc m)
  then obtain m' where m': "m' < n" "up spans m p = up spans m' p" by blast
  then have s: "up spans (Suc m) p = up spans (Suc m') p" by simp
  show ?case
  proof (cases "Suc m' < n")
    case False
    then have "Suc m' = n" using m'(1) by simp
    then show ?thesis using s Suc.prems by metis
  qed (use s in blast)
next
  case 0
  then show ?case by (intro exI [of _ 0]) simp
qed

definition meets :: "sem_span list \<Rightarrow> span_id option \<Rightarrow> span_id set \<Rightarrow> bool" where
  "meets spans p ancestors \<longleftrightarrow> (\<exists>n i. up spans n p = Some i \<and> i \<in> ancestors)"

definition ends :: "sem_span list \<Rightarrow> span_id option \<Rightarrow> bool" where
  "ends spans p \<longleftrightarrow> (\<exists>n. up spans n p = None)"

lemma ancestor_walk_spec:
  assumes "seen = {i. \<exists>k < n. up spans k p0 = Some i}" "p = up spans n p0"
    "\<And>k i. k < n \<Longrightarrow> up spans k p0 = Some i \<Longrightarrow> i \<notin> ancestors" "\<And>k. k < n \<Longrightarrow> up spans k p0 \<noteq> None"
  shows "ancestor_walk spans ancestors seen p =
    (if meets spans p0 ancestors then Inr True
     else if ends spans p0 then Inr False
     else Inl (Malformed ''cycle in span parent relationships''))"
  using assms
proof (induction spans ancestors seen p arbitrary: n rule: ancestor_walk.induct)
  case (1 spans ancestors seen)
  have "\<not> meets spans p0 ancestors"
  proof
    assume "meets spans p0 ancestors"
    then obtain m i where m: "up spans m p0 = Some i" "i \<in> ancestors" by (auto simp: meets_def)
    then have "m < n" using up_None_mono [of spans n p0 m] 1(2) by (metis leI option.distinct(1))
    then show False using 1(3) m by blast
  qed
  moreover have "ends spans p0" using 1(2) unfolding ends_def by metis
  ultimately show ?case by simp
next
  case (2 spans ancestors seen i)
  show ?case
  proof (cases "i \<in> seen")
    case True
    then obtain k where k: "k < n" "up spans k p0 = up spans n p0" using 2(2,3) by auto
    then have per: "\<exists>m' < n. up spans m p0 = up spans m' p0" for m using up_periodic by metis
    have "\<not> meets spans p0 ancestors" using per 2(4) by (metis meets_def)
    moreover have "\<not> ends spans p0" using per 2(5) by (metis ends_def)
    ultimately show ?thesis using True by (simp add: ancestor_walk.simps(2))
  next
    case False
    show ?thesis
    proof (cases "i \<in> ancestors")
      case True
      then have "meets spans p0 ancestors" using 2(3) by (metis meets_def)
      then show ?thesis using False True by (simp add: ancestor_walk.simps(2))
    next
      case na: False
      have "insert i seen = {j. \<exists>k < Suc n. up spans k p0 = Some j}" using 2(2,3) by (auto simp: less_Suc_eq)
      moreover have "parent_of spans i = up spans (Suc n) p0" using 2(3) by (metis bind.bind_lunit up.simps(2))
      moreover have "j \<notin> ancestors" if "k < Suc n" "up spans k p0 = Some j" for k j
        using that 2(3,4) na by (metis less_antisym option.inject)
      moreover have "up spans k p0 \<noteq> None" if "k < Suc n" for k
        using that 2(3,5) by (metis less_antisym option.distinct(1))
      ultimately show ?thesis using 2(1) [OF False na, of "Suc n"] False na by (simp add: ancestor_walk.simps(2))
    qed
  qed
qed

subsection \<open>The operators as relations\<close>

inductive ancestor_of :: "sem_span list \<Rightarrow> span_id \<Rightarrow> span_id \<Rightarrow> bool" for spans where
  parent: "parent_of spans b = Some a \<Longrightarrow> ancestor_of spans a b"
| above: "parent_of spans b = Some c \<Longrightarrow> ancestor_of spans a c \<Longrightarrow> ancestor_of spans a b"

inductive_cases ancestor_ofE: "ancestor_of spans a b"

lemma ancestor_of_up: "ancestor_of spans a b \<longleftrightarrow> (\<exists>n. up spans n (parent_of spans b) = Some a)"
proof
  show "\<exists>n. up spans n (parent_of spans b) = Some a" if "ancestor_of spans a b"
    using that
  proof induction
    case (parent b a)
    then show ?case by (metis up.simps(1))
  next
    case (above b c a)
    then obtain n where "up spans n (parent_of spans c) = Some a" by blast
    then have "up spans (Suc n) (parent_of spans b) = Some a"
      using up_shift [of spans n "parent_of spans b"] above(1) by simp
    then show ?case by blast
  qed
  show "ancestor_of spans a b" if "\<exists>n. up spans n (parent_of spans b) = Some a"
  proof -
    from that obtain n where "up spans n (parent_of spans b) = Some a" by blast
    then show ?thesis
    proof (induction n arbitrary: b)
      case 0
      then show ?case by (simp add: ancestor_of.parent)
    next
      case (Suc n)
      then obtain c where c: "parent_of spans b = Some c"
        by (cases "parent_of spans b") (use up_None_mono [of spans 0 None] in fastforce)+
      then have "up spans n (parent_of spans c) = Some a"
        using Suc.prems up_shift [of spans n "parent_of spans b"] by simp
      then show ?case using Suc.IH c ancestor_of.above by blast
    qed
  qed
qed

text \<open>How a selected left span relates to a right one; the negated operators ask that none does.\<close>

definition related :: "sem_span list \<Rightarrow> structural_op \<Rightarrow> span_id \<Rightarrow> span_id \<Rightarrow> bool" where
  "related spans op l r =
     (case op of
        SChild \<Rightarrow> parent_of spans r = Some l
      | SParent \<Rightarrow> parent_of spans l = Some r
      | SDescendant \<Rightarrow> ancestor_of spans l r
      | SAncestor \<Rightarrow> ancestor_of spans r l
      | SSibling \<Rightarrow> l \<noteq> r \<and> parent_of spans l \<noteq> None \<and> parent_of spans l = parent_of spans r
      | _ \<Rightarrow> False)"

text \<open>No chain of parents is as long as the trace has spans: there is no cycle.\<close>

definition acyclic_spans :: "sem_span list \<Rightarrow> bool" where
  "acyclic_spans spans \<longleftrightarrow> list_all (\<lambda>s. up spans (length spans) (ss_parent_span_id s) = None) spans"

lemma by_id_mem: "by_id spans i = Some s \<Longrightarrow> s \<in> set spans \<and> ss_span_id s = i"
  by (auto simp: by_id_def dest!: map_of_SomeD)

lemma by_id_Some: "i \<in> ss_span_id ` set spans \<Longrightarrow> \<exists>s. by_id spans i = Some s"
  unfolding by_id_def by (rule option.exhaust [of "map_of (rev (map (\<lambda>s. (ss_span_id s, s)) spans)) i"])
    (auto simp: map_of_eq_None_iff image_image)

lemma has_ancestor_acyclic:
  assumes "acyclic_spans spans" "by_id spans i = Some s"
  shows "has_ancestor spans s A = Inr (\<exists>a \<in> A. ancestor_of spans a i)"
proof -
  have "ends spans (ss_parent_span_id s)"
    using assms by_id_mem [OF assms(2)] by (auto simp: acyclic_spans_def list_all_iff ends_def)
  moreover have "has_ancestor spans s A =
      (if meets spans (ss_parent_span_id s) A then Inr True
       else if ends spans (ss_parent_span_id s) then Inr False
       else Inl (Malformed ''cycle in span parent relationships''))"
    unfolding has_ancestor_def by (rule ancestor_walk_spec [where n = 0]) simp_all
  moreover have "parent_of spans i = ss_parent_span_id s" using assms(2) by (simp add: parent_of_def)
  ultimately show ?thesis by (auto simp: meets_def ancestor_of_up)
qed

lemma no_span_no_parent: "by_id spans i = None \<Longrightarrow> parent_of spans i = None"
  by (simp add: parent_of_def)

lemma ancestor_loop_acyclic:
  assumes "acyclic_spans spans"
  shows "ancestor_loop spans r ls = Inr (\<exists>l \<in> set ls. ancestor_of spans r l)"
proof (induction ls)
  case (Cons l ls)
  show ?case
  proof (cases "by_id spans l")
    case None
    then have "\<not> ancestor_of spans r l" using no_span_no_parent by (auto elim: ancestor_ofE)
    then show ?thesis using Cons None by simp
  next
    case (Some s)
    then show ?thesis using Cons has_ancestor_acyclic [OF assms Some, of "{r}"] by (auto split: bool.split)
  qed
qed simp

lemma structural_match_related:
  assumes "acyclic_spans spans" "by_id spans r = Some c" "snd (normal_op op) = False"
  shows "structural_match spans left op r c = Inr (\<exists>l \<in> set left. related spans op l r)"
proof -
  have p: "parent_of spans r = ss_parent_span_id c" using assms(2) by (simp add: parent_of_def)
  show ?thesis
    using assms(3) has_ancestor_acyclic [OF assms(1,2)] ancestor_loop_acyclic [OF assms(1)] p
    by (cases op) (auto simp: structural_match_def related_def normal_op_def list_ex_iff split: option.split)
qed

lemma normal_op_idem: "snd (normal_op (fst (normal_op op))) = False"
  by (cases op) (simp_all add: normal_op_def)

lemma structural_loop_related:
  assumes "acyclic_spans spans" "snd (normal_op op) = False" "set right \<subseteq> ss_span_id ` set spans"
  shows "structural_loop spans left op negated right =
    Inr (filter (\<lambda>r. (\<exists>l \<in> set left. related spans op l r) \<noteq> negated) right)"
  using assms(3)
proof (induction right)
  case (Cons r rs)
  then obtain c where "by_id spans r = Some c" using by_id_Some [of r spans] by auto
  then show ?case using Cons structural_match_related [OF assms(1) _ assms(2)] by simp
qed simp

subsection \<open>Well-formed expressions\<close>

text \<open>Whether a pattern compiles does not depend on the text it is matched with.\<close>

definition regex_laws :: "regex \<Rightarrow> bool" where
  "regex_laws re \<longleftrightarrow> (\<forall>p a. re p a = None \<longleftrightarrow> re p [] = None)"

definition literal_ok :: "regex \<Rightarrow> compare_op \<Rightarrow> sem_value \<Rightarrow> bool" where
  "literal_ok re op v =
     (if op = CRegex \<or> op = CNotRegex
      then (case v of SString p \<Rightarrow> re (''^(?:'' @ p @ '')$'') [] \<noteq> None | _ \<Rightarrow> True)
      else True)"

fun predicate_ok :: "regex \<Rightarrow> span_predicate \<Rightarrow> bool" where
  "predicate_ok re (PAnd ps) = list_all (predicate_ok re) ps"
| "predicate_ok re (PIntrinsic i op v) = literal_ok re op v"
| "predicate_ok re (PAttribute sc key op v) = literal_ok re op v"
| "predicate_ok re _ = True"

fun expr_ok :: "regex \<Rightarrow> spanset_expr \<Rightarrow> bool" where
  "expr_ok re (ESelect p) = predicate_ok re p"
| "expr_ok re (EAnd l r) = (expr_ok re l \<and> expr_ok re r)"
| "expr_ok re (EOr l r) = (expr_ok re l \<and> expr_ok re r)"
| "expr_ok re (EStructural l op r u) = (expr_ok re l \<and> expr_ok re r)"
| "expr_ok re (ECountAtLeast e n) = expr_ok re e"
| "expr_ok re (ECount e op n) = (op \<noteq> CRegex \<and> op \<noteq> CNotRegex \<and> int n \<le> i64_max \<and> expr_ok re e)"

fun expr_depth :: "spanset_expr \<Rightarrow> nat" where
  "expr_depth (ESelect p) = 1"
| "expr_depth (EAnd l r) = Suc (max (expr_depth l) (expr_depth r))"
| "expr_depth (EOr l r) = Suc (max (expr_depth l) (expr_depth r))"
| "expr_depth (EStructural l op r u) = Suc (max (expr_depth l) (expr_depth r))"
| "expr_depth (ECountAtLeast e n) = Suc (expr_depth e)"
| "expr_depth (ECount e op n) = Suc (expr_depth e)"

lemma compare_scalar_ok:
  assumes "regex_laws re" "literal_ok re op v"
  shows "\<exists>b. compare_scalar re a op v = Inr b"
proof (cases "op = CRegex \<or> op = CNotRegex")
  case True
  have "re (''^(?:'' @ p @ '')$'') x \<noteq> None" if "v = SString p" for p x
  proof -
    have "re (''^(?:'' @ p @ '')$'') [] \<noteq> None" using assms(2) True that by (simp add: literal_ok_def)
    then show ?thesis using assms(1) unfolding regex_laws_def by metis
  qed
  then have c: "\<exists>b. re (''^(?:'' @ p @ '')$'') x = Some b" if "v = SString p" for p x using that by simp
  show ?thesis
  proof (cases "\<exists>x p. a = Some (SString x) \<and> v = SString p")
    case s: True
    then obtain x p b where "a = Some (SString x)" "v = SString p" "re (''^(?:'' @ p @ '')$'') x = Some b" using c by metis
    then show ?thesis using True by (auto simp: compare_scalar_def)
  next
    case False
    then have "compare_scalar re a op v = Inr False"
      using True by (auto simp: compare_scalar_def split: option.split sem_value.split)
    then show ?thesis by blast
  qed
qed (auto simp: compare_scalar_def)

lemma element_literal: "literal_ok re op v \<Longrightarrow> literal_ok re (fst (element_op op)) v"
  by (cases op) (simp_all add: literal_ok_def element_op_def)

lemma compare_some_ok:
  "regex_laws re \<Longrightarrow> literal_ok re op e \<Longrightarrow> \<exists>b. compare_some re v op e = Inr b"
  "regex_laws re \<Longrightarrow> literal_ok re op e \<Longrightarrow> \<exists>b. compare_any re vs op e = Inr b"
proof (induction re v op e and re vs op e rule: compare_some_compare_any.induct)
  case (1 re vs op e)
  then show ?case using element_literal by fastforce
qed (auto simp: compare_scalar_ok split: bool.split)

lemma compare_value_ok:
  "regex_laws re \<Longrightarrow> literal_ok re op e \<Longrightarrow> \<exists>b. compare_value re v op e = Inr b"
  using compare_some_ok(1) compare_scalar_ok by (cases v) (auto simp: compare_value_def)

lemma literal_plain: "op \<noteq> CRegex \<Longrightarrow> op \<noteq> CNotRegex \<Longrightarrow> literal_ok re op v"
  "literal_ok re op (SInteger i)" "literal_ok re op (SDurationNs n)"
  by (simp_all add: literal_ok_def)

lemma any_item_ok:
  "regex_laws re \<Longrightarrow> literal_ok re op e \<Longrightarrow> \<exists>b. any_item re its key op e m = Inr b"
proof (induction its arbitrary: m)
  case (Cons it its)
  then show ?case using compare_value_ok [of re op e "it key"] by auto
qed simp

lemma predicate_evaluates:
  "regex_laws re \<Longrightarrow> int (length spans) \<le> i64_max \<Longrightarrow> trace \<noteq> None \<Longrightarrow> predicate_ok re p \<Longrightarrow>
   \<exists>b. predicate_matches re s trace spans p = Inr b"
  "regex_laws re \<Longrightarrow> int (length spans) \<le> i64_max \<Longrightarrow> trace \<noteq> None \<Longrightarrow> list_all (predicate_ok re) ps \<Longrightarrow>
   \<exists>b. predicates_match re s trace spans ps = Inr b"
proof (induction re s trace spans p and re s trace spans ps rule: predicate_matches_predicates_match.induct)
  case (7 re s trace spans i op v)
  have "int (length (filter f spans)) \<le> i64_max" for f
    using 7(2) length_filter_le [of f spans] by linarith
  then have "\<exists>a. intrinsic_value i s trace spans = Inr a"
    using 7(3) by (cases i) (auto simp: intrinsic_value_def i64_try_def need_trace_def)
  then show ?case using compare_value_ok 7 by fastforce
next
  case (10 re s trace spans sc key op v)
  then show ?case using compare_value_ok any_item_ok by (cases sc) (auto simp: attribute_matches_def)
qed (auto simp: compare_value_ok literal_plain split: bool.split)

lemma select_evaluates:
  "regex_laws re \<Longrightarrow> int (length spans) \<le> i64_max \<Longrightarrow> trace \<noteq> None \<Longrightarrow> predicate_ok re p \<Longrightarrow>
   \<exists>out. select_loop re spans trace p ss = Inr out \<and> set out \<subseteq> ss_span_id ` set ss"
proof (induction ss)
  case (Cons s ss)
  then obtain b out where "predicate_matches re s trace spans p = Inr b"
      "select_loop re spans trace p ss = Inr out" "set out \<subseteq> ss_span_id ` set ss"
    using predicate_evaluates(1) by metis
  then show ?case by auto
qed simp

definition id_set :: "sem_span list \<Rightarrow> span_id list \<Rightarrow> bool" where
  "id_set spans ids \<longleftrightarrow> set ids \<subseteq> ss_span_id ` set spans \<and> sorted ids \<and> distinct ids"

lemma id_set_simps [simp]:
  "id_set spans []" "id_set spans (bset ids) \<longleftrightarrow> set ids \<subseteq> ss_span_id ` set spans"
  "id_set spans (bunion xs ys) \<longleftrightarrow> set xs \<subseteq> ss_span_id ` set spans \<and> set ys \<subseteq> ss_span_id ` set spans"
  by (auto simp: id_set_def bunion_def)

lemma id_set_filter: "id_set spans ids \<Longrightarrow> id_set spans (filter f ids)"
  by (auto simp: id_set_def sorted_wrt_filter)

lemma id_set_subset: "id_set spans ids \<Longrightarrow> set ids \<subseteq> ss_span_id ` set spans"
  by (simp add: id_set_def)

lemma id_set_length: "id_set spans ids \<Longrightarrow> length ids \<le> length spans"
  unfolding id_set_def by (metis card_image_le card_length card_mono distinct_card finite_imageI finite_set order_trans)

lemma structural_acyclic:
  assumes "acyclic_spans spans" "set right \<subseteq> ss_span_id ` set spans"
  shows "structural spans left right op =
    Inr (filter (\<lambda>r. (\<exists>l \<in> set left. related spans (fst (normal_op op)) l r) \<noteq> snd (normal_op op)) right)"
  unfolding structural_def by (rule structural_loop_related [OF assms(1) normal_op_idem assms(2)])

lemma eval_typed:
  assumes "regex_laws re" "int (length spans) \<le> i64_max" "acyclic_spans spans"
  shows "expr_ok re e \<Longrightarrow> d + expr_depth e \<le> max_recursion limits \<Longrightarrow>
    \<exists>ids. eval re spans (Some t) e d limits = Inr ids \<and> id_set spans ids"
proof (induction e arbitrary: d)
  case (ESelect p)
  then show ?case using select_evaluates [OF assms(1,2), of "Some t" p spans] by auto
next
  case (EAnd l r)
  have b: "(d + 1) + expr_depth l \<le> max_recursion limits" "(d + 1) + expr_depth r \<le> max_recursion limits"
    using EAnd.prems(2) by simp_all
  obtain ls rs where "eval re spans (Some t) l (d + 1) limits = Inr ls" "id_set spans ls"
      "eval re spans (Some t) r (d + 1) limits = Inr rs" "id_set spans rs"
    using EAnd.IH(1) [OF _ b(1)] EAnd.IH(2) [OF _ b(2)] EAnd.prems(1) by auto
  then show ?case using EAnd.prems id_set_subset by auto
next
  case (EOr l r)
  have b: "(d + 1) + expr_depth l \<le> max_recursion limits" "(d + 1) + expr_depth r \<le> max_recursion limits"
    using EOr.prems(2) by simp_all
  obtain ls rs where "eval re spans (Some t) l (d + 1) limits = Inr ls" "id_set spans ls"
      "eval re spans (Some t) r (d + 1) limits = Inr rs" "id_set spans rs"
    using EOr.IH(1) [OF _ b(1)] EOr.IH(2) [OF _ b(2)] EOr.prems(1) by auto
  then show ?case using EOr.prems id_set_subset by auto
next
  case (EStructural l op r u)
  have b: "(d + 1) + expr_depth l \<le> max_recursion limits" "(d + 1) + expr_depth r \<le> max_recursion limits"
    using EStructural.prems(2) by simp_all
  obtain ls rs where e: "eval re spans (Some t) l (d + 1) limits = Inr ls" "id_set spans ls"
      "eval re spans (Some t) r (d + 1) limits = Inr rs" "id_set spans rs"
    using EStructural.IH(1) [OF _ b(1)] EStructural.IH(2) [OF _ b(2)] EStructural.prems(1) by auto
  note s = structural_acyclic [OF assms(3) id_set_subset [OF e(4)], of ls op]
  have f: "id_set spans (filter f rs)" for f using e(4) by (rule id_set_filter)
  then have "set (filter f rs) \<subseteq> ss_span_id ` set spans" for f using id_set_subset by blast
  then show ?case using EStructural.prems e s f id_set_subset [OF e(2)] by simp
next
  case (ECountAtLeast e n)
  have b: "(d + 1) + expr_depth e \<le> max_recursion limits" using ECountAtLeast.prems(2) by simp
  obtain ids where "eval re spans (Some t) e (d + 1) limits = Inr ids" "id_set spans ids"
    using ECountAtLeast.IH [OF _ b] ECountAtLeast.prems(1) by auto
  then show ?case using ECountAtLeast.prems by auto
next
  case (ECount e op n)
  have b: "(d + 1) + expr_depth e \<le> max_recursion limits" using ECount.prems(2) by simp
  obtain ids where e: "eval re spans (Some t) e (d + 1) limits = Inr ids" "id_set spans ids"
    using ECount.IH [OF _ b] ECount.prems(1) by auto
  have "int (length ids) \<le> i64_max" using id_set_length [OF e(2)] assms(2) by linarith
  moreover obtain b where "compare_value re (Some (SInteger (int (length ids)))) op (SInteger (int n)) = Inr b"
    using compare_value_ok [OF assms(1) literal_plain(2)] by blast
  ultimately have "count_matches re (length ids) op n = Inr b" using ECount.prems
    by (simp add: count_matches_def i64_try_def)
  then show ?case using ECount.prems e by auto
qed

end
