(* ===== verification/Traceql_Properties.thy ===== *)
theory Traceql_Properties
  imports Traceql_Complete Traceql_Structure
begin

text \<open>
  The properties of TraceQL: a search that pushes a filter down answers as the evaluator does on every
  stored trace, and what it takes for that; the walk up a span's parents always returns; the structural
  operators are relations; a well-formed expression evaluates. With a concrete store for the witnesses.
\<close>

subsection \<open>A small store\<close>

definition tq_json :: "string \<Rightarrow> any_value option" where
  "tq_json s = (if s = ''a'' then Some (VMap [(''k'', VInt 5)]) else Some (VMap []))"

definition tq_env :: text_env where
  "tq_env = \<lparr>te_json = tq_json, te_regex = (\<lambda>p a. Some True), te_regexp_like = (\<lambda>a p. True),
     te_try_cast = (\<lambda>s. None), te_parse_f64 = (\<lambda>s. None), te_alnum = (\<lambda>c. True), te_lower = (\<lambda>c. [c])\<rparr>"

definition tq_id :: "nat \<Rightarrow> byte \<Rightarrow> bytes" where
  "tq_id n b = replicate n b"

definition tq_row :: "byte \<Rightarrow> byte \<Rightarrow> byte option \<Rightarrow> string \<Rightarrow> int \<Rightarrow> string \<Rightarrow> stored_span" where
  "tq_row t s p name start attrs =
     \<lparr>st_row = \<lparr>sr_trace_id = tq_id 16 t, sr_span_id = tq_id 8 s, sr_parent_span_id = map_option (tq_id 8) p,
        sr_name = name, sr_kind = ''SERVER'', sr_start_time_unix_nano = start, sr_duration_ns = 10,
        sr_status_code = ''OK'', sr_status_message = None, sr_service = None, sr_attributes = attrs,
        sr_resource = ''{}'', sr_scope = ''{}'', sr_events = None, sr_links = None, sr_trace_state = None,
        sr_flags = 0\<rparr>, st_promote = []\<rparr>"

text \<open>Trace 1: a root \<open>a\<close> with a child \<open>b\<close> that has \<open>k = 5\<close>. Trace 2: a single span \<open>b\<close>.\<close>

definition tq_db :: "stored_span list" where
  "tq_db = [tq_row 1 1 None ''a'' 100 ''{}'', tq_row 1 2 (Some 1) ''b'' 110 ''a'', tq_row 2 3 None ''b'' 120 ''{}'']"

definition tq_bounds :: fetch_bounds where
  "tq_bounds = \<lparr>fb_start_ns = 50, fb_end_ns = 200\<rparr>"

definition tq_expr :: spanset_expr where
  "tq_expr = EStructural (ESelect (PNameEq ''a'')) SChild (ESelect (PAttribute ScopeSpan ''k'' CGe (SInteger 3))) False"

definition tq_limits :: eval_limits where
  "tq_limits = \<lparr>max_evaluation_points = 1, max_series = 1, max_samples = 1, max_spans = 9, max_traces = 4, max_recursion = 5\<rparr>"

definition tq_execute :: "spanset_expr \<Rightarrow> semantic_error + trace_match list" where
  "tq_execute e = execute_traceql (traces_api tq_env rank_stable [] tq_db) (te_regex tq_env) e tq_bounds tq_limits"

definition tq_match :: trace_match where
  "tq_match = \<lparr>tm_trace_id = ''01010101010101010101010101010101'', tm_start_time_ns = 100,
     tm_spanset = [''0202020202020202'']\<rparr>"

subsection \<open>The example runs, step by step\<close>

text \<open>A bound of the machine compared as a binary integer when a run is evaluated.\<close>

lemma sat_usize_code [code]: "sat_usize n = (if int n \<le> 18446744073709551615 then n else u64_max)"
  by (simp add: sat_usize_def u64_max_def)

definition tq_req :: "span_filter list \<Rightarrow> fetch_request" where
  "tq_req fs = \<lparr>fr_bounds = tq_bounds, fr_max_traces = 4, fr_max_spans = 9, fr_candidate = fs\<rparr>"

definition tq_q :: trace_query where
  "tq_q = build_trace_query (tq_req [FName ''a''])"

definition tq_found :: "stored_span list" where
  "tq_found = [tq_row 1 1 None ''a'' 100 ''{}'', tq_row 1 2 (Some 1) ''b'' 110 ''a'']"

definition tq_tids :: "string list" where
  "tq_tids = [''01010101010101010101010101010101'']"

definition tq_trace :: sem_trace where
  "tq_trace = hd (api_traces tq_env tq_db [tq_id 16 1] 50)"

lemma tq_search_steps:
  "kept_rows tq_env [] tq_q tq_db = tq_found"
  "groups tq_q tq_found = [(hd tq_tids, 110)]"
  "rank_stable [(hd tq_tids, 110)] (fetch_limit tq_q) = tq_tids"
  "List.map_filter trace_id_from_hex tq_tids = [tq_id 16 1]"
  by code_simp+

lemma tq_summaries:
  "map ts_trace_id (summaries tq_q
     (group_by (\<lambda>s. hex_lower (sp_trace_id s)) (spans_of_traces tq_env [tq_id 16 1] None tq_db)) tq_tids []) = [tq_id 16 1]"
  by code_simp

lemma tq_candidates: "api_candidates tq_env rank_stable [] tq_db (tq_req [FName ''a'']) = [tq_id 16 1]"
  using tq_summaries
  by (simp add: api_candidates_def search_def tq_search_steps flip: tq_q_def) (simp add: tq_tids_def)

lemma tq_traces: "api_traces tq_env tq_db [tq_id 16 1] 50 = [tq_trace]"
proof -
  have "length (api_traces tq_env tq_db [tq_id 16 1] 50) = 1" by code_simp
  then show ?thesis by (cases "api_traces tq_env tq_db [tq_id 16 1] 50") (simp_all add: tq_trace_def)
qed

lemma tq_trace_facts:
  "length (tr_spans tq_trace) = 2" "hex_lower (tr_trace_id tq_trace) = hd tq_tids" "tr_start_time_ns tq_trace = 100"
  "eval_trace_reference (te_regex tq_env) tq_trace tq_expr tq_limits = Inr (Some [''0202020202020202''])"
  by code_simp+

lemma tq_chunks: "chunks TRACE_FETCH_CHUNK [i] = [[i]]"
  by (simp add: chunks.simps TRACE_FETCH_CHUNK_def)

lemma tq_plan:
  "plan_trace_fetch tq_bounds tq_limits e = Inr (tq_req (candidate_filters e))"
  by (simp add: plan_trace_fetch_def fetch_bounds_new_def tq_bounds_def tq_limits_def tq_req_def)


text \<open>Two expressions whose filter is not necessary: the left operand of a negated operator, and the
  right operand when the union keeps the left one's matches.\<close>

definition tq_negated :: spanset_expr where
  "tq_negated = EStructural (ESelect (PNameEq ''a'')) SNotDescendant (ESelect (PNameEq ''b'')) False"

definition tq_union :: spanset_expr where
  "tq_union = EStructural (ESelect (PIntrinsic SpanName CNe (SString ''c''))) SChild (ESelect (PNameEq ''a'')) True"

definition tq_single :: sem_trace where
  "tq_single = the (stored_trace tq_env tq_db (tq_id 16 2))"

lemma tq_lost_runs:
  "eval_trace_reference (te_regex tq_env) tq_trace tq_negated tq_limits = Inr None"
  "eval_trace_reference (te_regex tq_env) tq_trace tq_union tq_limits = Inr (Some [''0101010101010101'', ''0202020202020202''])"
  "eval_trace_reference (te_regex tq_env) tq_single tq_negated tq_limits = Inr (Some [''0303030303030303''])"
  "eval_trace_reference (te_regex tq_env) tq_single tq_union tq_limits = Inr (Some [''0303030303030303''])"
  by code_simp+

lemma tq_execute_pushed:
  assumes "candidate_filters e = [FName ''a'']" "eval_trace_reference (te_regex tq_env) tq_trace e tq_limits = Inr r"
  shows "tq_execute e = Inr (case r of None \<Rightarrow> [] | Some ids \<Rightarrow> [tq_match\<lparr>tm_spanset := ids\<rparr>])"
proof -
  have "fb_start_ns (fr_bounds (tq_req fs)) = 50" "fr_max_traces (tq_req fs) = 4" "fr_max_spans (tq_req fs) = 9" for fs
    by (simp_all add: tq_req_def tq_bounds_def)
  then show ?thesis using tq_trace_facts(1-3)
    by (simp add: tq_execute_def execute_traceql_def tq_plan assms traces_api_def tq_candidates tq_chunks tq_traces
        checked_add_usize_def u64_max_def tq_match_def tq_tids_def split: option.split)
qed

lemma tq_stored_single: "stored_trace tq_env tq_db (tq_id 16 2) = Some tq_single"
proof -
  have "stored_trace tq_env tq_db (tq_id 16 2) \<noteq> None" by code_simp
  then show ?thesis by (auto simp: tq_single_def)
qed

lemma tq_store_ok: "db_ok tq_env tq_db" "length (window_traces tq_bounds tq_db) = 2" "tr_start_time_ns tq_single = 120"
  by code_simp+

subsection \<open>The properties\<close>



text \<open>C8. The filter is not always necessary: for a negated structural operator, and
  for one that keeps the left operand's matches, a search does not return the trace of a single span
  that the evaluator selects, because the pushed filter asks for a span of the other operand.\<close>

theorem traceql_pushdown_loses:
  "tq_execute tq_negated = Inr [] \<and>
   tq_execute tq_union = Inr [tq_match\<lparr>tm_spanset := [''0101010101010101'', ''0202020202020202'']\<rparr>] \<and>
   stored_trace tq_env tq_db (tq_id 16 2) = Some tq_single \<and> fb_contains tq_bounds (tr_start_time_ns tq_single) \<and>
   eval_trace_reference (te_regex tq_env) tq_single tq_negated tq_limits = Inr (Some [''0303030303030303'']) \<and>
   eval_trace_reference (te_regex tq_env) tq_single tq_union tq_limits = Inr (Some [''0303030303030303''])"
proof (intro conjI)
  show "tq_execute tq_negated = Inr []"
    using tq_execute_pushed [OF _ tq_lost_runs(1)] by (simp add: tq_negated_def)
  show "tq_execute tq_union = Inr [tq_match\<lparr>tm_spanset := [''0101010101010101'', ''0202020202020202'']\<rparr>]"
    using tq_execute_pushed [OF _ tq_lost_runs(2)] by (simp add: tq_union_def)
qed (simp_all add: tq_lost_runs tq_stored_single tq_store_ok(3) fb_contains_def tq_bounds_def)

text \<open>C7. The walk up the parents of a span returns on every trace, also one whose
  parents run in a cycle or lead out of the trace: it finds an ancestor exactly when the chain of
  parents meets the set, answers no when the chain ends without, and reports a cycle otherwise.\<close>

theorem traceql_ancestor_walk:
  "has_ancestor spans s ancestors =
    (if \<exists>n i. up spans n (ss_parent_span_id s) = Some i \<and> i \<in> ancestors then Inr True
     else if \<exists>n. up spans n (ss_parent_span_id s) = None then Inr False
     else Inl (Malformed ''cycle in span parent relationships''))"
  unfolding has_ancestor_def meets_def [symmetric] ends_def [symmetric]
  by (rule ancestor_walk_spec [where n = 0]) simp_all

text \<open>C5. On a trace without a cycle each structural operator keeps the right
  spans that stand in its relation to some left span: child, parent, descendant, ancestor or sibling;
  a negated operator keeps those that stand in it to none.\<close>

theorem traceql_structural_relations:
  assumes "acyclic_spans spans" "set right \<subseteq> ss_span_id ` set spans"
  shows "structural spans left right op =
    Inr (filter (\<lambda>r. (\<exists>l \<in> set left. related spans (fst (normal_op op)) l r) \<noteq> snd (normal_op op)) right)"
  by (rule structural_acyclic [OF assms])

theorem traceql_structural_relations_witness:
  "structural (tr_spans tq_trace) [tq_id 8 1] [tq_id 8 1, tq_id 8 2] SDescendant = Inr [tq_id 8 2] \<and>
   structural (tr_spans tq_trace) [tq_id 8 1] [tq_id 8 1, tq_id 8 2] SDescendant =
     Inr (filter (\<lambda>r. (\<exists>l \<in> set [tq_id 8 1]. related (tr_spans tq_trace) (fst (normal_op SDescendant)) l r)
        \<noteq> snd (normal_op SDescendant)) [tq_id 8 1, tq_id 8 2])"
proof (intro conjI traceql_structural_relations)
  show "structural (tr_spans tq_trace) [tq_id 8 1] [tq_id 8 1, tq_id 8 2] SDescendant = Inr [tq_id 8 2]" by code_simp
  show "acyclic_spans (tr_spans tq_trace)" by code_simp
  show "set [tq_id 8 1, tq_id 8 2] \<subseteq> ss_span_id ` set (tr_spans tq_trace)" by code_simp
qed

text \<open>C6. An expression whose patterns compile, whose counts compare without a
  pattern and whose depth is within the limit evaluates without an error on every complete trace
  without a cycle, to a sorted list of identifiers of the trace's spans, none twice.\<close>

theorem traceql_well_formed:
  assumes "regex_laws re" "int (length spans) \<le> i64_max" "acyclic_spans spans" "expr_ok re e"
    "expr_depth e \<le> max_recursion limits"
  shows "\<exists>ids. eval re spans (Some t) e 0 limits = Inr ids \<and> set ids \<subseteq> ss_span_id ` set spans \<and>
    sorted ids \<and> distinct ids"
  using eval_typed [OF assms(1-4), of 0 limits t] assms(5) by (simp add: id_set_def)

theorem traceql_well_formed_witness:
  "\<exists>ids. eval (te_regex tq_env) (tr_spans tq_trace) (Some tq_trace) tq_expr 0 tq_limits = Inr ids \<and>
    set ids \<subseteq> ss_span_id ` set (tr_spans tq_trace) \<and> sorted ids \<and> distinct ids"
proof (rule traceql_well_formed)
  show "regex_laws (te_regex tq_env)" by (simp add: regex_laws_def tq_env_def)
  show "int (length (tr_spans tq_trace)) \<le> i64_max" by (simp add: tq_trace_facts i64_max_def)
  show "acyclic_spans (tr_spans tq_trace)" "expr_ok (te_regex tq_env) tq_expr" by code_simp+
  show "expr_depth tq_expr \<le> max_recursion tq_limits" by code_simp
qed

end
