(* ===== verification/Spec2Isabelle.thy ===== *)
theory Spec2Isabelle
  imports Wal_Properties Manifest_Properties Config_Properties Pending_Properties Dedup_Properties
    Ingest_Queue_Properties Storage_Properties Storage_Promote Arrow_Properties
    Maintenance_Properties Traceql_Properties
begin

text \<open>
  A verification development of imbh, an embeddable observability database: it ingests logs, traces
  and metrics, writes them to a write-ahead log, buffers and seals them into immutable segments
  listed by a manifest, and answers queries over buffer and segments.

  Plan, in order: the write-ahead log (\<open>Wal\<close> and the theories that follow it), the manifest, the
  configuration and pending-retention codecs, the storage engine, the deduplication window and the
  ingest queue, the flush policy, and the query languages.
\<close>

end
